(* ===== verification/Prelude.thy ===== *)
theory Prelude
  imports Main "HOL-Library.Word" "HOL-Library.Multiset"
begin

text \<open>
  Shared vocabulary of the development: the named theorem collections, the arithmetic of Go's
  fixed-width signed counters, results of fallible functions, and generic list lemmas.

  A Go function returning \<open>(T, error)\<close> is modelled by \<open>'e + T\<close>: \<open>Inl\<close> for the error,
  \<open>Inr\<close> for the value. Counters (versions, fragment identifiers, row counts) are \<open>int\<close> with
  the wrap-around of their Go type written out by \<open>wrap32\<close> and \<open>wrap64\<close>.
\<close>

named_theorems codec_simps "equations of encoders and decoders"
named_theorems store_simps "equations of the storage model on fault-free runs"
named_theorems inv_intros "preservation of representation invariants"

type_synonym byte = "8 word"

section \<open>Go's signed integers\<close>

definition wrap32 :: "int \<Rightarrow> int" where
  "wrap32 x = signed_take_bit 31 x"

definition wrap64 :: "int \<Rightarrow> int" where
  "wrap64 x = signed_take_bit 63 x"

definition fits32 :: "int \<Rightarrow> bool" where
  "fits32 x \<longleftrightarrow> - (2 ^ 31) \<le> x \<and> x < 2 ^ 31"

definition fits64 :: "int \<Rightarrow> bool" where
  "fits64 x \<longleftrightarrow> - (2 ^ 63) \<le> x \<and> x < 2 ^ 63"

lemma wrap32_fits [simp]: "fits32 x \<Longrightarrow> wrap32 x = x"
  unfolding wrap32_def fits32_def by (rule signed_take_bit_int_eq_self) simp_all

lemma wrap64_fits [simp]: "fits64 x \<Longrightarrow> wrap64 x = x"
  unfolding wrap64_def fits64_def by (rule signed_take_bit_int_eq_self) simp_all

lemma fits32_wrap32 [simp]: "fits32 (wrap32 x)"
  using signed_take_bit_int_greater_eq_minus_exp [of 31 x] signed_take_bit_int_less_exp [of 31 x]
  by (simp add: wrap32_def fits32_def)

lemma fits64_wrap64 [simp]: "fits64 (wrap64 x)"
  using signed_take_bit_int_greater_eq_minus_exp [of 63 x] signed_take_bit_int_less_exp [of 63 x]
  by (simp add: wrap64_def fits64_def)

section \<open>Words read as signed numbers\<close>

lemma sint32_of_nat:
  assumes "n < 2 ^ 31"
  shows "sint (word_of_nat n :: 32 word) = int n"
proof -
  have "sint (word_of_nat n :: 32 word) = signed_take_bit 31 (uint (word_of_nat n :: 32 word))"
    by (simp add: sint_uint)
  also have "uint (word_of_nat n :: 32 word) = int n"
    using assms by (simp add: uint_nat unat_of_nat)
  also have "signed_take_bit 31 (int n) = int n"
    using assms by (intro signed_take_bit_int_eq_self) auto
  finally show ?thesis .
qed

lemma unat_lt2p: "unat (w :: 'a::len word) < 2 ^ LENGTH('a)"
  by (fact unsigned_less)

section \<open>Lists\<close>

lemma take_append_exact [simp]: "length xs = n \<Longrightarrow> take n (xs @ ys) = xs"
  by simp

lemma drop_append_exact [simp]: "length xs = n \<Longrightarrow> drop n (xs @ ys) = ys"
  by simp

lemma sum_list_length_le: "x \<in> set xs \<Longrightarrow> f x \<le> sum_list (map f xs)" for f :: "'a \<Rightarrow> nat"
  by (induction xs) auto

lemma sorted_le_last: "sorted xs \<Longrightarrow> x \<in> set xs \<Longrightarrow> x \<le> last xs"
  by (induction xs) auto

lemma last_sorted_list_of_set: "finite A \<Longrightarrow> A \<noteq> {} \<Longrightarrow> last (sorted_list_of_set A) = Max A"
  using sorted_le_last [of "sorted_list_of_set A"] last_in_set [of "sorted_list_of_set A"]
  by (intro Max_eqI [symmetric]) auto

end
