(* ===== verification/GoBytes.thy ===== *)
theory GoBytes
  imports Prelude
begin

text \<open>
  The byte-level part of Go's standard library that the encoders use: little-endian stores and
  loads of \<open>encoding/binary\<close>, and the sequential reads of \<open>bytes.Reader\<close> with
  \<open>io.ReadFull\<close>. A reader is the list of the bytes it has left.
\<close>

section \<open>Little-endian numbers\<close>

fun put_le :: "nat \<Rightarrow> nat \<Rightarrow> byte list" where
  "put_le 0 n = []"
| "put_le (Suc k) n = word_of_nat (n mod 256) # put_le k (n div 256)"

fun get_le :: "byte list \<Rightarrow> nat" where
  "get_le [] = 0"
| "get_le (b # bs) = unat b + 256 * get_le bs"

lemma length_put_le [simp]: "length (put_le k n) = k"
  by (induction k arbitrary: n) auto

lemma get_put_le [simp]: "get_le (put_le k n) = n mod 256 ^ k"
proof (induction k arbitrary: n)
  case 0
  show ?case by simp
next
  case (Suc k)
  have "unat (word_of_nat (n mod 256) :: byte) = n mod 256"
    by (simp add: unat_of_nat)
  then show ?case
    by (simp add: Suc.IH mod_mult2_eq)
qed

lemma get_le_less: "get_le bs < 256 ^ length bs"
proof (induction bs)
  case Nil
  show ?case by simp
next
  case (Cons b bs)
  have "unat b < 256"
    using unat_lt2p [of b] by simp
  moreover have "256 * get_le bs + 256 \<le> 256 * 256 ^ length bs"
    using Cons.IH by simp
  ultimately show ?case
    by simp
qed

lemma put_get_le [simp]: "put_le (length bs) (get_le bs) = bs"
proof (induction bs)
  case Nil
  show ?case by simp
next
  case (Cons b bs)
  have b: "unat b < 256"
    using unat_lt2p [of b] by simp
  then have "(unat b + 256 * get_le bs) mod 256 = unat b" "(unat b + 256 * get_le bs) div 256 = get_le bs"
    by simp_all
  then show ?case
    by (simp add: Cons.IH)
qed

text \<open>\<open>PutUint16/32/64\<close> and \<open>Uint16/32/64\<close> of \<open>binary.LittleEndian\<close>.\<close>

definition put16 :: "16 word \<Rightarrow> byte list" where
  "put16 w = put_le 2 (unat w)"

definition put32 :: "32 word \<Rightarrow> byte list" where
  "put32 w = put_le 4 (unat w)"

definition put64 :: "64 word \<Rightarrow> byte list" where
  "put64 w = put_le 8 (unat w)"

definition get16 :: "byte list \<Rightarrow> 16 word" where
  "get16 bs = word_of_nat (get_le (take 2 bs))"

definition get32 :: "byte list \<Rightarrow> 32 word" where
  "get32 bs = word_of_nat (get_le (take 4 bs))"

definition get64 :: "byte list \<Rightarrow> 64 word" where
  "get64 bs = word_of_nat (get_le (take 8 bs))"

lemma length_put16 [simp]: "length (put16 w) = 2"
  by (simp add: put16_def)

lemma length_put32 [simp]: "length (put32 w) = 4"
  by (simp add: put32_def)

lemma length_put64 [simp]: "length (put64 w) = 8"
  by (simp add: put64_def)

lemma get16_put16 [simp, codec_simps]: "get16 (put16 w @ rest) = w"
  using unat_lt2p [of w] by (simp add: get16_def put16_def)

lemma get32_put32 [simp, codec_simps]: "get32 (put32 w @ rest) = w"
  using unat_lt2p [of w] by (simp add: get32_def put32_def)

lemma get64_put64 [simp, codec_simps]: "get64 (put64 w @ rest) = w"
  using unat_lt2p [of w] by (simp add: get64_def put64_def)

lemma put16_get16: "length bs = 2 \<Longrightarrow> put16 (get16 bs) = bs"
  using get_le_less [of bs] put_get_le [of bs] by (simp add: get16_def put16_def unat_of_nat)

lemma put32_get32: "length bs = 4 \<Longrightarrow> put32 (get32 bs) = bs"
  using get_le_less [of bs] put_get_le [of bs] by (simp add: get32_def put32_def unat_of_nat)

lemma put64_get64: "length bs = 8 \<Longrightarrow> put64 (get64 bs) = bs"
  using get_le_less [of bs] put_get_le [of bs] by (simp add: get64_def put64_def unat_of_nat)

section \<open>Reading\<close>

text \<open>
  \<open>io.ReadFull\<close>: a read of no bytes succeeds even at the end; an exhausted reader gives
  \<open>io.EOF\<close>, a reader with too few bytes \<open>io.ErrUnexpectedEOF\<close>.
\<close>

datatype read_error = EOF | ErrUnexpectedEOF

definition ReadFull :: "nat \<Rightarrow> byte list \<Rightarrow> read_error + (byte list \<times> byte list)" where
  "ReadFull n r =
     (if n = 0 then Inr ([], r)
      else if r = [] then Inl EOF
      else if length r < n then Inl ErrUnexpectedEOF
      else Inr (take n r, drop n r))"

text \<open>\<open>binary.Read\<close> of an \<open>int32\<close>, which reads its four bytes with \<open>io.ReadFull\<close>.\<close>

definition ReadInt32 :: "byte list \<Rightarrow> read_error + (32 word \<times> byte list)" where
  "ReadInt32 r =
     (case ReadFull 4 r of Inl e \<Rightarrow> Inl e | Inr (bs, r') \<Rightarrow> Inr (get32 bs, r'))"

lemma ReadFull_append [simp, codec_simps]: "length bs = n \<Longrightarrow> ReadFull n (bs @ rest) = Inr (bs, rest)"
  by (auto simp: ReadFull_def)

lemma ReadInt32_put32 [simp, codec_simps]: "ReadInt32 (put32 w @ rest) = Inr (w, rest)"
  using get32_put32 [of w "[]"] by (simp add: ReadInt32_def)

lemma ReadFull_shorter: "ReadFull n r = Inr (bs, r') \<Longrightarrow> r = bs @ r' \<and> length bs = n"
  by (auto simp: ReadFull_def split: if_splits)

lemma ReadInt32_shorter: "ReadInt32 r = Inr (w, r') \<Longrightarrow> length r = length r' + 4"
  by (auto simp: ReadInt32_def split: sum.splits dest!: ReadFull_shorter)

section \<open>Strings and bytes\<close>

text \<open>A Go string is a sequence of bytes; \<open>[]byte(s)\<close> and \<open>string(b)\<close> copy them.\<close>

definition byte_of_char :: "char \<Rightarrow> byte" where
  "byte_of_char c = word_of_nat (of_char c)"

definition char_of_byte :: "byte \<Rightarrow> char" where
  "char_of_byte b = char_of (unat b)"

lemma char_of_byte_of_char [simp]: "char_of_byte (byte_of_char c) = c"
proof -
  have "(of_char c :: nat) < 256"
    by simp
  then have "unat (word_of_nat (of_char c) :: byte) = of_char c"
    by (simp add: unat_of_nat)
  then show ?thesis
    by (simp add: char_of_byte_def byte_of_char_def)
qed

lemma byte_of_char_of_byte [simp]: "byte_of_char (char_of_byte b) = b"
proof -
  have "unat b < 256"
    using unat_lt2p [of b] by simp
  then show ?thesis
    by (simp add: char_of_byte_def byte_of_char_def)
qed

definition bytes_of_string :: "string \<Rightarrow> byte list" where
  "bytes_of_string s = map byte_of_char s"

definition string_of_bytes :: "byte list \<Rightarrow> string" where
  "string_of_bytes bs = map char_of_byte bs"

lemma string_of_bytes_of_string [simp]: "string_of_bytes (bytes_of_string s) = s"
  by (simp add: string_of_bytes_def bytes_of_string_def comp_def)

lemma bytes_of_string_of_bytes [simp]: "bytes_of_string (string_of_bytes bs) = bs"
  by (simp add: string_of_bytes_def bytes_of_string_def comp_def)

lemma length_bytes_of_string [simp]: "length (bytes_of_string s) = length s"
  by (simp add: bytes_of_string_def)

lemma bytes_of_string_append: "bytes_of_string (s @ t) = bytes_of_string s @ bytes_of_string t"
  by (simp add: bytes_of_string_def)

end
