(* ===== verification/EncodeTypes.thy ===== *)
theory EncodeTypes
  imports GoBytes
begin

text \<open>
  The data types of \<^verbatim>\<open>src/encode/types.go\<close>, the dynamic values of an
  \<open>interface{}\<close> column, and the errors of the whole model.

  The Go enums are integer types, so each carries a constructor for the values that have no
  name. Floats are kept as their IEEE bit patterns (\<open>math.Float32bits\<close> is the identity here).
  An error is the constructor of the failure that caused it: the layers of \<open>fmt.Errorf\<close> text
  around it are dropped, as \<open>%w\<close> keeps the cause. A run-time panic unwinds through the same
  returns as an error and is an error value of its own.
\<close>

section \<open>Enumerations\<close>

datatype DataType =
    TypeInt8 | TypeInt16 | TypeInt32 | TypeInt64
  | TypeFloat16 | TypeFloat32 | TypeFloat64
  | TypeString | TypeBinary | TypeStruct | TypeList | TypeMap | TypeFixedSizeList
  | TypeOther int

fun DataType_code :: "DataType \<Rightarrow> int" where
  "DataType_code TypeInt8 = 1"
| "DataType_code TypeInt16 = 2"
| "DataType_code TypeInt32 = 3"
| "DataType_code TypeInt64 = 4"
| "DataType_code TypeFloat16 = 5"
| "DataType_code TypeFloat32 = 6"
| "DataType_code TypeFloat64 = 7"
| "DataType_code TypeString = 8"
| "DataType_code TypeBinary = 9"
| "DataType_code TypeStruct = 10"
| "DataType_code TypeList = 11"
| "DataType_code TypeMap = 12"
| "DataType_code TypeFixedSizeList = 13"
| "DataType_code (TypeOther n) = n"

definition DataType_of_code :: "int \<Rightarrow> DataType" where
  "DataType_of_code n =
     (if n = 1 then TypeInt8 else if n = 2 then TypeInt16 else if n = 3 then TypeInt32
      else if n = 4 then TypeInt64 else if n = 5 then TypeFloat16 else if n = 6 then TypeFloat32
      else if n = 7 then TypeFloat64 else if n = 8 then TypeString else if n = 9 then TypeBinary
      else if n = 10 then TypeStruct else if n = 11 then TypeList else if n = 12 then TypeMap
      else if n = 13 then TypeFixedSizeList else TypeOther n)"

text \<open>A data type is canonical when a named value is not hidden behind \<open>TypeOther\<close>.\<close>

definition DataType_ok :: "DataType \<Rightarrow> bool" where
  "DataType_ok t \<longleftrightarrow> fits32 (DataType_code t) \<and> DataType_of_code (DataType_code t) = t"

datatype EncodingType =
    EncodingMiniBlock | EncodingFullZip | EncodingConstant | EncodingFlat | EncodingAllNull
  | EncodingOther int

fun EncodingType_code :: "EncodingType \<Rightarrow> int" where
  "EncodingType_code EncodingMiniBlock = 1"
| "EncodingType_code EncodingFullZip = 2"
| "EncodingType_code EncodingConstant = 3"
| "EncodingType_code EncodingFlat = 4"
| "EncodingType_code EncodingAllNull = 5"
| "EncodingType_code (EncodingOther n) = n"

datatype CompressionType =
  CompressionNone | CompressionZstd | CompressionLz4 | CompressionOther int

text \<open>The descriptions of a page that \<^verbatim>\<open>types.go\<close> declares; no function of the program takes one.\<close>

record BufferInfo =
  bi_Offset :: int
  bi_Length :: int
  bi_Compression :: CompressionType

record PageLayout =
  pl_Encoding :: EncodingType
  pl_MiniBlockNumBlocks :: int
  pl_MiniBlockBlockSize :: int
  pl_Buffers :: "BufferInfo list"

section \<open>Column values\<close>

type_synonym f32 = "32 word"
type_synonym f64 = "64 word"

datatype column =
    Int8s "8 word list"
  | Int16s "16 word list"
  | Int32s "32 word list"
  | Int64s "64 word list"
  | Float32s "f32 list"
  | Float64s "f64 list"
  | Strings "string list"
  | Binaries "byte list list"
  | OtherValue

section \<open>Errors\<close>

datatype panic = MakeSlice | IndexOutOfRange | NilDeref

datatype encode_error =
    ErrRead read_error
  | ErrColumnType
  | ErrUnsupportedType DataType
  | ErrEmptyConstant
  | ErrValueTooShort
  | ErrUnknownCompression int
  | ErrCodec

datatype storage_error =
    ErrFooterShort | ErrFooterMagic | ErrFileTooSmall
  | ErrOS | ErrNotExist | ErrIsDir | ErrNotEmpty
  | ErrNegativeLength | ErrShortRead | ErrCanceled

datatype distance_error = ErrLengthMismatch | ErrZeroNorm | ErrUnknownMetric int

datatype index_error = ErrBuildEmpty | ErrDimZero | ErrDimMismatch | ErrNotBuilt

datatype query_error =
    ErrColumnNotFound | ErrNotFixedSizeList | ErrBadDimension
  | ErrVectorLength | ErrNotFloat32 | ErrFilterColumnType

datatype table_error =
    ErrFieldNotFound | ErrDataFileNotFound
  | ErrNoManifests | ErrNoManifest | ErrSyntax | ErrRange | ErrJson
  | ErrNoBatches | ErrSchemaMismatch | ErrMergeType | ErrMergeUnsupported
  | ErrFieldExists | ErrNoColumn
  | ErrColumnData | ErrFieldDimension | ErrFieldType

datatype writer_error = ErrWriterClosed | ErrWriterNotRunning | ErrChannelFull

datatype config_error =
    ErrConfigRead storage_error | ErrConfigParse | ErrConfigDir storage_error | ErrConfigWrite storage_error
  | ErrPathRequired | ErrFUSEMountPoint | ErrS3Bucket | ErrS3Region | ErrS3NotImplemented
  | ErrUnknownBackend string

text \<open>The codes of \<^verbatim>\<open>src/api/errors.go\<close>; a message is its format with the arguments.\<close>

datatype ErrorCode =
    ErrInternal | ErrNotFound | ErrConflict | ErrInvalidArg | ErrStorage | ErrClosed | ErrCodeOther int

datatype api_message =
    MsgInvalidPath string | MsgCannotCreateDirectory string | MsgCannotAccess string | MsgNotDirectory string
  | MsgInvalidConfiguration | MsgCannotCreateBackend | MsgTableExists string | MsgTableNotFound string
  | MsgCannotRemove string | MsgStorageFailed string
  | MsgDatabaseClosed | MsgTableClosed | MsgNoTable | MsgWriterNotRunning

datatype goerr =
    GoPanic panic
  | EncErr encode_error
  | StoErr storage_error
  | DistErr distance_error
  | IdxErr index_error
  | QryErr query_error
  | TblErr table_error
  | WrtErr writer_error
  | CfgErr config_error
  | ApiErr ErrorCode string api_message "goerr option"
  | VersionConflict

type_synonym 'a res = "goerr + 'a"

end
