(* ===== verification/Compression.thy ===== *)
theory Compression
  imports EncodeTypes
begin

text \<open>
  \<^verbatim>\<open>src/encode/compression.go\<close>: the choice of the codec. Zstd and LZ4 are third-party
  packages (\<open>klauspost/compress\<close>, \<open>pierrec/lz4\<close>), so they are the parameter \<open>codecs\<close>: each of
  the four functions may fail. What the code relies on is \<open>codec_ok\<close>.
\<close>

record codecs =
  zstd_EncodeAll :: "byte list \<Rightarrow> byte list option"
  zstd_DecodeAll :: "byte list \<Rightarrow> byte list option"
  lz4_Write :: "byte list \<Rightarrow> byte list option"
  lz4_ReadAll :: "byte list \<Rightarrow> byte list option"

definition codec_result :: "byte list option \<Rightarrow> byte list res" where
  "codec_result r = (case r of None \<Rightarrow> Inl (EncErr ErrCodec) | Some bs \<Rightarrow> Inr bs)"

fun Compress :: "codecs \<Rightarrow> byte list \<Rightarrow> CompressionType \<Rightarrow> byte list res" where
  "Compress C data CompressionNone = Inr data"
| "Compress C data CompressionZstd = codec_result (zstd_EncodeAll C data)"
| "Compress C data CompressionLz4 = codec_result (lz4_Write C data)"
| "Compress C data (CompressionOther n) = Inl (EncErr (ErrUnknownCompression n))"

fun Decompress :: "codecs \<Rightarrow> byte list \<Rightarrow> CompressionType \<Rightarrow> byte list res" where
  "Decompress C data CompressionNone = Inr data"
| "Decompress C data CompressionZstd = codec_result (zstd_DecodeAll C data)"
| "Decompress C data CompressionLz4 = codec_result (lz4_ReadAll C data)"
| "Decompress C data (CompressionOther n) = Inl (EncErr (ErrUnknownCompression n))"

text \<open>
  The documented contract of a codec on blocks of at most \<open>limit\<close> bytes: compression succeeds,
  decompression restores the block, and the compressed block has a length an \<open>int32\<close> holds.
\<close>

definition codec_ok :: "codecs \<Rightarrow> CompressionType \<Rightarrow> nat \<Rightarrow> bool" where
  "codec_ok C algo limit \<longleftrightarrow>
     (\<forall>block. length block \<le> limit \<longrightarrow>
        (\<exists>z. Compress C block algo = Inr z \<and> length z < 2 ^ 31 \<and> Decompress C z algo = Inr block))"

lemma codec_okE:
  assumes "codec_ok C algo limit" and "length block \<le> limit"
  obtains z where "Compress C block algo = Inr z" "length z < 2 ^ 31" "Decompress C z algo = Inr block"
  using assms unfolding codec_ok_def by blast

text \<open>The interface the page encoder relies on, and its provider without compression.\<close>

locale block_codec =
  fixes comp :: "byte list \<Rightarrow> byte list res"
    and decomp :: "byte list \<Rightarrow> byte list res"
    and limit :: nat
  assumes comp_total: "length block \<le> limit \<Longrightarrow> \<exists>z. comp block = Inr z \<and> length z < 2 ^ 31"
    and decomp_comp: "length block \<le> limit \<Longrightarrow> comp block = Inr z \<Longrightarrow> decomp z = Inr block"
begin

lemma comp_inj:
  assumes "length a \<le> limit" "length b \<le> limit" "comp a = comp b"
  shows "a = b"
proof -
  obtain z where "comp a = Inr z"
    using comp_total [OF assms(1)] by blast
  then have "decomp z = Inr a" "decomp z = Inr b"
    using assms decomp_comp [of a z] decomp_comp [of b z] by simp_all
  then show ?thesis
    by simp
qed

end

interpretation none_codec: block_codec "\<lambda>b. Compress C b CompressionNone"
  "\<lambda>z. Decompress C z CompressionNone" "2 ^ 31 - 1" for C
  by unfold_locales auto

lemma codec_ok_iff:
  "codec_ok C algo limit \<longleftrightarrow>
     block_codec (\<lambda>b. Compress C b algo) (\<lambda>z. Decompress C z algo) limit"
  unfolding codec_ok_def block_codec_def by force

lemma codec_ok_None: "limit < 2 ^ 31 \<Longrightarrow> codec_ok C CompressionNone limit"
  by (auto simp: codec_ok_def)

text \<open>
  A concrete pair of codecs for witnesses: each frames a block with a tag byte and checks the
  tag when it reads.
\<close>

definition tag_frame :: "byte \<Rightarrow> byte list \<Rightarrow> byte list option" where
  "tag_frame t bs = Some (t # bs)"

definition tag_unframe :: "byte \<Rightarrow> byte list \<Rightarrow> byte list option" where
  "tag_unframe t bs = (case bs of [] \<Rightarrow> None | b # rest \<Rightarrow> if b = t then Some rest else None)"

definition tag_codecs :: codecs where
  "tag_codecs =
     \<lparr>zstd_EncodeAll = tag_frame 0x28, zstd_DecodeAll = tag_unframe 0x28,
      lz4_Write = tag_frame 0x04, lz4_ReadAll = tag_unframe 0x04\<rparr>"

lemma codec_ok_tag_zstd: "limit < 2 ^ 31 - 1 \<Longrightarrow> codec_ok tag_codecs CompressionZstd limit"
  by (auto simp: codec_ok_def tag_codecs_def tag_frame_def tag_unframe_def codec_result_def)

lemma codec_ok_tag_lz4: "limit < 2 ^ 31 - 1 \<Longrightarrow> codec_ok tag_codecs CompressionLz4 limit"
  by (auto simp: codec_ok_def tag_codecs_def tag_frame_def tag_unframe_def codec_result_def)

text \<open>Codecs that are never called successfully; without compression any will do.\<close>

definition no_codecs :: codecs where
  "no_codecs = \<lparr>zstd_EncodeAll = \<lambda>b. None, zstd_DecodeAll = \<lambda>b. None, lz4_Write = \<lambda>b. None, lz4_ReadAll = \<lambda>b. None\<rparr>"

end
