(* ===== verification/Columns.thy ===== *)
theory Columns
  imports EncodeTypes
begin

text \<open>
  The serializers of \<^verbatim>\<open>src/encode/miniblock.go\<close> (lines 194 to 319): fixed-width numbers
  laid out one after the other, and strings or byte slices behind an \<open>int32\<close> length.
  The four fixed-width codecs are instances of one interface, \<open>fixed_codec\<close>, so the round trip
  and the size are proved once.
\<close>

section \<open>Fixed-width elements\<close>

text \<open>
  \<open>buf[i*w:]\<close> receives element \<open>i\<close>; reading back takes \<open>len(data) / w\<close> elements, so up to
  \<open>w - 1\<close> trailing bytes are ignored.
\<close>

definition serialize_fixed :: "('a \<Rightarrow> byte list) \<Rightarrow> 'a list \<Rightarrow> byte list" where
  "serialize_fixed put xs = concat (map put xs)"

definition deserialize_fixed :: "nat \<Rightarrow> (byte list \<Rightarrow> 'a) \<Rightarrow> byte list \<Rightarrow> 'a list" where
  "deserialize_fixed w get data = map (\<lambda>i. get (drop (i * w) data)) [0..<length data div w]"

locale fixed_codec =
  fixes width :: nat
    and put :: "'a \<Rightarrow> byte list"
    and get :: "byte list \<Rightarrow> 'a"
  assumes width_pos: "0 < width"
    and length_put: "length (put x) = width"
    and get_put: "get (put x @ rest) = x"
    and put_get: "length bs = width \<Longrightarrow> put (get bs) = bs"
    and get_prefix: "length bs = width \<Longrightarrow> get (bs @ rest) = get bs"
begin

lemma length_serialize: "length (serialize_fixed put xs) = width * length xs"
  by (induction xs) (simp_all add: serialize_fixed_def length_put)

lemma drop_serialize:
  "i \<le> length xs \<Longrightarrow> drop (i * width) (serialize_fixed put xs) = serialize_fixed put (drop i xs)"
proof (induction i arbitrary: xs)
  case 0
  show ?case by simp
next
  case (Suc i)
  then obtain x ys where xs: "xs = x # ys"
    by (cases xs) auto
  with Suc have "drop (i * width) (serialize_fixed put ys) = serialize_fixed put (drop i ys)"
    by simp
  then show ?case
    by (simp add: xs serialize_fixed_def length_put add.commute flip: drop_drop)
qed

lemma deserialize_serialize: "deserialize_fixed width get (serialize_fixed put xs) = xs"
proof (rule nth_equalityI)
  show len: "length (deserialize_fixed width get (serialize_fixed put xs)) = length xs"
    using width_pos by (simp add: deserialize_fixed_def length_serialize)
  fix i
  assume "i < length (deserialize_fixed width get (serialize_fixed put xs))"
  with len have i: "i < length xs"
    by simp
  then have "drop i xs = xs ! i # drop (Suc i) xs"
    by (simp add: Cons_nth_drop_Suc)
  with i have "get (drop (i * width) (serialize_fixed put xs)) = xs ! i"
    by (simp add: drop_serialize) (simp add: serialize_fixed_def get_put)
  with i show "deserialize_fixed width get (serialize_fixed put xs) ! i = xs ! i"
    using width_pos by (simp add: deserialize_fixed_def length_serialize)
qed

lemma length_deserialize: "length (deserialize_fixed width get data) = length data div width"
  by (simp add: deserialize_fixed_def)

lemma deserialize_Cons:
  assumes "length bs = width"
  shows "deserialize_fixed width get (bs @ rest) = get bs # deserialize_fixed width get rest"
proof -
  have n: "length (bs @ rest) div width = Suc (length rest div width)"
    using assms width_pos by (simp add: div_add_self1)
  show ?thesis
    unfolding deserialize_fixed_def n upt_conv_Cons [OF zero_less_Suc] map_Suc_upt [symmetric]
    using assms by (simp add: get_prefix add.commute del: upt_Suc)
qed

lemma serialize_deserialize:
  assumes "length data = n * width"
  shows "serialize_fixed put (deserialize_fixed width get data) = data"
  using assms
proof (induction n arbitrary: data)
  case 0
  then show ?case by (simp add: serialize_fixed_def deserialize_fixed_def)
next
  case (Suc n)
  define a b where "a = take width data" and "b = drop width data"
  have a: "length a = width" and b: "length b = n * width" and ab: "data = a @ b"
    using Suc.prems by (simp_all add: a_def b_def)
  show ?case
    using Suc.IH [OF b] by (simp add: ab deserialize_Cons [OF a])
      (simp add: serialize_fixed_def put_get a)
qed

end

interpretation c64: fixed_codec 8 put64 get64
  by unfold_locales (simp_all add: put64_get64, simp add: get64_def)

interpretation c32: fixed_codec 4 put32 get32
  by unfold_locales (simp_all add: put32_get32, simp add: get32_def)

definition serializeInt64 :: "64 word list \<Rightarrow> byte list" where
  "serializeInt64 data = serialize_fixed put64 data"

definition serializeInt32 :: "32 word list \<Rightarrow> byte list" where
  "serializeInt32 data = serialize_fixed put32 data"

definition serializeFloat32 :: "f32 list \<Rightarrow> byte list" where
  "serializeFloat32 data = serialize_fixed put32 data"

definition serializeFloat64 :: "f64 list \<Rightarrow> byte list" where
  "serializeFloat64 data = serialize_fixed put64 data"

definition deserializeInt64 :: "byte list \<Rightarrow> 64 word list" where
  "deserializeInt64 data = deserialize_fixed 8 get64 data"

definition deserializeInt32 :: "byte list \<Rightarrow> 32 word list" where
  "deserializeInt32 data = deserialize_fixed 4 get32 data"

definition deserializeFloat32 :: "byte list \<Rightarrow> f32 list" where
  "deserializeFloat32 data = deserialize_fixed 4 get32 data"

definition deserializeFloat64 :: "byte list \<Rightarrow> f64 list" where
  "deserializeFloat64 data = deserialize_fixed 8 get64 data"

lemmas fixed_column_defs =
  serializeInt64_def serializeInt32_def serializeFloat32_def serializeFloat64_def
  deserializeInt64_def deserializeInt32_def deserializeFloat32_def deserializeFloat64_def

lemma fixed_columns_roundtrip [simp, codec_simps]:
  "deserializeInt64 (serializeInt64 i64) = i64"
  "deserializeInt32 (serializeInt32 i32) = i32"
  "deserializeFloat32 (serializeFloat32 x32) = x32"
  "deserializeFloat64 (serializeFloat64 x64) = x64"
  by (simp_all add: fixed_column_defs c64.deserialize_serialize c32.deserialize_serialize)

lemma length_fixed_columns [simp]:
  "length (serializeInt64 i64) = 8 * length i64"
  "length (serializeInt32 i32) = 4 * length i32"
  "length (serializeFloat32 x32) = 4 * length x32"
  "length (serializeFloat64 x64) = 8 * length x64"
  by (simp_all add: fixed_column_defs c64.length_serialize c32.length_serialize)

section \<open>Length-prefixed elements\<close>

definition put_blob :: "byte list \<Rightarrow> byte list" where
  "put_blob b = put32 (word_of_nat (length b)) @ b"

definition serializeStrings :: "string list \<Rightarrow> byte list" where
  "serializeStrings data = concat (map (\<lambda>s. put_blob (bytes_of_string s)) data)"

definition serializeBytes :: "byte list list \<Rightarrow> byte list" where
  "serializeBytes data = concat (map put_blob data)"

text \<open>
  The decoding loop. A short read ends it with the elements read so far and no error; a negative
  length reaches \<open>make([]byte, length)\<close> and panics.
\<close>

function read_blobs :: "byte list \<Rightarrow> byte list list res" where
  "read_blobs r =
     (if r = [] then Inr []
      else case ReadInt32 r of
        Inl e \<Rightarrow> Inr []
      | Inr (len, r1) \<Rightarrow>
          if sint len < 0 then Inl (GoPanic MakeSlice)
          else case ReadFull (nat (sint len)) r1 of
            Inl e \<Rightarrow> Inr []
          | Inr (b, r2) \<Rightarrow>
              (case read_blobs r2 of Inl e \<Rightarrow> Inl e | Inr bs \<Rightarrow> Inr (b # bs)))"
  by pat_completeness auto
termination
  by (relation "measure length")
     (auto dest!: ReadInt32_shorter ReadFull_shorter)

declare read_blobs.simps [simp del]

definition deserializeStrings :: "byte list \<Rightarrow> string list res" where
  "deserializeStrings data =
     (case read_blobs data of Inl e \<Rightarrow> Inl e | Inr bs \<Rightarrow> Inr (map string_of_bytes bs))"

definition deserializeBytes :: "byte list \<Rightarrow> byte list list res" where
  "deserializeBytes data = read_blobs data"

text \<open>Elements whose length an \<open>int32\<close> holds.\<close>

definition blobs_ok :: "byte list list \<Rightarrow> bool" where
  "blobs_ok bs \<longleftrightarrow> (\<forall>b \<in> set bs. length b < 2 ^ 31)"

lemma blobs_ok_Cons [simp]: "blobs_ok (b # bs) \<longleftrightarrow> length b < 2 ^ 31 \<and> blobs_ok bs"
  by (simp add: blobs_ok_def)

lemma blobs_ok_Nil [simp]: "blobs_ok []"
  by (simp add: blobs_ok_def)

lemma read_blobs_Nil [simp]: "read_blobs [] = Inr []"
  by (simp add: read_blobs.simps)

lemma read_blobs_put:
  assumes "length b < 2 ^ 31"
  shows "read_blobs (put_blob b @ rest) =
           (case read_blobs rest of Inl e \<Rightarrow> Inl e | Inr bs \<Rightarrow> Inr (b # bs))"
proof -
  have "put32 (word_of_nat (length b)) \<noteq> []"
    using length_put32 [of "word_of_nat (length b)"] by fastforce
  then show ?thesis
    using assms by (subst read_blobs.simps) (simp add: put_blob_def sint32_of_nat)
qed

lemma read_blobs_serialize: "blobs_ok bs \<Longrightarrow> read_blobs (concat (map put_blob bs)) = Inr bs"
  by (induction bs) (simp_all add: read_blobs_put)

lemma strings_roundtrip:
  "blobs_ok (map bytes_of_string ss) \<Longrightarrow> deserializeStrings (serializeStrings ss) = Inr ss"
  using read_blobs_serialize [of "map bytes_of_string ss"]
  by (simp add: deserializeStrings_def serializeStrings_def comp_def)

lemma bytes_roundtrip: "blobs_ok bs \<Longrightarrow> deserializeBytes (serializeBytes bs) = Inr bs"
  by (simp add: deserializeBytes_def serializeBytes_def read_blobs_serialize)

lemma read_blobs_only_panics: "read_blobs r = Inl e \<Longrightarrow> e = GoPanic MakeSlice"
proof (induction r rule: read_blobs.induct)
  case (1 r)
  then show ?case
    by (subst (asm) (2) read_blobs.simps) (fastforce split: if_splits sum.splits prod.splits)
qed

end
