(* ===== verification/MiniBlock.thy ===== *)
theory MiniBlock
  imports Compression Columns
begin

text \<open>
  \<^verbatim>\<open>src/encode/miniblock.go\<close>: the page encoder. A page is the header (encoding, number of
  blocks, block size, each an \<open>int32\<close>) and the blocks, each compressed behind its length.
\<close>

section \<open>The encoder\<close>

record MiniBlockEncoder =
  Compression :: CompressionType
  BlockSize :: "32 word"

definition defaultMiniBlockSize :: "32 word" where
  "defaultMiniBlockSize = 4096"

definition NewMiniBlockEncoder :: "CompressionType \<Rightarrow> MiniBlockEncoder" where
  "NewMiniBlockEncoder c = \<lparr>Compression = c, BlockSize = defaultMiniBlockSize\<rparr>"

text \<open>The loop \<open>for i := 0; i < len(data); i += blockSize\<close>, on the bytes not yet split.\<close>

function split_loop :: "nat \<Rightarrow> byte list \<Rightarrow> byte list list" where
  "split_loop n data =
     (if data = [] \<or> n = 0 then [] else take n data # split_loop n (drop n data))"
  by pat_completeness auto
termination
  by (relation "measure (\<lambda>(n, data). length data)") auto

declare split_loop.simps [simp del]

definition effective_block_size :: "MiniBlockEncoder \<Rightarrow> nat" where
  "effective_block_size e =
     nat (if sint (BlockSize e) \<le> 0 then sint defaultMiniBlockSize else sint (BlockSize e))"

definition splitBlocks :: "MiniBlockEncoder \<Rightarrow> byte list \<Rightarrow> byte list list" where
  "splitBlocks e data = split_loop (effective_block_size e) data"

fun MiniBlock_serialize :: "column \<Rightarrow> DataType \<Rightarrow> byte list res" where
  "MiniBlock_serialize data TypeInt64 =
     (case data of Int64s d \<Rightarrow> Inr (serializeInt64 d) | _ \<Rightarrow> Inl (EncErr ErrColumnType))"
| "MiniBlock_serialize data TypeInt32 =
     (case data of Int32s d \<Rightarrow> Inr (serializeInt32 d) | _ \<Rightarrow> Inl (EncErr ErrColumnType))"
| "MiniBlock_serialize data TypeFloat32 =
     (case data of Float32s d \<Rightarrow> Inr (serializeFloat32 d) | _ \<Rightarrow> Inl (EncErr ErrColumnType))"
| "MiniBlock_serialize data TypeFixedSizeList =
     (case data of Float32s d \<Rightarrow> Inr (serializeFloat32 d) | _ \<Rightarrow> Inl (EncErr ErrColumnType))"
| "MiniBlock_serialize data TypeFloat64 =
     (case data of Float64s d \<Rightarrow> Inr (serializeFloat64 d) | _ \<Rightarrow> Inl (EncErr ErrColumnType))"
| "MiniBlock_serialize data TypeString =
     (case data of Strings d \<Rightarrow> Inr (serializeStrings d) | _ \<Rightarrow> Inl (EncErr ErrColumnType))"
| "MiniBlock_serialize data TypeBinary =
     (case data of Binaries d \<Rightarrow> Inr (serializeBytes d) | _ \<Rightarrow> Inl (EncErr ErrColumnType))"
| "MiniBlock_serialize data t = Inl (EncErr (ErrUnsupportedType t))"

fun MiniBlock_deserialize :: "byte list \<Rightarrow> DataType \<Rightarrow> column res" where
  "MiniBlock_deserialize data TypeInt64 = Inr (Int64s (deserializeInt64 data))"
| "MiniBlock_deserialize data TypeInt32 = Inr (Int32s (deserializeInt32 data))"
| "MiniBlock_deserialize data TypeFloat32 = Inr (Float32s (deserializeFloat32 data))"
| "MiniBlock_deserialize data TypeFixedSizeList = Inr (Float32s (deserializeFloat32 data))"
| "MiniBlock_deserialize data TypeFloat64 = Inr (Float64s (deserializeFloat64 data))"
| "MiniBlock_deserialize data TypeString =
     (case deserializeStrings data of Inl e \<Rightarrow> Inl e | Inr d \<Rightarrow> Inr (Strings d))"
| "MiniBlock_deserialize data TypeBinary =
     (case deserializeBytes data of Inl e \<Rightarrow> Inl e | Inr d \<Rightarrow> Inr (Binaries d))"
| "MiniBlock_deserialize data t = Inl (EncErr (ErrUnsupportedType t))"

fun MiniBlock_emptyResult :: "DataType \<Rightarrow> column res" where
  "MiniBlock_emptyResult TypeInt64 = Inr (Int64s [])"
| "MiniBlock_emptyResult TypeInt32 = Inr (Int32s [])"
| "MiniBlock_emptyResult TypeFloat32 = Inr (Float32s [])"
| "MiniBlock_emptyResult TypeFixedSizeList = Inr (Float32s [])"
| "MiniBlock_emptyResult TypeFloat64 = Inr (Float64s [])"
| "MiniBlock_emptyResult TypeString = Inr (Strings [])"
| "MiniBlock_emptyResult TypeBinary = Inr (Binaries [])"
| "MiniBlock_emptyResult t = Inl (EncErr (ErrUnsupportedType t))"

fun encode_blocks :: "codecs \<Rightarrow> CompressionType \<Rightarrow> byte list list \<Rightarrow> byte list res" where
  "encode_blocks C algo [] = Inr []"
| "encode_blocks C algo (block # blocks) =
     (case Compress C block algo of
        Inl e \<Rightarrow> Inl e
      | Inr z \<Rightarrow>
          (case encode_blocks C algo blocks of
             Inl e \<Rightarrow> Inl e
           | Inr page \<Rightarrow> Inr (put_blob z @ page)))"

definition MiniBlock_Encode :: "codecs \<Rightarrow> MiniBlockEncoder \<Rightarrow> column \<Rightarrow> DataType \<Rightarrow> byte list res" where
  "MiniBlock_Encode C e data dt =
     (case MiniBlock_serialize data dt of
        Inl err \<Rightarrow> Inl err
      | Inr buf \<Rightarrow>
          (let blocks = splitBlocks e buf in
           case encode_blocks C (Compression e) blocks of
             Inl err \<Rightarrow> Inl err
           | Inr page \<Rightarrow>
               Inr (put32 (word_of_int (EncodingType_code EncodingMiniBlock)) @
                    put32 (word_of_nat (length blocks)) @ put32 (BlockSize e) @ page)))"

text \<open>
  The decoding loop runs \<open>numBlocks\<close> times (not at all for a negative count) and accumulates the
  decompressed bytes in \<open>dataBuf\<close>.
\<close>

fun decode_blocks :: "codecs \<Rightarrow> CompressionType \<Rightarrow> nat \<Rightarrow> byte list \<Rightarrow> byte list \<Rightarrow> byte list res" where
  "decode_blocks C algo 0 r dataBuf = Inr dataBuf"
| "decode_blocks C algo (Suc n) r dataBuf =
     (case ReadInt32 r of
        Inl e \<Rightarrow> Inl (EncErr (ErrRead e))
      | Inr (blockLen, r1) \<Rightarrow>
          if sint blockLen < 0 then Inl (GoPanic MakeSlice)
          else case ReadFull (nat (sint blockLen)) r1 of
            Inl e \<Rightarrow> Inl (EncErr (ErrRead e))
          | Inr (compressed, r2) \<Rightarrow>
              (case Decompress C compressed algo of
                 Inl e \<Rightarrow> Inl e
               | Inr block \<Rightarrow> decode_blocks C algo n r2 (dataBuf @ block)))"

definition MiniBlock_Decode ::
  "codecs \<Rightarrow> MiniBlockEncoder \<Rightarrow> byte list \<Rightarrow> DataType \<Rightarrow> int \<Rightarrow> column res" where
  "MiniBlock_Decode C e encoded dt numRows =
     (if encoded = [] then MiniBlock_emptyResult dt
      else case ReadInt32 encoded of
        Inl err \<Rightarrow> Inl (EncErr (ErrRead err))
      | Inr (encoding, r1) \<Rightarrow>
          (case ReadInt32 r1 of
             Inl err \<Rightarrow> Inl (EncErr (ErrRead err))
           | Inr (numBlocks, r2) \<Rightarrow>
               (case ReadInt32 r2 of
                  Inl err \<Rightarrow> Inl (EncErr (ErrRead err))
                | Inr (blockSize, r3) \<Rightarrow>
                    (case decode_blocks C (Compression e) (nat (sint numBlocks)) r3 [] of
                       Inl err \<Rightarrow> Inl err
                     | Inr buf \<Rightarrow> MiniBlock_deserialize buf dt))))"

section \<open>Splitting into blocks\<close>

lemma split_loop_Nil [simp]: "split_loop n [] = []"
  by (simp add: split_loop.simps)

lemma concat_split_loop: "0 < n \<Longrightarrow> concat (split_loop n data) = data"
proof (induction n data rule: split_loop.induct)
  case (1 n data)
  then show ?case
    by (cases "data = []") (simp_all add: split_loop.simps [of n data])
qed

lemma split_loop_sizes: "block \<in> set (split_loop n data) \<Longrightarrow> 0 < length block \<and> length block \<le> n"
proof (induction n data rule: split_loop.induct)
  case (1 n data)
  then show ?case
    by (auto simp: split_loop.simps [of n data] split: if_splits)
qed

lemma length_split_loop: "0 < n \<Longrightarrow> length (split_loop n data) = (length data + n - 1) div n"
proof (induction n data rule: split_loop.induct)
  case (1 n data)
  show ?case
  proof (cases "data = []")
    case True
    with "1.prems" show ?thesis by simp
  next
    case False
    then have data: "0 < length data" by simp
    have "length (split_loop n data) = Suc ((length data - n + n - 1) div n)"
      using False "1.IH" "1.prems" by (simp add: split_loop.simps [of n data])
    moreover have "(length data - n + n - 1) div n = (length data - 1) div n"
      using data "1.prems" by (cases "length data \<le> n") simp_all
    moreover have "length data + n - 1 = n + (length data - 1)"
      using data by arith
    ultimately show ?thesis
      using "1.prems" by (simp only: div_add_self1)
  qed
qed

lemma length_split_loop_le: "length (split_loop n data) \<le> length data"
proof (induction n data rule: split_loop.induct)
  case (1 n data)
  show ?case
  proof (cases "data = [] \<or> n = 0")
    case False
    with 1 have "length (split_loop n (drop n data)) \<le> length data - n"
      by simp
    moreover have "0 < n" "0 < length data"
      using False by simp_all
    ultimately have "Suc (length (split_loop n (drop n data))) \<le> length data"
      by linarith
    with False show ?thesis
      by (simp add: split_loop.simps [of n data])
  qed (simp add: split_loop.simps [of n data])
qed

lemma effective_block_size_pos: "0 < effective_block_size e"
  by (simp add: effective_block_size_def defaultMiniBlockSize_def)

lemma effective_block_size_less: "effective_block_size e < 2 ^ 31"
proof -
  have "sint (BlockSize e) < 2 ^ 31"
    using sint_lt [of "BlockSize e"] by simp
  then show ?thesis
    unfolding effective_block_size_def defaultMiniBlockSize_def
    by (cases "sint (BlockSize e) \<le> 0") simp_all
qed

lemma effective_block_size_New [simp]: "effective_block_size (NewMiniBlockEncoder c) = 4096"
  by (simp add: effective_block_size_def NewMiniBlockEncoder_def defaultMiniBlockSize_def)

lemma concat_splitBlocks: "concat (splitBlocks e data) = data"
  by (simp add: splitBlocks_def concat_split_loop effective_block_size_pos)

lemma splitBlocks_sizes:
  "block \<in> set (splitBlocks e data) \<Longrightarrow> 0 < length block \<and> length block \<le> effective_block_size e"
  unfolding splitBlocks_def by (rule split_loop_sizes)

section \<open>Pages\<close>

text \<open>The blocks of a page decode to the data they were split from.\<close>

lemma decode_blocks_step:
  assumes "length z < 2 ^ 31" and "Decompress C z algo = Inr block"
  shows "decode_blocks C algo (Suc n) (put_blob z @ rest) acc = decode_blocks C algo n rest (acc @ block)"
  using assms by (simp add: put_blob_def sint32_of_nat)

lemma blocks_roundtrip:
  assumes "codec_ok C algo limit" and "\<forall>block \<in> set blocks. length block \<le> limit"
  shows "\<exists>page. encode_blocks C algo blocks = Inr page \<and>
           (\<forall>rest acc. decode_blocks C algo (length blocks) (page @ rest) acc = Inr (acc @ concat blocks))"
  using assms(2)
proof (induction blocks)
  case Nil
  show ?case by simp
next
  case (Cons block blocks)
  then obtain page where page: "encode_blocks C algo blocks = Inr page"
    and dec: "\<And>rest acc. decode_blocks C algo (length blocks) (page @ rest) acc = Inr (acc @ concat blocks)"
    by auto
  have "length block \<le> limit"
    using Cons.prems by simp
  with assms(1) obtain z where z: "Compress C block algo = Inr z" "length z < 2 ^ 31"
      "Decompress C z algo = Inr block"
    by (rule codec_okE)
  have "decode_blocks C algo (length (block # blocks)) ((put_blob z @ page) @ rest) acc =
          Inr (acc @ concat (block # blocks))" for rest acc
    using decode_blocks_step [OF z(2,3)] dec by simp
  with z page show ?case
    by simp
qed

text \<open>What \<open>serialize\<close> accepts and \<open>deserialize\<close> restores.\<close>

definition column_ok :: "DataType \<Rightarrow> column \<Rightarrow> bool" where
  "column_ok dt data =
     (case data of
        Int64s d \<Rightarrow> dt = TypeInt64
      | Int32s d \<Rightarrow> dt = TypeInt32
      | Float32s d \<Rightarrow> dt = TypeFloat32 \<or> dt = TypeFixedSizeList
      | Float64s d \<Rightarrow> dt = TypeFloat64
      | Strings d \<Rightarrow> dt = TypeString \<and> blobs_ok (map bytes_of_string d)
      | Binaries d \<Rightarrow> dt = TypeBinary \<and> blobs_ok d
      | _ \<Rightarrow> False)"

lemma serialize_roundtrip:
  "column_ok dt data \<Longrightarrow>
     \<exists>buf. MiniBlock_serialize data dt = Inr buf \<and> MiniBlock_deserialize buf dt = Inr data"
  by (cases data) (auto simp: column_ok_def strings_roundtrip bytes_roundtrip)

lemma header_decode:
  assumes "n < 2 ^ 31"
  shows "MiniBlock_Decode C e (put32 w @ put32 (word_of_nat n) @ put32 bs @ page) dt rows =
           (case decode_blocks C (Compression e) n page [] of
              Inl err \<Rightarrow> Inl err | Inr buf \<Rightarrow> MiniBlock_deserialize buf dt)"
proof -
  have "put32 w \<noteq> []"
    using length_put32 [of w] by fastforce
  then show ?thesis
    using assms by (simp add: MiniBlock_Decode_def sint32_of_nat)
qed

lemma MiniBlock_Encode_Decode:
  assumes ok: "column_ok dt data"
    and codec: "codec_ok C (Compression e) (effective_block_size e)"
    and small: "\<forall>buf. MiniBlock_serialize data dt = Inr buf \<longrightarrow> length buf < 2 ^ 31"
  shows "\<exists>page. MiniBlock_Encode C e data dt = Inr page \<and> MiniBlock_Decode C e page dt rows = Inr data"
proof -
  obtain buf where buf: "MiniBlock_serialize data dt = Inr buf" "MiniBlock_deserialize buf dt = Inr data"
    using serialize_roundtrip [OF ok] by blast
  let ?blocks = "splitBlocks e buf"
  obtain page where page: "encode_blocks C (Compression e) ?blocks = Inr page"
    and dec: "\<And>rest acc. decode_blocks C (Compression e) (length ?blocks) (page @ rest) acc =
                Inr (acc @ concat ?blocks)"
    using blocks_roundtrip [OF codec] splitBlocks_sizes by blast
  have "length ?blocks \<le> length buf"
    by (simp add: splitBlocks_def length_split_loop_le)
  with small buf have n: "length ?blocks < 2 ^ 31"
    by (meson le_less_trans)
  show ?thesis
    using header_decode [OF n, of C e] dec [of "[]" "[]"]
    by (simp add: MiniBlock_Encode_def buf page concat_splitBlocks Let_def)
qed

text \<open>A page has fewer than \<open>2 ^ 63\<close> bytes, so its size is an \<open>int64\<close>.\<close>

lemma length_encode_blocks:
  assumes "codec_ok C algo limit" and "\<forall>b \<in> set bs. length b \<le> limit" and "encode_blocks C algo bs = Inr page"
  shows "length page \<le> (2 ^ 31 + 3) * length bs"
  using assms(2,3)
proof (induction bs arbitrary: page)
  case (Cons b bs)
  then obtain z where z: "Compress C b algo = Inr z" "length z < 2 ^ 31"
    using assms(1) unfolding codec_ok_def by fastforce
  with Cons.prems(2) obtain rest where rest: "encode_blocks C algo bs = Inr rest" "page = put_blob z @ rest"
    by (auto split: sum.splits)
  then show ?case
    using Cons.IH [of rest] Cons.prems(1) z(2) by (simp add: put_blob_def)
qed simp

lemma MiniBlock_Encode_size:
  assumes "codec_ok C (Compression e) (effective_block_size e)" and "MiniBlock_serialize data dt = Inr buf"
    and "length buf < 2 ^ 31" and "MiniBlock_Encode C e data dt = Inr page"
  shows "length page < 2 ^ 63"
proof -
  let ?blocks = "splitBlocks e buf"
  obtain rest where rest: "encode_blocks C (Compression e) ?blocks = Inr rest" "length page = 12 + length rest"
    using assms(2,4) by (auto simp: MiniBlock_Encode_def Let_def split: sum.splits)
  have "\<forall>b \<in> set ?blocks. length b \<le> effective_block_size e"
    using splitBlocks_sizes by blast
  then have "length rest \<le> (2 ^ 31 + 3) * length ?blocks"
    by (rule length_encode_blocks [OF assms(1) _ rest(1)])
  also have "\<dots> \<le> (2 ^ 31 + 3) * (2 ^ 31 - 1)"
    using assms(3) length_split_loop_le [of "effective_block_size e" buf]
    by (intro mult_le_mono2) (simp add: splitBlocks_def)
  finally show ?thesis
    using rest(2) by simp
qed

section \<open>Properties\<close>

text \<open>
  C35: decoding what \<open>MiniBlockEncoder.Encode\<close> wrote returns the column, for every data type the
  encoder supports, every block size (the default one replaces a size that is not positive) and
  every compression whose third-party codec decodes what it encoded; the page is always produced,
  and the row count passed to \<open>Decode\<close> does not matter.
\<close>

theorem MiniBlock_roundtrip:
  assumes "column_ok dt data"
    and "codec_ok C (Compression e) (effective_block_size e)"
    and "\<forall>buf. MiniBlock_serialize data dt = Inr buf \<longrightarrow> length buf < 2 ^ 31"
  shows "\<exists>page. MiniBlock_Encode C e data dt = Inr page \<and> MiniBlock_Decode C e page dt rows = Inr data"
  using assms by (rule MiniBlock_Encode_Decode)

theorem MiniBlock_roundtrip_witness:
  "\<exists>page. MiniBlock_Encode tag_codecs (NewMiniBlockEncoder CompressionZstd)
             (Strings [''ab'', '''']) TypeString = Inr page \<and>
     MiniBlock_Decode tag_codecs (NewMiniBlockEncoder CompressionZstd) page TypeString 7 =
       Inr (Strings [''ab'', ''''])"
  by (rule MiniBlock_roundtrip)
    (simp_all add: column_ok_def NewMiniBlockEncoder_def effective_block_size_def
      defaultMiniBlockSize_def codec_ok_tag_zstd serializeStrings_def put_blob_def)

text \<open>
  The blocks that \<open>splitBlocks\<close> cuts are the data in order, none of them empty or longer
  than the block size in force, for every value of the \<open>BlockSize\<close> field.
\<close>

theorem splitBlocks_correct:
  "concat (splitBlocks e buf) = buf \<and>
   (\<forall>block \<in> set (splitBlocks e buf). 0 < length block \<and> length block \<le> effective_block_size e)"
  using concat_splitBlocks [of e buf] splitBlocks_sizes [of _ e buf] by blast

theorem splitBlocks_correct_witness:
  "concat (splitBlocks \<lparr>Compression = CompressionNone, BlockSize = 2\<rparr> [1, 2, 3]) = [1, 2, 3] \<and>
   [3] \<in> set (splitBlocks \<lparr>Compression = CompressionNone, BlockSize = 2\<rparr> [1, 2, 3]) \<and>
   length [3 :: byte] \<le> effective_block_size \<lparr>Compression = CompressionNone, BlockSize = 2\<rparr>"
  using splitBlocks_correct [of "\<lparr>Compression = CompressionNone, BlockSize = 2\<rparr>" "[1, 2, 3]"]
  by (simp add: effective_block_size_def splitBlocks_def split_loop.simps)

end
