(* ===== verification/ConstantEncoder.thy ===== *)
theory ConstantEncoder
  imports Columns
begin

text \<open>
  \<^verbatim>\<open>src/encode/constant.go\<close>: the page of a column whose values are all equal. The page
  holds the row count, the length of one value and that value; decoding replicates it
  \<open>numRows\<close> times and ignores the stored count. Nothing checks that the values are equal.
\<close>

fun extractValue :: "column \<Rightarrow> DataType \<Rightarrow> (byte list \<times> nat) res" where
  "extractValue data TypeInt64 =
     (case data of
        Int64s d \<Rightarrow> (case d of [] \<Rightarrow> Inl (EncErr ErrEmptyConstant) | x # _ \<Rightarrow> Inr (put64 x, length d))
      | _ \<Rightarrow> Inl (EncErr ErrColumnType))"
| "extractValue data TypeInt32 =
     (case data of
        Int32s d \<Rightarrow> (case d of [] \<Rightarrow> Inl (EncErr ErrEmptyConstant) | x # _ \<Rightarrow> Inr (put32 x, length d))
      | _ \<Rightarrow> Inl (EncErr ErrColumnType))"
| "extractValue data TypeFloat32 =
     (case data of
        Float32s d \<Rightarrow> (case d of [] \<Rightarrow> Inl (EncErr ErrEmptyConstant) | x # _ \<Rightarrow> Inr (put32 x, length d))
      | _ \<Rightarrow> Inl (EncErr ErrColumnType))"
| "extractValue data TypeFloat64 =
     (case data of
        Float64s d \<Rightarrow> (case d of [] \<Rightarrow> Inl (EncErr ErrEmptyConstant) | x # _ \<Rightarrow> Inr (put64 x, length d))
      | _ \<Rightarrow> Inl (EncErr ErrColumnType))"
| "extractValue data TypeString =
     (case data of
        Strings d \<Rightarrow>
          (case d of [] \<Rightarrow> Inl (EncErr ErrEmptyConstant) | s # _ \<Rightarrow> Inr (bytes_of_string s, length d))
      | _ \<Rightarrow> Inl (EncErr ErrColumnType))"
| "extractValue data t = Inl (EncErr (ErrUnsupportedType t))"

definition Constant_Encode :: "column \<Rightarrow> DataType \<Rightarrow> byte list res" where
  "Constant_Encode data dt =
     (case extractValue data dt of
        Inl e \<Rightarrow> Inl e
      | Inr (valueBytes, cnt) \<Rightarrow>
          Inr (put32 (word_of_nat cnt) @ put32 (word_of_nat (length valueBytes)) @ valueBytes))"

text \<open>\<open>make([]T, numRows)\<close> filled with \<open>v\<close>; a negative length panics.\<close>

definition replicate_rows :: "('a list \<Rightarrow> column) \<Rightarrow> int \<Rightarrow> 'a \<Rightarrow> column res" where
  "replicate_rows mk numRows v =
     (if numRows < 0 then Inl (GoPanic MakeSlice) else Inr (mk (replicate (nat numRows) v)))"

fun replicateValue :: "byte list \<Rightarrow> DataType \<Rightarrow> int \<Rightarrow> column res" where
  "replicateValue v TypeInt64 numRows =
     (if length v < 8 then Inl (EncErr ErrValueTooShort) else replicate_rows Int64s numRows (get64 (take 8 v)))"
| "replicateValue v TypeInt32 numRows =
     (if length v < 4 then Inl (EncErr ErrValueTooShort) else replicate_rows Int32s numRows (get32 (take 4 v)))"
| "replicateValue v TypeFloat32 numRows =
     (if length v < 4 then Inl (EncErr ErrValueTooShort) else replicate_rows Float32s numRows (get32 (take 4 v)))"
| "replicateValue v TypeFloat64 numRows =
     (if length v < 8 then Inl (EncErr ErrValueTooShort) else replicate_rows Float64s numRows (get64 (take 8 v)))"
| "replicateValue v TypeString numRows = replicate_rows Strings numRows (string_of_bytes v)"
| "replicateValue v t numRows = Inl (EncErr (ErrUnsupportedType t))"

fun Constant_emptyResult :: "DataType \<Rightarrow> column res" where
  "Constant_emptyResult TypeInt64 = Inr (Int64s [])"
| "Constant_emptyResult TypeInt32 = Inr (Int32s [])"
| "Constant_emptyResult TypeFloat32 = Inr (Float32s [])"
| "Constant_emptyResult TypeFloat64 = Inr (Float64s [])"
| "Constant_emptyResult TypeString = Inr (Strings [])"
| "Constant_emptyResult t = Inl (EncErr (ErrUnsupportedType t))"

definition Constant_Decode :: "byte list \<Rightarrow> DataType \<Rightarrow> int \<Rightarrow> column res" where
  "Constant_Decode encoded dt numRows =
     (if encoded = [] then Constant_emptyResult dt
      else case ReadInt32 encoded of
        Inl e \<Rightarrow> Inl (EncErr (ErrRead e))
      | Inr (cnt, r1) \<Rightarrow>
          (case ReadInt32 r1 of
             Inl e \<Rightarrow> Inl (EncErr (ErrRead e))
           | Inr (valueLen, r2) \<Rightarrow>
               if sint valueLen < 0 then Inl (GoPanic MakeSlice)
               else case ReadFull (nat (sint valueLen)) r2 of
                 Inl e \<Rightarrow> Inl (EncErr (ErrRead e))
               | Inr (valueBytes, r3) \<Rightarrow> replicateValue valueBytes dt numRows))"

section \<open>What a page decodes to\<close>

text \<open>The column of \<open>n\<close> copies of the first value.\<close>

fun constant_column :: "column \<Rightarrow> nat \<Rightarrow> column" where
  "constant_column (Int64s (x # xs)) n = Int64s (replicate n x)"
| "constant_column (Int32s (x # xs)) n = Int32s (replicate n x)"
| "constant_column (Float32s (x # xs)) n = Float32s (replicate n x)"
| "constant_column (Float64s (x # xs)) n = Float64s (replicate n x)"
| "constant_column (Strings (x # xs)) n = Strings (replicate n x)"
| "constant_column c n = c"

fun first_value_small :: "column \<Rightarrow> bool" where
  "first_value_small (Strings (s # ss)) = (length s < 2 ^ 31)"
| "first_value_small c = True"

lemma replicateValue_extract:
  assumes "extractValue data dt = Inr (v, cnt)" and "first_value_small data"
  shows "length v < 2 ^ 31 \<and> replicateValue v dt (int n) = Inr (constant_column data n)"
  using assms
  by (cases "(data, dt)" rule: extractValue.cases; cases data)
     (auto simp: replicate_rows_def get64_put64 [where rest = "[]", simplified]
        get32_put32 [where rest = "[]", simplified] split: list.splits)

lemma Constant_Decode_page:
  assumes "length v < 2 ^ 31"
  shows "Constant_Decode (put32 c @ put32 (word_of_nat (length v)) @ v) dt rows = replicateValue v dt rows"
proof -
  have "put32 c \<noteq> []"
    using length_put32 [of c] by fastforce
  moreover have "ReadFull (length v) v = Inr (v, [])"
    using ReadFull_append [of v "length v" "[]"] by simp
  ultimately show ?thesis
    using assms by (simp add: Constant_Decode_def sint32_of_nat)
qed

lemma Constant_Decode_Encode:
  assumes "Constant_Encode data dt = Inr page" and "first_value_small data"
  shows "Constant_Decode page dt (int n) = Inr (constant_column data n)"
proof -
  obtain v cnt where v: "extractValue data dt = Inr (v, cnt)"
    and page: "page = put32 (word_of_nat cnt) @ put32 (word_of_nat (length v)) @ v"
    using assms(1) by (auto simp: Constant_Encode_def split: sum.splits)
  have "length v < 2 ^ 31" "replicateValue v dt (int n) = Inr (constant_column data n)"
    using replicateValue_extract [OF v assms(2)] by blast+
  then show ?thesis
    by (simp add: page Constant_Decode_page)
qed

section \<open>Properties\<close>

text \<open>
  C39: whenever \<open>ConstantEncoder.Encode\<close> accepts a column, decoding its page with a row count
  of \<open>n\<close> gives \<open>n\<close> copies of the column's first value: the encoder restores exactly the columns
  whose values are identical, and it does not notice the others.
\<close>

theorem Constant_decode_encode:
  assumes "Constant_Encode data dt = Inr page" and "first_value_small data"
  shows "Constant_Decode page dt (int n) = Inr (constant_column data n)"
  using assms by (rule Constant_Decode_Encode)

theorem Constant_decode_encode_witness:
  "Constant_Decode (put32 2 @ put32 8 @ put64 5) TypeInt64 (int 2) = Inr (Int64s [5, 5])"
  using Constant_decode_encode [of "Int64s [5, 6]" TypeInt64 "put32 2 @ put32 8 @ put64 5" 2]
  by (simp add: Constant_Encode_def numeral_2_eq_2)

end
