(* ===== verification/GoFloat.thy ===== *)
theory GoFloat
  imports EncodeTypes
begin

text \<open>
  Go's \<open>float32\<close> and \<open>float64\<close>: IEEE 754 binary32 and binary64 with rounding to nearest even,
  computed on the bit patterns. A pattern decodes to an exact dyadic value; an operation computes
  the exact result (or, for division and the square root, enough leading bits and a sticky bit)
  and rounds once. Products and sums are rounded separately, as the amd64 compiler does; NaNs
  produced by arithmetic are the canonical quiet NaN, as nothing in the program reads a payload.
\<close>

section \<open>Exact values\<close>

text \<open>\<open>FFin s m e\<close> is the number \<open>m * 2 ^ e\<close>, negated when \<open>s\<close>.\<close>

datatype fp = FNaN | FInf bool | FFin bool nat int

fun bitlen :: "nat \<Rightarrow> nat" where
  "bitlen n = (if n = 0 then 0 else Suc (bitlen (n div 2)))"

declare bitlen.simps [simp del]

text \<open>Division by \<open>2 ^ k\<close> rounded to nearest, ties to even.\<close>

definition rne :: "nat \<Rightarrow> nat \<Rightarrow> nat" where
  "rne m k =
     (let d = m div 2 ^ k; r = m mod 2 ^ k in
      if 2 * r > 2 ^ k \<or> (2 * r = 2 ^ k \<and> odd d) then Suc d else d)"

section \<open>Bit patterns\<close>

text \<open>
  A format has \<open>mb\<close> fraction bits and \<open>ew\<close> exponent bits. \<open>emin\<close> is the exponent of the last
  place of the subnormal numbers.
\<close>

definition fp_emin :: "nat \<Rightarrow> nat \<Rightarrow> int" where
  "fp_emin mb ew = 2 - 2 ^ (ew - 1) - int mb"

definition fp_inf_bits :: "nat \<Rightarrow> nat \<Rightarrow> nat" where
  "fp_inf_bits mb ew = (2 ^ ew - 1) * 2 ^ mb"

definition decode_bits :: "nat \<Rightarrow> nat \<Rightarrow> nat \<Rightarrow> fp" where
  "decode_bits mb ew n =
     (let frac = n mod 2 ^ mb; ex = n div 2 ^ mb mod 2 ^ ew; s = odd (n div 2 ^ (mb + ew)) in
      if ex = 2 ^ ew - 1 then (if frac = 0 then FInf s else FNaN)
      else if ex = 0 then FFin s frac (fp_emin mb ew)
      else FFin s (2 ^ mb + frac) (fp_emin mb ew + int ex - 1))"

text \<open>
  The magnitude bits of \<open>m * 2 ^ e\<close>: \<open>q\<close> is the exponent of the last place of the result. A carry
  out of the rounded significand moves into the exponent field by itself; an overflow gives the
  bits of infinity.
\<close>

definition encode_mag :: "nat \<Rightarrow> nat \<Rightarrow> nat \<Rightarrow> int \<Rightarrow> nat" where
  "encode_mag mb ew m e =
     (if m = 0 then 0
      else
        let q = max (int (bitlen m) + e - int (mb + 1)) (fp_emin mb ew);
            m' = (if q \<le> e then m * 2 ^ nat (e - q) else rne m (nat (q - e)))
        in min (nat (q - fp_emin mb ew) * 2 ^ mb + m') (fp_inf_bits mb ew))"

definition sign_bits :: "nat \<Rightarrow> nat \<Rightarrow> bool \<Rightarrow> nat" where
  "sign_bits mb ew s = (if s then 2 ^ (mb + ew) else 0)"

fun encode_bits :: "nat \<Rightarrow> nat \<Rightarrow> fp \<Rightarrow> nat" where
  "encode_bits mb ew FNaN = fp_inf_bits mb ew + 2 ^ (mb - 1)"
| "encode_bits mb ew (FInf s) = sign_bits mb ew s + fp_inf_bits mb ew"
| "encode_bits mb ew (FFin s m e) = sign_bits mb ew s + encode_mag mb ew m e"

section \<open>Arithmetic on exact values\<close>

definition signed_mant :: "bool \<Rightarrow> nat \<Rightarrow> int" where
  "signed_mant s m = (if s then - int m else int m)"

fun fp_neg :: "fp \<Rightarrow> fp" where
  "fp_neg FNaN = FNaN"
| "fp_neg (FInf s) = FInf (\<not> s)"
| "fp_neg (FFin s m e) = FFin (\<not> s) m e"

text \<open>An exact zero sum is negative only when both operands are negative zeros.\<close>

definition fp_add_fin :: "bool \<Rightarrow> nat \<Rightarrow> int \<Rightarrow> bool \<Rightarrow> nat \<Rightarrow> int \<Rightarrow> fp" where
  "fp_add_fin s1 m1 e1 s2 m2 e2 =
     (let e = min e1 e2;
          t = signed_mant s1 m1 * 2 ^ nat (e1 - e) + signed_mant s2 m2 * 2 ^ nat (e2 - e)
      in if t = 0 then FFin (s1 \<and> s2) 0 0 else FFin (t < 0) (nat \<bar>t\<bar>) e)"

fun fp_add :: "fp \<Rightarrow> fp \<Rightarrow> fp" where
  "fp_add FNaN y = FNaN"
| "fp_add x FNaN = FNaN"
| "fp_add (FInf s) (FInf t) = (if s = t then FInf s else FNaN)"
| "fp_add (FInf s) (FFin t m e) = FInf s"
| "fp_add (FFin s m e) (FInf t) = FInf t"
| "fp_add (FFin s1 m1 e1) (FFin s2 m2 e2) = fp_add_fin s1 m1 e1 s2 m2 e2"

fun fp_mul :: "fp \<Rightarrow> fp \<Rightarrow> fp" where
  "fp_mul FNaN y = FNaN"
| "fp_mul x FNaN = FNaN"
| "fp_mul (FInf s) (FInf t) = FInf (s \<noteq> t)"
| "fp_mul (FInf s) (FFin t m e) = (if m = 0 then FNaN else FInf (s \<noteq> t))"
| "fp_mul (FFin s m e) (FInf t) = (if m = 0 then FNaN else FInf (s \<noteq> t))"
| "fp_mul (FFin s1 m1 e1) (FFin s2 m2 e2) = FFin (s1 \<noteq> s2) (m1 * m2) (e1 + e2)"

text \<open>The quotient gets two bits more than the significand, and a sticky bit below them.\<close>

definition fp_div_fin :: "nat \<Rightarrow> bool \<Rightarrow> nat \<Rightarrow> int \<Rightarrow> bool \<Rightarrow> nat \<Rightarrow> int \<Rightarrow> fp" where
  "fp_div_fin mb s1 m1 e1 s2 m2 e2 =
     (let k = mb + 3 + bitlen m2; d = m1 * 2 ^ k div m2; r = m1 * 2 ^ k mod m2
      in FFin (s1 \<noteq> s2) (2 * d + (if r = 0 then 0 else 1)) (e1 - e2 - int k - 1))"

fun fp_div :: "nat \<Rightarrow> fp \<Rightarrow> fp \<Rightarrow> fp" where
  "fp_div mb FNaN y = FNaN"
| "fp_div mb x FNaN = FNaN"
| "fp_div mb (FInf s) (FInf t) = FNaN"
| "fp_div mb (FInf s) (FFin t m e) = FInf (s \<noteq> t)"
| "fp_div mb (FFin s m e) (FInf t) = FFin (s \<noteq> t) 0 0"
| "fp_div mb (FFin s1 m1 e1) (FFin s2 m2 e2) =
     (if m2 = 0 then (if m1 = 0 then FNaN else FInf (s1 \<noteq> s2))
      else if m1 = 0 then FFin (s1 \<noteq> s2) 0 0
      else fp_div_fin mb s1 m1 e1 s2 m2 e2)"

fun isqrt :: "nat \<Rightarrow> nat" where
  "isqrt n =
     (if n = 0 then 0
      else let r = 2 * isqrt (n div 4) in if Suc r * Suc r \<le> n then Suc r else r)"

declare isqrt.simps [simp del]

text \<open>The radicand is scaled to an even exponent and at least \<open>2 * (mb + 3)\<close> bits.\<close>

fun fp_sqrt :: "nat \<Rightarrow> fp \<Rightarrow> fp" where
  "fp_sqrt mb FNaN = FNaN"
| "fp_sqrt mb (FInf s) = (if s then FNaN else FInf False)"
| "fp_sqrt mb (FFin s m e) =
     (if m = 0 then FFin s 0 0
      else if s then FNaN
      else
        let k = 2 * (mb + 3) + nat ((e - 2 * int (mb + 3)) mod 2);
            n = m * 2 ^ k; r = isqrt n
        in FFin False (2 * r + (if r * r = n then 0 else 1)) ((e - int k) div 2 - 1))"

section \<open>float64 and float32\<close>

definition f64_dec :: "f64 \<Rightarrow> fp" where
  "f64_dec w = decode_bits 52 11 (unat w)"

definition f64_enc :: "fp \<Rightarrow> f64" where
  "f64_enc x = word_of_nat (encode_bits 52 11 x)"

definition f32_dec :: "f32 \<Rightarrow> fp" where
  "f32_dec w = decode_bits 23 8 (unat w)"

definition f32_enc :: "fp \<Rightarrow> f32" where
  "f32_enc x = word_of_nat (encode_bits 23 8 x)"

definition f64_add :: "f64 \<Rightarrow> f64 \<Rightarrow> f64" where
  "f64_add a b = f64_enc (fp_add (f64_dec a) (f64_dec b))"

definition f64_sub :: "f64 \<Rightarrow> f64 \<Rightarrow> f64" where
  "f64_sub a b = f64_enc (fp_add (f64_dec a) (fp_neg (f64_dec b)))"

definition f64_mul :: "f64 \<Rightarrow> f64 \<Rightarrow> f64" where
  "f64_mul a b = f64_enc (fp_mul (f64_dec a) (f64_dec b))"

definition f64_div :: "f64 \<Rightarrow> f64 \<Rightarrow> f64" where
  "f64_div a b = f64_enc (fp_div 52 (f64_dec a) (f64_dec b))"

definition f64_sqrt :: "f64 \<Rightarrow> f64" where
  "f64_sqrt a = f64_enc (fp_sqrt 52 (f64_dec a))"

definition f64_neg :: "f64 \<Rightarrow> f64" where
  "f64_neg a = a + 2 ^ 63"

definition f32_add :: "f32 \<Rightarrow> f32 \<Rightarrow> f32" where
  "f32_add a b = f32_enc (fp_add (f32_dec a) (f32_dec b))"

definition f32_div :: "f32 \<Rightarrow> f32 \<Rightarrow> f32" where
  "f32_div a b = f32_enc (fp_div 23 (f32_dec a) (f32_dec b))"

definition int_fp :: "int \<Rightarrow> fp" where
  "int_fp n = FFin (n < 0) (nat \<bar>n\<bar>) 0"

definition f64_of_int :: "int \<Rightarrow> f64" where
  "f64_of_int n = f64_enc (int_fp n)"

definition f32_of_int :: "int \<Rightarrow> f32" where
  "f32_of_int n = f32_enc (int_fp n)"

definition f64_of_f32 :: "f32 \<Rightarrow> f64" where
  "f64_of_f32 a = f64_enc (f32_dec a)"

text \<open>
  Comparisons: a NaN compares false with everything, and the two zeros are equal. Otherwise the
  order of the numbers is the order of the magnitude bits, reversed for negative numbers.
\<close>

definition f64_isnan :: "f64 \<Rightarrow> bool" where
  "f64_isnan a \<longleftrightarrow> fp_inf_bits 52 11 < unat a mod 2 ^ 63"

definition f64_key :: "f64 \<Rightarrow> int" where
  "f64_key a =
     (if unat a < 2 ^ 63 then int (unat a) else - int (unat a - 2 ^ 63))"

definition f64_lt :: "f64 \<Rightarrow> f64 \<Rightarrow> bool" where
  "f64_lt a b \<longleftrightarrow> \<not> f64_isnan a \<and> \<not> f64_isnan b \<and> f64_key a < f64_key b"

definition f64_eq :: "f64 \<Rightarrow> f64 \<Rightarrow> bool" where
  "f64_eq a b \<longleftrightarrow> \<not> f64_isnan a \<and> \<not> f64_isnan b \<and> f64_key a = f64_key b"

section \<open>Facts about encoding and decoding\<close>

fun fp_with_sign :: "bool \<Rightarrow> fp \<Rightarrow> fp" where
  "fp_with_sign s FNaN = FNaN"
| "fp_with_sign s (FInf t) = FInf s"
| "fp_with_sign s (FFin t m e) = FFin s m e"

fun fp_nonneg :: "fp \<Rightarrow> bool" where
  "fp_nonneg FNaN = False"
| "fp_nonneg (FInf s) = (\<not> s)"
| "fp_nonneg (FFin s m e) = (\<not> s)"

fun fp_finite :: "fp \<Rightarrow> bool" where
  "fp_finite (FFin s m e) = True"
| "fp_finite x = False"

lemma bitlen_0 [simp]: "bitlen 0 = 0"
  by (simp add: bitlen.simps)

lemma bitlen_bounds: "n \<noteq> 0 \<Longrightarrow> 2 ^ (bitlen n - 1) \<le> n \<and> n < 2 ^ bitlen n \<and> 0 < bitlen n"
proof (induction n rule: bitlen.induct)
  case (1 n)
  show ?case
  proof (cases "n div 2 = 0")
    case True
    with "1.prems" have "n = 1" by auto
    then show ?thesis by (simp add: bitlen.simps)
  next
    case False
    with 1 have IH: "2 ^ (bitlen (n div 2) - 1) \<le> n div 2" "n div 2 < 2 ^ bitlen (n div 2)"
        "0 < bitlen (n div 2)"
      by auto
    have "bitlen n = Suc (bitlen (n div 2))"
      using "1.prems" by (simp add: bitlen.simps [of n])
    moreover have "2 ^ bitlen (n div 2) = 2 * (2::nat) ^ (bitlen (n div 2) - 1)"
      using IH(3) by (simp flip: power_Suc)
    ultimately show ?thesis
      using IH by simp linarith
  qed
qed

lemma exp2_less_imp_less: "(2::nat) ^ a < 2 ^ b \<Longrightarrow> a < b"
  by (rule power_less_imp_less_exp [of "2::nat"]) simp

lemma bitlen_eqI:
  assumes "2 ^ k \<le> n" and "n < 2 ^ Suc k"
  shows "bitlen n = Suc k"
proof -
  have "n \<noteq> 0"
    using assms(1) by (cases n) auto
  then have b: "2 ^ (bitlen n - 1) \<le> n" "n < 2 ^ bitlen n" "0 < bitlen n"
    using bitlen_bounds by blast+
  have "k < bitlen n"
    using assms(1) b(2) by (rule exp2_less_imp_less [OF le_less_trans])
  moreover have "bitlen n - 1 < Suc k"
    using b(1) assms(2) by (rule exp2_less_imp_less [OF le_less_trans])
  ultimately show ?thesis
    using b(3) by linarith
qed

lemma bitlen_le:
  assumes "n < 2 ^ k"
  shows "bitlen n \<le> k"
proof (cases "n = 0")
  case True
  then show ?thesis by simp
next
  case False
  then have b: "2 ^ (bitlen n - 1) \<le> n" "0 < bitlen n"
    using bitlen_bounds by blast+
  have "bitlen n - 1 < k"
    using b(1) assms by (rule exp2_less_imp_less [OF le_less_trans])
  with b(2) show ?thesis by linarith
qed

locale fp_format =
  fixes mb :: nat and ew :: nat
  assumes mb_pos: "0 < mb" and ew_pos: "1 < ew"
begin

lemma inf_bits_less: "fp_inf_bits mb ew < 2 ^ (mb + ew)"
proof -
  have "(2 ^ ew - 1) * (2::nat) ^ mb < 2 ^ ew * 2 ^ mb"
    by (intro mult_strict_right_mono) simp_all
  then show ?thesis
    by (simp add: fp_inf_bits_def power_add mult.commute)
qed

lemma encode_mag_le: "encode_mag mb ew m e \<le> fp_inf_bits mb ew"
  by (simp add: encode_mag_def Let_def)

lemma encode_mag_less: "encode_mag mb ew m e < 2 ^ (mb + ew)"
  using encode_mag_le inf_bits_less by (rule le_less_trans)

lemma decode_sign:
  assumes "g < 2 ^ (mb + ew)"
  shows "decode_bits mb ew (sign_bits mb ew s + g) = fp_with_sign s (decode_bits mb ew g)"
proof (cases s)
  case True
  have 1: "(2 ^ (mb + ew) + g) mod 2 ^ mb = g mod 2 ^ mb"
    by (simp add: power_add)
  have "(2 ^ (mb + ew) + g) div 2 ^ mb = 2 ^ ew + g div 2 ^ mb"
    by (simp add: power_add)
  then have 2: "(2 ^ (mb + ew) + g) div 2 ^ mb mod 2 ^ ew = g div 2 ^ mb mod 2 ^ ew"
    by simp
  have 3: "(2 ^ (mb + ew) + g) div 2 ^ (mb + ew) = 1"
    using assms by (simp add: div_add_self1)
  show ?thesis
    unfolding decode_bits_def Let_def sign_bits_def by (simp add: True 1 2 3)
next
  case False
  have "g div 2 ^ (mb + ew) = 0"
    using assms by simp
  then show ?thesis
    unfolding decode_bits_def Let_def sign_bits_def by (simp add: False)
qed

lemma decode_inf: "decode_bits mb ew (fp_inf_bits mb ew) = FInf False"
  using inf_bits_less by (simp add: decode_bits_def fp_inf_bits_def)

lemma decode_nan: "decode_bits mb ew (encode_bits mb ew FNaN) = FNaN"
proof -
  have half: "2 ^ (mb - 1) < (2::nat) ^ mb"
    using mb_pos by simp
  then show ?thesis
    by (simp add: decode_bits_def fp_inf_bits_def)
qed

lemma decode_below_inf:
  assumes "g < fp_inf_bits mb ew"
  obtains m e where "decode_bits mb ew g = FFin False m e" "m = 0 \<longleftrightarrow> g = 0"
proof -
  have g: "g < 2 ^ (mb + ew)"
    using assms inf_bits_less by simp
  have "g div 2 ^ mb < 2 ^ ew - 1"
    using assms by (simp add: fp_inf_bits_def less_mult_imp_div_less)
  then have ex: "g div 2 ^ mb mod 2 ^ ew = g div 2 ^ mb" "g div 2 ^ mb \<noteq> 2 ^ ew - 1"
    by simp_all
  show thesis
  proof (cases "g div 2 ^ mb = 0")
    case True
    then have "g mod 2 ^ mb = g"
      by (simp add: div_eq_0_iff)
    with that show thesis
      using g ex True by (simp add: decode_bits_def)
  next
    case False
    then have "g \<noteq> 0" by (metis div_0)
    with that show thesis
      using g ex False by (simp add: decode_bits_def)
  qed
qed

lemma decode_encode_fin:
  "decode_bits mb ew (encode_bits mb ew (FFin s m e)) =
     fp_with_sign s (decode_bits mb ew (encode_mag mb ew m e))"
  by (simp add: decode_sign encode_mag_less)

lemma decode_mag_cases:
  obtains "decode_bits mb ew (encode_mag mb ew m e) = FInf False"
  | m' e' where "decode_bits mb ew (encode_mag mb ew m e) = FFin False m' e'"
      "m' = 0 \<longleftrightarrow> encode_mag mb ew m e = 0"
proof (cases "encode_mag mb ew m e = fp_inf_bits mb ew")
  case True
  with that(1) show thesis by (simp add: decode_inf)
next
  case False
  then have "encode_mag mb ew m e < fp_inf_bits mb ew"
    using encode_mag_le [of m e] by simp
  then show thesis
    by (rule decode_below_inf) (rule that(2))
qed

lemma encode_bits_less: "encode_bits mb ew x < 2 ^ (mb + ew + 1)"
proof -
  have two: "(2::nat) ^ (mb + ew + 1) = 2 ^ (mb + ew) + 2 ^ (mb + ew)"
    by simp
  have half: "(2::nat) ^ (mb - 1) \<le> 2 ^ (mb + ew)"
    by (intro power_increasing) auto
  have sign: "sign_bits mb ew s \<le> 2 ^ (mb + ew)" for s
    by (simp add: sign_bits_def)
  show ?thesis
  proof (cases x)
    case FNaN
    show ?thesis
      unfolding FNaN encode_bits.simps two using half inf_bits_less by linarith
  next
    case (FInf s)
    show ?thesis
      unfolding FInf encode_bits.simps two using sign [of s] inf_bits_less by linarith
  next
    case (FFin s m e)
    show ?thesis
      unfolding FFin encode_bits.simps two using sign [of s] encode_mag_less [of m e] by linarith
  qed
qed

lemma nonneg_rounded: "fp_nonneg x \<Longrightarrow> fp_nonneg (decode_bits mb ew (encode_bits mb ew x))"
proof (cases x)
  case (FFin s m e)
  assume "fp_nonneg x"
  with FFin show ?thesis
    by (cases rule: decode_mag_cases [of m e]) (simp_all add: decode_encode_fin del: encode_bits.simps)
qed (simp_all add: sign_bits_def decode_inf)

lemma nan_rounded: "decode_bits mb ew (encode_bits mb ew x) = FNaN \<longleftrightarrow> x = FNaN"
proof (cases x)
  case (FFin s m e)
  then show ?thesis
    by (cases rule: decode_mag_cases [of m e]) (simp_all add: decode_encode_fin del: encode_bits.simps)
next
  case (FInf s)
  then show ?thesis
    using decode_sign [OF inf_bits_less, of s] by (simp add: decode_inf)
next
  case FNaN
  then show ?thesis
    using decode_nan by simp
qed

lemma zero_rounded: "decode_bits mb ew (encode_bits mb ew (FFin False 0 e)) = FFin False 0 (fp_emin mb ew)"
  using ew_pos one_less_power [of "2::nat" ew]
  by (simp add: encode_mag_def sign_bits_def decode_bits_def)

end

interpretation b64: fp_format 52 11 by unfold_locales simp_all

interpretation b32: fp_format 23 8 by unfold_locales simp_all

end
