(* ===== verification/GoSort.thy ===== *)
theory GoSort
  imports Prelude
begin

text \<open>
  \<open>sort.Slice\<close> of Go's standard library. It is documented to sort with a comparison that is a
  strict weak order, and documented as not stable; its algorithm changed between releases. So the
  model takes the sorter as a parameter: given the outcome of \<open>less(i, j)\<close> on the original
  positions and the length, it returns the order in which the elements end up. \<open>sorter_ok\<close> is the
  documented contract, and every theorem holds for every sorter that meets it.
\<close>

type_synonym sorter = "(nat \<Rightarrow> nat \<Rightarrow> bool) \<Rightarrow> nat \<Rightarrow> nat list"

definition sort_Slice :: "sorter \<Rightarrow> ('a \<Rightarrow> 'a \<Rightarrow> bool) \<Rightarrow> 'a list \<Rightarrow> 'a list" where
  "sort_Slice srt lss xs = map (\<lambda>i. xs ! i) (srt (\<lambda>i j. lss (xs ! i) (xs ! j)) (length xs))"

definition strict_weak :: "(nat \<Rightarrow> nat \<Rightarrow> bool) \<Rightarrow> nat \<Rightarrow> bool" where
  "strict_weak lt n \<longleftrightarrow>
     (\<forall>i<n. \<not> lt i i) \<and>
     (\<forall>i<n. \<forall>j<n. \<forall>k<n. lt i j \<longrightarrow> lt j k \<longrightarrow> lt i k) \<and>
     (\<forall>i<n. \<forall>j<n. \<forall>k<n. \<not> lt i j \<longrightarrow> \<not> lt j k \<longrightarrow> \<not> lt i k)"

locale go_sorter =
  fixes srt :: sorter
  assumes sorter_perm: "mset (srt lt n) = mset [0..<n]"
    and sorter_sorted: "strict_weak lt n \<Longrightarrow> sorted_wrt (\<lambda>i j. \<not> lt j i) (srt lt n)"
begin

lemma set_srt [simp]: "set (srt lt n) = {..<n}"
  using sorter_perm [of lt n] by (metis atLeast0LessThan atLeast_upt set_mset_mset)

lemma length_srt [simp]: "length (srt lt n) = n"
  using sorter_perm [of lt n] by (metis diff_zero length_upt size_mset)

lemma mset_sort_Slice [simp]: "mset (sort_Slice srt lss xs) = mset xs"
proof -
  have "mset (sort_Slice srt lss xs) = image_mset (\<lambda>i. xs ! i) (mset [0..<length xs])"
    unfolding sort_Slice_def mset_map sorter_perm ..
  also have "\<dots> = mset xs"
    by (simp only: mset_map [symmetric] map_nth)
  finally show ?thesis .
qed

lemma set_sort_Slice [simp]: "set (sort_Slice srt lss xs) = set xs"
  by (metis mset_sort_Slice set_mset_mset)

lemma length_sort_Slice [simp]: "length (sort_Slice srt lss xs) = length xs"
  by (metis mset_sort_Slice size_mset)

text \<open>Sorting by a comparison that agrees with a numeric key on the elements at hand.\<close>

lemma sorted_sort_Slice:
  fixes key :: "'a \<Rightarrow> int"
  assumes "\<And>x y. x \<in> set xs \<Longrightarrow> y \<in> set xs \<Longrightarrow> lss x y \<longleftrightarrow> key x < key y"
  shows "sorted (map key (sort_Slice srt lss xs))"
proof -
  let ?lt = "\<lambda>i j. lss (xs ! i) (xs ! j)"
  let ?n = "length xs"
  have lt: "i < ?n \<Longrightarrow> j < ?n \<Longrightarrow> ?lt i j \<longleftrightarrow> key (xs ! i) < key (xs ! j)" for i j
    using assms by simp
  have "strict_weak ?lt ?n"
    unfolding strict_weak_def using lt by auto
  then have "sorted_wrt (\<lambda>i j. \<not> ?lt j i) (srt ?lt ?n)"
    by (rule sorter_sorted)
  then have "sorted_wrt (\<lambda>i j. key (xs ! i) \<le> key (xs ! j)) (srt ?lt ?n)"
    by (rule sorted_wrt_mono_rel [rotated]) (auto simp: lt not_less)
  then show ?thesis
    by (simp add: sort_Slice_def sorted_wrt_map comp_def)
qed

text \<open>On integers the result is the sorted list, whatever the sorter.\<close>

lemma sort_Slice_int: "sort_Slice srt (<) xs = sort (xs :: int list)"
proof (rule properties_for_sort [symmetric])
  show "mset (sort_Slice srt (<) xs) = mset xs"
    by simp
  show "sorted (sort_Slice srt (<) xs)"
    using sorted_sort_Slice [of xs "(<)" "\<lambda>x. x"] by simp
qed

end

definition sorter_ok :: "sorter \<Rightarrow> bool" where
  "sorter_ok srt \<longleftrightarrow>
     (\<forall>lt n. mset (srt lt n) = mset [0..<n] \<and>
        (strict_weak lt n \<longrightarrow> sorted_wrt (\<lambda>i j. \<not> lt j i) (srt lt n)))"

lemma sorter_ok_iff: "sorter_ok srt \<longleftrightarrow> go_sorter srt"
  by (auto simp: sorter_ok_def go_sorter_def)

section \<open>Insertion sort\<close>

text \<open>
  The loop \<open>insertionSort_func\<close> that \<open>sort.Slice\<close> runs on slices of at most twelve elements: each
  element moves left past the elements it is less than. The sorted prefix is kept reversed.
\<close>

fun insert_back :: "('a \<Rightarrow> 'a \<Rightarrow> bool) \<Rightarrow> 'a \<Rightarrow> 'a list \<Rightarrow> 'a list" where
  "insert_back lt x [] = [x]"
| "insert_back lt x (y # ys) = (if lt x y then y # insert_back lt x ys else x # y # ys)"

fun insertion_loop :: "('a \<Rightarrow> 'a \<Rightarrow> bool) \<Rightarrow> 'a list \<Rightarrow> 'a list \<Rightarrow> 'a list" where
  "insertion_loop lt acc [] = rev acc"
| "insertion_loop lt acc (x # xs) = insertion_loop lt (insert_back lt x acc) xs"

definition insertion_sorter :: sorter where
  "insertion_sorter lt n = insertion_loop lt [] [0..<n]"

lemma mset_insert_back [simp]: "mset (insert_back lt x ys) = add_mset x (mset ys)"
  by (induction ys) auto

lemma set_insert_back [simp]: "set (insert_back lt x ys) = insert x (set ys)"
  by (metis mset_insert_back set_mset_add_mset_insert set_mset_mset)

lemma mset_insertion_loop: "mset (insertion_loop lt acc xs) = mset acc + mset xs"
  by (induction xs arbitrary: acc) auto

lemma sorted_insert_back:
  assumes "strict_weak lt n" and "x < n" and "\<forall>y \<in> set ys. y < n"
    and "sorted_wrt (\<lambda>p q. \<not> lt p q) ys"
  shows "sorted_wrt (\<lambda>p q. \<not> lt p q) (insert_back lt x ys)"
  using assms(3,4)
proof (induction ys)
  case Nil
  show ?case by simp
next
  case (Cons y ys)
  have asym: "lt x y \<Longrightarrow> \<not> lt y x"
    using assms(1,2) Cons.prems(1) unfolding strict_weak_def by (metis list.set_intros(1))
  have "\<not> lt x y \<Longrightarrow> \<forall>z \<in> set ys. \<not> lt x z"
    using assms(1,2) Cons.prems unfolding strict_weak_def
    by (metis list.set_intros(1) list.set_intros(2) sorted_wrt.simps(2))
  with asym Cons show ?case by auto
qed

lemma sorted_insertion_loop:
  assumes "strict_weak lt n" and "\<forall>y \<in> set acc \<union> set xs. y < n"
    and "sorted_wrt (\<lambda>p q. \<not> lt p q) acc"
  shows "sorted_wrt (\<lambda>i j. \<not> lt j i) (insertion_loop lt acc xs)"
  using assms(2,3)
proof (induction xs arbitrary: acc)
  case Nil
  then show ?case by (simp add: sorted_wrt_rev)
next
  case (Cons x xs)
  then show ?case
    using sorted_insert_back [OF assms(1), of x acc] by simp
qed

interpretation ins: go_sorter insertion_sorter
proof unfold_locales
  show "mset (insertion_sorter lt n) = mset [0..<n]" for lt n
    by (simp add: insertion_sorter_def mset_insertion_loop)
  show "sorted_wrt (\<lambda>i j. \<not> lt j i) (insertion_sorter lt n)" if "strict_weak lt n" for lt n
    using that by (simp add: insertion_sorter_def sorted_insertion_loop)
qed

lemma sorter_ok_insertion: "sorter_ok insertion_sorter"
  by (simp add: sorter_ok_iff ins.go_sorter_axioms)

end
