(* ===== verification/Distance.thy ===== *)
theory Distance
  imports GoFloat GoSort
begin

text \<open>
  \<^verbatim>\<open>src/distance\<close>: the distance of two \<open>float32\<close> vectors, computed in \<open>float64\<close>, and the
  selection of the \<open>k\<close> best results.
\<close>

section \<open>Definitions\<close>

datatype DistanceMetric =
  DistanceCosine | DistanceEuclidean | DistanceDotProduct | DistanceOther int

record SearchResult =
  RowID :: int
  Score :: f64

text \<open>The loops \<open>for i := range a\<close>; the lengths are equal when they run.\<close>

fun cosine_loop :: "f32 list \<Rightarrow> f32 list \<Rightarrow> f64 \<Rightarrow> f64 \<Rightarrow> f64 \<Rightarrow> f64 \<times> f64 \<times> f64" where
  "cosine_loop (x # a) (y # b) dot normA normB =
     (let af = f64_of_f32 x; bf = f64_of_f32 y in
      cosine_loop a b (f64_add dot (f64_mul af bf)) (f64_add normA (f64_mul af af))
        (f64_add normB (f64_mul bf bf)))"
| "cosine_loop a b dot normA normB = (dot, normA, normB)"

fun euclidean_loop :: "f32 list \<Rightarrow> f32 list \<Rightarrow> f64 \<Rightarrow> f64" where
  "euclidean_loop (x # a) (y # b) acc =
     (let d = f64_sub (f64_of_f32 x) (f64_of_f32 y) in
      euclidean_loop a b (f64_add acc (f64_mul d d)))"
| "euclidean_loop a b acc = acc"

fun dot_loop :: "f32 list \<Rightarrow> f32 list \<Rightarrow> f64 \<Rightarrow> f64" where
  "dot_loop (x # a) (y # b) dot =
     dot_loop a b (f64_add dot (f64_mul (f64_of_f32 x) (f64_of_f32 y)))"
| "dot_loop a b dot = dot"

definition Distance :: "f32 list \<Rightarrow> f32 list \<Rightarrow> DistanceMetric \<Rightarrow> f64 res" where
  "Distance a b metric =
     (if length a \<noteq> length b then Inl (DistErr ErrLengthMismatch)
      else case metric of
        DistanceCosine \<Rightarrow>
          (case cosine_loop a b 0 0 0 of (dot, normA, normB) \<Rightarrow>
             if f64_eq normA 0 \<or> f64_eq normB 0 then Inl (DistErr ErrZeroNorm)
             else
               let sim = f64_div dot (f64_mul (f64_sqrt normA) (f64_sqrt normB))
               in Inr (f64_sub (f64_of_int 1) sim))
      | DistanceEuclidean \<Rightarrow> Inr (f64_sqrt (euclidean_loop a b 0))
      | DistanceDotProduct \<Rightarrow> Inr (f64_neg (dot_loop a b 0))
      | DistanceOther n \<Rightarrow> Inl (DistErr (ErrUnknownMetric n)))"

fun Distances :: "f32 list \<Rightarrow> f32 list list \<Rightarrow> DistanceMetric \<Rightarrow> f64 list res" where
  "Distances query [] metric = Inr []"
| "Distances query (v # vectors) metric =
     (case Distance query v metric of
        Inl e \<Rightarrow> Inl e
      | Inr d \<Rightarrow>
          (case Distances query vectors metric of
             Inl e \<Rightarrow> Inl e
           | Inr ds \<Rightarrow> Inr (d # ds)))"

text \<open>The comparison passed to \<open>sort.Slice\<close> everywhere in the program.\<close>

definition score_less :: "SearchResult \<Rightarrow> SearchResult \<Rightarrow> bool" where
  "score_less r s \<longleftrightarrow> f64_lt (Score r) (Score s)"

definition TopK :: "sorter \<Rightarrow> SearchResult list \<Rightarrow> int \<Rightarrow> SearchResult list" where
  "TopK srt results k =
     (if k \<le> 0 \<or> results = [] then []
      else
        let cp = sort_Slice srt score_less results;
            k' = (if k > int (length cp) then int (length cp) else k)
        in take (nat k') cp)"

section \<open>Symmetry\<close>

lemma fp_add_commute: "fp_add x y = fp_add y x"
  by (cases x; cases y) (auto simp: fp_add_fin_def Let_def min.commute add.commute)

lemma fp_mul_commute: "fp_mul x y = fp_mul y x"
  by (cases x; cases y) (auto simp: mult.commute add.commute)

lemma f64_mul_commute: "f64_mul a b = f64_mul b a"
  by (simp add: f64_mul_def fp_mul_commute)

lemma f64_dec_enc: "f64_dec (f64_enc x) = decode_bits 52 11 (encode_bits 52 11 x)"
  using b64.encode_bits_less [of x] by (simp add: f64_dec_def f64_enc_def unat_of_nat)

text \<open>Swapping a subtraction changes at most the sign, which a square does not see.\<close>

fun fp_abs :: "fp \<Rightarrow> fp" where
  "fp_abs FNaN = FNaN"
| "fp_abs (FInf s) = FInf False"
| "fp_abs (FFin s m e) = FFin False m e"

lemma fp_mul_self_abs: "fp_mul x x = fp_mul (fp_abs x) (fp_abs x)"
  by (cases x) auto

lemma fp_abs_with_sign [simp]: "fp_abs (fp_with_sign s x) = fp_abs x"
  by (cases x) auto

lemma fp_abs_rounded:
  "fp_abs x = fp_abs y \<Longrightarrow>
     fp_abs (decode_bits 52 11 (encode_bits 52 11 x)) = fp_abs (decode_bits 52 11 (encode_bits 52 11 y))"
  by (cases x; cases y)
    (simp_all add: b64.decode_encode_fin b64.decode_sign [OF b64.inf_bits_less] del: encode_bits.simps(3))

lemma fp_abs_sub: "fp_abs (fp_add x (fp_neg y)) = fp_abs (fp_add y (fp_neg x))"
proof (cases x; cases y)
  fix s1 m1 e1 s2 m2 e2
  assume xy: "x = FFin s1 m1 e1" "y = FFin s2 m2 e2"
  have "signed_mant (\<not> s) m = - signed_mant s m" for s m
    by (simp add: signed_mant_def)
  then show ?thesis
    unfolding xy by (simp add: fp_add_fin_def Let_def min.commute abs_minus_commute)
qed auto

lemma f64_sub_square: "f64_mul (f64_sub a b) (f64_sub a b) = f64_mul (f64_sub b a) (f64_sub b a)"
proof -
  have "fp_abs (f64_dec (f64_sub a b)) = fp_abs (f64_dec (f64_sub b a))"
    unfolding f64_sub_def f64_dec_enc by (intro fp_abs_rounded fp_abs_sub)
  then show ?thesis
    unfolding f64_mul_def by (metis fp_mul_self_abs)
qed

lemma cosine_loop_swap:
  "cosine_loop b a dot nb na = (case cosine_loop a b dot na nb of (d, p, q) \<Rightarrow> (d, q, p))"
  by (induction a b dot na nb rule: cosine_loop.induct) (simp_all add: Let_def f64_mul_commute)

lemma euclidean_loop_swap: "euclidean_loop b a acc = euclidean_loop a b acc"
  by (induction a b acc rule: euclidean_loop.induct)
     (simp_all add: Let_def f64_sub_square [of "f64_of_f32 _" "f64_of_f32 _"])

lemma dot_loop_swap: "dot_loop b a dot = dot_loop a b dot"
  by (induction a b dot rule: dot_loop.induct) (simp_all add: f64_mul_commute)

lemma Distance_commute: "Distance a b metric = Distance b a metric"
proof (cases "length a = length b")
  case True
  then show ?thesis
    by (cases metric)
       (auto simp: Distance_def cosine_loop_swap [of b a] euclidean_loop_swap [of b a]
          dot_loop_swap [of b a] f64_mul_commute Let_def split: prod.splits)
next
  case False
  then show ?thesis by (simp add: Distance_def)
qed

section \<open>Range of the euclidean distance\<close>

lemma f64_dec_0 [simp]: "f64_dec 0 = FFin False 0 (fp_emin 52 11)"
  by (simp add: f64_dec_def decode_bits_def)

lemma f64_dec_rounded_nonneg: "fp_nonneg x \<Longrightarrow> fp_nonneg (f64_dec (f64_enc x))"
  unfolding f64_dec_enc by (rule b64.nonneg_rounded)

lemma fp_add_nonneg: "fp_nonneg x \<Longrightarrow> fp_nonneg y \<Longrightarrow> fp_nonneg (fp_add x y)"
proof (cases x; cases y)
  fix s1 m1 e1 s2 m2 e2
  assume *: "fp_nonneg x" "fp_nonneg y" "x = FFin s1 m1 e1" "y = FFin s2 m2 e2"
  have "\<not> int m1 * 2 ^ i + int m2 * 2 ^ j < 0" for i j
    by (simp add: not_less)
  with * show ?thesis
    by (simp add: fp_add_fin_def Let_def signed_mant_def)
qed auto

lemma fp_mul_self_nonneg: "x \<noteq> FNaN \<Longrightarrow> fp_nonneg (fp_mul x x)"
  by (cases x) auto

lemma fp_sqrt_nonneg: "fp_nonneg x \<Longrightarrow> fp_nonneg (fp_sqrt mb x)"
  by (cases x) (auto simp: Let_def)

text \<open>A vector without infinities and NaNs.\<close>

definition finite_vec :: "f32 list \<Rightarrow> bool" where
  "finite_vec v \<longleftrightarrow> (\<forall>x \<in> set v. fp_finite (f32_dec x))"

lemma f32_dec_bounds:
  assumes "f32_dec x = FFin s m e"
  shows "m < 2 ^ 24 \<and> e \<le> 104"
proof -
  have *: "decode_bits 23 8 n = FFin s m e \<Longrightarrow> m < 2 ^ 24 \<and> e \<le> 104" for n
  proof -
    assume d: "decode_bits 23 8 n = FFin s m e"
    have "n mod 2 ^ 23 < 2 ^ 23" "n div 2 ^ 23 mod 2 ^ 8 < 2 ^ 8"
      by simp_all
    with d show ?thesis
      unfolding decode_bits_def fp_emin_def Let_def by (auto split: if_splits)
  qed
  show ?thesis
    using * assms by (simp add: f32_dec_def)
qed

lemma rne_le: "rne m k \<le> Suc m"
  using div_le_dividend [of m "2 ^ k"] unfolding rne_def Let_def by (auto intro: le_SucI)

text \<open>A \<open>float32\<close> number is far below the overflow bound of \<open>float64\<close>.\<close>

lemma encode_mag_no_overflow:
  assumes m: "m < 2 ^ 24" and e: "e \<le> 104"
  shows "encode_mag 52 11 m e < fp_inf_bits 52 11"
proof (cases "m = 0")
  case True
  then show ?thesis by (simp add: encode_mag_def fp_inf_bits_def)
next
  case False
  define q where "q = max (int (bitlen m) + e - int (52 + 1)) (fp_emin 52 11)"
  define m' where "m' = (if q \<le> e then m * 2 ^ nat (e - q) else rne m (nat (q - e)))"
  have mag: "encode_mag 52 11 m e = min (nat (q - fp_emin 52 11) * 2 ^ 52 + m') (fp_inf_bits 52 11)"
    using False by (simp only: encode_mag_def Let_def q_def m'_def if_False)
  have len: "bitlen m \<le> 24"
    using m by (rule bitlen_le)
  have q: "nat (q - fp_emin 52 11) \<le> 1149"
    using len e by (simp add: q_def fp_emin_def)
  have "m' \<le> 2 ^ 53"
  proof (cases "q \<le> e")
    case True
    have le53: "bitlen m + nat (e - q) \<le> 53"
      using len True by (simp add: q_def)
    have "m * 2 ^ nat (e - q) \<le> 2 ^ bitlen m * 2 ^ nat (e - q)"
      using bitlen_bounds [OF False] by simp
    also have "\<dots> = 2 ^ (bitlen m + nat (e - q))"
      by (simp add: power_add)
    also have "\<dots> \<le> (2::nat) ^ 53"
      using le53 by (rule power_increasing) simp
    finally show ?thesis
      using True by (simp add: m'_def)
  next
    case False
    have "m' \<le> Suc m"
      using False by (simp add: m'_def rne_le)
    also have "Suc m \<le> 2 ^ 53"
      using m by simp
    finally show ?thesis .
  qed
  moreover have "nat (q - fp_emin 52 11) * 2 ^ 52 \<le> 1149 * 2 ^ 52"
    using q by (rule mult_le_mono1)
  ultimately have "nat (q - fp_emin 52 11) * 2 ^ 52 + m' < fp_inf_bits 52 11"
    by (simp add: fp_inf_bits_def)
  then show ?thesis
    by (simp only: mag min_less_iff_disj simp_thms)
qed

lemma f64_of_f32_finite:
  assumes "fp_finite (f32_dec x)"
  shows "fp_finite (f64_dec (f64_of_f32 x))"
proof -
  obtain s m e where x: "f32_dec x = FFin s m e"
    using assms by (cases "f32_dec x") auto
  then have "encode_mag 52 11 m e < fp_inf_bits 52 11"
    using f32_dec_bounds encode_mag_no_overflow by blast
  then obtain m' e' where "decode_bits 52 11 (encode_mag 52 11 m e) = FFin False m' e'"
    by (rule b64.decode_below_inf)
  then show ?thesis
    by (simp add: f64_of_f32_def x f64_dec_enc b64.decode_encode_fin del: encode_bits.simps)
qed

lemma fp_add_finite: "fp_finite x \<Longrightarrow> fp_finite y \<Longrightarrow> fp_finite (fp_add x (fp_neg y))"
  by (cases x; cases y) (auto simp: fp_add_fin_def Let_def)

lemma fp_finite_not_nan: "fp_finite x \<Longrightarrow> x \<noteq> FNaN"
  by auto

lemma f64_sub_not_nan:
  assumes "fp_finite (f64_dec a)" and "fp_finite (f64_dec b)"
  shows "f64_dec (f64_sub a b) \<noteq> FNaN"
  using fp_finite_not_nan [OF fp_add_finite [OF assms]]
  by (simp add: f64_sub_def f64_dec_enc b64.nan_rounded)

lemma f64_square_nonneg: "f64_dec a \<noteq> FNaN \<Longrightarrow> fp_nonneg (f64_dec (f64_mul a a))"
  by (simp add: f64_mul_def f64_dec_rounded_nonneg fp_mul_self_nonneg)

lemma f64_add_nonneg:
  "fp_nonneg (f64_dec a) \<Longrightarrow> fp_nonneg (f64_dec b) \<Longrightarrow> fp_nonneg (f64_dec (f64_add a b))"
  by (simp add: f64_add_def f64_dec_rounded_nonneg fp_add_nonneg)

lemma f64_sqrt_nonneg: "fp_nonneg (f64_dec a) \<Longrightarrow> fp_nonneg (f64_dec (f64_sqrt a))"
  by (simp add: f64_sqrt_def f64_dec_rounded_nonneg fp_sqrt_nonneg)

lemma finite_vec_Cons [simp]: "finite_vec (x # v) \<longleftrightarrow> fp_finite (f32_dec x) \<and> finite_vec v"
  by (simp add: finite_vec_def)

lemma euclidean_loop_nonneg:
  "finite_vec a \<Longrightarrow> finite_vec b \<Longrightarrow> fp_nonneg (f64_dec acc) \<Longrightarrow>
     fp_nonneg (f64_dec (euclidean_loop a b acc))"
  by (induction a b acc rule: euclidean_loop.induct)
     (simp_all add: Let_def f64_add_nonneg f64_square_nonneg f64_sub_not_nan f64_of_f32_finite)

text \<open>Reading the sign and the NaN test off the bits.\<close>

lemma decode_bits_nan:
  assumes "n < 2 ^ 64"
  shows "decode_bits 52 11 n = FNaN \<longleftrightarrow> fp_inf_bits 52 11 < n mod 2 ^ 63"
proof -
  define ex frac where "ex = n div 2 ^ 52 mod 2 ^ 11" and "frac = n mod 2 ^ 52"
  have "n mod (2 ^ 52 * 2 ^ 11) = 2 ^ 52 * ex + frac"
    unfolding ex_def frac_def by (rule mod_mult2_eq)
  then have n: "n mod 2 ^ 63 = 2 ^ 52 * ex + frac"
    by simp
  have "ex < 2 ^ 11" "frac < 2 ^ 52"
    by (simp_all add: ex_def frac_def)
  then have "fp_inf_bits 52 11 < 2 ^ 52 * ex + frac \<longleftrightarrow> ex = 2 ^ 11 - 1 \<and> frac \<noteq> 0"
    unfolding fp_inf_bits_def by auto
  then show ?thesis
    unfolding decode_bits_def n by (auto simp: Let_def ex_def frac_def)
qed

lemma f64_isnan_dec: "f64_isnan a \<longleftrightarrow> f64_dec a = FNaN"
  using decode_bits_nan [of "unat a"] unat_lt2p [of a] by (simp add: f64_isnan_def f64_dec_def)

lemma decode_bits_sign:
  assumes "fp_nonneg (decode_bits 52 11 n)" and "n < 2 ^ 64"
  shows "n < 2 ^ 63"
proof (rule ccontr)
  assume "\<not> n < 2 ^ 63"
  with assms(2) have "n div 2 ^ (52 + 11) = 1"
    by (simp add: div_nat_eqI)
  with assms(1) show False
    unfolding decode_bits_def Let_def by (auto split: if_splits)
qed

lemma fp_nonneg_key:
  assumes "fp_nonneg (f64_dec a)"
  shows "\<not> f64_isnan a" and "0 \<le> f64_key a"
proof -
  show "\<not> f64_isnan a"
    using assms by (auto simp: f64_isnan_dec)
  show "0 \<le> f64_key a"
    using decode_bits_sign [of "unat a"] assms unat_lt2p [of a] by (simp add: f64_key_def f64_dec_def)
qed

lemma Distance_euclidean_nonneg:
  assumes "finite_vec a" and "finite_vec b" and "Distance a b DistanceEuclidean = Inr d"
  shows "\<not> f64_isnan d \<and> 0 \<le> f64_key d"
proof -
  have "fp_nonneg (f64_dec d)"
    using assms by (auto simp: Distance_def f64_sqrt_nonneg euclidean_loop_nonneg split: if_splits)
  then show ?thesis
    using fp_nonneg_key by blast
qed

lemma f64_sub_self: "fp_finite (f64_dec a) \<Longrightarrow> f64_sub a a = 0"
  by (cases "f64_dec a")
     (auto simp: f64_sub_def fp_add_fin_def signed_mant_def f64_enc_def encode_mag_def sign_bits_def)

lemma f64_zero_ops [simp]: "f64_mul 0 0 = 0" "f64_add 0 0 = 0" "f64_sqrt 0 = 0"
  by (simp_all add: f64_mul_def f64_add_def f64_sqrt_def fp_add_fin_def signed_mant_def f64_enc_def
      encode_mag_def sign_bits_def)

lemma euclidean_loop_self: "finite_vec a \<Longrightarrow> euclidean_loop a a 0 = 0"
  by (induction a) (simp_all add: Let_def f64_sub_self f64_of_f32_finite)

lemma Distance_euclidean_self: "finite_vec a \<Longrightarrow> Distance a a DistanceEuclidean = Inr 0"
  by (simp add: Distance_def euclidean_loop_self)

section \<open>Selecting the best results\<close>

definition score_key :: "SearchResult \<Rightarrow> int" where
  "score_key r = f64_key (Score r)"

definition no_nan :: "SearchResult list \<Rightarrow> bool" where
  "no_nan rs \<longleftrightarrow> (\<forall>r \<in> set rs. \<not> f64_isnan (Score r))"

lemma score_less_key:
  "\<not> f64_isnan (Score r) \<Longrightarrow> \<not> f64_isnan (Score s) \<Longrightarrow> score_less r s \<longleftrightarrow> score_key r < score_key s"
  by (simp add: score_less_def score_key_def f64_lt_def)

lemma no_nan_mset: "mset rs = mset ss \<Longrightarrow> no_nan rs \<longleftrightarrow> no_nan ss"
  by (metis no_nan_def set_mset_mset)

lemma no_nan_append [simp]: "no_nan (rs @ ss) \<longleftrightarrow> no_nan rs \<and> no_nan ss"
  by (auto simp: no_nan_def)

context go_sorter
begin

lemma sorted_by_score: "no_nan rs \<Longrightarrow> sorted (map score_key (sort_Slice srt score_less rs))"
  by (rule sorted_sort_Slice) (auto simp: no_nan_def score_less_key)

lemma TopK_eq: "TopK srt rs k = take (nat k) (sort_Slice srt score_less rs)"
proof -
  have "rs = [] \<Longrightarrow> sort_Slice srt score_less rs = []"
    using length_sort_Slice [of score_less rs] by (metis length_0_conv)
  then show ?thesis
    by (auto simp: TopK_def Let_def)
qed

lemma length_TopK: "length (TopK srt rs k) = min (nat k) (length rs)"
  by (simp add: TopK_eq)

lemma TopK_subset: "mset (TopK srt rs k) \<subseteq># mset rs"
  using mset_subset_eq_add_left [of "mset (take (nat k) (sort_Slice srt score_less rs))"
      "mset (drop (nat k) (sort_Slice srt score_less rs))"]
  by (simp add: TopK_eq flip: mset_append)

lemma TopK_sorted: "no_nan rs \<Longrightarrow> sorted (map score_key (TopK srt rs k))"
  using sorted_by_score [of rs] by (simp add: TopK_eq sorted_wrt_take flip: take_map)

text \<open>The scores of the result are the \<open>k\<close> smallest ones, for every sorter.\<close>

lemma sorted_scores:
  assumes "no_nan rs"
  shows "map score_key (sort_Slice srt score_less rs) = sort (map score_key rs)"
  using sorted_by_score [OF assms] by (intro properties_for_sort [symmetric]) (simp_all add: mset_map)

lemma TopK_scores:
  assumes "no_nan rs"
  shows "map score_key (TopK srt rs k) = take (nat k) (sort (map score_key rs))"
  by (simp add: TopK_eq sorted_scores [OF assms] flip: take_map)

text \<open>What is left out is no better than anything returned.\<close>

lemma TopK_rest:
  assumes "no_nan rs"
  obtains rest where "mset rs = mset (TopK srt rs k) + mset rest"
    "\<forall>r \<in> set (TopK srt rs k). \<forall>s \<in> set rest. score_key r \<le> score_key s"
proof
  let ?ss = "sort_Slice srt score_less rs"
  show "mset rs = mset (TopK srt rs k) + mset (drop (nat k) ?ss)"
    by (simp add: TopK_eq flip: mset_append)
  have "sorted (map score_key (take (nat k) ?ss @ drop (nat k) ?ss))"
    using sorted_by_score [OF assms] by simp
  then show "\<forall>r \<in> set (TopK srt rs k). \<forall>s \<in> set (drop (nat k) ?ss). score_key r \<le> score_key s"
    unfolding map_append sorted_append by (simp add: TopK_eq)
qed

end

section \<open>Properties\<close>

text \<open>
  Every metric is symmetric bit for bit, errors included: the floating-point operations are
  those of IEEE 754, so exchanging the vectors cannot change the rounding.
\<close>

theorem Distance_symmetric: "Distance a b metric = Distance b a metric"
  by (rule Distance_commute)

text \<open>
  The Euclidean distance of a vector of finite components to itself is exactly zero, and the
  distance to any other vector is never negative (it may be an infinity when a square overflows).
\<close>

theorem Distance_euclidean:
  assumes "finite_vec a"
  shows "Distance a a DistanceEuclidean = Inr 0 \<and>
         (\<forall>b d. finite_vec b \<and> Distance a b DistanceEuclidean = Inr d \<longrightarrow> 0 \<le> f64_key d)"
  using Distance_euclidean_self [OF assms] Distance_euclidean_nonneg [of a] assms by blast

theorem Distance_euclidean_witness:
  "Distance [0x3F800000] [0x3F800000] DistanceEuclidean = Inr 0"
  using Distance_euclidean [of "[0x3F800000]"] by (simp add: finite_vec_def f32_dec_def decode_bits_def)

text \<open>
  C37: \<open>TopK\<close> returns the \<open>k\<close> best scores in ascending order for every sorting routine that
  sorts, stable or not, keeps only results it was given, and nothing it leaves out is better than
  anything it returns; NaN scores, which no order handles, are excluded.
\<close>

theorem TopK_correct:
  assumes "sorter_ok srt" and "no_nan rs"
  shows "map score_key (TopK srt rs k) = take (nat k) (sort (map score_key rs)) \<and>
         mset (TopK srt rs k) \<subseteq># mset rs \<and>
         (\<exists>rest. mset rs = mset (TopK srt rs k) + mset rest \<and>
            (\<forall>r \<in> set (TopK srt rs k). \<forall>s \<in> set rest. score_key r \<le> score_key s))"
proof -
  have srt: "go_sorter srt"
    using assms(1) by (simp add: sorter_ok_iff)
  show ?thesis
    using go_sorter.TopK_scores [OF srt assms(2)] go_sorter.TopK_subset [OF srt]
      go_sorter.TopK_rest [OF srt assms(2)] by metis
qed

theorem TopK_correct_witness:
  "map score_key (TopK insertion_sorter [\<lparr>RowID = 4, Score = 2\<rparr>, \<lparr>RowID = 5, Score = 1\<rparr>] 1) = [1]"
proof -
  let ?rs = "[\<lparr>RowID = 4, Score = 2\<rparr>, \<lparr>RowID = 5, Score = 1\<rparr>]"
  have "no_nan ?rs"
    by (simp add: no_nan_def f64_isnan_def f64_dec_def decode_bits_def fp_inf_bits_def)
  from TopK_correct [OF sorter_ok_insertion this, of 1] show ?thesis
    by (simp add: score_key_def f64_key_def)
qed

end
