(* ===== verification/FileFooter.thy ===== *)
theory FileFooter
  imports EncodeTypes
begin

text \<open>
  \<^verbatim>\<open>src/storage/file_footer.go\<close>: the 40-byte trailer of a data file. The fields are
  words of their Go width (the conversions between \<open>int64\<close> and \<open>uint64\<close> keep the bits).
\<close>

record FileFooter =
  ColumnMetadataOffset :: "64 word"
  ColumnMetadataOffsetTableOffset :: "64 word"
  GlobalBuffersOffsetTableOffset :: "64 word"
  NumGlobalBuffers :: "32 word"
  NumColumns :: "32 word"
  MajorVersion :: "16 word"
  MinorVersion :: "16 word"
  Magic :: "byte list"

definition MagicBytes :: "byte list" where
  "MagicBytes = bytes_of_string ''LANC''"

definition footerSize :: nat where
  "footerSize = 8 + 8 + 8 + 4 + 4 + 2 + 2 + 4"

definition NewFileFooter :: "32 word \<Rightarrow> FileFooter" where
  "NewFileFooter numColumns =
     \<lparr>ColumnMetadataOffset = 0, ColumnMetadataOffsetTableOffset = 0,
      GlobalBuffersOffsetTableOffset = 0, NumGlobalBuffers = 0, NumColumns = numColumns,
      MajorVersion = 2, MinorVersion = 1, Magic = MagicBytes\<rparr>"

text \<open>The array \<open>[4]byte\<close>: \<open>copy\<close> moves exactly its four bytes.\<close>

definition Footer_Serialize :: "FileFooter \<Rightarrow> byte list" where
  "Footer_Serialize f =
     put64 (ColumnMetadataOffset f) @ put64 (ColumnMetadataOffsetTableOffset f) @
     put64 (GlobalBuffersOffsetTableOffset f) @ put32 (NumGlobalBuffers f) @
     put32 (NumColumns f) @ put16 (MajorVersion f) @ put16 (MinorVersion f) @ Magic f"

definition DeserializeFooter :: "byte list \<Rightarrow> FileFooter res" where
  "DeserializeFooter data =
     (if length data < footerSize then Inl (StoErr ErrFooterShort)
      else
        let f = \<lparr>ColumnMetadataOffset = get64 data,
                 ColumnMetadataOffsetTableOffset = get64 (drop 8 data),
                 GlobalBuffersOffsetTableOffset = get64 (drop 16 data),
                 NumGlobalBuffers = get32 (drop 24 data),
                 NumColumns = get32 (drop 28 data),
                 MajorVersion = get16 (drop 32 data),
                 MinorVersion = get16 (drop 34 data),
                 Magic = take 4 (drop 36 data)\<rparr>
        in if Magic f \<noteq> MagicBytes then Inl (StoErr ErrFooterMagic) else Inr f)"

text \<open>
  \<open>WriteFooter\<close> appends to the writer, \<open>ReadFooter\<close> reads the last \<open>footerSize\<close> bytes of a file
  of the stated size. \<open>ReadAt\<close> fails when the file is shorter than it was said to be.
\<close>

definition WriteFooter :: "FileFooter \<Rightarrow> byte list \<Rightarrow> byte list" where
  "WriteFooter f w = w @ Footer_Serialize f"

definition ReadFooter :: "byte list \<Rightarrow> int \<Rightarrow> FileFooter res" where
  "ReadFooter file fileSize =
     (if fileSize < int footerSize then Inl (StoErr ErrFileTooSmall)
      else
        let off = nat (fileSize - int footerSize) in
        if length file < off + footerSize then Inl (StoErr ErrShortRead)
        else DeserializeFooter (take footerSize (drop off file)))"

section \<open>Round trips\<close>

definition footer_ok :: "FileFooter \<Rightarrow> bool" where
  "footer_ok f \<longleftrightarrow> Magic f = MagicBytes"

lemma length_MagicBytes [simp]: "length MagicBytes = 4"
  by (simp add: MagicBytes_def)

lemma length_Footer_Serialize: "length (Magic f) = 4 \<Longrightarrow> length (Footer_Serialize f) = footerSize"
  by (simp add: Footer_Serialize_def footerSize_def)

lemma drop_put:
  "k \<le> 8 \<Longrightarrow> drop (8 + n) (put64 a @ rest) = drop n rest"
  "drop (4 + n) (put32 b @ rest) = drop n rest"
  "drop (2 + n) (put16 c @ rest) = drop n rest"
  by simp_all

lemma Footer_fields:
  assumes "length (Magic f) = 4"
  shows "drop 8 (Footer_Serialize f @ rest) = put64 (ColumnMetadataOffsetTableOffset f) @
            drop 16 (Footer_Serialize f @ rest)"
    and "drop 16 (Footer_Serialize f @ rest) = put64 (GlobalBuffersOffsetTableOffset f) @
            drop 24 (Footer_Serialize f @ rest)"
    and "drop 24 (Footer_Serialize f @ rest) = put32 (NumGlobalBuffers f) @
            drop 28 (Footer_Serialize f @ rest)"
    and "drop 28 (Footer_Serialize f @ rest) = put32 (NumColumns f) @
            drop 32 (Footer_Serialize f @ rest)"
    and "drop 32 (Footer_Serialize f @ rest) = put16 (MajorVersion f) @
            drop 34 (Footer_Serialize f @ rest)"
    and "drop 34 (Footer_Serialize f @ rest) = put16 (MinorVersion f) @
            drop 36 (Footer_Serialize f @ rest)"
    and "drop 36 (Footer_Serialize f @ rest) = Magic f @ rest"
  using assms by (simp_all add: Footer_Serialize_def)

lemma DeserializeFooter_Serialize:
  assumes "footer_ok f"
  shows "DeserializeFooter (Footer_Serialize f @ rest) = Inr f"
proof -
  have m: "length (Magic f) = 4"
    using assms by (simp add: footer_ok_def)
  have "get64 (Footer_Serialize f @ rest) = ColumnMetadataOffset f"
    by (simp add: Footer_Serialize_def)
  moreover have "footerSize \<le> length (Footer_Serialize f @ rest)"
    using m by (simp add: length_Footer_Serialize)
  ultimately show ?thesis
    using assms Footer_fields [OF m, of rest] m
    by (simp add: DeserializeFooter_def Let_def footer_ok_def)
qed

lemma ReadFooter_WriteFooter:
  assumes "footer_ok f"
  shows "ReadFooter (WriteFooter f w) (int (length (WriteFooter f w))) = Inr f"
proof -
  have "length (Footer_Serialize f) = footerSize"
    using assms by (simp add: length_Footer_Serialize footer_ok_def)
  then show ?thesis
    using DeserializeFooter_Serialize [OF assms, of "[]"]
    by (simp add: ReadFooter_def WriteFooter_def Let_def)
qed

text \<open>Accepted bytes are the serialization of what was read from them.\<close>

lemma split_at: "length data = n + k \<Longrightarrow> data = take n data @ drop n data"
  by simp

lemma Serialize_DeserializeFooter:
  assumes "DeserializeFooter data = Inr f" and "length data = footerSize"
  shows "Footer_Serialize f = data \<and> footer_ok f"
proof -
  have len: "length data = 40"
    using assms(2) by (simp add: footerSize_def)
  have f: "f = \<lparr>ColumnMetadataOffset = get64 data,
                 ColumnMetadataOffsetTableOffset = get64 (drop 8 data),
                 GlobalBuffersOffsetTableOffset = get64 (drop 16 data),
                 NumGlobalBuffers = get32 (drop 24 data),
                 NumColumns = get32 (drop 28 data),
                 MajorVersion = get16 (drop 32 data),
                 MinorVersion = get16 (drop 34 data),
                 Magic = take 4 (drop 36 data)\<rparr>"
    and ok: "Magic f = MagicBytes"
    using assms by (auto simp: DeserializeFooter_def Let_def split: if_splits)
  have p64: "n + 8 \<le> 40 \<Longrightarrow> put64 (get64 (drop n data)) = take 8 (drop n data)" for n
    using put64_get64 [of "take 8 (drop n data)"] len by (simp add: get64_def)
  have p32: "n + 4 \<le> 40 \<Longrightarrow> put32 (get32 (drop n data)) = take 4 (drop n data)" for n
    using put32_get32 [of "take 4 (drop n data)"] len by (simp add: get32_def)
  have p16: "n + 2 \<le> 40 \<Longrightarrow> put16 (get16 (drop n data)) = take 2 (drop n data)" for n
    using put16_get16 [of "take 2 (drop n data)"] len by (simp add: get16_def)
  have step: "take k (drop n data) @ drop (n + k) data = drop n data" for n k
    by (metis add.commute append_take_drop_id drop_drop)
  have "Footer_Serialize f =
      take 8 (drop 0 data) @ take 8 (drop 8 data) @ take 8 (drop 16 data) @ take 4 (drop 24 data) @
      take 4 (drop 28 data) @ take 2 (drop 32 data) @ take 2 (drop 34 data) @ take 4 (drop 36 data)"
    using p64 [of 0] p64 [of 8] p64 [of 16] p32 [of 24] p32 [of 28] p16 [of 32] p16 [of 34]
    by (simp add: Footer_Serialize_def f)
  also have "take 4 (drop 36 data) = drop 36 data"
    using len by simp
  also have "take 8 (drop 0 data) @ take 8 (drop 8 data) @ take 8 (drop 16 data) @ take 4 (drop 24 data) @
      take 4 (drop 28 data) @ take 2 (drop 32 data) @ take 2 (drop 34 data) @ drop 36 data = data"
    using step [of 2 34] step [of 2 32] step [of 4 28] step [of 4 24] step [of 8 16] step [of 8 8]
      step [of 8 0] by simp
  finally show ?thesis
    using ok by (simp add: footer_ok_def)
qed

section \<open>Properties\<close>

text \<open>
  C38: a footer written at the end of any file is read back from that file by \<open>ReadFooter\<close>,
  given the size of the file.
\<close>

theorem footer_write_read:
  assumes "footer_ok f"
  shows "ReadFooter (WriteFooter f w) (int (length (WriteFooter f w))) = Inr f"
  using assms by (rule ReadFooter_WriteFooter)

theorem footer_write_read_witness:
  "ReadFooter (WriteFooter (NewFileFooter 3) [1, 2]) (int (length (WriteFooter (NewFileFooter 3) [1, 2]))) =
     Inr (NewFileFooter 3)"
  by (rule footer_write_read) (simp add: NewFileFooter_def footer_ok_def)

text \<open>
  \<open>DeserializeFooter\<close> accepts no second spelling: forty bytes it accepts are exactly what
  \<open>Serialize\<close> writes for the footer it returns, and that footer carries the magic number.
\<close>

theorem footer_read_write:
  assumes "DeserializeFooter data = Inr f" and "length data = footerSize"
  shows "Footer_Serialize f = data \<and> footer_ok f"
  using assms by (rule Serialize_DeserializeFooter)

theorem footer_read_write_witness:
  "Footer_Serialize (NewFileFooter 3) = Footer_Serialize (NewFileFooter 3) \<and> footer_ok (NewFileFooter 3)"
  by (rule footer_read_write [of "Footer_Serialize (NewFileFooter 3)" "NewFileFooter 3"])
    (use DeserializeFooter_Serialize [of "NewFileFooter 3" "[]"] in
      \<open>simp_all add: length_Footer_Serialize NewFileFooter_def footer_ok_def\<close>)

end
