(* ===== verification/GoMap.thy ===== *)
theory GoMap
  imports Prelude "HOL-Library.AList"
begin

text \<open>
  Go maps that are iterated or counted, as association lists with distinct keys. The list order
  is the order in which a \<open>range\<close> loop visits the entries; Go leaves it open, so statements about
  such maps are made for every list.
\<close>

type_synonym ('k, 'v) gomap = "('k \<times> 'v) list"

definition gm_put :: "'k \<Rightarrow> 'v \<Rightarrow> ('k, 'v) gomap \<Rightarrow> ('k, 'v) gomap" where
  "gm_put k v m = AList.update k v m"

definition gm_del :: "'k \<Rightarrow> ('k, 'v) gomap \<Rightarrow> ('k, 'v) gomap" where
  "gm_del k m = AList.delete k m"

definition gm_keys :: "('k, 'v) gomap \<Rightarrow> 'k list" where
  "gm_keys m = map fst m"

definition gm_ok :: "('k, 'v) gomap \<Rightarrow> bool" where
  "gm_ok m \<longleftrightarrow> distinct (gm_keys m)"

lemma gm_get_put [simp]: "map_of (gm_put k v m) = (map_of m)(k \<mapsto> v)"
  by (simp add: gm_put_def update_conv')

lemma gm_get_del [simp]: "map_of (gm_del k m) = (map_of m)(k := None)"
  by (simp add: gm_del_def delete_conv')

lemma set_keys_put [simp]: "set (gm_keys (gm_put k v m)) = insert k (set (gm_keys m))"
  by (simp add: gm_put_def gm_keys_def AList.dom_update)

lemma set_keys_del [simp]: "set (gm_keys (gm_del k m)) = set (gm_keys m) - {k}"
  by (simp add: gm_del_def gm_keys_def delete_keys)

lemma gm_ok_Nil [simp]: "gm_ok []"
  by (simp add: gm_ok_def gm_keys_def)

lemma gm_ok_put [simp, inv_intros]: "gm_ok m \<Longrightarrow> gm_ok (gm_put k v m)"
  by (simp add: gm_ok_def gm_keys_def gm_put_def distinct_update)

lemma gm_ok_del [simp, inv_intros]: "gm_ok m \<Longrightarrow> gm_ok (gm_del k m)"
  by (simp add: gm_ok_def gm_keys_def gm_del_def AList.distinct_delete)

lemma gm_get_key: "map_of m k \<noteq> None \<longleftrightarrow> k \<in> set (gm_keys m)"
  by (simp add: gm_keys_def map_of_eq_None_iff)

lemma gm_get_None: "map_of m k = None \<longleftrightarrow> k \<notin> set (gm_keys m)"
  by (simp add: gm_keys_def map_of_eq_None_iff)

lemma gm_keys_Nil [simp]: "gm_keys [] = []"
  by (simp add: gm_keys_def)

lemma length_gm_keys [simp]: "length (gm_keys m) = length m"
  by (simp add: gm_keys_def)

lemma length_del_present: "gm_ok m \<Longrightarrow> k \<in> set (gm_keys m) \<Longrightarrow> Suc (length (gm_del k m)) = length m"
proof -
  assume ok: "gm_ok m" and k: "k \<in> set (gm_keys m)"
  have "length (gm_del k m) = card (set (gm_keys (gm_del k m)))"
    using gm_ok_del [OF ok, of k] by (metis distinct_card gm_ok_def length_gm_keys)
  also have "\<dots> = card (set (gm_keys m)) - 1"
    using k by simp
  also have "card (set (gm_keys m)) = length m"
    using ok by (metis distinct_card gm_ok_def length_gm_keys)
  finally show ?thesis
    using k by (cases m) auto
qed

end
