(* ===== verification/Runs.thy ===== *)
theory Runs
  imports Main
begin

text \<open>
  Runs of a component: a list of operations executed one after the other, and what it means for a
  component to refine an abstract specification.
\<close>

fun run_ops :: "('op \<Rightarrow> 's \<Rightarrow> 'o \<times> 's) \<Rightarrow> 'op list \<Rightarrow> 's \<Rightarrow> 'o list \<times> 's" where
  "run_ops step [] s = ([], s)"
| "run_ops step (x # xs) s =
     (let r = step x s; rest = run_ops step xs (snd r) in (fst r # fst rest, snd rest))"

lemma run_invariant:
  assumes "\<And>x s. valid x \<Longrightarrow> I s \<Longrightarrow> I (snd (step x s))"
  shows "I s \<Longrightarrow> list_all valid xs \<Longrightarrow> I (snd (run_ops step xs s))"
  by (induction xs arbitrary: s) (simp_all add: assms Let_def)

text \<open>
  A component refines a specification when every valid operation keeps its invariant, gives the
  same output, and commutes with the abstraction; then whole runs agree.
\<close>

locale refinement =
  fixes step :: "'op \<Rightarrow> 's \<Rightarrow> 'o \<times> 's"
    and spec :: "'op \<Rightarrow> 'a \<Rightarrow> 'o \<times> 'a"
    and valid :: "'op \<Rightarrow> bool"
    and inv :: "'s \<Rightarrow> bool"
    and abs :: "'s \<Rightarrow> 'a"
  assumes step_inv: "valid x \<Longrightarrow> inv s \<Longrightarrow> inv (snd (step x s))"
    and step_out: "valid x \<Longrightarrow> inv s \<Longrightarrow> fst (step x s) = fst (spec x (abs s))"
    and step_abs: "valid x \<Longrightarrow> inv s \<Longrightarrow> abs (snd (step x s)) = snd (spec x (abs s))"
begin

lemma run_refines:
  "inv s \<Longrightarrow> list_all valid xs \<Longrightarrow> inv (snd (run_ops step xs s)) \<and>
     fst (run_ops step xs s) = fst (run_ops spec xs (abs s)) \<and>
     abs (snd (run_ops step xs s)) = snd (run_ops spec xs (abs s))"
proof (induction xs arbitrary: s)
  case Nil
  then show ?case by simp
next
  case (Cons x xs)
  obtain out s' where s': "step x s = (out, s')"
    by (cases "step x s")
  obtain out' a' where a': "spec x (abs s) = (out', a')"
    by (cases "spec x (abs s)")
  have "inv s'" "out = out'" "abs s' = a'"
    using step_inv [of x s] step_out [of x s] step_abs [of x s] Cons.prems s' a' by simp_all
  with Cons.IH [of s'] Cons.prems show ?case
    by (simp add: s' a' Let_def)
qed

end

end
