(* ===== verification/BufferPool.thy ===== *)
theory BufferPool
  imports EncodeTypes GoMap Runs
begin

text \<open>
  \<^verbatim>\<open>src/storage/buffer_pool.go\<close>: the LRU cache of byte buffers. The doubly linked list of
  \<open>container/list\<close> is the list of its keys, front first; an element and its entry are found
  through the key, as each element points to the entry of the map that owns it. The mutex makes
  every operation one step.

  The cache is compared with an abstract LRU: the list of the cached pairs, most recent first,
  of which the longest prefix that fits the capacity is kept.
\<close>

section \<open>The pool\<close>

record CacheEntry =
  ce_data :: "byte list"
  ce_size :: int

record BufferPool =
  capacity :: int
  used :: int
  entries :: "(string, CacheEntry) gomap"
  lru :: "string list"

definition NewBufferPool :: "int \<Rightarrow> BufferPool" where
  "NewBufferPool cap = \<lparr>capacity = cap, used = 0, entries = [], lru = []\<rparr>"

definition MoveToFront :: "string \<Rightarrow> string list \<Rightarrow> string list" where
  "MoveToFront k ks = k # remove1 k ks"

definition Pool_Get :: "string \<Rightarrow> BufferPool \<Rightarrow> byte list option \<times> BufferPool" where
  "Pool_Get key p =
     (if capacity p = 0 then (None, p)
      else case map_of (entries p) key of
        None \<Rightarrow> (None, p)
      | Some entry \<Rightarrow> (Some (ce_data entry), p\<lparr>lru := MoveToFront key (lru p)\<rparr>))"

text \<open>
  \<open>evict\<close>: one step drops the entry of the last list element. An element without an entry (there
  is none in a pool built by the operations) is dropped alone.
\<close>

definition evict_last :: "BufferPool \<Rightarrow> BufferPool" where
  "evict_last p =
     (let key = last (lru p) in
      p\<lparr>lru := butlast (lru p), entries := gm_del key (entries p),
         used := used p - (case map_of (entries p) key of None \<Rightarrow> 0 | Some entry \<Rightarrow> ce_size entry)\<rparr>)"

function evict :: "BufferPool \<Rightarrow> BufferPool" where
  "evict p = (if used p > capacity p \<and> lru p \<noteq> [] then evict (evict_last p) else p)"
  by pat_completeness auto
termination
  by (relation "measure (\<lambda>p. length (lru p))") (auto simp: evict_last_def Let_def)

declare evict.simps [simp del]

definition Pool_Put :: "string \<Rightarrow> byte list \<Rightarrow> BufferPool \<Rightarrow> BufferPool" where
  "Pool_Put key data p =
     (if capacity p = 0 then p
      else
        let size = int (length data); new = \<lparr>ce_data = data, ce_size = size\<rparr> in
        evict (case map_of (entries p) key of
            Some entry \<Rightarrow>
              p\<lparr>used := used p - ce_size entry + size, entries := gm_put key new (entries p),
                 lru := MoveToFront key (lru p)\<rparr>
          | None \<Rightarrow>
              p\<lparr>used := used p + size, entries := gm_put key new (entries p), lru := key # lru p\<rparr>))"

definition Pool_Remove :: "string \<Rightarrow> BufferPool \<Rightarrow> BufferPool" where
  "Pool_Remove key p =
     (case map_of (entries p) key of
        None \<Rightarrow> p
      | Some entry \<Rightarrow>
          p\<lparr>lru := remove1 key (lru p), entries := gm_del key (entries p),
             used := used p - ce_size entry\<rparr>)"

definition Pool_Stats :: "BufferPool \<Rightarrow> int \<times> nat" where
  "Pool_Stats p = (used p, length (entries p))"

section \<open>The abstract cache\<close>

type_synonym cache = "(string \<times> byte list) list"

definition cache_size :: "cache \<Rightarrow> int" where
  "cache_size c = (\<Sum>(k, d) \<leftarrow> c. int (length d))"

definition without :: "string \<Rightarrow> cache \<Rightarrow> cache" where
  "without k c = filter (\<lambda>(k', d). k' \<noteq> k) c"

fun fit :: "int \<Rightarrow> cache \<Rightarrow> cache" where
  "fit cap [] = []"
| "fit cap ((k, d) # c) = (if int (length d) \<le> cap then (k, d) # fit (cap - int (length d)) c else [])"

definition lru_get :: "string \<Rightarrow> cache \<Rightarrow> byte list option \<times> cache" where
  "lru_get k c = (case map_of c k of None \<Rightarrow> (None, c) | Some d \<Rightarrow> (Some d, (k, d) # without k c))"

definition lru_put :: "int \<Rightarrow> string \<Rightarrow> byte list \<Rightarrow> cache \<Rightarrow> cache" where
  "lru_put cap k d c = (if cap = 0 then c else fit cap ((k, d) # without k c))"

lemma cache_size_simps [simp]:
  "cache_size [] = 0"
  "cache_size ((k, d) # c) = int (length d) + cache_size c"
  "cache_size (c @ c') = cache_size c + cache_size c'"
  by (simp_all add: cache_size_def)

lemma cache_size_nonneg: "0 \<le> cache_size c"
  by (induction c) auto

lemma fit_all: "cache_size c \<le> cap \<Longrightarrow> fit cap c = c"
proof (induction cap c rule: fit.induct)
  case (2 cap k d c)
  then show ?case
    using cache_size_nonneg [of c] by auto
qed simp

lemma fit_drop_last: "cap < cache_size (c @ [(k, d)]) \<Longrightarrow> fit cap (c @ [(k, d)]) = fit cap c"
  by (induction cap c rule: fit.induct) auto

lemma fit_size: "cache_size (fit cap c) \<le> max 0 cap"
  by (induction cap c rule: fit.induct) auto

lemma fit_prefix: "\<exists>rest. c = fit cap c @ rest"
  by (induction cap c rule: fit.induct) auto

lemma without_keys: "k \<notin> set (map fst (without k c))"
  by (auto simp: without_def)

lemma distinct_without: "distinct (map fst c) \<Longrightarrow> distinct (map fst (without k c))"
  by (simp add: without_def distinct_map_filter)

section \<open>Invariant and refinement\<close>

definition entry_data :: "BufferPool \<Rightarrow> string \<Rightarrow> byte list" where
  "entry_data p k = (case map_of (entries p) k of None \<Rightarrow> [] | Some entry \<Rightarrow> ce_data entry)"

definition pool_abs :: "BufferPool \<Rightarrow> cache" where
  "pool_abs p = map (\<lambda>k. (k, entry_data p k)) (lru p)"

definition sizes_ok :: "(string, CacheEntry) gomap \<Rightarrow> bool" where
  "sizes_ok m \<longleftrightarrow> (\<forall>k entry. map_of m k = Some entry \<longrightarrow> ce_size entry = int (length (ce_data entry)))"

text \<open>The list and the map hold the same keys, and \<open>used\<close> is the number of cached bytes.\<close>

definition pool_ok :: "BufferPool \<Rightarrow> bool" where
  "pool_ok p \<longleftrightarrow>
     gm_ok (entries p) \<and> distinct (lru p) \<and> set (lru p) = set (gm_keys (entries p)) \<and>
     sizes_ok (entries p) \<and> used p = cache_size (pool_abs p)"

lemma pool_ok_entry:
  assumes "pool_ok p" and "k \<in> set (lru p)"
  obtains e where "map_of (entries p) k = Some e" "ce_data e = entry_data p k"
    "ce_size e = int (length (entry_data p k))"
proof -
  have "map_of (entries p) k \<noteq> None"
    using assms gm_get_key [of "entries p" k] by (simp add: pool_ok_def)
  then obtain e where "map_of (entries p) k = Some e"
    by blast
  with assms that show thesis
    by (auto simp: pool_ok_def sizes_ok_def entry_data_def)
qed

lemma map_of_graph: "map_of (map (\<lambda>k. (k, f k)) ks) k = (if k \<in> set ks then Some (f k) else None)"
  by (induction ks) auto

lemma pool_lookup: "pool_ok p \<Longrightarrow> map_of (pool_abs p) k = map_option ce_data (map_of (entries p) k)"
proof (cases "k \<in> set (lru p)")
  case True
  assume ok: "pool_ok p"
  obtain e where "map_of (entries p) k = Some e" "ce_data e = entry_data p k"
    using ok True by (rule pool_ok_entry)
  then show ?thesis
    using True by (simp add: pool_abs_def map_of_graph)
next
  case False
  assume ok: "pool_ok p"
  have "map_of (entries p) k = None"
    using ok False by (simp add: pool_ok_def gm_get_None)
  moreover have "map_of (pool_abs p) k = None"
    using False by (auto simp: map_of_eq_None_iff pool_abs_def)
  ultimately show ?thesis by simp
qed

lemma cache_size_map: "cache_size (map (\<lambda>k. (k, f k)) ks) = (\<Sum>k \<leftarrow> ks. int (length (f k)))"
  by (induction ks) auto

lemma without_map:
  "distinct ks \<Longrightarrow> without k (map (\<lambda>k. (k, f k)) ks) = map (\<lambda>k. (k, f k)) (remove1 k ks)"
  by (induction ks) (auto simp: without_def remove1_idem)

lemma pool_ok_New: "pool_ok (NewBufferPool cap)"
  by (simp add: pool_ok_def NewBufferPool_def sizes_ok_def pool_abs_def)

lemma pool_abs_New: "pool_abs (NewBufferPool cap) = []"
  by (simp add: pool_abs_def NewBufferPool_def)

lemma entry_data_upd [simp]:
  "entry_data (p\<lparr>lru := l\<rparr>) = entry_data p"
  "entry_data (p\<lparr>used := u\<rparr>) = entry_data p"
  by (simp_all add: entry_data_def fun_eq_iff)

lemma entry_data_put [simp]:
  "entry_data (p\<lparr>entries := gm_put k e m\<rparr>) k' = (if k' = k then ce_data e else entry_data (p\<lparr>entries := m\<rparr>) k')"
  by (simp add: entry_data_def)

lemma entry_data_del [simp]:
  "k' \<noteq> k \<Longrightarrow> entry_data (p\<lparr>entries := gm_del k m\<rparr>) k' = entry_data (p\<lparr>entries := m\<rparr>) k'"
  by (simp add: entry_data_def)

lemma sizes_ok_put: "sizes_ok m \<Longrightarrow> sizes_ok (gm_put k \<lparr>ce_data = d, ce_size = int (length d)\<rparr> m)"
  by (simp add: sizes_ok_def)

lemma sizes_ok_del: "sizes_ok m \<Longrightarrow> sizes_ok (gm_del k m)"
  by (simp add: sizes_ok_def)

text \<open>Dropping a present key from both structures.\<close>

definition drop_key :: "string \<Rightarrow> BufferPool \<Rightarrow> BufferPool" where
  "drop_key k p =
     p\<lparr>lru := remove1 k (lru p), entries := gm_del k (entries p),
       used := used p - int (length (entry_data p k))\<rparr>"

lemma sum_remove1:
  "k \<in> set ks \<Longrightarrow> (\<Sum>x \<leftarrow> remove1 k ks. f x) = (\<Sum>x \<leftarrow> ks. f x) - f k" for f :: "'a \<Rightarrow> int"
  by (induction ks) auto

lemma drop_key_abs:
  assumes "pool_ok p"
  shows "pool_abs (drop_key k p) = without k (pool_abs p)"
proof -
  have d: "distinct (lru p)"
    using assms by (simp add: pool_ok_def)
  then have "map (\<lambda>x. (x, entry_data (drop_key k p) x)) (remove1 k (lru p)) =
      map (\<lambda>x. (x, entry_data p x)) (remove1 k (lru p))"
    by (intro map_cong) (auto simp: drop_key_def entry_data_def)
  then show ?thesis
    using d by (simp add: pool_abs_def without_map) (simp add: drop_key_def)
qed

lemma drop_key_graph:
  "pool_ok p \<Longrightarrow> pool_abs (drop_key k p) = without k (map (\<lambda>x. (x, entry_data p x)) (lru p))"
  using drop_key_abs [of p k] by (simp only: pool_abs_def)

lemma cache_size_without_graph:
  assumes "distinct ks" and "k \<in> set ks"
  shows "cache_size (without k (map (\<lambda>x. (x, f x)) ks)) =
           cache_size (map (\<lambda>x. (x, f x)) ks) - int (length (f k))"
  using assms by (simp add: without_map cache_size_map sum_remove1)

lemma drop_key_ok:
  assumes "pool_ok p" and "k \<in> set (lru p)"
  shows "pool_ok (drop_key k p)"
proof -
  have d: "distinct (lru p)" and u: "used p = cache_size (pool_abs p)"
    using assms(1) by (simp_all add: pool_ok_def)
  have "cache_size (pool_abs (drop_key k p)) = cache_size (pool_abs p) - int (length (entry_data p k))"
    unfolding drop_key_graph [OF assms(1)] cache_size_without_graph [OF d assms(2)]
    by (simp only: pool_abs_def)
  then have "used (drop_key k p) = cache_size (pool_abs (drop_key k p))"
    using u by (simp add: drop_key_def)
  with assms show ?thesis
    unfolding pool_ok_def by (simp add: drop_key_def sizes_ok_del)
qed

lemma remove1_last: "distinct ks \<Longrightarrow> ks \<noteq> [] \<Longrightarrow> remove1 (last ks) ks = butlast ks"
  by (induction ks) auto

lemma evict_last_drop:
  assumes "pool_ok p" and "lru p \<noteq> []"
  shows "evict_last p = drop_key (last (lru p)) p"
proof -
  have "last (lru p) \<in> set (lru p)"
    using assms(2) by simp
  with assms(1) obtain e where e: "map_of (entries p) (last (lru p)) = Some e"
      "ce_size e = int (length (entry_data p (last (lru p))))"
    by (rule pool_ok_entry)
  have "remove1 (last (lru p)) (lru p) = butlast (lru p)"
    using assms by (intro remove1_last) (simp_all add: pool_ok_def)
  with e show ?thesis
    by (simp add: evict_last_def drop_key_def Let_def)
qed

lemma evict_spec:
  "pool_ok p \<Longrightarrow> pool_ok (evict p) \<and> capacity (evict p) = capacity p \<and>
     pool_abs (evict p) = fit (capacity p) (pool_abs p)"
proof (induction p rule: evict.induct)
  case (1 p)
  show ?case
  proof (cases "used p > capacity p \<and> lru p \<noteq> []")
    case True
    let ?k = "last (lru p)" and ?q = "evict_last p"
    have q: "?q = drop_key ?k p"
      using True "1.prems" evict_last_drop by blast
    have ok: "pool_ok ?q"
      using q drop_key_ok [OF "1.prems", of ?k] True by simp
    have cap: "capacity ?q = capacity p"
      by (simp add: q drop_key_def)
    have d: "distinct (lru p)"
      using "1.prems" by (simp add: pool_ok_def)
    have split: "pool_abs p = pool_abs ?q @ [(?k, entry_data p ?k)]"
    proof -
      let ?g = "\<lambda>x. (x, entry_data p x)"
      have "pool_abs ?q = map ?g (butlast (lru p))"
        using True d unfolding q drop_key_graph [OF "1.prems"]
        by (simp add: without_map remove1_last)
      moreover have "map ?g (lru p) = map ?g (butlast (lru p) @ [?k])"
        using True by (metis append_butlast_last_id)
      ultimately show ?thesis
        unfolding pool_abs_def by simp
    qed
    have "capacity p < cache_size (pool_abs p)"
      using True "1.prems" by (simp add: pool_ok_def)
    then have "fit (capacity p) (pool_abs p) = fit (capacity p) (pool_abs ?q)"
      unfolding split by (rule fit_drop_last)
    with "1.IH" [OF True ok] True cap show ?thesis
      by (simp add: evict.simps [of p])
  next
    case False
    then have e: "evict p = p"
      by (subst evict.simps) (simp only: if_False)
    have "lru p = [] \<Longrightarrow> pool_abs p = []"
      by (simp add: pool_abs_def)
    then have "fit (capacity p) (pool_abs p) = pool_abs p"
      using False "1.prems" by (cases "lru p = []") (auto simp: fit_all pool_ok_def)
    with e "1.prems" show ?thesis by simp
  qed
qed

section \<open>Operations against the abstract cache\<close>

text \<open>Touching a cached key only reorders the list.\<close>

lemma MoveToFront_set: "k \<in> set ks \<Longrightarrow> set (MoveToFront k ks) = set ks"
  by (induction ks) (auto simp: MoveToFront_def)

lemma MoveToFront_distinct: "distinct ks \<Longrightarrow> distinct (MoveToFront k ks)"
  by (simp add: MoveToFront_def)

lemma pool_ok_entries_key: "pool_ok p \<Longrightarrow> map_of (entries p) k = Some e \<Longrightarrow> k \<in> set (lru p)"
  using gm_get_key [of "entries p" k] by (simp add: pool_ok_def)

lemma touch_abs:
  assumes "pool_ok p"
  shows "pool_abs (p\<lparr>lru := MoveToFront k (lru p)\<rparr>) = (k, entry_data p k) # without k (pool_abs p)"
  using assms by (simp add: pool_abs_def MoveToFront_def without_map pool_ok_def)

lemma touch_ok:
  assumes "pool_ok p" and "k \<in> set (lru p)"
  shows "pool_ok (p\<lparr>lru := MoveToFront k (lru p)\<rparr>)"
proof -
  have "cache_size ((k, entry_data p k) # without k (pool_abs p)) = cache_size (pool_abs p)"
    using assms by (simp add: pool_abs_def cache_size_without_graph pool_ok_def)
  moreover have "set (MoveToFront k (lru p)) = set (lru p)"
    using assms(2) by (rule MoveToFront_set)
  moreover have "distinct (MoveToFront k (lru p))"
    using assms(1) by (simp add: MoveToFront_distinct pool_ok_def)
  ultimately show ?thesis
    using assms unfolding pool_ok_def touch_abs [OF assms(1)] by simp
qed

lemma Pool_Get_spec:
  assumes "pool_ok p" and "capacity p \<noteq> 0"
  shows "fst (Pool_Get k p) = fst (lru_get k (pool_abs p))"
    and "pool_abs (snd (Pool_Get k p)) = snd (lru_get k (pool_abs p))"
    and "pool_ok (snd (Pool_Get k p))"
proof -
  have "fst (Pool_Get k p) = fst (lru_get k (pool_abs p)) \<and>
    pool_abs (snd (Pool_Get k p)) = snd (lru_get k (pool_abs p)) \<and> pool_ok (snd (Pool_Get k p))"
  proof (cases "map_of (entries p) k")
    case None
    with assms show ?thesis by (simp add: Pool_Get_def lru_get_def pool_lookup)
  next
    case (Some e)
    then have "k \<in> set (lru p)" "entry_data p k = ce_data e"
      using assms(1) by (simp_all add: pool_ok_entries_key entry_data_def)
    with Some assms show ?thesis
      by (simp add: Pool_Get_def lru_get_def pool_lookup touch_abs touch_ok)
  qed
  then show "fst (Pool_Get k p) = fst (lru_get k (pool_abs p))"
    and "pool_abs (snd (Pool_Get k p)) = snd (lru_get k (pool_abs p))"
    and "pool_ok (snd (Pool_Get k p))"
    by blast+
qed

text \<open>A \<open>Put\<close> installs the pair at the front, whether or not the key was cached, and then evicts.\<close>

definition install :: "string \<Rightarrow> byte list \<Rightarrow> BufferPool \<Rightarrow> BufferPool" where
  "install k d p =
     (let q = (if k \<in> set (lru p) then drop_key k p else p) in
      q\<lparr>used := used q + int (length d), entries := gm_put k \<lparr>ce_data = d, ce_size = int (length d)\<rparr> (entries p),
        lru := k # lru q\<rparr>)"

lemma Pool_Put_install:
  assumes "pool_ok p" and "capacity p \<noteq> 0"
  shows "Pool_Put k d p = evict (install k d p)"
proof (cases "map_of (entries p) k")
  case None
  then have "k \<notin> set (lru p)"
    using assms(1) by (simp add: gm_get_None pool_ok_def)
  with None assms show ?thesis
    by (simp add: Pool_Put_def install_def Let_def)
next
  case (Some e)
  then have k: "k \<in> set (lru p)"
    using assms(1) by (simp add: pool_ok_entries_key)
  with assms(1) obtain e' where "map_of (entries p) k = Some e'" "ce_size e' = int (length (entry_data p k))"
    by (rule pool_ok_entry)
  with Some k assms show ?thesis
    by (simp add: Pool_Put_def install_def drop_key_def MoveToFront_def Let_def)
qed

lemma install_abs:
  assumes "pool_ok p"
  shows "pool_abs (install k d p) = (k, d) # without k (pool_abs p)"
proof -
  have d: "distinct (lru p)"
    using assms by (simp add: pool_ok_def)
  have l: "lru (install k d p) = k # remove1 k (lru p)"
    by (simp add: install_def drop_key_def Let_def remove1_idem)
  have "entry_data (install k d p) k = d"
    by (simp add: install_def entry_data_def Let_def)
  moreover have "x \<noteq> k \<Longrightarrow> entry_data (install k d p) x = entry_data p x" for x
    by (simp add: install_def entry_data_def Let_def)
  ultimately show ?thesis
    using d by (auto simp: pool_abs_def l without_map intro!: map_cong)
qed

lemma install_ok:
  assumes "pool_ok p"
  shows "pool_ok (install k d p)"
proof -
  let ?q = "install k d p"
  have d: "distinct (lru p)" and u: "used p = cache_size (pool_abs p)"
    using assms by (simp_all add: pool_ok_def)
  have "used ?q = int (length d) + cache_size (without k (pool_abs p))"
  proof (cases "k \<in> set (lru p)")
    case True
    then show ?thesis
      using d u by (simp add: install_def drop_key_def Let_def pool_abs_def cache_size_without_graph)
  next
    case False
    then have "without k (pool_abs p) = pool_abs p"
      using d by (simp add: pool_abs_def without_map remove1_idem)
    with False u show ?thesis
      by (simp add: install_def Let_def)
  qed
  then have "used ?q = cache_size (pool_abs ?q)"
    by (simp add: install_abs [OF assms])
  moreover have "lru ?q = k # remove1 k (lru p)"
    by (simp add: install_def drop_key_def Let_def remove1_idem)
  moreover have "entries ?q = gm_put k \<lparr>ce_data = d, ce_size = int (length d)\<rparr> (entries p)"
    by (simp add: install_def Let_def)
  ultimately show ?thesis
    using assms by (auto simp: pool_ok_def sizes_ok_put)
qed

lemma Pool_Put_spec:
  assumes "pool_ok p" and "capacity p \<noteq> 0"
  shows "pool_ok (Pool_Put k d p)"
    and "pool_abs (Pool_Put k d p) = lru_put (capacity p) k d (pool_abs p)"
    and "capacity (Pool_Put k d p) = capacity p"
proof -
  have cap: "capacity (install k d p) = capacity p"
    by (simp add: install_def drop_key_def Let_def)
  show "pool_ok (Pool_Put k d p)" "capacity (Pool_Put k d p) = capacity p"
    "pool_abs (Pool_Put k d p) = lru_put (capacity p) k d (pool_abs p)"
    using evict_spec [OF install_ok [OF assms(1)], of k d] assms cap
    by (simp_all add: Pool_Put_install install_abs lru_put_def)
qed

lemma Pool_Remove_spec:
  assumes "pool_ok p"
  shows "pool_ok (Pool_Remove k p)"
    and "pool_abs (Pool_Remove k p) = without k (pool_abs p)"
    and "capacity (Pool_Remove k p) = capacity p"
proof -
  have "pool_ok (Pool_Remove k p) \<and> pool_abs (Pool_Remove k p) = without k (pool_abs p) \<and>
    capacity (Pool_Remove k p) = capacity p"
  proof (cases "map_of (entries p) k")
    case None
    then have "without k (pool_abs p) = pool_abs p"
      using assms by (simp add: gm_get_None pool_ok_def pool_abs_def without_map remove1_idem)
    with None assms show ?thesis by (simp add: Pool_Remove_def)
  next
    case (Some e)
    then have k: "k \<in> set (lru p)"
      using assms by (simp add: pool_ok_entries_key)
    with assms obtain e' where "map_of (entries p) k = Some e'" "ce_size e' = int (length (entry_data p k))"
      by (rule pool_ok_entry)
    with Some have "Pool_Remove k p = drop_key k p"
      by (simp add: Pool_Remove_def drop_key_def)
    with k assms show ?thesis
      by (simp add: drop_key_ok drop_key_abs) (simp add: drop_key_def)
  qed
  then show "pool_ok (Pool_Remove k p)" "pool_abs (Pool_Remove k p) = without k (pool_abs p)"
    "capacity (Pool_Remove k p) = capacity p"
    by blast+
qed

section \<open>Runs of operations\<close>

datatype pool_op = OpGet string | OpPut string "byte list" | OpRemove string

text \<open>What a caller sees of an operation is the result of a \<open>Get\<close>.\<close>

fun pool_step :: "pool_op \<Rightarrow> BufferPool \<Rightarrow> byte list option \<times> BufferPool" where
  "pool_step (OpGet k) p = Pool_Get k p"
| "pool_step (OpPut k d) p = (None, Pool_Put k d p)"
| "pool_step (OpRemove k) p = (None, Pool_Remove k p)"

fun lru_step :: "int \<Rightarrow> pool_op \<Rightarrow> cache \<Rightarrow> byte list option \<times> cache" where
  "lru_step cap (OpGet k) c = (if cap = 0 then (None, c) else lru_get k c)"
| "lru_step cap (OpPut k d) c = (None, lru_put cap k d c)"
| "lru_step cap (OpRemove k) c = (None, without k c)"

lemma pool_step_inv:
  "pool_ok p \<and> capacity p = cap \<Longrightarrow> pool_ok (snd (pool_step x p)) \<and> capacity (snd (pool_step x p)) = cap"
proof (cases x)
  case (OpGet k)
  assume p: "pool_ok p \<and> capacity p = cap"
  have "capacity (snd (Pool_Get k p)) = capacity p"
    by (simp add: Pool_Get_def split: option.splits)
  moreover have "cap = 0 \<Longrightarrow> snd (Pool_Get k p) = p"
    using p by (simp add: Pool_Get_def)
  ultimately show ?thesis
    using p Pool_Get_spec(3) [of p k] by (cases "cap = 0") (simp_all add: OpGet)
next
  case (OpPut k d)
  assume p: "pool_ok p \<and> capacity p = cap"
  have "cap = 0 \<Longrightarrow> Pool_Put k d p = p"
    using p by (simp add: Pool_Put_def)
  with p Pool_Put_spec [of p k d] show ?thesis
    by (cases "cap = 0") (simp_all add: OpPut)
next
  case (OpRemove k)
  assume p: "pool_ok p \<and> capacity p = cap"
  with Pool_Remove_spec [of p k] show ?thesis
    by (simp add: OpRemove)
qed

interpretation pool: refinement pool_step "lru_step cap" "\<lambda>_. True"
  "\<lambda>p. pool_ok p \<and> capacity p = cap" pool_abs for cap
proof unfold_locales
  fix p x
  assume p: "pool_ok p \<and> capacity p = cap"
  show "pool_ok (snd (pool_step x p)) \<and> capacity (snd (pool_step x p)) = cap"
    using p by (rule pool_step_inv)
  show "fst (pool_step x p) = fst (lru_step cap x (pool_abs p))"
    using p Pool_Get_spec(1) by (cases x) (auto simp: Pool_Get_def)
  show "pool_abs (snd (pool_step x p)) = snd (lru_step cap x (pool_abs p))"
    using p Pool_Get_spec(2) Pool_Put_spec(2) Pool_Remove_spec(2)
    by (cases x) (auto simp: Pool_Get_def Pool_Put_def lru_put_def)
qed

lemma pool_run_spec:
  "fst (run_ops pool_step ops (NewBufferPool cap)) = fst (run_ops (lru_step cap) ops []) \<and>
   pool_abs (snd (run_ops pool_step ops (NewBufferPool cap))) = snd (run_ops (lru_step cap) ops [])"
  using pool.run_refines [of "NewBufferPool cap" cap ops] pool_ok_New [of cap] pool_abs_New [of cap]
  by (simp add: NewBufferPool_def list_all_iff)

lemma pool_run_ok:
  "pool_ok (snd (run_ops pool_step ops (NewBufferPool cap)))"
  using pool.run_refines [of "NewBufferPool cap" cap ops] pool_ok_New [of cap]
  by (simp add: NewBufferPool_def list_all_iff)

text \<open>The abstract cache never holds more than the capacity.\<close>

lemma cache_size_without_le: "cache_size (without k c) \<le> cache_size c"
  by (induction c) (auto simp: without_def)

lemma cache_size_move: "map_of c k = Some d \<Longrightarrow> distinct (map fst c) \<Longrightarrow>
    int (length d) + cache_size (without k c) = cache_size c"
proof (induction c)
  case (Cons x c)
  obtain k' d' where x: "x = (k', d')"
    by (cases x)
  show ?case
  proof (cases "k' = k")
    case True
    then have "without k c = c"
      using Cons.prems(2) by (force simp: x without_def filter_id_conv)
    with True Cons.prems show ?thesis
      by (simp add: x) (simp add: without_def)
  next
    case False
    with Cons show ?thesis
      by (simp add: x) (simp add: without_def)
  qed
qed simp

lemma lru_run_bound:
  assumes "cache_size c \<le> max 0 cap" and "distinct (map fst c)"
  shows "cache_size (snd (run_ops (lru_step cap) ops c)) \<le> max 0 cap"
  using assms
proof (induction ops arbitrary: c)
  case Nil
  then show ?case by simp
next
  case (Cons x ops)
  obtain out c' where c': "lru_step cap x c = (out, c')"
    by (cases "lru_step cap x c")
  have "cache_size c' \<le> max 0 cap \<and> distinct (map fst c')"
  proof (cases x)
    case (OpGet k)
    with c' Cons.prems show ?thesis
      using without_keys [of k c] distinct_without [of c k] cache_size_move [of c k]
      by (auto simp: lru_get_def split: if_splits option.splits)
  next
    case (OpPut k d)
    obtain rest where r: "(k, d) # without k c = fit cap ((k, d) # without k c) @ rest"
      using fit_prefix by blast
    have "distinct (map fst ((k, d) # without k c))"
      using without_keys [of k c] distinct_without [OF Cons.prems(2), of k] by simp
    then have "distinct (map fst (fit cap ((k, d) # without k c)))"
      by (subst (asm) r) (simp only: map_append distinct_append)
    with OpPut c' Cons.prems fit_size [of cap "(k, d) # without k c"] show ?thesis
      by (auto simp: lru_put_def split: if_splits)
  next
    case (OpRemove k)
    with c' Cons.prems show ?thesis
      using cache_size_without_le [of k c] distinct_without [of c k] by auto
  qed
  with Cons.IH [of c'] show ?case
    by (simp add: c' Let_def)
qed

lemma pool_run_bound: "used (snd (run_ops pool_step ops (NewBufferPool cap))) \<le> max 0 cap"
  using pool_run_spec [of ops cap] pool_run_ok [of ops cap] lru_run_bound [of "[]" cap ops]
  by (simp add: pool_ok_def)

lemma pool_ok_length: "pool_ok p \<Longrightarrow> length (pool_abs p) = length (entries p)"
  by (metis distinct_card gm_ok_def length_gm_keys length_map pool_abs_def pool_ok_def)

section \<open>Properties\<close>

text \<open>
  C36: for every sequence of \<open>Get\<close>, \<open>Put\<close> and \<open>Remove\<close> and every capacity, the pool answers each
  \<open>Get\<close> as the abstract LRU cache does, and its map and list hold that cache's pairs in its order
  of recency.
\<close>

theorem pool_refines_lru:
  "fst (run_ops pool_step ops (NewBufferPool cap)) = fst (run_ops (lru_step cap) ops []) \<and>
   pool_abs (snd (run_ops pool_step ops (NewBufferPool cap))) = snd (run_ops (lru_step cap) ops [])"
  by (rule pool_run_spec)

text \<open>
  After every sequence of operations the byte counter is the total size of the cached buffers
  (what \<open>Stats\<close> reports is right), and it never exceeds the capacity.
\<close>

theorem pool_accounting:
  "let p = snd (run_ops pool_step ops (NewBufferPool cap)) in
   Pool_Stats p = (cache_size (pool_abs p), length (pool_abs p)) \<and> fst (Pool_Stats p) \<le> max 0 cap"
  using pool_run_ok [of ops cap] pool_run_bound [of ops cap] pool_ok_length [OF pool_run_ok [of ops cap]]
  by (simp add: Pool_Stats_def pool_ok_def Let_def)

end
