(* ===== verification/GoJson.thy ===== *)
theory GoJson
  imports GoStrconv
begin

text \<open>
  The part of package \<open>encoding/json\<close> the manifests use: value trees, the compact text \<open>Marshal\<close>
  writes (with HTML escaping), and the parser behind \<open>Unmarshal\<close>. Strings are byte strings, as in
  Go: invalid UTF-8 is replaced by U+FFFD on the way out and on the way in, so the round trip is for
  valid UTF-8. Parsing takes fuel; every call consumes input, and the top level passes more than
  the length of the text. Go's limit of 10000 on the nesting depth is not modelled.
\<close>

datatype json =
    JNull | JBool bool | JNum string | JStr string
  | JArr "json list" | JObj "(string \<times> json) list"

section \<open>UTF-8\<close>

definition byte_in :: "nat \<Rightarrow> nat \<Rightarrow> char \<Rightarrow> bool" where
  "byte_in lo hi c \<longleftrightarrow> lo \<le> of_char c \<and> of_char c \<le> (hi :: nat)"

text \<open>
  The length of the valid encoding of a code point at the head of a string, 0 if there is none.
\<close>

fun utf8_len :: "string \<Rightarrow> nat" where
  "utf8_len [] = 0"
| "utf8_len (b # bs) =
     (let b0 = (of_char b :: nat); cont = byte_in 0x80 0xBF in
      if b0 < 0x80 then 1
      else if 0xC2 \<le> b0 \<and> b0 \<le> 0xDF then
        (case bs of b1 # _ \<Rightarrow> if cont b1 then 2 else 0 | _ \<Rightarrow> 0)
      else if 0xE0 \<le> b0 \<and> b0 \<le> 0xEF then
        (case bs of b1 # b2 # _ \<Rightarrow>
           if byte_in (if b0 = 0xE0 then 0xA0 else 0x80) (if b0 = 0xED then 0x9F else 0xBF) b1 \<and> cont b2
           then 3 else 0 | _ \<Rightarrow> 0)
      else if 0xF0 \<le> b0 \<and> b0 \<le> 0xF4 then
        (case bs of b1 # b2 # b3 # _ \<Rightarrow>
           if byte_in (if b0 = 0xF0 then 0x90 else 0x80) (if b0 = 0xF4 then 0x8F else 0xBF) b1 \<and>
              cont b2 \<and> cont b3
           then 4 else 0 | _ \<Rightarrow> 0)
      else 0)"

lemma utf8_len_le: "utf8_len s \<le> length s"
  by (cases s) (auto simp: Let_def split: list.splits)

definition utf8_bytes :: "nat list \<Rightarrow> string" where
  "utf8_bytes ns = map char_of ns"

definition utf8_encode :: "nat \<Rightarrow> string" where
  "utf8_encode r =
     utf8_bytes
       (if r < 0x80 then [r]
        else if r < 0x800 then [0xC0 + r div 64, 0x80 + r mod 64]
        else if r < 0x10000 then [0xE0 + r div 4096, 0x80 + r div 64 mod 64, 0x80 + r mod 64]
        else [0xF0 + r div 262144, 0x80 + r div 4096 mod 64, 0x80 + r div 64 mod 64, 0x80 + r mod 64])"

definition replacement :: string where
  "replacement = utf8_encode 0xFFFD"

section \<open>Writing\<close>

definition hex_digit :: "nat \<Rightarrow> char" where
  "hex_digit d = (if d < 10 then char_of (48 + d) else char_of (87 + d))"

definition escape_u :: "nat \<Rightarrow> string" where
  "escape_u n =
     CHR 0x5C # CHR ''u'' #
       [hex_digit (n div 4096), hex_digit (n div 256 mod 16), hex_digit (n div 16 mod 16), hex_digit (n mod 16)]"

definition quote_ascii :: "char \<Rightarrow> string" where
  "quote_ascii c =
     (if c = CHR 0x22 \<or> c = CHR 0x5C then [CHR 0x5C, c]
      else if c = CHR 0x08 then [CHR 0x5C, CHR ''b'']
      else if c = CHR 0x0C then [CHR 0x5C, CHR ''f'']
      else if c = CHR 0x0A then [CHR 0x5C, CHR ''n'']
      else if c = CHR 0x0D then [CHR 0x5C, CHR ''r'']
      else if c = CHR 0x09 then [CHR 0x5C, CHR ''t'']
      else if of_char c < (0x20 :: nat) \<or> c = CHR ''<'' \<or> c = CHR ''>'' \<or> c = CHR ''&''
      then escape_u (of_char c)
      else [c])"

definition quote_rune :: "string \<Rightarrow> string" where
  "quote_rune u =
     (if u = utf8_encode 0x2028 then escape_u 0x2028
      else if u = utf8_encode 0x2029 then escape_u 0x2029
      else case u of [c] \<Rightarrow> quote_ascii c | _ \<Rightarrow> u)"

function quote_chars :: "string \<Rightarrow> string" where
  "quote_chars s =
     (if s = [] then []
      else
        let n = utf8_len s in
        if n = 0 then escape_u 0xFFFD @ quote_chars (tl s)
        else quote_rune (take n s) @ quote_chars (drop n s))"
  by pat_completeness auto
termination
  by (relation "measure length") (auto simp: Let_def)

declare quote_chars.simps [simp del]

fun print_json :: "json \<Rightarrow> string" and print_elems :: "json list \<Rightarrow> string"
  and print_members :: "(string \<times> json) list \<Rightarrow> string" where
  "print_json JNull = ''null''"
| "print_json (JBool b) = (if b then ''true'' else ''false'')"
| "print_json (JNum s) = s"
| "print_json (JStr s) = CHR 0x22 # quote_chars s @ [CHR 0x22]"
| "print_json (JArr js) = CHR ''['' # print_elems js @ '']''"
| "print_json (JObj ms) = CHR ''{'' # print_members ms @ ''}''"
| "print_elems [] = ''''"
| "print_elems (j # js) = print_json j @ (if js = [] then '''' else CHR '','' # print_elems js)"
| "print_members [] = ''''"
| "print_members ((k, j) # ms) =
     CHR 0x22 # quote_chars k @ CHR 0x22 # CHR '':'' # print_json j @
       (if ms = [] then '''' else CHR '','' # print_members ms)"

section \<open>Reading\<close>

definition hex_val :: "char \<Rightarrow> nat option" where
  "hex_val c =
     (let n = (of_char c :: nat) in
      if 48 \<le> n \<and> n \<le> 57 then Some (n - 48)
      else if 97 \<le> n \<and> n \<le> 102 then Some (n - 87)
      else if 65 \<le> n \<and> n \<le> 70 then Some (n - 55)
      else None)"

fun read_hex4 :: "string \<Rightarrow> (nat \<times> string) option" where
  "read_hex4 (a # b # c # d # s) =
     (case (hex_val a, hex_val b, hex_val c, hex_val d) of
        (Some x, Some y, Some z, Some w) \<Rightarrow> Some (4096 * x + 256 * y + 16 * z + w, s)
      | _ \<Rightarrow> None)"
| "read_hex4 _ = None"

text \<open>
  The rune of an escape, whose second half may follow in an escape of its own: a surrogate
  without its partner is read as U+FFFD.
\<close>

definition is_surrogate :: "nat \<Rightarrow> bool" where
  "is_surrogate r \<longleftrightarrow> 0xD800 \<le> r \<and> r \<le> 0xDFFF"

definition read_low :: "string \<Rightarrow> (nat \<times> string) option" where
  "read_low s =
     (case s of b # u # s' \<Rightarrow> if b = CHR 0x5C \<and> u = CHR ''u'' then read_hex4 s' else None | _ \<Rightarrow> None)"

definition unescape_rune :: "nat \<Rightarrow> string \<Rightarrow> string \<times> string" where
  "unescape_rune r s =
     (if \<not> is_surrogate r then (utf8_encode r, s)
      else case read_low s of
        None \<Rightarrow> (replacement, s)
      | Some (r1, s') \<Rightarrow>
          if r \<le> 0xDBFF \<and> 0xDC00 \<le> r1 \<and> r1 \<le> 0xDFFF
          then (utf8_encode (0x10000 + (r - 0xD800) * 1024 + (r1 - 0xDC00)), s')
          else (replacement, s))"

definition unescape_char :: "char \<Rightarrow> char option" where
  "unescape_char c =
     (if c = CHR 0x22 \<or> c = CHR 0x5C \<or> c = CHR ''/'' then Some c
      else if c = CHR ''b'' then Some (CHR 0x08)
      else if c = CHR ''f'' then Some (CHR 0x0C)
      else if c = CHR ''n'' then Some (CHR 0x0A)
      else if c = CHR ''r'' then Some (CHR 0x0D)
      else if c = CHR ''t'' then Some (CHR 0x09)
      else None)"

lemma read_hex4_shorter: "read_hex4 s = Some (r, s') \<Longrightarrow> length s = length s' + 4"
  by (cases s rule: read_hex4.cases) (auto split: option.splits)

lemma unescape_rune_shorter: "length (snd (unescape_rune r s)) \<le> length s"
  by (auto simp: unescape_rune_def read_low_def dest!: read_hex4_shorter split: option.splits list.splits if_splits)

text \<open>The rest of a string literal after its opening quote.\<close>

function read_string :: "string \<Rightarrow> (string \<times> string) option" where
  "read_string s =
     (case s of
        [] \<Rightarrow> None
      | c # cs \<Rightarrow>
          if c = CHR 0x22 then Some ([], cs)
          else if c = CHR 0x5C then
            (case cs of
               [] \<Rightarrow> None
             | e # es \<Rightarrow>
                 if e = CHR ''u'' then
                   (case read_hex4 es of
                      None \<Rightarrow> None
                    | Some (r, es') \<Rightarrow>
                        map_option (map_prod (\<lambda>t. fst (unescape_rune r es') @ t) id)
                          (read_string (snd (unescape_rune r es'))))
                 else
                   (case unescape_char e of
                      None \<Rightarrow> None
                    | Some d \<Rightarrow> map_option (map_prod (Cons d) id) (read_string es)))
          else if of_char c < (0x20 :: nat) then None
          else
            let n = utf8_len s in
            if n = 0 then map_option (map_prod (\<lambda>t. replacement @ t) id) (read_string cs)
            else map_option (map_prod (\<lambda>t. take n s @ t) id) (read_string (drop n s)))"
  by pat_completeness auto
termination
proof (relation "measure length", goal_cases)
  case (2 s c cs e es p r es')
  then have "length (snd (unescape_rune r es')) \<le> length es'" "length es = length es' + 4"
    using unescape_rune_shorter read_hex4_shorter by auto
  with 2 show ?case by simp
qed auto

declare read_string.simps [simp del]

definition is_ws :: "char \<Rightarrow> bool" where
  "is_ws c \<longleftrightarrow> c = CHR '' '' \<or> c = CHR 0x09 \<or> c = CHR 0x0A \<or> c = CHR 0x0D"

definition skip_ws :: "string \<Rightarrow> string" where
  "skip_ws s = dropWhile is_ws s"

definition number_char :: "char \<Rightarrow> bool" where
  "number_char c \<longleftrightarrow> is_digit c \<or> c \<in> set ''-+.eE''"

definition digits1 :: "string \<Rightarrow> string option" where
  "digits1 s = (case s of c # cs \<Rightarrow> if is_digit c then Some (dropWhile is_digit cs) else None | [] \<Rightarrow> None)"

definition valid_exp :: "string \<Rightarrow> bool" where
  "valid_exp s =
     (case s of
        [] \<Rightarrow> True
      | c # cs \<Rightarrow>
          (c = CHR ''e'' \<or> c = CHR ''E'') \<and>
          digits1 (case cs of d # ds \<Rightarrow> if d = CHR ''+'' \<or> d = CHR ''-'' then ds else cs | [] \<Rightarrow> []) = Some [])"

definition valid_number :: "string \<Rightarrow> bool" where
  "valid_number s =
     (let u = (case s of c # cs \<Rightarrow> if c = CHR ''-'' then cs else s | [] \<Rightarrow> []) in
      case u of
        [] \<Rightarrow> False
      | c # cs \<Rightarrow>
          is_digit c \<and>
          (let r = (if c = CHR ''0'' then cs else dropWhile is_digit cs) in
           case r of
             [] \<Rightarrow> True
           | d # ds \<Rightarrow>
               if d = CHR ''.'' then (case digits1 ds of None \<Rightarrow> False | Some r' \<Rightarrow> valid_exp r')
               else valid_exp r))"

definition read_word :: "string \<Rightarrow> json \<Rightarrow> string \<Rightarrow> (json \<times> string) option" where
  "read_word w j s = (if take (length w) s = w then Some (j, drop (length w) s) else None)"

definition read_number :: "string \<Rightarrow> (json \<times> string) option" where
  "read_number s =
     (let lit = takeWhile number_char s in
      if valid_number lit then Some (JNum lit, dropWhile number_char s) else None)"

fun parse_value :: "nat \<Rightarrow> string \<Rightarrow> (json \<times> string) option"
  and parse_elems :: "nat \<Rightarrow> string \<Rightarrow> (json list \<times> string) option"
  and parse_members :: "nat \<Rightarrow> string \<Rightarrow> ((string \<times> json) list \<times> string) option" where
  "parse_value 0 s = None"
| "parse_value (Suc n) s =
     (case skip_ws s of
        [] \<Rightarrow> None
      | c # cs \<Rightarrow>
          if c = CHR ''{'' then
            (case skip_ws cs of
               [] \<Rightarrow> None
             | d # ds \<Rightarrow> if d = CHR ''}'' then Some (JObj [], ds)
                         else map_option (map_prod JObj id) (parse_members n (d # ds)))
          else if c = CHR ''['' then
            (case skip_ws cs of
               [] \<Rightarrow> None
             | d # ds \<Rightarrow> if d = CHR '']'' then Some (JArr [], ds)
                         else map_option (map_prod JArr id) (parse_elems n (d # ds)))
          else if c = CHR 0x22 then map_option (map_prod JStr id) (read_string cs)
          else if c = CHR ''n'' then read_word ''null'' JNull (c # cs)
          else if c = CHR ''t'' then read_word ''true'' (JBool True) (c # cs)
          else if c = CHR ''f'' then read_word ''false'' (JBool False) (c # cs)
          else read_number (c # cs))"
| "parse_elems 0 s = None"
| "parse_elems (Suc n) s =
     (case parse_value n s of
        None \<Rightarrow> None
      | Some (j, s1) \<Rightarrow>
          (case skip_ws s1 of
             [] \<Rightarrow> None
           | c # cs \<Rightarrow>
               if c = CHR '','' then map_option (map_prod (Cons j) id) (parse_elems n cs)
               else if c = CHR '']'' then Some ([j], cs)
               else None))"
| "parse_members 0 s = None"
| "parse_members (Suc n) s =
     (case skip_ws s of
        [] \<Rightarrow> None
      | c # cs \<Rightarrow>
          if c \<noteq> CHR 0x22 then None
          else case read_string cs of
            None \<Rightarrow> None
          | Some (k, s1) \<Rightarrow>
              (case skip_ws s1 of
                 [] \<Rightarrow> None
               | d # ds \<Rightarrow>
                   if d \<noteq> CHR '':'' then None
                   else case parse_value n ds of
                     None \<Rightarrow> None
                   | Some (j, s2) \<Rightarrow>
                       (case skip_ws s2 of
                          [] \<Rightarrow> None
                        | e # es \<Rightarrow>
                            if e = CHR '','' then map_option (map_prod (Cons (k, j)) id) (parse_members n es)
                            else if e = CHR ''}'' then Some ([(k, j)], es)
                            else None)))"

definition parse_json :: "string \<Rightarrow> json option" where
  "parse_json s =
     (case parse_value (Suc (length s)) s of
        None \<Rightarrow> None
      | Some (j, rest) \<Rightarrow> if skip_ws rest = [] then Some j else None)"

end
