(* ===== verification/GoJsonRoundtrip.thy ===== *)
theory GoJsonRoundtrip
  imports GoJson
begin

text \<open>The parser reads back every tree the printer writes, if its strings are valid UTF-8.\<close>

section \<open>Strings\<close>

function utf8_ok :: "string \<Rightarrow> bool" where
  "utf8_ok s = (if s = [] then True else if utf8_len s = 0 then False else utf8_ok (drop (utf8_len s) s))"
  by pat_completeness auto
termination
  by (relation "measure length") auto

declare utf8_ok.simps [simp del]

lemma utf8_ok_Nil [simp]: "utf8_ok []"
  by (simp add: utf8_ok.simps)

lemma hex_val_digit: "d < 16 \<Longrightarrow> hex_val (hex_digit d) = Some d"
  by (simp add: hex_val_def hex_digit_def Let_def)

lemma hex_sum: "4096 * (n div 4096) + 256 * (n div 256 mod 16) + 16 * (n div 16 mod 16) + n mod 16 = (n :: nat)"
proof -
  have "n = 16 * (n div 16) + n mod 16"
    by simp
  moreover have "n div 16 = 16 * (n div 256) + n div 16 mod 16"
    using mult_div_mod_eq [of 16 "n div 16"] by (simp flip: div_mult2_eq)
  moreover have "n div 256 = 16 * (n div 4096) + n div 256 mod 16"
    using mult_div_mod_eq [of 16 "n div 256"] by (simp flip: div_mult2_eq)
  ultimately show ?thesis by linarith
qed

lemma read_hex4_escape:
  "n < 65536 \<Longrightarrow>
     read_hex4 (hex_digit (n div 4096) # hex_digit (n div 256 mod 16) # hex_digit (n div 16 mod 16) #
       hex_digit (n mod 16) # s) = Some (n, s)"
  using hex_sum [of n] by (simp add: hex_val_digit less_mult_imp_div_less)

lemma read_string_escape_u:
  assumes "n < 65536" and "\<not> is_surrogate n"
  shows "read_string (escape_u n @ s) = map_option (map_prod (\<lambda>t. utf8_encode n @ t) id) (read_string s)"
  by (subst read_string.simps)
    (simp add: escape_u_def read_hex4_escape [OF assms(1)] unescape_rune_def assms(2) del: read_hex4.simps)

lemma append_single_fun: "(@) [c] = Cons c"
  by auto

lemma utf8_encode_ascii: "of_char c < (0x80 :: nat) \<Longrightarrow> utf8_encode (of_char c) = [c]"
  by (simp add: utf8_encode_def utf8_bytes_def)

lemma read_string_raw:
  assumes "c \<noteq> CHR 0x22" and "c \<noteq> CHR 0x5C" and "\<not> of_char c < (0x20 :: nat)"
    and "utf8_len (c # cs) = n" and "0 < n"
  shows "read_string (c # cs) = map_option (map_prod (\<lambda>t. take n (c # cs) @ t) id) (read_string (drop n (c # cs)))"
  using assms by (subst read_string.simps) (simp add: Let_def)

lemma read_string_simple_escape:
  assumes "unescape_char e = Some d" and "e \<noteq> CHR ''u''"
  shows "read_string (CHR 0x5C # e # s) = map_option (map_prod (Cons d) id) (read_string s)"
  using assms by (subst read_string.simps) simp

lemma read_string_ascii:
  assumes "of_char c < (0x80 :: nat)"
  shows "read_string (quote_ascii c @ s) = map_option (map_prod (Cons c) id) (read_string s)"
proof -
  have esc: "read_string (escape_u (of_char c) @ s) = map_option (map_prod (Cons c) id) (read_string s)"
    using assms by (subst read_string_escape_u) (simp_all add: is_surrogate_def utf8_encode_ascii append_single_fun)
  have raw: "read_string (c # s) = map_option (map_prod (Cons c) id) (read_string s)"
    if "c \<noteq> CHR 0x22" "c \<noteq> CHR 0x5C" "\<not> of_char c < (0x20 :: nat)"
    using that assms by (subst read_string_raw [where n = 1]) (simp_all add: Let_def append_single_fun)
  show ?thesis
    unfolding quote_ascii_def
    by (auto simp: read_string_simple_escape unescape_char_def esc raw)
qed

lemma utf8_len_take: "utf8_len s = n \<Longrightarrow> 0 < n \<Longrightarrow> utf8_len (take n s @ q) = n"
proof (cases s)
  case (Cons b bs)
  assume n: "utf8_len s = n" "0 < n"
  define b0 where "b0 = (of_char b :: nat)"
  consider (a) "b0 < 0x80" | (b) "0xC2 \<le> b0" "b0 \<le> 0xDF" | (c) "0xE0 \<le> b0" "b0 \<le> 0xEF"
    | (d) "0xF0 \<le> b0" "b0 \<le> 0xF4"
    using n by (fastforce simp: Cons b0_def Let_def split: if_splits)
  then show ?thesis
  proof cases
    case a
    with n have "n = 1" by (simp add: Cons flip: b0_def)
    with a show ?thesis by (simp add: Cons flip: b0_def)
  next
    case b
    with n show ?thesis by (cases bs) (auto simp: Cons Let_def split: if_splits simp flip: b0_def)
  next
    case c
    with n obtain b1 b2 bs' where "bs = b1 # b2 # bs'"
      by (auto simp: Cons Let_def split: list.splits simp flip: b0_def)
    with c n show ?thesis
      by (simp add: Cons Let_def flip: b0_def split: if_split_asm)
  next
    case d
    with n obtain b1 b2 b3 bs' where "bs = b1 # b2 # b3 # bs'"
      by (auto simp: Cons Let_def split: list.splits simp flip: b0_def)
    with d n show ?thesis
      by (simp add: Cons Let_def flip: b0_def split: if_split_asm)
  qed
qed simp

lemma utf8_len_ascii: "utf8_len (c # cs) = 1 \<longleftrightarrow> of_char c < (0x80 :: nat)"
  by (auto simp: Let_def split: list.splits)

lemma utf8_len_head:
  assumes "utf8_len s = n" and "1 < n"
  obtains c cs where "s = c # cs" "\<not> of_char c < (0x80 :: nat)"
  using assms utf8_len_ascii by (cases s) (auto, metis less_irrefl)

declare utf8_len.simps(2) [simp del]

lemma read_string_rune:
  assumes "utf8_len s = n" and "0 < n"
  shows "read_string (quote_rune (take n s) @ q) = map_option (map_prod (\<lambda>t. take n s @ t) id) (read_string q)"
proof (cases "n = 1")
  case True
  then obtain c cs where s: "s = c # cs"
    using assms by (cases s) auto
  then have c: "of_char c < (0x80 :: nat)"
    using assms True utf8_len_ascii by metis
  then have "quote_rune (take n s) = quote_ascii c"
    using True s by (simp add: quote_rune_def utf8_encode_def utf8_bytes_def)
  then show ?thesis
    using read_string_ascii [OF c, of q] True s by simp
next
  case False
  with assms have "1 < n" by simp
  then obtain c cs where s: "s = c # cs" "\<not> of_char c < (0x80 :: nat)"
    by (rule utf8_len_head [OF assms(1)])
  have len: "length (take n s) = n"
    using utf8_len_le [of s] assms by simp
  have raw: "read_string (take n s @ q) = map_option (map_prod (\<lambda>t. take n s @ t) id) (read_string q)"
  proof -
    define v where "v = take (n - 1) cs"
    have u: "take n s = c # v"
      using s assms(2) by (cases n) (simp_all add: v_def)
    have "take n ((c # v) @ q) = c # v" "drop n ((c # v) @ q) = q"
      using len by (simp_all only: u take_append_exact drop_append_exact)
    moreover have "c \<noteq> CHR 0x22 \<and> c \<noteq> CHR 0x5C \<and> \<not> of_char c < (0x20 :: nat)"
      using s(2) by auto
    moreover have "utf8_len ((c # v) @ q) = n"
      using utf8_len_take [OF assms, of q] by (simp only: u)
    ultimately show ?thesis
      using read_string_raw [of c "v @ q" n] assms(2) by (simp add: u)
  qed
  have "take n s = utf8_encode 0x2028 \<Longrightarrow> ?thesis" "take n s = utf8_encode 0x2029 \<Longrightarrow> ?thesis"
    using read_string_escape_u [of "0x2028" q] read_string_escape_u [of "0x2029" q]
    by (simp_all add: quote_rune_def is_surrogate_def)
  moreover have "quote_rune (take n s) = take n s"
    if "take n s \<noteq> utf8_encode 0x2028" "take n s \<noteq> utf8_encode 0x2029"
  proof -
    have "take n s \<noteq> [x]" for x
      using len False by (metis One_nat_def length_Cons list.size(3))
    with that show ?thesis by (simp add: quote_rune_def split: list.splits)
  qed
  ultimately show ?thesis
    using raw by metis
qed

lemma read_quote_chars:
  assumes "utf8_ok s"
  shows "read_string (quote_chars s @ CHR 0x22 # rest) = Some (s, rest)"
  using assms
proof (induction s rule: quote_chars.induct)
  case (1 s)
  show ?case
  proof (cases "s = []")
    case True
    then show ?thesis by (simp add: quote_chars.simps read_string.simps)
  next
    case False
    define n where "n = utf8_len s"
    have n: "0 < n" "utf8_ok (drop n s)"
      using 1(3) False by (auto simp: utf8_ok.simps [of s] n_def split: if_splits)
    have "quote_chars s = quote_rune (take n s) @ quote_chars (drop n s)"
      using False n by (subst quote_chars.simps) (simp add: n_def Let_def)
    moreover have "read_string (quote_chars (drop n s) @ CHR 0x22 # rest) = Some (drop n s, rest)"
      using 1(2) [OF False _ _] n by (simp add: n_def)
    ultimately show ?thesis
      using read_string_rune [of s n] n by (simp add: n_def)
  qed
qed

section \<open>Trees\<close>

text \<open>
  Trees that print to a text of their own: strings are valid UTF-8, and a number is a literal of
  the grammar. \<open>fuel_of\<close> is the fuel the parser needs.
\<close>

fun json_ok :: "json \<Rightarrow> bool" and elems_ok :: "json list \<Rightarrow> bool"
  and members_ok :: "(string \<times> json) list \<Rightarrow> bool" where
  "json_ok (JNum s) = (valid_number s \<and> list_all number_char s)"
| "json_ok (JStr s) = utf8_ok s"
| "json_ok (JArr js) = elems_ok js"
| "json_ok (JObj ms) = members_ok ms"
| "json_ok _ = True"
| "elems_ok [] = True"
| "elems_ok (j # js) = (json_ok j \<and> elems_ok js)"
| "members_ok [] = True"
| "members_ok ((k, j) # ms) = (utf8_ok k \<and> json_ok j \<and> members_ok ms)"

fun fuel_of :: "json \<Rightarrow> nat" and fuel_elems :: "json list \<Rightarrow> nat"
  and fuel_members :: "(string \<times> json) list \<Rightarrow> nat" where
  "fuel_of (JArr js) = Suc (fuel_elems js)"
| "fuel_of (JObj ms) = Suc (fuel_members ms)"
| "fuel_of _ = 1"
| "fuel_elems [] = 0"
| "fuel_elems (j # js) = Suc (max (fuel_of j) (fuel_elems js))"
| "fuel_members [] = 0"
| "fuel_members ((k, j) # ms) = Suc (max (fuel_of j) (fuel_members ms))"

lemma valid_number_head:
  assumes "valid_number s"
  obtains c cs where "s = c # cs" "is_digit c \<or> c = CHR ''-''"
  using assms by (auto simp: valid_number_def Let_def split: list.splits if_splits)

lemma number_char_facts:
  "is_digit c \<or> c = CHR ''-'' \<Longrightarrow>
     \<not> is_ws c \<and> c \<noteq> CHR ''{'' \<and> c \<noteq> CHR ''['' \<and> c \<noteq> CHR 0x22 \<and> c \<noteq> CHR ''n'' \<and> c \<noteq> CHR ''t'' \<and>
     c \<noteq> CHR ''f'' \<and> c \<noteq> CHR '']'' \<and> c \<noteq> CHR ''}''"
  by (auto simp: is_digit_def is_ws_def)

text \<open>What follows a value in printed text ends a number.\<close>

definition ends_value :: "string \<Rightarrow> bool" where
  "ends_value s \<longleftrightarrow> (case s of [] \<Rightarrow> True | c # _ \<Rightarrow> \<not> number_char c)"

lemma read_number_lit:
  assumes "list_all number_char s" and "ends_value rest" and "valid_number s"
  shows "read_number (s @ rest) = Some (JNum s, rest)"
proof -
  have "takeWhile number_char (s @ rest) = s" "dropWhile number_char (s @ rest) = rest"
    using assms(1,2) by (auto simp: list_all_iff ends_value_def takeWhile_append dropWhile_append
        takeWhile_eq_Nil_iff dropWhile_eq_self_iff split: list.splits)
  with assms(3) show ?thesis by (simp add: read_number_def)
qed

lemma print_json_head:
  assumes "json_ok j"
  obtains c cs where "print_json j = c # cs" "\<not> is_ws c" "c \<noteq> CHR '']''" "c \<noteq> CHR ''}''"
proof (cases j)
  case (JNum s)
  then obtain c cs where "s = c # cs" "is_digit c \<or> c = CHR ''-''"
    using assms valid_number_head by auto
  with JNum number_char_facts [of c] show thesis
    by (intro that) auto
next
  case (JBool b)
  then show thesis
    by (intro that [of "if b then CHR ''t'' else CHR ''f''" "if b then ''rue'' else ''alse''"])
      (auto simp: is_ws_def)
qed (auto simp: is_ws_def intro: that)

lemma skip_ws_print: "json_ok j \<Longrightarrow> skip_ws (print_json j @ s) = print_json j @ s"
  by (erule print_json_head) (simp add: skip_ws_def)

lemma skip_ws_Cons: "\<not> is_ws c \<Longrightarrow> skip_ws (c # s) = c # s"
  by (simp add: skip_ws_def)

lemma punct_facts [simp]:
  "\<not> is_ws CHR '',''" "\<not> is_ws CHR '']''" "\<not> is_ws CHR ''}''" "\<not> is_ws CHR '':''" "\<not> is_ws CHR 0x22"
  "\<not> is_ws CHR ''{''" "\<not> is_ws CHR ''[''"
  "\<not> number_char CHR '',''" "\<not> number_char CHR '']''" "\<not> number_char CHR ''}''"
  by (simp_all add: is_ws_def number_char_def is_digit_def)

lemma ends_value_Cons [simp]: "ends_value (c # s) \<longleftrightarrow> \<not> number_char c"
  by (simp add: ends_value_def)

lemma parse_word [simp]: "read_word w j (w @ s) = Some (j, s)"
  by (simp add: read_word_def)

lemma parse_scalar:
  assumes "json_ok j" and "ends_value rest" and "\<forall>js. j \<noteq> JArr js" and "\<forall>ms. j \<noteq> JObj ms"
  shows "parse_value (Suc n) (print_json j @ rest) = Some (j, rest)"
proof (cases j)
  case (JNum s)
  then obtain c cs where c: "s = c # cs" "is_digit c \<or> c = CHR ''-''"
    using assms(1) valid_number_head by auto
  then have "parse_value (Suc n) (print_json j @ rest) = read_number (s @ rest)"
    using JNum number_char_facts [OF c(2)] by (simp add: skip_ws_Cons)
  then show ?thesis
    using assms JNum by (simp add: read_number_lit)
next
  case JNull
  then show ?thesis
    using parse_word [of "''null''" JNull rest] by (simp add: skip_ws_def is_ws_def)
next
  case (JBool b)
  then show ?thesis
    using parse_word [of "''true''" "JBool True" rest] parse_word [of "''false''" "JBool False" rest]
    by (cases b) (simp_all add: skip_ws_def is_ws_def)
next
  case (JStr s)
  then show ?thesis
    using assms(1) by (simp add: skip_ws_Cons read_quote_chars)
qed (use assms in auto)

text \<open>The three parsers read back what the three printers wrote.\<close>

lemma parse_print:
  "json_ok j \<Longrightarrow> fuel_of j \<le> n \<Longrightarrow> ends_value rest \<Longrightarrow>
     parse_value n (print_json j @ rest) = Some (j, rest)"
  "elems_ok js \<Longrightarrow> fuel_elems js \<le> n \<Longrightarrow> js \<noteq> [] \<Longrightarrow>
     parse_elems n (print_elems js @ CHR '']'' # rest) = Some (js, rest)"
  "members_ok ms \<Longrightarrow> fuel_members ms \<le> n \<Longrightarrow> ms \<noteq> [] \<Longrightarrow>
     parse_members n (print_members ms @ CHR ''}'' # rest) = Some (ms, rest)"
proof (induction j and js and ms arbitrary: n rest and n rest and n rest
    rule: print_json_print_elems_print_members.induct)
  case (5 js)
  then obtain m where m: "n = Suc m" "fuel_elems js \<le> m"
    by (cases n) auto
  show ?case
  proof (cases js)
    case Nil
    then show ?thesis by (simp add: m skip_ws_Cons)
  next
    case (Cons j js')
    then obtain c cs where c: "print_elems js = c # cs" "\<not> is_ws c" "c \<noteq> CHR '']''"
      using 5(2) print_json_head [of j] by (metis append_Cons elems_ok.simps(2) json_ok.simps(3) print_elems.simps(2))
    have "parse_elems m (print_elems js @ CHR '']'' # rest) = Some (js, rest)"
      using 5 m Cons by simp
    with c show ?thesis by (simp add: m skip_ws_Cons)
  qed
next
  case (6 ms)
  then obtain m where m: "n = Suc m" "fuel_members ms \<le> m"
    by (cases n) auto
  show ?case
  proof (cases ms)
    case Nil
    then show ?thesis by (simp add: m skip_ws_Cons)
  next
    case (Cons kj ms')
    then obtain cs where c: "print_members ms = CHR 0x22 # cs"
      by (cases kj) simp
    have "parse_members m (print_members ms @ CHR ''}'' # rest) = Some (ms, rest)"
      using 6 m Cons by simp
    with c show ?thesis by (simp add: m skip_ws_Cons)
  qed
next
  case (8 j js)
  then obtain m where m: "n = Suc m" "fuel_of j \<le> m" "fuel_elems js \<le> m"
    by (cases n) auto
  show ?case
  proof (cases "js = []")
    case True
    then show ?thesis
      using 8 m by (simp add: skip_ws_Cons)
  next
    case False
    then show ?thesis
      using 8 m by (simp add: skip_ws_Cons)
  qed
next
  case (10 k j ms)
  then obtain m where m: "n = Suc m" "fuel_of j \<le> m" "fuel_members ms \<le> m"
    by (cases n) auto
  show ?case
  proof (cases "ms = []")
    case True
    then show ?thesis
      using 10 m by (simp add: skip_ws_Cons read_quote_chars)
  next
    case False
    then show ?thesis
      using 10 m by (simp add: skip_ws_Cons read_quote_chars)
  qed
qed (use parse_scalar in \<open>auto simp: Suc_le_eq gr0_conv_Suc simp del: print_json.simps parse_value.simps\<close>)

text \<open>The text of a value is longer than the fuel it needs.\<close>

lemma print_json_length: "json_ok j \<Longrightarrow> 0 < length (print_json j)"
  by (erule print_json_head) simp

lemma fuel_bound:
  "json_ok j \<Longrightarrow> fuel_of j \<le> length (print_json j)"
  "elems_ok js \<Longrightarrow> fuel_elems js \<le> Suc (length (print_elems js))"
  "members_ok ms \<Longrightarrow> fuel_members ms \<le> Suc (length (print_members ms))"
proof (induction j and js and ms rule: print_json_print_elems_print_members.induct)
  case (3 s)
  then show ?case using print_json_length [of "JNum s"] by (cases s) simp_all
next
  case (8 j js)
  then show ?case using print_json_length [of j] by (cases "js = []") auto
qed auto

lemma parse_print_json:
  assumes "json_ok j"
  shows "parse_json (print_json j) = Some j"
proof -
  have "parse_value (Suc (length (print_json j))) (print_json j @ []) = Some (j, [])"
    using fuel_bound(1) [OF assms] by (intro parse_print(1) [OF assms]) (simp_all add: ends_value_def)
  then show ?thesis
    by (simp add: parse_json_def skip_ws_def)
qed

end
