(* ===== verification/TableData.thy ===== *)
theory TableData
  imports EncodeTypes GoMap
begin

text \<open>
  The data of a table: \<^verbatim>\<open>src/table/schema.go\<close>, \<^verbatim>\<open>fragment.go\<close>, the
  \<open>Manifest\<close> of \<^verbatim>\<open>manifest.go\<close> and the \<open>RecordBatch\<close> of
  \<^verbatim>\<open>fragment_writer.go\<close>.

  A slice is a list, so a nil slice and an empty one are the same. A map from strings to strings is
  a list of pairs; \<open>None\<close> is the nil map where the program keeps one. The pointers to fields, data
  files and fragments are never nil in what the program builds and are left out.
\<close>

section \<open>Schemas\<close>

datatype Field = Field
  (fld_ID: int) (fld_Name: string) (fld_Type: DataType) (fld_Nullable: bool) (fld_Dimension: int)
  (fld_Children: "Field list") (fld_Metadata: "(string \<times> string) list option")

fun set_fld_ID :: "int \<Rightarrow> Field \<Rightarrow> Field" where
  "set_fld_ID i (Field _ n t nu d ch md) = Field i n t nu d ch md"

record Schema =
  Fields :: "Field list"

definition NewSchema :: "Field list \<Rightarrow> Schema" where
  "NewSchema fs = \<lparr>Fields = map2 (\<lambda>i f. set_fld_ID (wrap32 (int i)) f) [0..<length fs] fs\<rparr>"

definition FieldByName :: "Schema \<Rightarrow> string \<Rightarrow> Field option" where
  "FieldByName s n = find (\<lambda>f. fld_Name f = n) (Fields s)"

definition FieldByID :: "Schema \<Rightarrow> int \<Rightarrow> Field option" where
  "FieldByID s i = find (\<lambda>f. fld_ID f = i) (Fields s)"

definition HasField :: "Schema \<Rightarrow> string \<Rightarrow> bool" where
  "HasField s n \<longleftrightarrow> FieldByName s n \<noteq> None"

definition NumFields :: "Schema \<Rightarrow> nat" where
  "NumFields s = length (Fields s)"

section \<open>Fragments\<close>

record DataFile =
  df_Path :: string
  df_ColumnID :: int
  df_NumRows :: int
  df_FileSize :: int

record DeletionFile =
  del_Path :: string
  del_NumRows :: int

record Fragment =
  fr_ID :: int
  fr_NumRows :: int
  fr_DataFiles :: "DataFile list"
  fr_DeletionFile :: "DeletionFile option"
  fr_PhysicalRows :: int

definition NewFragment :: "int \<Rightarrow> Fragment" where
  "NewFragment i =
     \<lparr>fr_ID = i, fr_NumRows = 0, fr_DataFiles = [], fr_DeletionFile = None, fr_PhysicalRows = 0\<rparr>"

definition AddDataFile :: "DataFile \<Rightarrow> Fragment \<Rightarrow> Fragment" where
  "AddDataFile df f = f\<lparr>fr_DataFiles := fr_DataFiles f @ [df]\<rparr>"

definition SetDeletionFile :: "DeletionFile option \<Rightarrow> Fragment \<Rightarrow> Fragment" where
  "SetDeletionFile df f =
     f\<lparr>fr_DeletionFile := df,
       fr_PhysicalRows := (case df of None \<Rightarrow> fr_NumRows f | Some d \<Rightarrow> wrap64 (fr_NumRows f - del_NumRows d))\<rparr>"

definition NumDataFiles :: "Fragment \<Rightarrow> nat" where
  "NumDataFiles f = length (fr_DataFiles f)"

definition ColumnIDs :: "Fragment \<Rightarrow> int list" where
  "ColumnIDs f = map df_ColumnID (fr_DataFiles f)"

section \<open>Manifests and batches\<close>

record Manifest =
  man_Version :: int
  man_Timestamp :: int
  man_Schema :: Schema
  man_Fragments :: "Fragment list"
  man_IndexIDs :: "string list"
  man_MaxFragmentID :: int
  man_Tags :: "(string \<times> string) list"

definition NewManifest :: "int \<Rightarrow> Schema \<Rightarrow> Manifest" where
  "NewManifest version schema =
     \<lparr>man_Version = version, man_Timestamp = 0, man_Schema = schema, man_Fragments = [],
      man_IndexIDs = [], man_MaxFragmentID = 0, man_Tags = []\<rparr>"

record RecordBatch =
  rb_Schema :: Schema
  rb_Columns :: "(int, column) gomap"
  rb_NumRows :: int

definition NewRecordBatch :: "Schema \<Rightarrow> int \<Rightarrow> RecordBatch" where
  "NewRecordBatch schema n = \<lparr>rb_Schema = schema, rb_Columns = [], rb_NumRows = n\<rparr>"

definition SetColumn :: "int \<Rightarrow> column \<Rightarrow> RecordBatch \<Rightarrow> RecordBatch" where
  "SetColumn i data b = b\<lparr>rb_Columns := gm_put i data (rb_Columns b)\<rparr>"

definition Column :: "RecordBatch \<Rightarrow> int \<Rightarrow> column option" where
  "Column b i = map_of (rb_Columns b) i"

section \<open>Facts\<close>

lemma fld_set_ID [simp]:
  "fld_ID (set_fld_ID i f) = i" "fld_Name (set_fld_ID i f) = fld_Name f"
  "fld_Type (set_fld_ID i f) = fld_Type f" "fld_Dimension (set_fld_ID i f) = fld_Dimension f"
  by (cases f; simp)+

lemma FieldByID_Some:
  "FieldByID s i = Some f \<Longrightarrow> f \<in> set (Fields s) \<and> fld_ID f = i"
  by (auto simp: FieldByID_def find_Some_iff)

lemma FieldByName_Some:
  "FieldByName s n = Some f \<Longrightarrow> f \<in> set (Fields s) \<and> fld_Name f = n"
  by (auto simp: FieldByName_def find_Some_iff)

lemma FieldByName_None: "FieldByName s n = None \<longleftrightarrow> n \<notin> fld_Name ` set (Fields s)"
  by (auto simp: FieldByName_def find_None_iff)

lemma HasField_iff: "HasField s n \<longleftrightarrow> n \<in> fld_Name ` set (Fields s)"
  by (simp add: HasField_def FieldByName_None)

text \<open>With distinct identifiers every field is found by its own.\<close>

lemma find_distinct:
  "distinct (map g xs) \<Longrightarrow> x \<in> set xs \<Longrightarrow> find (\<lambda>y. g y = g x) xs = Some x"
  by (induction xs) auto

lemma FieldByID_distinct:
  "distinct (map fld_ID (Fields s)) \<Longrightarrow> f \<in> set (Fields s) \<Longrightarrow> FieldByID s (fld_ID f) = Some f"
  by (simp add: FieldByID_def find_distinct)

lemma NewSchema_IDs:
  "length fs < 2 ^ 31 \<Longrightarrow> map fld_ID (Fields (NewSchema fs)) = map int [0..<length fs]"
  by (intro nth_equalityI) (auto simp: NewSchema_def fits32_def)

lemma NewSchema_distinct: "length fs < 2 ^ 31 \<Longrightarrow> distinct (map fld_ID (Fields (NewSchema fs)))"
  by (simp add: NewSchema_IDs distinct_map)

lemma Column_SetColumn [simp]:
  "Column (SetColumn i data b) j = (if i = j then Some data else Column b j)"
  by (simp add: Column_def SetColumn_def)

lemma SetDeletionFile_rows:
  assumes "fits64 (fr_NumRows f)" and "0 \<le> del_NumRows d" and "del_NumRows d \<le> fr_NumRows f"
  shows "fr_PhysicalRows (SetDeletionFile (Some d) f) = fr_NumRows f - del_NumRows d"
  using assms by (simp add: SetDeletionFile_def fits64_def)

end
