(* ===== verification/ManifestJson.thy ===== *)
theory ManifestJson
  imports GoJsonRoundtrip TableData "HOL-Library.List_Lexorder" "HOL-Library.Char_ord"
begin

text \<open>
  \<open>Manifest.Serialize\<close> and \<open>DeserializeManifest\<close> of \<^verbatim>\<open>src/table/manifest.go\<close>: what
  \<open>json.Marshal\<close> and \<open>json.Unmarshal\<close> do with the structs of \<open>TableData\<close>. Keys are the field names in
  the order of the struct, a map is written with its keys sorted, an empty slice as \<open>null\<close>; reading
  ignores unknown keys and the case of known ones, and leaves a value alone that is \<open>null\<close>.

  Three simplifications concern texts the program never writes: a second occurrence of a nested
  object replaces the first one instead of being merged into it, a \<open>null\<close> in place of an element
  or of the schema is an error or the empty value, not a nil pointer, and only ASCII letters fold
  when the case of a key is ignored.
\<close>

section \<open>Writing\<close>

definition enc_int :: "int \<Rightarrow> json" where
  "enc_int n = JNum (FormatInt n)"

definition enc_list :: "('a \<Rightarrow> json) \<Rightarrow> 'a list \<Rightarrow> json" where
  "enc_list f xs = (if xs = [] then JNull else JArr (map f xs))"

definition enc_map :: "(string \<times> string) list \<Rightarrow> json" where
  "enc_map m = JObj (map (\<lambda>(k, v). (k, JStr v)) (sort_key fst m))"

fun enc_Field :: "Field \<Rightarrow> json" and enc_Fields :: "Field list \<Rightarrow> json list" where
  "enc_Field (Field i n t nu d ch md) =
     JObj [(''ID'', enc_int i), (''Name'', JStr n), (''Type'', enc_int (DataType_code t)),
           (''Nullable'', JBool nu), (''Dimension'', enc_int d),
           (''Children'', if ch = [] then JNull else JArr (enc_Fields ch)),
           (''Metadata'', case md of None \<Rightarrow> JNull | Some m \<Rightarrow> enc_map m)]"
| "enc_Fields [] = []"
| "enc_Fields (f # fs) = enc_Field f # enc_Fields fs"

definition enc_Schema :: "Schema \<Rightarrow> json" where
  "enc_Schema s = JObj [(''Fields'', enc_list enc_Field (Fields s))]"

definition enc_DataFile :: "DataFile \<Rightarrow> json" where
  "enc_DataFile d =
     JObj [(''Path'', JStr (df_Path d)), (''ColumnID'', enc_int (df_ColumnID d)),
           (''NumRows'', enc_int (df_NumRows d)), (''FileSize'', enc_int (df_FileSize d))]"

definition enc_DeletionFile :: "DeletionFile \<Rightarrow> json" where
  "enc_DeletionFile d = JObj [(''Path'', JStr (del_Path d)), (''NumRows'', enc_int (del_NumRows d))]"

definition enc_Fragment :: "Fragment \<Rightarrow> json" where
  "enc_Fragment f =
     JObj [(''ID'', enc_int (fr_ID f)), (''NumRows'', enc_int (fr_NumRows f)),
           (''DataFiles'', enc_list enc_DataFile (fr_DataFiles f)),
           (''DeletionFile'', case fr_DeletionFile f of None \<Rightarrow> JNull | Some d \<Rightarrow> enc_DeletionFile d),
           (''PhysicalRows'', enc_int (fr_PhysicalRows f))]"

definition enc_Manifest :: "Manifest \<Rightarrow> json" where
  "enc_Manifest m =
     JObj [(''Version'', enc_int (man_Version m)), (''Timestamp'', enc_int (man_Timestamp m)),
           (''Schema'', enc_Schema (man_Schema m)),
           (''Fragments'', enc_list enc_Fragment (man_Fragments m)),
           (''IndexIDs'', enc_list JStr (man_IndexIDs m)),
           (''MaxFragmentID'', enc_int (man_MaxFragmentID m)), (''Tags'', enc_map (man_Tags m))]"

definition Manifest_Serialize :: "Manifest \<Rightarrow> byte list res" where
  "Manifest_Serialize m = Inr (bytes_of_string (print_json (enc_Manifest m)))"

section \<open>Reading\<close>

definition lower :: "char \<Rightarrow> char" where
  "lower c = (let n = (of_char c :: nat) in if 65 \<le> n \<and> n \<le> 90 then char_of (n + 32) else c)"

definition key_is :: "string \<Rightarrow> string \<Rightarrow> bool" where
  "key_is k name \<longleftrightarrow> map lower k = map lower name"

definition dec_int :: "(int \<Rightarrow> bool) \<Rightarrow> json \<Rightarrow> int \<Rightarrow> int option" where
  "dec_int fits j cur =
     (case j of
        JNull \<Rightarrow> Some cur
      | JNum s \<Rightarrow> (case ParseInt s of Inl e \<Rightarrow> None | Inr n \<Rightarrow> if fits n then Some n else None)
      | _ \<Rightarrow> None)"

definition dec_string :: "json \<Rightarrow> string \<Rightarrow> string option" where
  "dec_string j cur = (case j of JNull \<Rightarrow> Some cur | JStr s \<Rightarrow> Some s | _ \<Rightarrow> None)"

definition dec_bool :: "json \<Rightarrow> bool \<Rightarrow> bool option" where
  "dec_bool j cur = (case j of JNull \<Rightarrow> Some cur | JBool b \<Rightarrow> Some b | _ \<Rightarrow> None)"

fun map_opt :: "('a \<Rightarrow> 'b option) \<Rightarrow> 'a list \<Rightarrow> 'b list option" where
  "map_opt f [] = Some []"
| "map_opt f (x # xs) =
     (case f x of None \<Rightarrow> None | Some y \<Rightarrow> map_option (Cons y) (map_opt f xs))"

definition dec_list :: "(json \<Rightarrow> 'a option) \<Rightarrow> json \<Rightarrow> 'a list option" where
  "dec_list f j = (case j of JNull \<Rightarrow> Some [] | JArr js \<Rightarrow> map_opt f js | _ \<Rightarrow> None)"

fun dec_map_members :: "(string \<times> json) list \<Rightarrow> (string \<times> string) list \<Rightarrow> (string \<times> string) list option" where
  "dec_map_members [] m = Some m"
| "dec_map_members ((k, j) # ms) m =
     (case dec_string j '''' of None \<Rightarrow> None | Some v \<Rightarrow> dec_map_members ms (gm_put k v m))"

definition dec_map :: "json \<Rightarrow> (string \<times> string) list option option" where
  "dec_map j =
     (case j of JNull \<Rightarrow> Some None | JObj ms \<Rightarrow> map_option Some (dec_map_members ms []) | _ \<Rightarrow> None)"

text \<open>A struct is filled member by member; \<open>put\<close> stores one of them, or ignores it.\<close>

fun dec_members :: "(string \<Rightarrow> json \<Rightarrow> 'a \<Rightarrow> 'a option) \<Rightarrow> (string \<times> json) list \<Rightarrow> 'a \<Rightarrow> 'a option" where
  "dec_members put [] x = Some x"
| "dec_members put ((k, j) # ms) x =
     (case put k j x of None \<Rightarrow> None | Some y \<Rightarrow> dec_members put ms y)"

definition dec_struct :: "(string \<Rightarrow> json \<Rightarrow> 'a \<Rightarrow> 'a option) \<Rightarrow> 'a \<Rightarrow> json \<Rightarrow> 'a option" where
  "dec_struct put zero j = (case j of JObj ms \<Rightarrow> dec_members put ms zero | _ \<Rightarrow> None)"

definition zero_Field :: Field where
  "zero_Field = Field 0 '''' (TypeOther 0) False 0 [] None"

fun dec_Field :: "json \<Rightarrow> Field option" and dec_Fields :: "json list \<Rightarrow> Field list option"
  and dec_Field_members :: "(string \<times> json) list \<Rightarrow> Field \<Rightarrow> Field option" where
  "dec_Field (JObj ms) = dec_Field_members ms zero_Field"
| "dec_Field _ = None"
| "dec_Fields [] = Some []"
| "dec_Fields (j # js) =
     (case dec_Field j of None \<Rightarrow> None | Some f \<Rightarrow> map_option (Cons f) (dec_Fields js))"
| "dec_Field_members [] f = Some f"
| "dec_Field_members ((k, j) # ms) (Field i n t nu d ch md) =
     (case
        (if key_is k ''ID'' then
           map_option (\<lambda>i'. Field i' n t nu d ch md) (dec_int fits32 j i)
         else if key_is k ''Name'' then
           map_option (\<lambda>n'. Field i n' t nu d ch md) (dec_string j n)
         else if key_is k ''Type'' then
           map_option (\<lambda>c. Field i n (DataType_of_code c) nu d ch md) (dec_int fits32 j (DataType_code t))
         else if key_is k ''Nullable'' then
           map_option (\<lambda>b. Field i n t b d ch md) (dec_bool j nu)
         else if key_is k ''Dimension'' then
           map_option (\<lambda>d'. Field i n t nu d' ch md) (dec_int fits32 j d)
         else if key_is k ''Children'' then
           (case j of
              JNull \<Rightarrow> Some (Field i n t nu d [] md)
            | JArr js \<Rightarrow> map_option (\<lambda>ch'. Field i n t nu d ch' md) (dec_Fields js)
            | _ \<Rightarrow> None)
         else if key_is k ''Metadata'' then
           map_option (\<lambda>md'. Field i n t nu d ch md') (dec_map j)
         else Some (Field i n t nu d ch md))
      of None \<Rightarrow> None | Some f \<Rightarrow> dec_Field_members ms f)"

definition set_Schema_member :: "string \<Rightarrow> json \<Rightarrow> Schema \<Rightarrow> Schema option" where
  "set_Schema_member k j s =
     (if key_is k ''Fields'' then map_option (\<lambda>fs. s\<lparr>Fields := fs\<rparr>) (dec_list dec_Field j) else Some s)"

definition zero_Schema :: Schema where
  "zero_Schema = \<lparr>Fields = []\<rparr>"

definition dec_Schema :: "json \<Rightarrow> Schema option" where
  "dec_Schema j = (if j = JNull then Some zero_Schema else dec_struct set_Schema_member zero_Schema j)"

definition set_DataFile_member :: "string \<Rightarrow> json \<Rightarrow> DataFile \<Rightarrow> DataFile option" where
  "set_DataFile_member k j d =
     (if key_is k ''Path'' then map_option (\<lambda>x. d\<lparr>df_Path := x\<rparr>) (dec_string j (df_Path d))
      else if key_is k ''ColumnID'' then map_option (\<lambda>x. d\<lparr>df_ColumnID := x\<rparr>) (dec_int fits32 j (df_ColumnID d))
      else if key_is k ''NumRows'' then map_option (\<lambda>x. d\<lparr>df_NumRows := x\<rparr>) (dec_int fits64 j (df_NumRows d))
      else if key_is k ''FileSize'' then map_option (\<lambda>x. d\<lparr>df_FileSize := x\<rparr>) (dec_int fits64 j (df_FileSize d))
      else Some d)"

definition dec_DataFile :: "json \<Rightarrow> DataFile option" where
  "dec_DataFile = dec_struct set_DataFile_member
     \<lparr>df_Path = '''', df_ColumnID = 0, df_NumRows = 0, df_FileSize = 0\<rparr>"

definition set_DeletionFile_member :: "string \<Rightarrow> json \<Rightarrow> DeletionFile \<Rightarrow> DeletionFile option" where
  "set_DeletionFile_member k j d =
     (if key_is k ''Path'' then map_option (\<lambda>x. d\<lparr>del_Path := x\<rparr>) (dec_string j (del_Path d))
      else if key_is k ''NumRows'' then map_option (\<lambda>x. d\<lparr>del_NumRows := x\<rparr>) (dec_int fits64 j (del_NumRows d))
      else Some d)"

definition dec_DeletionFile :: "json \<Rightarrow> DeletionFile option" where
  "dec_DeletionFile = dec_struct set_DeletionFile_member \<lparr>del_Path = '''', del_NumRows = 0\<rparr>"

definition set_Fragment_member :: "string \<Rightarrow> json \<Rightarrow> Fragment \<Rightarrow> Fragment option" where
  "set_Fragment_member k j f =
     (if key_is k ''ID'' then map_option (\<lambda>x. f\<lparr>fr_ID := x\<rparr>) (dec_int fits32 j (fr_ID f))
      else if key_is k ''NumRows'' then map_option (\<lambda>x. f\<lparr>fr_NumRows := x\<rparr>) (dec_int fits64 j (fr_NumRows f))
      else if key_is k ''DataFiles'' then map_option (\<lambda>x. f\<lparr>fr_DataFiles := x\<rparr>) (dec_list dec_DataFile j)
      else if key_is k ''DeletionFile'' then
        (if j = JNull then Some (f\<lparr>fr_DeletionFile := None\<rparr>)
         else map_option (\<lambda>x. f\<lparr>fr_DeletionFile := Some x\<rparr>) (dec_DeletionFile j))
      else if key_is k ''PhysicalRows'' then
        map_option (\<lambda>x. f\<lparr>fr_PhysicalRows := x\<rparr>) (dec_int fits64 j (fr_PhysicalRows f))
      else Some f)"

definition dec_Fragment :: "json \<Rightarrow> Fragment option" where
  "dec_Fragment = dec_struct set_Fragment_member (NewFragment 0)"

definition set_Manifest_member :: "string \<Rightarrow> json \<Rightarrow> Manifest \<Rightarrow> Manifest option" where
  "set_Manifest_member k j m =
     (if key_is k ''Version'' then map_option (\<lambda>x. m\<lparr>man_Version := x\<rparr>) (dec_int fits64 j (man_Version m))
      else if key_is k ''Timestamp'' then map_option (\<lambda>x. m\<lparr>man_Timestamp := x\<rparr>) (dec_int fits64 j (man_Timestamp m))
      else if key_is k ''Schema'' then map_option (\<lambda>x. m\<lparr>man_Schema := x\<rparr>) (dec_Schema j)
      else if key_is k ''Fragments'' then map_option (\<lambda>x. m\<lparr>man_Fragments := x\<rparr>) (dec_list dec_Fragment j)
      else if key_is k ''IndexIDs'' then
        map_option (\<lambda>x. m\<lparr>man_IndexIDs := x\<rparr>) (dec_list (\<lambda>j. dec_string j '''') j)
      else if key_is k ''MaxFragmentID'' then
        map_option (\<lambda>x. m\<lparr>man_MaxFragmentID := x\<rparr>) (dec_int fits32 j (man_MaxFragmentID m))
      else if key_is k ''Tags'' then
        map_option (\<lambda>x. m\<lparr>man_Tags := (case x of None \<Rightarrow> [] | Some t \<Rightarrow> t)\<rparr>) (dec_map j)
      else Some m)"

definition dec_Manifest :: "json \<Rightarrow> Manifest option" where
  "dec_Manifest j =
     (if j = JNull then Some (NewManifest 0 zero_Schema)
      else dec_struct set_Manifest_member (NewManifest 0 zero_Schema) j)"

definition DeserializeManifest :: "byte list \<Rightarrow> Manifest res" where
  "DeserializeManifest data =
     (case parse_json (string_of_bytes data) of
        None \<Rightarrow> Inl (TblErr ErrJson)
      | Some j \<Rightarrow> (case dec_Manifest j of None \<Rightarrow> Inl (TblErr ErrJson) | Some m \<Rightarrow> Inr m))"

end
