(* ===== verification/ManifestRoundtrip.thy ===== *)
theory ManifestRoundtrip
  imports ManifestJson
begin

text \<open>
  A manifest survives \<open>Serialize\<close> and \<open>DeserializeManifest\<close>: the numbers fit their Go types, the
  strings are valid UTF-8, maps are listed in the order of their keys and data types are canonical.
\<close>

section \<open>Manifests that are read back\<close>

definition map_ok :: "(string \<times> string) list \<Rightarrow> bool" where
  "map_ok m \<longleftrightarrow> sorted (map fst m) \<and> distinct (map fst m) \<and>
     list_all (\<lambda>(k, v). utf8_ok k \<and> utf8_ok v) m"

fun Field_ok :: "Field \<Rightarrow> bool" and Fields_ok :: "Field list \<Rightarrow> bool" where
  "Field_ok (Field i n t nu d ch md) =
     (fits32 i \<and> utf8_ok n \<and> DataType_ok t \<and> fits32 d \<and> Fields_ok ch \<and>
      (case md of None \<Rightarrow> True | Some m \<Rightarrow> map_ok m))"
| "Fields_ok [] = True"
| "Fields_ok (f # fs) = (Field_ok f \<and> Fields_ok fs)"

definition DataFile_ok :: "DataFile \<Rightarrow> bool" where
  "DataFile_ok d \<longleftrightarrow>
     utf8_ok (df_Path d) \<and> fits32 (df_ColumnID d) \<and> fits64 (df_NumRows d) \<and> fits64 (df_FileSize d)"

definition DeletionFile_ok :: "DeletionFile \<Rightarrow> bool" where
  "DeletionFile_ok d \<longleftrightarrow> utf8_ok (del_Path d) \<and> fits64 (del_NumRows d)"

definition Fragment_ok :: "Fragment \<Rightarrow> bool" where
  "Fragment_ok f \<longleftrightarrow>
     fits32 (fr_ID f) \<and> fits64 (fr_NumRows f) \<and> list_all DataFile_ok (fr_DataFiles f) \<and>
     (case fr_DeletionFile f of None \<Rightarrow> True | Some d \<Rightarrow> DeletionFile_ok d) \<and> fits64 (fr_PhysicalRows f)"

definition Manifest_ok :: "Manifest \<Rightarrow> bool" where
  "Manifest_ok m \<longleftrightarrow>
     fits64 (man_Version m) \<and> fits64 (man_Timestamp m) \<and> Fields_ok (Fields (man_Schema m)) \<and>
     list_all Fragment_ok (man_Fragments m) \<and> list_all utf8_ok (man_IndexIDs m) \<and>
     fits32 (man_MaxFragmentID m) \<and> map_ok (man_Tags m)"

lemma Fields_ok_iff: "Fields_ok fs = list_all Field_ok fs"
  by (induction fs) auto

section \<open>Trees\<close>

lemma fits32_fits64: "fits32 n \<Longrightarrow> fits64 n"
  by (simp add: fits32_def fits64_def)

lemma dec_enc_int [simp]: "fits n \<Longrightarrow> fits64 n \<Longrightarrow> dec_int fits (enc_int n) cur = Some n"
  by (simp add: dec_int_def enc_int_def)

lemma dec_string_JStr [simp]: "dec_string (JStr s) cur = Some s"
  by (simp add: dec_string_def)

lemma dec_bool_JBool [simp]: "dec_bool (JBool b) cur = Some b"
  by (simp add: dec_bool_def)

lemma map_opt_map: "list_all (\<lambda>x. f (g x) = Some x) xs \<Longrightarrow> map_opt f (map g xs) = Some xs"
  by (induction xs) simp_all

lemma dec_enc_list:
  "list_all P xs \<Longrightarrow> (\<And>x. P x \<Longrightarrow> f (g x) = Some x) \<Longrightarrow> dec_list f (enc_list g xs) = Some xs"
  by (auto simp: dec_list_def enc_list_def list_all_iff intro!: map_opt_map)

lemma gm_put_new: "k \<notin> set (map fst m) \<Longrightarrow> gm_put k v m = m @ [(k, v)]"
  by (induction m) (auto simp: gm_put_def)

lemma dec_map_members_append:
  "distinct (map fst (acc @ m)) \<Longrightarrow> dec_map_members (map (\<lambda>(k, v). (k, JStr v)) m) acc = Some (acc @ m)"
  by (induction m arbitrary: acc) (auto simp: gm_put_new)

lemma sort_key_sorted: "sorted (map f xs) \<Longrightarrow> sort_key f xs = xs"
  by (induction xs) (simp_all add: insort_is_Cons)

lemma dec_enc_map [simp]: "map_ok m \<Longrightarrow> dec_map (enc_map m) = Some (Some m)"
  using dec_map_members_append [of "[]" m]
  by (simp add: dec_map_def enc_map_def map_ok_def sort_key_sorted)

lemma dec_map_JNull [simp]: "dec_map JNull = Some None"
  by (simp add: dec_map_def)

text \<open>The names of the fields differ even when their case is ignored.\<close>

lemma lower_simps [simp]:
  "lower CHR ''A'' = CHR ''a''" "lower CHR ''C'' = CHR ''c''" "lower CHR ''D'' = CHR ''d''"
  "lower CHR ''F'' = CHR ''f''" "lower CHR ''I'' = CHR ''i''" "lower CHR ''M'' = CHR ''m''"
  "lower CHR ''N'' = CHR ''n''" "lower CHR ''P'' = CHR ''p''" "lower CHR ''R'' = CHR ''r''"
  "lower CHR ''S'' = CHR ''s''" "lower CHR ''T'' = CHR ''t''" "lower CHR ''V'' = CHR ''v''"
  by code_simp+

lemma lower_small [simp]: "97 \<le> (of_char c :: nat) \<Longrightarrow> lower c = c"
  by (simp add: lower_def Let_def)

lemma DataType_dec: "DataType_ok t \<Longrightarrow> fits32 (DataType_code t) \<and> DataType_of_code (DataType_code t) = t"
  by (simp add: DataType_ok_def)

lemma dec_enc_Field:
  "Field_ok f \<Longrightarrow> dec_Field (enc_Field f) = Some f"
  "Fields_ok fs \<Longrightarrow> dec_Fields (enc_Fields fs) = Some fs"
proof (induction f and fs rule: enc_Field_enc_Fields.induct)
  case (1 i n t nu d ch md)
  have "(if ch = [] then JNull else JArr (enc_Fields ch)) = JNull \<and> ch = [] \<or>
      (if ch = [] then JNull else JArr (enc_Fields ch)) = JArr (enc_Fields ch) \<and> dec_Fields (enc_Fields ch) = Some ch"
    using 1 by auto
  moreover have "dec_map (case md of None \<Rightarrow> JNull | Some m \<Rightarrow> enc_map m) = Some md"
    using 1 by (cases md) simp_all
  ultimately show ?case
    using 1(2) by (elim disjE) (simp_all add: zero_Field_def key_is_def DataType_dec fits32_fits64)
qed simp_all

lemma dec_enc_Schema: "Fields_ok (Fields s) \<Longrightarrow> dec_Schema (enc_Schema s) = Some s"
  by (simp add: dec_Schema_def enc_Schema_def dec_struct_def set_Schema_member_def key_is_def
      zero_Schema_def Fields_ok_iff dec_enc_list [OF _ dec_enc_Field(1)])

lemma dec_enc_DataFile: "DataFile_ok d \<Longrightarrow> dec_DataFile (enc_DataFile d) = Some d"
  by (simp add: dec_DataFile_def enc_DataFile_def dec_struct_def set_DataFile_member_def key_is_def
      DataFile_ok_def fits32_fits64)

lemma dec_enc_DeletionFile: "DeletionFile_ok d \<Longrightarrow> dec_DeletionFile (enc_DeletionFile d) = Some d"
  by (simp add: dec_DeletionFile_def enc_DeletionFile_def dec_struct_def set_DeletionFile_member_def
      key_is_def DeletionFile_ok_def)

lemma enc_DeletionFile_not_null: "enc_DeletionFile d \<noteq> JNull"
  by (simp add: enc_DeletionFile_def)

lemma dec_enc_Fragment:
  assumes "Fragment_ok f"
  shows "dec_Fragment (enc_Fragment f) = Some f"
proof -
  have "dec_list dec_DataFile (enc_list enc_DataFile (fr_DataFiles f)) = Some (fr_DataFiles f)"
    using assms by (intro dec_enc_list [OF _ dec_enc_DataFile]) (simp_all add: Fragment_ok_def)
  then show ?thesis
    using assms
    by (cases "fr_DeletionFile f")
      (simp_all add: dec_Fragment_def enc_Fragment_def dec_struct_def set_Fragment_member_def key_is_def
        Fragment_ok_def fits32_fits64 NewFragment_def dec_enc_DeletionFile enc_DeletionFile_not_null)
qed

lemma enc_Manifest_not_null: "enc_Manifest m \<noteq> JNull"
  by (simp add: enc_Manifest_def)

lemma dec_enc_Manifest: "Manifest_ok m \<Longrightarrow> dec_Manifest (enc_Manifest m) = Some m"
proof -
  assume ok: "Manifest_ok m"
  have ids: "dec_list (\<lambda>j. dec_string j '''') (enc_list JStr (man_IndexIDs m)) = Some (man_IndexIDs m)"
    by (rule dec_enc_list [of "\<lambda>_. True"]) (simp_all add: list_all_iff)
  have "dec_list dec_Fragment (enc_list enc_Fragment (man_Fragments m)) = Some (man_Fragments m)"
    using ok by (intro dec_enc_list [OF _ dec_enc_Fragment]) (simp_all add: Manifest_ok_def)
  then show ?thesis
    using ok ids
    by (simp add: dec_Manifest_def enc_Manifest_def dec_struct_def set_Manifest_member_def key_is_def
        Manifest_ok_def fits32_fits64 NewManifest_def dec_enc_Schema)
qed

section \<open>Texts\<close>

lemma utf8_ok_ascii: "list_all (\<lambda>c. of_char c < (0x80 :: nat)) s \<Longrightarrow> utf8_ok s"
proof (induction s)
  case (Cons c s)
  then have "utf8_len (c # s) = 1"
    by (simp add: utf8_len.simps(2))
  with Cons show ?case by (simp add: utf8_ok.simps [of "c # s"])
qed simp

lemma dropWhile_all: "list_all P s \<Longrightarrow> dropWhile P s = []"
  by (simp add: list_all_iff dropWhile_eq_Nil_conv)

lemma valid_show_nat: "valid_number (show_nat n)"
proof -
  obtain c cs where c: "show_nat n = c # cs" "is_digit c" "list_all is_digit cs"
    by (rule show_nat_Cons)
  have "c = CHR ''0'' \<Longrightarrow> cs = []"
    using c(1) show_nat_hd [of n] by (cases "n = 0") auto
  then show ?thesis
    using c is_digit_sign [OF c(2)] by (simp add: valid_number_def Let_def dropWhile_all)
qed

lemma valid_FormatInt: "valid_number (FormatInt n) \<and> list_all number_char (FormatInt n)"
proof
  show "list_all number_char (FormatInt n)"
    using FormatInt_chars [of _ n] by (auto simp: list_all_iff number_char_def)
  obtain c cs where c: "show_nat (nat (- n)) = c # cs" "is_digit c"
    by (rule show_nat_Cons)
  have "valid_number (CHR ''-'' # show_nat (nat (- n))) = valid_number (show_nat (nat (- n)))"
    using c is_digit_sign [OF c(2)] by (simp add: valid_number_def)
  then show "valid_number (FormatInt n)"
    by (simp add: FormatInt_def valid_show_nat)
qed

lemma json_ok_enc_int [simp]: "json_ok (enc_int n)"
  by (simp add: enc_int_def valid_FormatInt)

lemma elems_ok_iff: "elems_ok js = list_all json_ok js"
  by (induction js) auto

lemma members_ok_iff: "members_ok ms = list_all (\<lambda>(k, j). utf8_ok k \<and> json_ok j) ms"
  by (induction ms) auto

lemma json_ok_enc_list: "list_all (\<lambda>x. json_ok (g x)) xs \<Longrightarrow> json_ok (enc_list g xs)"
  by (simp add: enc_list_def elems_ok_iff list_all_iff)

lemma json_ok_enc_map [simp]: "map_ok m \<Longrightarrow> json_ok (enc_map m)"
  by (auto simp: enc_map_def members_ok_iff list_all_iff map_ok_def)

lemma json_ok_enc_Field:
  "Field_ok f \<Longrightarrow> json_ok (enc_Field f)"
  "Fields_ok fs \<Longrightarrow> elems_ok (enc_Fields fs)"
  by (induction f and fs rule: enc_Field_enc_Fields.induct)
    (simp_all add: utf8_ok_ascii split: option.splits)

lemma json_ok_enc_Fragment: "Fragment_ok f \<Longrightarrow> json_ok (enc_Fragment f)"
  by (auto simp: enc_Fragment_def Fragment_ok_def utf8_ok_ascii enc_DataFile_def DataFile_ok_def
      enc_DeletionFile_def DeletionFile_ok_def list_all_iff intro!: json_ok_enc_list split: option.splits)

lemma json_ok_enc_Manifest: "Manifest_ok m \<Longrightarrow> json_ok (enc_Manifest m)"
  by (auto simp: enc_Manifest_def Manifest_ok_def utf8_ok_ascii enc_Schema_def Fields_ok_iff
      list_all_iff json_ok_enc_Field json_ok_enc_Fragment intro!: json_ok_enc_list)

lemma DeserializeManifest_Serialize:
  assumes "Manifest_ok m" and "Manifest_Serialize m = Inr data"
  shows "DeserializeManifest data = Inr m"
  using assms parse_print_json [OF json_ok_enc_Manifest [OF assms(1)]] dec_enc_Manifest [OF assms(1)]
  by (auto simp: Manifest_Serialize_def DeserializeManifest_def)

end
