(* ===== verification/Paths.thy ===== *)
theory Paths
  imports Prelude
begin

text \<open>
  The part of Go's \<open>path/filepath\<close> (Unix) that the program uses: \<open>Join\<close>, the cleaning it does,
  and \<open>Base\<close>; and the resolution of a path by the operating system to the list of the names below
  the root directory. Joining a simple name to a path appends that name to what the path resolves to.
\<close>

section \<open>Splitting and joining\<close>

fun split_slash :: "string \<Rightarrow> string list" where
  "split_slash [] = [[]]"
| "split_slash (c # s) =
     (if c = CHR ''/'' then [] # split_slash s
      else case split_slash s of [] \<Rightarrow> [[c]] | x # xs \<Rightarrow> (c # x) # xs)"

fun join_slash :: "string list \<Rightarrow> string" where
  "join_slash [] = []"
| "join_slash [x] = x"
| "join_slash (x # y # xs) = x @ CHR ''/'' # join_slash (y # xs)"

definition rooted :: "string \<Rightarrow> bool" where
  "rooted s \<longleftrightarrow> (case s of [] \<Rightarrow> False | c # _ \<Rightarrow> c = CHR ''/'')"

text \<open>One component of a path on the reversed list of the components before it.\<close>

definition clean_step :: "bool \<Rightarrow> string list \<Rightarrow> string \<Rightarrow> string list" where
  "clean_step root st c =
     (if c = '''' \<or> c = ''.'' then st
      else if c = ''..'' then
        (if st \<noteq> [] \<and> hd st \<noteq> ''..'' then tl st else if root then st else c # st)
      else c # st)"

definition clean_comps :: "bool \<Rightarrow> string list \<Rightarrow> string list" where
  "clean_comps root cs = rev (foldl (clean_step root) [] cs)"

definition path_Clean :: "string \<Rightarrow> string" where
  "path_Clean s =
     (let cs = clean_comps (rooted s) (split_slash s) in
      if rooted s then CHR ''/'' # join_slash cs else if cs = [] then ''.'' else join_slash cs)"

fun path_Join :: "string list \<Rightarrow> string" where
  "path_Join [] = ''''"
| "path_Join (x # xs) = (if x = '''' then path_Join xs else path_Clean (join_slash (x # xs)))"

definition path_Base :: "string \<Rightarrow> string" where
  "path_Base s =
     (if s = '''' then ''.''
      else
        let t = rev (dropWhile (\<lambda>c. c = CHR ''/'') (rev s)) in
        if t = '''' then ''/'' else last (split_slash t))"

section \<open>Resolution by the operating system\<close>

text \<open>A relative path starts at the working directory; \<open>..\<close> at the root stays at the root.\<close>

definition abs_step :: "string list \<Rightarrow> string \<Rightarrow> string list" where
  "abs_step st c = (if c = '''' \<or> c = ''.'' then st else if c = ''..'' then tl st else c # st)"

definition resolve_path :: "string list \<Rightarrow> string \<Rightarrow> string list" where
  "resolve_path cwd s =
     rev (foldl abs_step (if rooted s then [] else rev cwd) (split_slash s))"

section \<open>Facts\<close>

definition simple_name :: "string \<Rightarrow> bool" where
  "simple_name n \<longleftrightarrow> n \<noteq> '''' \<and> n \<noteq> ''.'' \<and> n \<noteq> ''..'' \<and> CHR ''/'' \<notin> set n"

lemma split_slash_nonempty [simp]: "split_slash s \<noteq> []"
  by (induction s) (auto split: list.splits)

lemma split_slash_no_slash: "CHR ''/'' \<notin> set s \<Longrightarrow> split_slash s = [s]"
  by (induction s) auto

lemma split_slash_append:
  "split_slash (s @ CHR ''/'' # t) = split_slash s @ split_slash t"
  by (induction s) (auto split: list.splits)

lemma split_slash_comps: "c \<in> set (split_slash s) \<Longrightarrow> CHR ''/'' \<notin> set c"
  by (induction s arbitrary: c) (force split: if_splits list.splits)+

lemma split_join_slash:
  "cs \<noteq> [] \<Longrightarrow> \<forall>c \<in> set cs. CHR ''/'' \<notin> set c \<Longrightarrow> split_slash (join_slash cs) = cs"
  by (induction cs rule: join_slash.induct) (auto simp: split_slash_no_slash split_slash_append)

definition comp_ok :: "string \<Rightarrow> bool" where
  "comp_ok c \<longleftrightarrow> c \<noteq> '''' \<and> c \<noteq> ''.''"

lemma clean_step_ok: "\<forall>x \<in> set st. comp_ok x \<Longrightarrow> \<forall>x \<in> set (clean_step root st c). comp_ok x"
  by (auto simp: clean_step_def comp_ok_def dest: list.set_sel(2))

lemma clean_step_slash:
  "\<forall>x \<in> set (c # st). CHR ''/'' \<notin> set x \<Longrightarrow> \<forall>x \<in> set (clean_step root st c). CHR ''/'' \<notin> set x"
  by (auto simp: clean_step_def dest: list.set_sel(2))

lemma foldl_clean_ok:
  "\<forall>x \<in> set st. comp_ok x \<Longrightarrow> \<forall>x \<in> set (foldl (clean_step root) st cs). comp_ok x"
proof (induction cs arbitrary: st)
  case (Cons c cs)
  show ?case
    using Cons.IH [OF clean_step_ok [OF Cons.prems]] by (simp only: foldl_Cons)
qed simp

lemma foldl_clean_slash:
  "\<forall>x \<in> set st \<union> set cs. CHR ''/'' \<notin> set x \<Longrightarrow>
     \<forall>x \<in> set (foldl (clean_step root) st cs). CHR ''/'' \<notin> set x"
proof (induction cs arbitrary: st)
  case (Cons c cs)
  have "\<forall>x \<in> set (clean_step root st c). CHR ''/'' \<notin> set x"
    using Cons.prems by (intro clean_step_slash) auto
  with Cons.prems have "\<forall>x \<in> set (clean_step root st c) \<union> set cs. CHR ''/'' \<notin> set x"
    by auto
  from Cons.IH [OF this] show ?case
    by (simp only: foldl_Cons)
qed simp

lemma clean_comps_no_slash:
  "c \<in> set (clean_comps root (split_slash s)) \<Longrightarrow> CHR ''/'' \<notin> set c"
  using foldl_clean_slash [of "[]" "split_slash s" root] split_slash_comps [of _ s]
  by (auto simp: clean_comps_def)

lemma clean_comps_ok: "c \<in> set (clean_comps root cs) \<Longrightarrow> comp_ok c"
  using foldl_clean_ok [of "[]" root cs] by (simp add: clean_comps_def)

text \<open>Cleaning a path does not change what it resolves to.\<close>

lemma abs_after_clean_step:
  assumes "\<forall>x \<in> set r. comp_ok x" and "root \<longrightarrow> st = [] \<and> ''..'' \<notin> set r"
  shows "foldl abs_step st (rev (clean_step root r c)) = abs_step (foldl abs_step st (rev r)) c"
proof (cases r)
  case Nil
  with assms show ?thesis by (auto simp: clean_step_def abs_step_def)
next
  case (Cons x r')
  with assms have "comp_ok x" by simp
  with Cons assms show ?thesis
    by (auto simp: clean_step_def abs_step_def comp_ok_def)
qed

lemma clean_step_rooted: "''..'' \<notin> set r \<Longrightarrow> ''..'' \<notin> set (clean_step True r c)"
  by (auto simp: clean_step_def dest: list.set_sel(2))

lemma abs_after_clean:
  assumes "\<forall>x \<in> set r. comp_ok x" and "root \<longrightarrow> st = [] \<and> ''..'' \<notin> set r"
  shows "foldl abs_step st (rev (foldl (clean_step root) r cs)) =
           foldl abs_step (foldl abs_step st (rev r)) cs"
  using assms
proof (induction cs arbitrary: r)
  case Nil
  show ?case by simp
next
  case (Cons c cs)
  have "root \<longrightarrow> st = [] \<and> ''..'' \<notin> set (clean_step root r c)"
    using Cons.prems(2) clean_step_rooted [of r c] by auto
  then show ?case
    using Cons.IH [OF clean_step_ok [OF Cons.prems(1)]] abs_after_clean_step [OF Cons.prems]
    by simp
qed

lemma rooted_Clean: "rooted (path_Clean s) = rooted s"
proof (cases "rooted s")
  case True
  then show ?thesis by (simp add: path_Clean_def Let_def rooted_def)
next
  case False
  let ?cs = "clean_comps (rooted s) (split_slash s)"
  show ?thesis
  proof (cases ?cs)
    case Nil
    with False show ?thesis by (simp add: path_Clean_def rooted_def Let_def)
  next
    case (Cons x xs)
    then have "x \<noteq> ''''" "CHR ''/'' \<notin> set x"
      using clean_comps_ok [of x "rooted s" "split_slash s"] clean_comps_no_slash [of x "rooted s" s]
      by (simp_all add: comp_ok_def)
    with Cons False show ?thesis
      by (cases x; cases xs) (auto simp: path_Clean_def rooted_def Let_def)
  qed
qed

lemma split_Clean:
  "split_slash (path_Clean s) =
     (let cs = clean_comps (rooted s) (split_slash s) in
      if rooted s then '''' # (if cs = [] then [''''] else cs) else if cs = [] then [''.''] else cs)"
proof -
  have "\<forall>c \<in> set (clean_comps (rooted s) (split_slash s)). CHR ''/'' \<notin> set c"
    using clean_comps_no_slash by blast
  then show ?thesis
    by (simp add: path_Clean_def Let_def split_join_slash)
qed

lemma abs_Clean_relative:
  "\<not> rooted s \<Longrightarrow> foldl abs_step st (split_slash (path_Clean s)) = foldl abs_step st (split_slash s)"
  using abs_after_clean [of "[]" False st "split_slash s"]
  by (auto simp: split_Clean clean_comps_def Let_def abs_step_def)

lemma abs_Clean_rooted:
  "rooted s \<Longrightarrow> foldl abs_step [] (split_slash (path_Clean s)) = foldl abs_step [] (split_slash s)"
  using abs_after_clean [of "[]" True "[]" "split_slash s"]
  by (auto simp: split_Clean clean_comps_def Let_def abs_step_def)

lemma resolve_Clean: "resolve_path cwd (path_Clean s) = resolve_path cwd s"
  by (simp add: resolve_path_def rooted_Clean abs_Clean_relative abs_Clean_rooted)

text \<open>Without \<open>..\<close>, cleaning drops the empty components and the dots.\<close>

lemma foldl_clean_no_up:
  "''..'' \<notin> set cs \<Longrightarrow> foldl (clean_step root) st cs = rev (filter comp_ok cs) @ st"
  by (induction cs arbitrary: st) (auto simp: clean_step_def comp_ok_def)

lemma foldl_abs_no_up:
  "''..'' \<notin> set cs \<Longrightarrow> foldl abs_step st cs = rev (filter comp_ok cs) @ st"
  by (induction cs arbitrary: st) (auto simp: abs_step_def comp_ok_def)

lemma abs_Clean_no_up:
  assumes "''..'' \<notin> set (split_slash s)"
  shows "foldl abs_step st (split_slash (path_Clean s)) = foldl abs_step st (split_slash s)"
proof -
  let ?cs = "filter comp_ok (split_slash s)"
  have eq: "clean_comps (rooted s) (split_slash s) = ?cs"
    using foldl_clean_no_up [OF assms, of "rooted s" "[]"] by (simp add: clean_comps_def)
  have "''..'' \<notin> set (split_slash (path_Clean s))"
    using assms by (auto simp: split_Clean eq Let_def)
  moreover have "filter comp_ok (split_slash (path_Clean s)) = ?cs"
    by (auto simp: split_Clean eq Let_def) (simp_all add: comp_ok_def)
  ultimately show ?thesis
    using assms by (simp add: foldl_abs_no_up)
qed

lemma rooted_append: "a \<noteq> '''' \<Longrightarrow> rooted (a @ s) = rooted a"
  by (cases a) (auto simp: rooted_def)

lemma resolve_empty [simp]: "resolve_path cwd '''' = cwd"
  by (simp add: resolve_path_def rooted_def abs_step_def)

lemma resolve_Join_name:
  assumes "simple_name n"
  shows "resolve_path cwd (path_Join [a, n]) = resolve_path cwd a @ [n]"
proof (cases "a = ''''")
  case True
  have "resolve_path cwd (path_Join [a, n]) = resolve_path cwd n"
    using True assms by (simp add: simple_name_def resolve_Clean)
  also have "\<dots> = cwd @ [n]"
    using assms by (cases n) (auto simp: resolve_path_def simple_name_def rooted_def split_slash_no_slash
        abs_step_def)
  finally show ?thesis
    using True by simp
next
  case False
  then have "resolve_path cwd (path_Join [a, n]) = resolve_path cwd (a @ CHR ''/'' # n)"
    by (simp add: resolve_Clean)
  also have "\<dots> = resolve_path cwd a @ [n]"
    using False assms
    by (auto simp: resolve_path_def rooted_append split_slash_append split_slash_no_slash
        simple_name_def abs_step_def)
  finally show ?thesis .
qed

text \<open>
  Prefixing with the root directory of a store. A rooted path with \<open>..\<close> may leave the root, and
  loses that on being cleaned; what \<open>filepath.Join\<close> returns is safe.
\<close>

definition under_root :: "string list \<Rightarrow> string \<Rightarrow> string \<Rightarrow> string list" where
  "under_root cwd root p = resolve_path cwd (path_Join [root, p])"

definition join_safe :: "string \<Rightarrow> bool" where
  "join_safe p \<longleftrightarrow> (rooted p \<longrightarrow> ''..'' \<notin> set (split_slash p))"

lemma foldl_clean_rooted:
  "''..'' \<notin> set r \<Longrightarrow> ''..'' \<notin> set (foldl (clean_step True) r cs)"
  by (induction cs arbitrary: r) (simp_all add: clean_step_rooted)

lemma join_safe_Clean [simp]: "join_safe (path_Clean s)"
  using foldl_clean_rooted [of "[]" "split_slash s"]
  by (simp add: join_safe_def rooted_Clean split_Clean clean_comps_def Let_def)

lemma join_safe_Join [simp]: "join_safe (path_Join xs)"
  by (induction xs rule: path_Join.induct) (simp_all add: join_safe_def [of "[]"] rooted_def)

lemma path_Clean_simple: "simple_name n \<Longrightarrow> path_Clean n = n"
  by (cases n) (auto simp: simple_name_def path_Clean_def rooted_def split_slash_no_slash
      clean_comps_def clean_step_def)

lemma under_root_nonempty:
  "root \<noteq> '''' \<Longrightarrow>
     under_root cwd root q = rev (foldl abs_step (rev (resolve_path cwd root)) (split_slash q))"
  by (simp add: under_root_def resolve_Clean)
    (auto simp: resolve_path_def rooted_append split_slash_append)

lemma under_root_empty: "under_root cwd '''' q = resolve_path cwd q"
  by (simp add: under_root_def resolve_Clean)

lemma under_root_Join_name:
  assumes "simple_name n" and "join_safe p"
  shows "under_root cwd root (path_Join [p, n]) = under_root cwd root p @ [n]"
proof (cases "root = ''''")
  case True
  then show ?thesis
    using assms by (simp only: True under_root_empty resolve_Join_name)
next
  case root: False
  define st where "st = rev (resolve_path cwd root)"
  have "foldl abs_step st (split_slash (path_Join [p, n])) = n # foldl abs_step st (split_slash p)"
  proof (cases "p = ''''")
    case True
    with assms show ?thesis
      by (simp add: path_Clean_simple split_slash_no_slash abs_step_def simple_name_def)
  next
    case False
    let ?q = "p @ CHR ''/'' # n"
    have split: "split_slash ?q = split_slash p @ [n]"
      using assms by (simp add: split_slash_append split_slash_no_slash simple_name_def)
    have "foldl abs_step st (split_slash (path_Clean ?q)) = foldl abs_step st (split_slash ?q)"
    proof (cases "rooted ?q")
      case True
      then have "''..'' \<notin> set (split_slash ?q)"
        using assms False by (auto simp: split join_safe_def rooted_append simple_name_def)
      then show ?thesis by (rule abs_Clean_no_up)
    qed (rule abs_Clean_relative)
    with False assms show ?thesis
      by (simp add: split abs_step_def simple_name_def)
  qed
  then show ?thesis
    using root by (simp add: under_root_nonempty st_def del: path_Join.simps)
qed

text \<open>The base name of a joined path.\<close>

lemma last_Clean:
  assumes "simple_name n" and "last (split_slash s) = n"
  shows "last (split_slash (path_Clean s)) = n"
proof -
  obtain xs where xs: "split_slash s = xs @ [n]"
    using assms(2) by (metis append_butlast_last_id split_slash_nonempty)
  have "clean_comps b (xs @ [n]) = rev (n # foldl (clean_step b) [] xs)" for b
    using assms(1) by (simp add: clean_comps_def clean_step_def simple_name_def)
  then show ?thesis
    using xs by (simp add: split_Clean Let_def)
qed

lemma last_split_simple: "simple_name n \<Longrightarrow> last (split_slash (p @ CHR ''/'' # n)) = n"
  by (simp add: split_slash_append split_slash_no_slash simple_name_def)

lemma last_split_Join:
  assumes "simple_name n"
  shows "last (split_slash (path_Join [p, n])) = n"
  using assms split_slash_no_slash [of n]
  by (cases "p = ''''")
    (simp_all add: path_Clean_simple last_Clean last_split_simple, simp_all add: simple_name_def)

lemma last_split_slash: "last (split_slash s) \<noteq> '''' \<Longrightarrow> s \<noteq> '''' \<and> last s \<noteq> CHR ''/''"
proof (cases s rule: rev_cases)
  case (snoc t c)
  assume "last (split_slash s) \<noteq> ''''"
  moreover have "split_slash (t @ [CHR ''/'']) = split_slash t @ [[]]"
    using split_slash_append [of t "[]"] by simp
  ultimately show ?thesis
    using snoc by auto
qed simp

lemma path_Base_last:
  assumes "last (split_slash s) \<noteq> ''''"
  shows "path_Base s = last (split_slash s)"
proof -
  have s: "s \<noteq> ''''" "last s \<noteq> CHR ''/''"
    using last_split_slash [OF assms] by simp_all
  then have "dropWhile (\<lambda>c. c = CHR ''/'') (rev s) = rev s"
    by (cases s rule: rev_cases) simp_all
  with s show ?thesis
    by (simp add: path_Base_def)
qed

lemma path_Base_Join:
  assumes "simple_name n"
  shows "path_Base (path_Join [p, n]) = n"
proof -
  have "last (split_slash (path_Join [p, n])) = n"
    using assms by (rule last_split_Join)
  then show ?thesis
    using assms by (metis path_Base_last simple_name_def)
qed

text \<open>A joined path under a root is never the empty path or the dot.\<close>

lemma last_split_append: "last (split_slash (a @ CHR ''/'' # b)) = last (split_slash b)"
  by (simp add: split_slash_append)

lemma Join_Join_not_dot:
  assumes "simple_name n"
  shows "path_Join [root, path_Join [p, n]] \<noteq> '''' \<and> path_Join [root, path_Join [p, n]] \<noteq> ''.''"
proof -
  let ?q = "path_Join [p, n]"
  have q: "last (split_slash ?q) = n"
    using assms by (rule last_split_Join)
  then have "?q \<noteq> ''''"
    using assms by (auto simp: simple_name_def simp del: path_Join.simps)
  then have "path_Join [root, ?q] = path_Clean (if root = '''' then ?q else root @ CHR ''/'' # ?q)"
    by (simp del: path_Join.simps(2) add: path_Join.simps(2) [of _ "[_]"] path_Join.simps(2) [of _ "[]"])
  then have "last (split_slash (path_Join [root, ?q])) = n"
    using q last_Clean [OF assms q] last_Clean [OF assms, of "root @ CHR ''/'' # ?q"]
    by (simp add: last_split_append del: path_Join.simps)
  then show ?thesis
    using assms by (auto simp: simple_name_def simp del: path_Join.simps)
qed

declare path_Join.simps(2) [simp del]

text \<open>A table's directory, a slash and a name, not yet cleaned.\<close>

lemma join_safe_append: "simple_name a \<Longrightarrow> join_safe p \<Longrightarrow> p \<noteq> '''' \<Longrightarrow> join_safe (p @ CHR ''/'' # a)"
  by (auto simp: join_safe_def rooted_append split_slash_append split_slash_no_slash simple_name_def)

lemma join_safe_name: "simple_name a \<Longrightarrow> join_safe a"
  by (cases a) (auto simp: join_safe_def rooted_def simple_name_def)

lemma under_root_append_name:
  assumes "simple_name a" and "p \<noteq> ''''"
  shows "under_root c root (p @ CHR ''/'' # a) = under_root c root p @ [a]"
proof (cases "root = ''''")
  case True
  then show ?thesis
    using assms by (auto simp: under_root_empty resolve_path_def rooted_append split_slash_append
        split_slash_no_slash simple_name_def abs_step_def)
next
  case False
  then show ?thesis
    using assms by (simp add: under_root_nonempty split_slash_append split_slash_no_slash
        simple_name_def abs_step_def)
qed

lemma under_root_name: "simple_name a \<Longrightarrow> under_root c root a = under_root c root '''' @ [a]"
proof -
  assume a: "simple_name a"
  then have "path_Join ['''', a] = a"
    by (simp add: path_Join.simps(2) path_Clean_simple)
  with under_root_Join_name [OF a, of "''''" c root] show ?thesis
    by (simp add: join_safe_def rooted_def)
qed

lemma path_Join_two:
  assumes "simple_name a" and "simple_name b" and "join_safe p"
  obtains q where "path_Join [p, a, b] = path_Join [q, b]" "join_safe q"
    "under_root c root q = under_root c root p @ [a]"
proof (cases "p = ''''")
  case True
  then show thesis
    using that [of a] assms join_safe_name under_root_name by (simp add: path_Join.simps(2))
next
  case False
  then show thesis
    using that [of "p @ CHR ''/'' # a"] assms join_safe_append under_root_append_name
    by (simp add: path_Join.simps(2))
qed

lemma under_root_Join_two:
  assumes "simple_name a" and "simple_name b" and "join_safe p"
  shows "under_root c root (path_Join [p, a, b]) = under_root c root p @ [a, b]"
proof -
  obtain q where q: "path_Join [p, a, b] = path_Join [q, b]" "join_safe q"
    "under_root c root q = under_root c root p @ [a]"
    by (rule path_Join_two [OF assms])
  then show ?thesis
    using under_root_Join_name [OF assms(2) q(2), of c root] by simp
qed

section \<open>ASCII paths\<close>

definition ascii :: "string \<Rightarrow> bool" where
  "ascii s \<longleftrightarrow> (\<forall>c \<in> set s. of_char c < (0x80 :: nat))"

lemma ascii_append [simp]: "ascii (s @ t) \<longleftrightarrow> ascii s \<and> ascii t"
  by (auto simp: ascii_def)

lemma ascii_Cons [simp]: "ascii (c # s) \<longleftrightarrow> of_char c < (0x80 :: nat) \<and> ascii s"
  by (simp add: ascii_def)

lemma ascii_Nil [simp]: "ascii []"
  by (simp add: ascii_def)

lemma ascii_split: "ascii s \<Longrightarrow> \<forall>c \<in> set (split_slash s). ascii c"
  by (induction s) (auto split: list.splits)

lemma ascii_join: "\<forall>c \<in> set cs. ascii c \<Longrightarrow> ascii (join_slash cs)"
  by (induction cs rule: join_slash.induct) simp_all

lemma ascii_clean_step: "\<forall>x \<in> set (c # st). ascii x \<Longrightarrow> \<forall>x \<in> set (clean_step root st c). ascii x"
  by (auto simp: clean_step_def dest: list.set_sel(2))

lemma ascii_foldl_clean:
  "\<forall>x \<in> set st. ascii x \<Longrightarrow> \<forall>x \<in> set cs. ascii x \<Longrightarrow> \<forall>x \<in> set (foldl (clean_step root) st cs). ascii x"
proof (induction cs arbitrary: st)
  case (Cons c cs)
  have "\<forall>x \<in> set (clean_step root st c). ascii x"
    using Cons.prems by (intro ascii_clean_step) simp
  then show ?case
    using Cons.IH Cons.prems(2) by simp
qed simp

lemma ascii_Clean:
  assumes "ascii s"
  shows "ascii (path_Clean s)"
proof -
  have "\<forall>x \<in> set (clean_comps (rooted s) (split_slash s)). ascii x"
    using ascii_foldl_clean [of "[]" "split_slash s" "rooted s"] ascii_split [OF assms]
    by (simp add: clean_comps_def)
  then have "ascii (join_slash (clean_comps (rooted s) (split_slash s)))"
    by (rule ascii_join)
  then show ?thesis
    by (cases "rooted s") (simp_all add: path_Clean_def Let_def)
qed

lemma ascii_Join: "\<forall>x \<in> set xs. ascii x \<Longrightarrow> ascii (path_Join xs)"
proof (induction xs)
  case (Cons x xs)
  show ?case
    using Cons ascii_Clean [OF ascii_join [OF Cons.prems]] by (simp only: path_Join.simps split: if_split) simp
qed simp

end
