(* ===== verification/FileSystem.thy ===== *)
theory FileSystem
  imports EncodeTypes GoMap Paths "HOL-Library.List_Lexorder" "HOL-Library.Char_ord"
begin

text \<open>
  The part of the operating system the program relies on, as package \<open>os\<close> shows it: a tree of
  directories and files keyed by their resolved paths, and the calls \<open>MkdirAll\<close>, \<open>WriteFile\<close>,
  \<open>Remove\<close>, \<open>RemoveAll\<close>, \<open>Stat\<close>, \<open>ReadDir\<close> and \<open>ReadAt\<close>.

  The list \<open>plan\<close> decides what the environment does to the coming store operations, one event
  each: let it run, cancel its context, fail it without effect, or (for a write) fail after part of
  the data reached the file. An empty plan is a run without faults; a crash is the end of a run.
\<close>

datatype node = Dir | File "byte list"

datatype io = IoOk | IoCancel | IoFail | IoTorn nat

record world =
  nodes :: "(string list, node) gomap"
  cwd :: "string list"
  dir_size :: int
  plan :: "io list"

definition next_io :: "world \<Rightarrow> io \<times> world" where
  "next_io w = (case plan w of [] \<Rightarrow> (IoOk, w) | ev # evs \<Rightarrow> (ev, w\<lparr>plan := evs\<rparr>))"

definition node_at :: "world \<Rightarrow> string list \<Rightarrow> node option" where
  "node_at w p = (if p = [] then Some Dir else map_of (nodes w) p)"

definition is_file :: "world \<Rightarrow> string list \<Rightarrow> bool" where
  "is_file w p = (case node_at w p of Some (File d) \<Rightarrow> True | _ \<Rightarrow> False)"

text \<open>The proper ancestors of a path, the root excepted.\<close>

definition ancestors :: "string list \<Rightarrow> string list list" where
  "ancestors p = map (\<lambda>i. take i p) [1..<length p]"

section \<open>System calls\<close>

definition os_Stat :: "string \<Rightarrow> world \<Rightarrow> storage_error + node" where
  "os_Stat full w =
     (let p = resolve_path (cwd w) full in
      if full = '''' then Inl ErrNotExist
      else if list_ex (is_file w) (ancestors p) then Inl ErrOS
      else case node_at w p of None \<Rightarrow> Inl ErrNotExist | Some n \<Rightarrow> Inr n)"

definition make_dir :: "string list \<Rightarrow> (string list, node) gomap \<Rightarrow> (string list, node) gomap" where
  "make_dir p m = (if map_of m p = None then gm_put p Dir m else m)"

definition os_MkdirAll :: "string list \<Rightarrow> world \<Rightarrow> storage_error + world" where
  "os_MkdirAll p w =
     (if p = [] then Inr w
      else if list_ex (is_file w) (ancestors p @ [p]) then Inl ErrOS
      else Inr (w\<lparr>nodes := fold make_dir (ancestors p @ [p]) (nodes w)\<rparr>))"

definition os_WriteFile :: "string \<Rightarrow> byte list \<Rightarrow> world \<Rightarrow> storage_error + world" where
  "os_WriteFile full data w =
     (let p = resolve_path (cwd w) full in
      if full = '''' then Inl ErrNotExist
      else if node_at w p = Some Dir then Inl ErrIsDir
      else if list_ex (is_file w) (ancestors p) then Inl ErrOS
      else if node_at w (butlast p) = None then Inl ErrNotExist
      else Inr (w\<lparr>nodes := gm_put p (File data) (nodes w)\<rparr>))"

definition children :: "world \<Rightarrow> string list \<Rightarrow> string list" where
  "children w p = map last (filter (\<lambda>q. q \<noteq> [] \<and> butlast q = p) (gm_keys (nodes w)))"

definition os_Remove :: "string \<Rightarrow> world \<Rightarrow> storage_error + world" where
  "os_Remove full w =
     (case os_Stat full w of
        Inl e \<Rightarrow> Inl e
      | Inr n \<Rightarrow>
          let p = resolve_path (cwd w) full in
          if p = [] \<or> full = ''.'' then Inl ErrOS
          else if n = Dir \<and> children w p \<noteq> [] then Inl ErrNotEmpty
          else Inr (w\<lparr>nodes := gm_del p (nodes w)\<rparr>))"

text \<open>\<open>RemoveAll\<close> removes the path and what is below it; a missing path is no error.\<close>

definition os_RemoveAll :: "string \<Rightarrow> world \<Rightarrow> storage_error + world" where
  "os_RemoveAll full w =
     (let p = resolve_path (cwd w) full in
      if full = '''' then Inr w
      else if p = [] \<or> full = ''.'' then Inl ErrOS
      else if list_ex (is_file w) (ancestors p) then Inl ErrOS
      else Inr (w\<lparr>nodes := filter (\<lambda>(q, n). take (length p) q \<noteq> p) (nodes w)\<rparr>))"

text \<open>\<open>ReadDir\<close> returns the entries sorted by name.\<close>

definition os_ReadDir :: "string \<Rightarrow> world \<Rightarrow> storage_error + (string \<times> node) list" where
  "os_ReadDir full w =
     (case os_Stat full w of
        Inl e \<Rightarrow> Inl e
      | Inr (File d) \<Rightarrow> Inl ErrOS
      | Inr Dir \<Rightarrow>
          let p = resolve_path (cwd w) full in
          Inr (map (\<lambda>n. (n, the (map_of (nodes w) (p @ [n])))) (sort (children w p))))"

section \<open>Well-formed trees\<close>

text \<open>Keys are distinct, and whatever is below the root lies in a directory.\<close>

definition fs_ok :: "world \<Rightarrow> bool" where
  "fs_ok w \<longleftrightarrow>
     gm_ok (nodes w) \<and> [] \<notin> set (gm_keys (nodes w)) \<and>
     (\<forall>p \<in> set (gm_keys (nodes w)). node_at w (butlast p) = Some Dir)"

lemma fs_ok_parent: "fs_ok w \<Longrightarrow> node_at w p = Some n \<Longrightarrow> p \<noteq> [] \<Longrightarrow> node_at w (butlast p) = Some Dir"
  using gm_get_key [of "nodes w" p] by (auto simp: fs_ok_def node_at_def split: if_splits)

lemma fs_ok_ancestor:
  assumes "fs_ok w" and "node_at w p = Some n"
  shows "i < length p \<Longrightarrow> node_at w (take i p) = Some Dir"
  using assms(2)
proof (induction p arbitrary: n rule: rev_induct)
  case (snoc x p)
  then have "node_at w p = Some Dir"
    using fs_ok_parent [OF assms(1), of "p @ [x]"] by simp
  with snoc show ?case
    by (cases "i = length p") auto
qed simp

lemma ancestors_no_file:
  assumes "fs_ok w" and "node_at w p = Some n"
  shows "\<not> list_ex (is_file w) (ancestors p)"
  using fs_ok_ancestor [OF assms] by (auto simp: ancestors_def list_ex_iff is_file_def)

lemma children_iff:
  "fs_ok w \<Longrightarrow> n \<in> set (children w p) \<longleftrightarrow> node_at w (p @ [n]) \<noteq> None"
proof -
  assume "fs_ok w"
  have "n \<in> set (children w p) \<longleftrightarrow> p @ [n] \<in> set (gm_keys (nodes w))"
  proof
    assume "n \<in> set (children w p)"
    then obtain q where "q \<in> set (gm_keys (nodes w))" "q \<noteq> []" "butlast q = p" "last q = n"
      by (auto simp: children_def)
    then show "p @ [n] \<in> set (gm_keys (nodes w))"
      by (metis append_butlast_last_id)
  next
    assume "p @ [n] \<in> set (gm_keys (nodes w))"
    then show "n \<in> set (children w p)"
      by (force simp: children_def)
  qed
  then show ?thesis
    using gm_get_key [of "nodes w" "p @ [n]"] by (simp add: node_at_def)
qed

lemma distinct_children: "fs_ok w \<Longrightarrow> distinct (children w p)"
  unfolding children_def fs_ok_def gm_ok_def
  by (auto simp: distinct_map inj_on_def) (metis append_butlast_last_id)

text \<open>Directories made on the way to a path leave every other node alone.\<close>

lemma map_of_make_dirs:
  "map_of (fold make_dir ps m) q =
     (if map_of m q = None \<and> q \<in> set ps then Some Dir else map_of m q)"
  by (induction ps arbitrary: m) (auto simp: make_dir_def)

lemma gm_ok_make_dirs: "gm_ok m \<Longrightarrow> gm_ok (fold make_dir ps m)"
  by (induction ps arbitrary: m) (simp_all add: make_dir_def)

lemma set_ancestors: "set (ancestors p) = {take i p | i. 0 < i \<and> i < length p}"
  by (force simp: ancestors_def)

lemma set_ancestors_self: "p \<noteq> [] \<Longrightarrow> set (ancestors p @ [p]) = {take i p | i. 0 < i \<and> i \<le> length p}"
proof -
  assume "p \<noteq> []"
  have "set (ancestors p @ [p]) = {take i p | i. 0 < i \<and> i < length p} \<union> {take (length p) p}"
    by (simp add: set_ancestors)
  also have "\<dots> = {take i p | i. 0 < i \<and> i \<le> length p}"
    using \<open>p \<noteq> []\<close> by (auto intro: exI [of _ "length p"])
  finally show ?thesis .
qed

section \<open>What the calls keep\<close>

definition file_content :: "world \<Rightarrow> string list \<Rightarrow> byte list option" where
  "file_content w k = (case node_at w k of Some (File d) \<Rightarrow> Some d | _ \<Rightarrow> None)"

lemma node_at_Nil [simp]: "node_at w [] = Some Dir"
  by (simp add: node_at_def)

lemma node_at_nodes: "nodes w' = nodes w \<Longrightarrow> node_at w' = node_at w"
  by (simp add: fun_eq_iff node_at_def)

lemma next_io_keeps:
  assumes "next_io w = (ev, w')"
  shows "nodes w' = nodes w" "cwd w' = cwd w" "dir_size w' = dir_size w"
  using assms by (auto simp: next_io_def split: list.splits)

lemma next_io_no_faults: "plan w = [] \<Longrightarrow> next_io w = (IoOk, w)"
  by (simp add: next_io_def)

lemma fs_ok_nodes: "nodes w' = nodes w \<Longrightarrow> fs_ok w' = fs_ok w"
  using node_at_nodes [of w' w] by (simp add: fs_ok_def)

lemma file_content_nodes: "nodes w' = nodes w \<Longrightarrow> file_content w' = file_content w"
  using node_at_nodes [of w' w] by (simp add: fun_eq_iff file_content_def)

lemma fs_okI:
  assumes "gm_ok (nodes w)" and "map_of (nodes w) [] = None"
    and "\<And>p n. node_at w p = Some n \<Longrightarrow> p \<noteq> [] \<Longrightarrow> node_at w (butlast p) = Some Dir"
  shows "fs_ok w"
  unfolding fs_ok_def
proof (intro conjI ballI)
  show "[] \<notin> set (gm_keys (nodes w))"
    using assms(2) by (simp add: gm_get_None)
  fix p assume p: "p \<in> set (gm_keys (nodes w))"
  with \<open>[] \<notin> set (gm_keys (nodes w))\<close> have "p \<noteq> []" by blast
  with p show "node_at w (butlast p) = Some Dir"
    using gm_get_key [of "nodes w" p] assms(3) [of p] by (auto simp: node_at_def)
qed fact

lemma fs_ok_root: "fs_ok w \<Longrightarrow> map_of (nodes w) [] = None"
  by (simp add: fs_ok_def gm_get_None)

lemma os_MkdirAll_node_at:
  assumes "os_MkdirAll p w = Inr w'"
  shows "node_at w' q = (if node_at w q = None \<and> (\<exists>i. 0 < i \<and> i \<le> length p \<and> q = take i p)
           then Some Dir else node_at w q)"
proof (cases "p = []")
  case True
  with assms show ?thesis by (auto simp: os_MkdirAll_def)
next
  case False
  then have "nodes w' = fold make_dir (ancestors p @ [p]) (nodes w)"
    using assms by (auto simp: os_MkdirAll_def split: if_splits)
  then have "map_of (nodes w') q =
      (if map_of (nodes w) q = None \<and> (\<exists>i. 0 < i \<and> i \<le> length p \<and> q = take i p)
       then Some Dir else map_of (nodes w) q)"
    using set_ancestors_self [OF False] by (simp only: map_of_make_dirs) auto
  then show ?thesis
    by (auto simp: node_at_def)
qed

lemma os_MkdirAll_keeps:
  assumes "os_MkdirAll p w = Inr w'"
  shows "cwd w' = cwd w" "plan w' = plan w" "file_content w' = file_content w"
proof -
  show "cwd w' = cwd w" "plan w' = plan w"
    using assms by (auto simp: os_MkdirAll_def split: if_splits)
  show "file_content w' = file_content w"
    by (rule ext) (auto simp: file_content_def os_MkdirAll_node_at [OF assms] split: option.splits)
qed

lemma os_MkdirAll_ok:
  assumes "fs_ok w" and "os_MkdirAll p w = Inr w'"
  shows "fs_ok w'"
proof (rule fs_okI)
  have m: "p \<noteq> [] \<Longrightarrow> nodes w' = fold make_dir (ancestors p @ [p]) (nodes w)" "p = [] \<Longrightarrow> w' = w"
    using assms(2) by (auto simp: os_MkdirAll_def split: if_splits)
  show "gm_ok (nodes w')"
    using m assms(1) gm_ok_make_dirs [of "nodes w" "ancestors p @ [p]"]
    by (cases "p = []") (auto simp: fs_ok_def)
  have "p \<noteq> [] \<Longrightarrow> [] \<notin> set (ancestors p @ [p])"
    using set_ancestors_self [of p] by auto
  then show "map_of (nodes w') [] = None"
    using m fs_ok_root [OF assms(1)] by (cases "p = []") (simp_all add: map_of_make_dirs del: fold_append)
  fix q n
  assume q: "node_at w' q = Some n" "q \<noteq> []"
  show "node_at w' (butlast q) = Some Dir"
  proof (cases "node_at w q = None")
    case False
    then obtain n' where "node_at w q = Some n'" by blast
    from fs_ok_parent [OF assms(1) this q(2)] show ?thesis
      by (simp add: os_MkdirAll_node_at [OF assms(2)])
  next
    case True
    then obtain i where i: "0 < i" "i \<le> length p" "q = take i p"
      using q(1) by (auto simp: os_MkdirAll_node_at [OF assms(2)] split: if_splits)
    then have par: "butlast q = take (i - 1) p"
      by (simp add: butlast_take)
    have "\<not> is_file w (take j p)" if "0 < j" "j \<le> length p" for j
    proof -
      have "p \<noteq> []"
        using that by auto
      then have "take j p \<in> set (ancestors p @ [p])"
        using set_ancestors_self [of p] that by blast
      moreover have "\<not> list_ex (is_file w) (ancestors p @ [p])"
        using assms(2) \<open>p \<noteq> []\<close> by (auto simp: os_MkdirAll_def split: if_splits)
      ultimately show ?thesis
        unfolding list_ex_iff by blast
    qed
    note no_file = this
    show ?thesis
    proof (cases "i = 1")
      case True
      with par show ?thesis by simp
    next
      case False
      then have j: "0 < i - 1" "i - 1 \<le> length p"
        using i by auto
      then have "node_at w (butlast q) = None \<or> node_at w (butlast q) = Some Dir"
        using no_file [of "i - 1"] by (auto simp: par is_file_def split: option.splits node.splits)
      moreover have "\<exists>j. 0 < j \<and> j \<le> length p \<and> butlast q = take j p"
        using j par by blast
      ultimately show ?thesis
        unfolding os_MkdirAll_node_at [OF assms(2)] by metis
    qed
  qed
qed

lemma os_WriteFile_node_at:
  assumes "os_WriteFile full d w = Inr w'"
  shows "node_at w' = (node_at w)(resolve_path (cwd w) full := Some (File d))"
    and "cwd w' = cwd w" and "plan w' = plan w" and "full \<noteq> ''''"
proof -
  have p: "node_at w (resolve_path (cwd w) full) \<noteq> Some Dir"
    using assms by (auto simp: os_WriteFile_def Let_def split: if_splits)
  then have "resolve_path (cwd w) full \<noteq> []"
    by auto
  then show "node_at w' = (node_at w)(resolve_path (cwd w) full := Some (File d))"
    using assms by (auto simp: os_WriteFile_def Let_def node_at_def fun_eq_iff split: if_splits)
  show "cwd w' = cwd w" "plan w' = plan w" "full \<noteq> ''''"
    using assms by (auto simp: os_WriteFile_def Let_def split: if_splits)
qed

lemma fs_ok_put:
  assumes "fs_ok w" and "node_at w p \<noteq> Some Dir" and "node_at w (butlast p) = Some Dir"
    and "nodes w' = gm_put p (File d) (nodes w)"
  shows "fs_ok w'"
proof (rule fs_okI)
  have p: "p \<noteq> []"
    using assms(2) by auto
  show "gm_ok (nodes w')" "map_of (nodes w') [] = None"
    using assms(1,4) p fs_ok_root [OF assms(1)] by (simp_all add: fs_ok_def)
  have at: "node_at w' q = (if q = p then Some (File d) else node_at w q)" for q
    using assms(4) p by (simp add: node_at_def)
  fix q n assume q: "node_at w' q = Some n" "q \<noteq> []"
  show "node_at w' (butlast q) = Some Dir"
  proof (cases "q = p")
    case True
    moreover have "butlast p \<noteq> p"
      using p by (metis append_butlast_last_id append_self_conv list.discI)
    ultimately show ?thesis
      using assms(3) by (simp add: at)
  next
    case False
    with q have "node_at w (butlast q) = Some Dir"
      using fs_ok_parent [OF assms(1), of q n] by (simp add: at)
    with assms(2) show ?thesis
      by (auto simp: at)
  qed
qed

lemma is_file_iff: "is_file w p \<longleftrightarrow> (\<exists>d. node_at w p = Some (File d))"
  by (simp add: is_file_def split: option.splits node.splits)

lemma butlast_ancestor: "butlast p \<noteq> [] \<Longrightarrow> butlast p \<in> set (ancestors p)"
  unfolding set_ancestors
  by (rule CollectI, rule exI [of _ "length p - 1"]) (cases p rule: rev_cases, auto)

lemma os_WriteFile_ok:
  assumes "fs_ok w" and "os_WriteFile full d w = Inr w'"
  shows "fs_ok w'"
proof -
  let ?p = "resolve_path (cwd w) full"
  have w': "nodes w' = gm_put ?p (File d) (nodes w)" "node_at w ?p \<noteq> Some Dir"
    "\<not> list_ex (is_file w) (ancestors ?p)" "node_at w (butlast ?p) \<noteq> None"
    using assms(2) by (auto simp: os_WriteFile_def Let_def split: if_splits)
  have "\<not> is_file w (butlast ?p)"
    using w'(3) butlast_ancestor [of ?p] by (cases "butlast ?p = []") (auto simp: list_ex_iff is_file_iff)
  with w'(4) have "node_at w (butlast ?p) = Some Dir"
    by (auto simp: is_file_iff) (metis node.exhaust)
  then show ?thesis
    using fs_ok_put [OF assms(1) w'(2) _ w'(1)] by blast
qed

lemma os_Remove_node_at:
  assumes "os_Remove full w = Inr w'"
  shows "node_at w' = (node_at w)(resolve_path (cwd w) full := None)"
    and "cwd w' = cwd w" and "plan w' = plan w"
  using assms by (auto simp: os_Remove_def Let_def node_at_def fun_eq_iff split: if_splits sum.splits)

lemma os_Remove_ok:
  assumes "fs_ok w" and "os_Remove full w = Inr w'"
  shows "fs_ok w'"
proof (rule fs_okI)
  let ?p = "resolve_path (cwd w) full"
  obtain n0 where w': "nodes w' = gm_del ?p (nodes w)" "os_Stat full w = Inr n0" "?p \<noteq> []"
      "\<not> (n0 = Dir \<and> children w ?p \<noteq> [])"
    using assms(2) by (auto simp: os_Remove_def Let_def split: if_splits sum.splits)
  then have n0: "node_at w ?p = Some n0"
    by (auto simp: os_Stat_def Let_def split: if_splits option.splits)
  show "gm_ok (nodes w')" "map_of (nodes w') [] = None"
    using assms(1) w' fs_ok_root [OF assms(1)] by (simp_all add: fs_ok_def)
  fix q n assume q: "node_at w' q = Some n" "q \<noteq> []"
  then have par: "node_at w (butlast q) = Some Dir"
    using fs_ok_parent [OF assms(1), of q n]
    by (simp add: os_Remove_node_at [OF assms(2)] split: if_splits)
  have "butlast q \<noteq> ?p"
  proof
    assume eq: "butlast q = ?p"
    with par n0 have "n0 = Dir" by simp
    moreover have "last q \<in> set (children w ?p)"
      using q children_iff [OF assms(1), of "last q" ?p] eq
      by (metis append_butlast_last_id fun_upd_apply option.distinct(1) os_Remove_node_at(1) [OF assms(2)])
    ultimately show False
      using w'(4) by auto
  qed
  with par show "node_at w' (butlast q) = Some Dir"
    by (simp add: os_Remove_node_at [OF assms(2)])
qed

lemma os_Stat_node_at:
  assumes "fs_ok w" and "node_at w (resolve_path (cwd w) full) = Some n" and "full \<noteq> ''''"
  shows "os_Stat full w = Inr n"
  using ancestors_no_file [OF assms(1,2)] assms by (simp add: os_Stat_def Let_def)

lemma os_Stat_Inr: "os_Stat full w = Inr n \<Longrightarrow> node_at w (resolve_path (cwd w) full) = Some n \<and> full \<noteq> ''''"
  by (auto simp: os_Stat_def Let_def split: if_splits option.splits)

end
