(* ===== verification/Store.thy ===== *)
theory Store
  imports FileSystem
begin

text \<open>
  \<^verbatim>\<open>src/storage/object_store.go\<close>: the interface every other component reaches its files
  through, as a record of the methods over the state \<open>'w\<close> of the backend, and the contract the
  components rely on, as two locales. \<open>store_frame\<close> holds whatever faults happen: an operation
  touches no file but its own. \<open>store_spec\<close> adds what operations do when none happens.

  The \<open>io.WriteCloser\<close> of \<open>OpenWrite\<close> is a handle, the name of the file it writes to.

  \<open>key\<close> names the file a path denotes, \<open>content\<close> the bytes of a file. \<open>managed\<close> are the paths of
  the files a component keeps, none below another, and \<open>dir_path\<close> the directories they lie in.
\<close>

record 'w Store =
  Store_Read :: "string \<Rightarrow> int \<Rightarrow> int \<Rightarrow> 'w \<Rightarrow> byte list res \<times> 'w"
  Store_Write :: "string \<Rightarrow> byte list \<Rightarrow> 'w \<Rightarrow> unit res \<times> 'w"
  Store_Delete :: "string \<Rightarrow> 'w \<Rightarrow> unit res \<times> 'w"
  Store_Exists :: "string \<Rightarrow> 'w \<Rightarrow> bool res \<times> 'w"
  Store_List :: "string \<Rightarrow> 'w \<Rightarrow> string list res \<times> 'w"
  Store_Size :: "string \<Rightarrow> 'w \<Rightarrow> int res \<times> 'w"
  Store_OpenWrite :: "string \<Rightarrow> 'w \<Rightarrow> string res \<times> 'w"

locale store_frame =
  fixes st :: "'w Store"
    and key :: "string \<Rightarrow> 'k"
    and content :: "'w \<Rightarrow> 'k \<Rightarrow> byte list option"
    and good :: "'w \<Rightarrow> bool"
  assumes write_frame: "good w \<Longrightarrow> Store_Write st p d w = (r, w') \<Longrightarrow>
      good w' \<and> (\<forall>k. k \<noteq> key p \<longrightarrow> content w' k = content w k)"
    and write_done: "good w \<Longrightarrow> Store_Write st p d w = (Inr (), w') \<Longrightarrow> content w' (key p) = Some d"
    and delete_frame: "good w \<Longrightarrow> Store_Delete st p w = (r, w') \<Longrightarrow>
      good w' \<and> (\<forall>k. k \<noteq> key p \<longrightarrow> content w' k = content w k)"
    and read_frame: "good w \<Longrightarrow> Store_Read st p off len w = (rb, w') \<Longrightarrow> good w' \<and> content w' = content w"
    and read_done: "good w \<Longrightarrow> Store_Read st p 0 len w = (Inr d, w') \<Longrightarrow> 0 < len \<Longrightarrow>
      \<exists>whole. content w (key p) = Some whole \<and> d = take (nat len) whole"
    and exists_frame: "good w \<Longrightarrow> Store_Exists st p w = (re, w') \<Longrightarrow> good w' \<and> content w' = content w"
    and list_frame: "good w \<Longrightarrow> Store_List st p w = (rl, w') \<Longrightarrow> good w' \<and> content w' = content w"
    and size_frame: "good w \<Longrightarrow> Store_Size st p w = (rs, w') \<Longrightarrow> good w' \<and> content w' = content w"
    and open_frame: "good w \<Longrightarrow> Store_OpenWrite st p w = (ro, w') \<Longrightarrow>
      good w' \<and> (\<forall>k. k \<noteq> key p \<longrightarrow> content w' k = content w k)"
    and open_done: "good w \<Longrightarrow> Store_OpenWrite st p w = (Inr h, w') \<Longrightarrow> content w' (key p) = Some []"

locale store_spec = store_frame st key content good
  for st :: "'w Store" and key :: "string \<Rightarrow> 'k" and content and good +
  fixes ok :: "'w \<Rightarrow> bool"
    and managed dir_path :: "string \<Rightarrow> bool"
  assumes ok_good: "ok w \<Longrightarrow> good w"
    and write_ok: "ok w \<Longrightarrow> managed p \<Longrightarrow> \<exists>w'. Store_Write st p d w = (Inr (), w') \<and> ok w'"
    and delete_ok: "ok w \<Longrightarrow> managed p \<Longrightarrow> content w (key p) \<noteq> None \<Longrightarrow>
      \<exists>w'. Store_Delete st p w = (Inr (), w') \<and> ok w' \<and> content w' (key p) = None"
    and exists_ok: "ok w \<Longrightarrow> managed p \<Longrightarrow> Store_Exists st p w = (Inr (content w (key p) \<noteq> None), w)"
    and size_ok: "ok w \<Longrightarrow> managed p \<Longrightarrow> content w (key p) = Some d \<Longrightarrow>
      Store_Size st p w = (Inr (int (length d)), w)"
    and size_missing: "ok w \<Longrightarrow> managed p \<Longrightarrow> content w (key p) = None \<Longrightarrow>
      \<exists>e. Store_Size st p w = (Inl (StoErr e), w)"
    and read_ok: "ok w \<Longrightarrow> managed p \<Longrightarrow> content w (key p) = Some d \<Longrightarrow> 0 \<le> len \<Longrightarrow>
      len \<le> int (length d) \<Longrightarrow> Store_Read st p 0 len w = (Inr (take (nat len) d), w)"
    and list_ok: "ok w \<Longrightarrow> dir_path dir \<Longrightarrow>
      (\<exists>ns. Store_Exists st dir w = (Inr True, w) \<and>
         Store_List st dir w = (Inr (map (\<lambda>n. path_Join [dir, n]) ns), w) \<and> distinct ns \<and>
         set ns = {n. simple_name n \<and> content w (key (path_Join [dir, n])) \<noteq> None}) \<or>
      (Store_Exists st dir w = (Inr False, w) \<and>
         (\<forall>n. simple_name n \<longrightarrow> content w (key (path_Join [dir, n])) = None))"
begin

lemma write_content:
  assumes "ok w" and "managed p"
  obtains w' where "Store_Write st p d w = (Inr (), w')" "ok w'" "content w' = (content w)(key p := Some d)"
proof -
  obtain w' where w': "Store_Write st p d w = (Inr (), w')" "ok w'"
    using write_ok [OF assms] by blast
  moreover have "content w' = (content w)(key p := Some d)"
    using write_frame [OF ok_good [OF assms(1)] w'(1)] write_done [OF ok_good [OF assms(1)] w'(1)]
    by auto
  ultimately show thesis by (rule that)
qed

lemma delete_content:
  assumes "ok w" and "managed p" and "content w (key p) \<noteq> None"
  obtains w' where "Store_Delete st p w = (Inr (), w')" "ok w'" "content w' = (content w)(key p := None)"
proof -
  obtain w' where w': "Store_Delete st p w = (Inr (), w')" "ok w'" "content w' (key p) = None"
    using delete_ok [OF assms] by blast
  moreover have "content w' = (content w)(key p := None)"
    using delete_frame [OF ok_good [OF assms(1)] w'(1)] w'(3) by auto
  ultimately show thesis using that by blast
qed

end

end
