(* ===== verification/LocalFS.thy ===== *)
theory LocalFS
  imports Store
begin

text \<open>
  \<^verbatim>\<open>src/storage/local_fs.go\<close>: the store on the local file system. Every operation first asks
  its context, so a cancellation has no effect on the disk; a write makes the directories above the
  file and then truncates and writes it, which a fault may interrupt.
\<close>

section \<open>Operations\<close>

definition LocalFS_resolve :: "string \<Rightarrow> string \<Rightarrow> string" where
  "LocalFS_resolve root path = path_Join [root, path]"

definition LocalFS_Read :: "string \<Rightarrow> string \<Rightarrow> int \<Rightarrow> int \<Rightarrow> world \<Rightarrow> byte list res \<times> world" where
  "LocalFS_Read root path offset len w0 =
     (let (ev, w) = next_io w0; full = LocalFS_resolve root path in
      if ev = IoCancel then (Inl (StoErr ErrCanceled), w)
      else if len < 0 then (Inl (StoErr ErrNegativeLength), w)
      else if ev \<noteq> IoOk then (Inl (StoErr ErrOS), w)
      else case os_Stat full w of
        Inl e \<Rightarrow> (Inl (StoErr e), w)
      | Inr n \<Rightarrow>
          if len = 0 then (Inr [], w)
          else case n of
            Dir \<Rightarrow> (Inl (StoErr ErrIsDir), w)
          | File data \<Rightarrow>
              if offset < 0 then (Inl (StoErr ErrOS), w)
              else if int (length data) < offset + len then (Inl (StoErr ErrShortRead), w)
              else (Inr (take (nat len) (drop (nat offset) data)), w))"

definition LocalFS_Write :: "string \<Rightarrow> string \<Rightarrow> byte list \<Rightarrow> world \<Rightarrow> unit res \<times> world" where
  "LocalFS_Write root path data w0 =
     (let (ev, w) = next_io w0; full = LocalFS_resolve root path in
      if ev = IoCancel then (Inl (StoErr ErrCanceled), w)
      else if ev = IoFail then (Inl (StoErr ErrOS), w)
      else case os_MkdirAll (butlast (resolve_path (cwd w) full)) w of
        Inl e \<Rightarrow> (Inl (StoErr e), w)
      | Inr w1 \<Rightarrow>
          (case ev of
             IoTorn n \<Rightarrow>
               (Inl (StoErr ErrOS), case os_WriteFile full (take n data) w1 of Inl e \<Rightarrow> w1 | Inr w2 \<Rightarrow> w2)
           | _ \<Rightarrow>
               (case os_WriteFile full data w1 of
                  Inl e \<Rightarrow> (Inl (StoErr e), w1)
                | Inr w2 \<Rightarrow> (Inr (), w2))))"

definition LocalFS_Delete :: "string \<Rightarrow> string \<Rightarrow> world \<Rightarrow> unit res \<times> world" where
  "LocalFS_Delete root path w0 =
     (let (ev, w) = next_io w0 in
      if ev = IoCancel then (Inl (StoErr ErrCanceled), w)
      else if ev \<noteq> IoOk then (Inl (StoErr ErrOS), w)
      else case os_Remove (LocalFS_resolve root path) w of
        Inl e \<Rightarrow> (Inl (StoErr e), w)
      | Inr w1 \<Rightarrow> (Inr (), w1))"

definition LocalFS_Exists :: "string \<Rightarrow> string \<Rightarrow> world \<Rightarrow> bool res \<times> world" where
  "LocalFS_Exists root path w0 =
     (let (ev, w) = next_io w0 in
      if ev = IoCancel then (Inl (StoErr ErrCanceled), w)
      else if ev \<noteq> IoOk then (Inl (StoErr ErrOS), w)
      else case os_Stat (LocalFS_resolve root path) w of
        Inr n \<Rightarrow> (Inr True, w)
      | Inl e \<Rightarrow> if e = ErrNotExist then (Inr False, w) else (Inl (StoErr e), w))"

definition LocalFS_List :: "string \<Rightarrow> string \<Rightarrow> world \<Rightarrow> string list res \<times> world" where
  "LocalFS_List root dir w0 =
     (let (ev, w) = next_io w0 in
      if ev = IoCancel then (Inl (StoErr ErrCanceled), w)
      else if ev \<noteq> IoOk then (Inl (StoErr ErrOS), w)
      else case os_ReadDir (LocalFS_resolve root dir) w of
        Inl e \<Rightarrow> (Inl (StoErr e), w)
      | Inr es \<Rightarrow> (Inr [path_Join [dir, n]. (n, nd) \<leftarrow> es, nd \<noteq> Dir], w))"

definition LocalFS_Size :: "string \<Rightarrow> string \<Rightarrow> world \<Rightarrow> int res \<times> world" where
  "LocalFS_Size root path w0 =
     (let (ev, w) = next_io w0 in
      if ev = IoCancel then (Inl (StoErr ErrCanceled), w)
      else if ev \<noteq> IoOk then (Inl (StoErr ErrOS), w)
      else case os_Stat (LocalFS_resolve root path) w of
        Inl e \<Rightarrow> (Inl (StoErr e), w)
      | Inr Dir \<Rightarrow> (Inr (dir_size w), w)
      | Inr (File data) \<Rightarrow> (Inr (int (length data)), w))"

text \<open>\<open>OpenWrite\<close> creates or empties the file; the handle is the resolved path.\<close>

definition LocalFS_OpenWrite :: "string \<Rightarrow> string \<Rightarrow> world \<Rightarrow> string res \<times> world" where
  "LocalFS_OpenWrite root path w0 =
     (let (ev, w) = next_io w0; full = LocalFS_resolve root path in
      if ev = IoCancel then (Inl (StoErr ErrCanceled), w)
      else if ev = IoFail then (Inl (StoErr ErrOS), w)
      else case os_MkdirAll (butlast (resolve_path (cwd w) full)) w of
        Inl e \<Rightarrow> (Inl (StoErr e), w)
      | Inr w1 \<Rightarrow>
          (case ev of
             IoTorn n \<Rightarrow> (Inl (StoErr ErrOS), w1)
           | _ \<Rightarrow>
               (case os_WriteFile full [] w1 of
                  Inl e \<Rightarrow> (Inl (StoErr e), w1)
                | Inr w2 \<Rightarrow> (Inr full, w2))))"

definition LocalFS :: "string \<Rightarrow> world Store" where
  "LocalFS root =
     \<lparr>Store_Read = LocalFS_Read root, Store_Write = LocalFS_Write root,
      Store_Delete = LocalFS_Delete root, Store_Exists = LocalFS_Exists root,
      Store_List = LocalFS_List root, Store_Size = LocalFS_Size root,
      Store_OpenWrite = LocalFS_OpenWrite root\<rparr>"

lemma LocalFS_simps [simp]:
  "Store_Read (LocalFS root) = LocalFS_Read root"
  "Store_Write (LocalFS root) = LocalFS_Write root"
  "Store_Delete (LocalFS root) = LocalFS_Delete root"
  "Store_Exists (LocalFS root) = LocalFS_Exists root"
  "Store_List (LocalFS root) = LocalFS_List root"
  "Store_Size (LocalFS root) = LocalFS_Size root"
  "Store_OpenWrite (LocalFS root) = LocalFS_OpenWrite root"
  by (simp_all add: LocalFS_def)

section \<open>The contract: frame laws\<close>

text \<open>
  The file a path denotes, and the states in which the laws hold: a well-formed tree and the
  working directory the keys are computed with. No assumption is made on the coming faults.
\<close>

definition fs_good :: "string list \<Rightarrow> world \<Rightarrow> bool" where
  "fs_good c w \<longleftrightarrow> fs_ok w \<and> cwd w = c"

lemma fs_good_next:
  "next_io w = (ev, w') \<Longrightarrow> fs_good c w' = fs_good c w \<and> file_content w' = file_content w"
proof -
  assume "next_io w = (ev, w')"
  note keeps = next_io_keeps [OF this]
  show ?thesis
    using keeps(2) fs_ok_nodes [OF keeps(1)] file_content_nodes [OF keeps(1)] by (simp add: fs_good_def)
qed

lemma resolve_full: "resolve_path c (LocalFS_resolve root p) = under_root c root p"
  by (simp add: LocalFS_resolve_def under_root_def)

lemma content_upd:
  "node_at w' = (node_at w)(p := Some (File d)) \<Longrightarrow> file_content w' = (file_content w)(p := Some d)"
  "node_at w' = (node_at w)(p := None) \<Longrightarrow> file_content w' = (file_content w)(p := None)"
  by (simp_all add: fun_eq_iff file_content_def)

lemma write_done_world:
  assumes "fs_good c w" and "os_MkdirAll q w = Inr w1" and "os_WriteFile (LocalFS_resolve root p) d w1 = Inr w2"
  shows "fs_good c w2 \<and> file_content w2 = (file_content w)(under_root c root p := Some d)"
proof -
  have c: "cwd w1 = c" "fs_ok w1" "file_content w1 = file_content w"
    using assms(1) os_MkdirAll_keeps [OF assms(2)] os_MkdirAll_ok [OF _ assms(2)] by (simp_all add: fs_good_def)
  then show ?thesis
    using os_WriteFile_node_at [OF assms(3)] os_WriteFile_ok [OF c(2) assms(3)] content_upd(1)
    by (simp add: fs_good_def resolve_full)
qed

lemma mkdir_world: "fs_good c w \<Longrightarrow> os_MkdirAll q w = Inr w1 \<Longrightarrow> fs_good c w1 \<and> file_content w1 = file_content w"
  using os_MkdirAll_keeps [of q w w1] os_MkdirAll_ok [of w q w1] by (simp add: fs_good_def)

text \<open>The four outcomes of a write.\<close>

lemma LocalFS_Write_cases:
  assumes "fs_good c w" and "LocalFS_Write root p d w = (r, w')"
  obtains (failed) e where "r = Inl e" "fs_good c w'" "file_content w' = file_content w"
  | (torn) e n where "r = Inl e" "fs_good c w'"
      "file_content w' = (file_content w)(under_root c root p := Some (take n d))"
  | (written) "r = Inr ()" "fs_good c w'" "file_content w' = (file_content w)(under_root c root p := Some d)"
proof -
  obtain ev w0 where ev: "next_io w = (ev, w0)"
    by fastforce
  have w0: "fs_good c w0" "file_content w0 = file_content w"
    using fs_good_next [OF ev] assms(1) by simp_all
  let ?full = "LocalFS_resolve root p" and ?dir = "butlast (resolve_path (cwd w0) (LocalFS_resolve root p))"
  show thesis
  proof (cases "ev = IoCancel \<or> ev = IoFail")
    case True
    then have "(\<exists>e. r = Inl e) \<and> w' = w0"
      using assms(2) ev by (auto simp: LocalFS_Write_def split: if_splits)
    with w0 failed show thesis by blast
  next
    case run: False
    show thesis
    proof (cases "os_MkdirAll ?dir w0")
      case (Inl e)
      with run assms(2) ev w0 show thesis
        by (intro failed) (auto simp: LocalFS_Write_def)
    next
      case (Inr w1)
      note w1 = mkdir_world [OF w0(1) Inr]
      show thesis
      proof (cases ev)
        case (IoTorn n)
        show thesis
        proof (cases "os_WriteFile ?full (take n d) w1")
          case (Inl e)
          with IoTorn Inr w1 assms(2) ev w0 show thesis
            by (intro failed) (auto simp: LocalFS_Write_def)
        next
          case w2: (Inr w2)
          with IoTorn Inr assms(2) ev w0 write_done_world [OF w0(1) Inr w2] show thesis
            by (intro torn) (auto simp: LocalFS_Write_def)
        qed
      next
        case IoOk
        show thesis
        proof (cases "os_WriteFile ?full d w1")
          case (Inl e)
          with IoOk Inr w1 assms(2) ev w0 show thesis
            by (intro failed) (auto simp: LocalFS_Write_def)
        next
          case w2: (Inr w2)
          with IoOk Inr assms(2) ev w0 write_done_world [OF w0(1) Inr w2] show thesis
            by (intro written) (auto simp: LocalFS_Write_def)
        qed
      qed (use run in auto)
    qed
  qed
qed

lemma LocalFS_OpenWrite_cases:
  assumes "fs_good c w" and "LocalFS_OpenWrite root p w = (r, w')"
  obtains (failed) e where "r = Inl e" "fs_good c w'" "file_content w' = file_content w"
  | (opened) "r = Inr (LocalFS_resolve root p)" "fs_good c w'"
      "file_content w' = (file_content w)(under_root c root p := Some [])"
proof -
  obtain ev w0 where ev: "next_io w = (ev, w0)"
    by fastforce
  have w0: "fs_good c w0" "file_content w0 = file_content w"
    using fs_good_next [OF ev] assms(1) by simp_all
  let ?full = "LocalFS_resolve root p" and ?dir = "butlast (resolve_path (cwd w0) (LocalFS_resolve root p))"
  show thesis
  proof (cases "ev = IoCancel \<or> ev = IoFail \<or> (\<exists>e. os_MkdirAll ?dir w0 = Inl e)")
    case True
    then have "(\<exists>e. r = Inl e) \<and> w' = w0"
      using assms(2) ev by (auto simp: LocalFS_OpenWrite_def Let_def split: if_splits)
    with w0 failed show thesis by blast
  next
    case run: False
    then obtain w1 where w1: "os_MkdirAll ?dir w0 = Inr w1"
      by (cases "os_MkdirAll ?dir w0") auto
    note kept = mkdir_world [OF w0(1) w1]
    show thesis
    proof (cases "\<exists>w2. ev = IoOk \<and> os_WriteFile ?full [] w1 = Inr w2")
      case True
      then obtain w2 where "ev = IoOk" "os_WriteFile ?full [] w1 = Inr w2"
        by blast
      with w1 assms(2) ev w0 write_done_world [OF w0(1) w1] show thesis
        by (intro opened) (auto simp: LocalFS_OpenWrite_def)
    next
      case False
      then have "(\<exists>e. r = Inl e) \<and> w' = w1"
        using run w1 assms(2) ev by (cases ev; cases "os_WriteFile ?full [] w1") (auto simp: LocalFS_OpenWrite_def)
      with kept w0 failed show thesis by auto
    qed
  qed
qed

lemma LocalFS_reads_keep:
  assumes "fs_good c w"
  shows "LocalFS_Read root p off len w = (rb, w') \<Longrightarrow> fs_good c w' \<and> file_content w' = file_content w"
    and "LocalFS_Exists root p w = (re, w') \<Longrightarrow> fs_good c w' \<and> file_content w' = file_content w"
    and "LocalFS_List root p w = (rl, w') \<Longrightarrow> fs_good c w' \<and> file_content w' = file_content w"
    and "LocalFS_Size root p w = (rs, w') \<Longrightarrow> fs_good c w' \<and> file_content w' = file_content w"
proof -
  obtain ev w0 where ev: "next_io w = (ev, w0)"
    by fastforce
  have w0: "fs_good c w0 \<and> file_content w0 = file_content w"
    using fs_good_next [OF ev] assms by simp
  have "w' = w0" if "LocalFS_Read root p off len w = (rb, w')"
    using that ev by (auto simp: LocalFS_Read_def Let_def split: if_splits sum.splits node.splits)
  with w0 show "LocalFS_Read root p off len w = (rb, w') \<Longrightarrow> fs_good c w' \<and> file_content w' = file_content w"
    by blast
  have "w' = w0" if "LocalFS_Exists root p w = (re, w')"
    using that ev by (auto simp: LocalFS_Exists_def Let_def split: if_splits sum.splits)
  with w0 show "LocalFS_Exists root p w = (re, w') \<Longrightarrow> fs_good c w' \<and> file_content w' = file_content w"
    by blast
  have "w' = w0" if "LocalFS_List root p w = (rl, w')"
    using that ev by (auto simp: LocalFS_List_def Let_def split: if_splits sum.splits)
  with w0 show "LocalFS_List root p w = (rl, w') \<Longrightarrow> fs_good c w' \<and> file_content w' = file_content w"
    by blast
  have "w' = w0" if "LocalFS_Size root p w = (rs, w')"
    using that ev by (auto simp: LocalFS_Size_def Let_def split: if_splits sum.splits node.splits)
  with w0 show "LocalFS_Size root p w = (rs, w') \<Longrightarrow> fs_good c w' \<and> file_content w' = file_content w"
    by blast
qed

lemma LocalFS_Delete_keeps:
  assumes "fs_good c w" and "LocalFS_Delete root p w = (r, w')"
  shows "fs_good c w' \<and> (\<forall>k. k \<noteq> under_root c root p \<longrightarrow> file_content w' k = file_content w k)"
proof -
  obtain ev w0 where ev: "next_io w = (ev, w0)"
    by fastforce
  have w0: "fs_good c w0" "file_content w0 = file_content w"
    using fs_good_next [OF ev] assms(1) by simp_all
  consider "w' = w0" | "os_Remove (LocalFS_resolve root p) w0 = Inr w'"
    using assms(2) ev by (auto simp: LocalFS_Delete_def split: if_splits sum.splits)
  then show ?thesis
  proof cases
    case 1
    with w0 show ?thesis by simp
  next
    case 2
    with w0 show ?thesis
      using os_Remove_node_at [OF 2] os_Remove_ok [OF _ 2]
      by (simp add: fs_good_def content_upd(2) resolve_full)
  qed
qed

lemma LocalFS_Read_content:
  assumes "fs_good c w" and "LocalFS_Read root p 0 len w = (Inr d, w')" and "0 < len"
  shows "\<exists>whole. file_content w (under_root c root p) = Some whole \<and> d = take (nat len) whole"
proof -
  obtain ev w0 where ev: "next_io w = (ev, w0)"
    by fastforce
  have w0: "fs_good c w0" "file_content w0 = file_content w"
    using fs_good_next [OF ev] assms(1) by simp_all
  obtain whole where whole: "os_Stat (LocalFS_resolve root p) w0 = Inr (File whole)" "d = take (nat len) whole"
    using assms(2,3) ev by (auto simp: LocalFS_Read_def split: if_splits sum.splits node.splits)
  then have "file_content w0 (under_root c root p) = Some whole"
    using os_Stat_Inr [OF whole(1)] w0(1) by (simp add: file_content_def fs_good_def flip: resolve_full)
  with w0 whole(2) show ?thesis by auto
qed

interpretation lfs_frame: store_frame "LocalFS root" "under_root c root" file_content "fs_good c" for root c
proof unfold_locales
  fix p w r w' and d :: "byte list"
  assume w: "fs_good c w"
  show "fs_good c w' \<and> (\<forall>k. k \<noteq> under_root c root p \<longrightarrow> file_content w' k = file_content w k)"
    if "Store_Write (LocalFS root) p d w = (r, w')"
    using w that [unfolded LocalFS_simps] by (cases rule: LocalFS_Write_cases) simp_all
  show "file_content w' (under_root c root p) = Some d" if "Store_Write (LocalFS root) p d w = (Inr (), w')"
    using w that [unfolded LocalFS_simps] by (cases rule: LocalFS_Write_cases) simp_all
  show "fs_good c w' \<and> (\<forall>k. k \<noteq> under_root c root p \<longrightarrow> file_content w' k = file_content w k)"
    if "Store_Delete (LocalFS root) p w = (r, w')"
    using w that LocalFS_Delete_keeps by simp
  show "fs_good c w' \<and> (\<forall>k. k \<noteq> under_root c root p \<longrightarrow> file_content w' k = file_content w k)"
    if "Store_OpenWrite (LocalFS root) p w = (ro, w')" for ro
    using w that [unfolded LocalFS_simps] by (cases rule: LocalFS_OpenWrite_cases) simp_all
  show "file_content w' (under_root c root p) = Some []"
    if "Store_OpenWrite (LocalFS root) p w = (Inr h, w')" for h
    using w that [unfolded LocalFS_simps] by (cases rule: LocalFS_OpenWrite_cases) simp_all
qed (unfold LocalFS_simps; rule LocalFS_reads_keep LocalFS_Read_content; assumption)+

section \<open>The contract without faults\<close>

text \<open>
  The files of a table at \<open>tk\<close> are \<open>_versions/x\<close> and \<open>data/f/c\<close>; what lies above them must be
  directories, and none of them may be a directory.
\<close>

definition table_file :: "string list \<Rightarrow> string list \<Rightarrow> bool" where
  "table_file tk k \<longleftrightarrow> take (length tk) k = tk \<and>
     (case drop (length tk) k of
        [v, x] \<Rightarrow> v = ''_versions'' | [d, f, c] \<Rightarrow> d = ''data'' | _ \<Rightarrow> False)"

definition table_dir :: "string list \<Rightarrow> string list \<Rightarrow> bool" where
  "table_dir tk k \<longleftrightarrow> take (length k) tk = k \<or>
     take (length tk) k = tk \<and>
     (case drop (length tk) k of
        [v] \<Rightarrow> v = ''_versions'' \<or> v = ''data'' | [d, f] \<Rightarrow> d = ''data'' | _ \<Rightarrow> False)"

definition layout_ok :: "string list \<Rightarrow> world \<Rightarrow> bool" where
  "layout_ok tk w \<longleftrightarrow>
     list_all (\<lambda>(k, n). (table_file tk k \<longrightarrow> n \<noteq> Dir) \<and> (table_dir tk k \<longrightarrow> n = Dir)) (nodes w)"

definition names_ok :: "world \<Rightarrow> bool" where
  "names_ok w \<longleftrightarrow> list_all (\<lambda>k. list_all simple_name k) (gm_keys (nodes w))"

definition fs_ready :: "string list \<Rightarrow> string list \<Rightarrow> world \<Rightarrow> bool" where
  "fs_ready c tk w \<longleftrightarrow>
     fs_good c w \<and> plan w = [] \<and> layout_ok tk w \<and> names_ok w \<and> list_all simple_name c"

definition managed_path :: "string list \<Rightarrow> string \<Rightarrow> string list \<Rightarrow> string \<Rightarrow> bool" where
  "managed_path c root tk p \<longleftrightarrow>
     LocalFS_resolve root p \<noteq> '''' \<and> LocalFS_resolve root p \<noteq> ''.'' \<and>
     table_file tk (under_root c root p)"

definition versions_path :: "string list \<Rightarrow> string \<Rightarrow> string list \<Rightarrow> string \<Rightarrow> bool" where
  "versions_path c root tk p \<longleftrightarrow>
     join_safe p \<and> LocalFS_resolve root p \<noteq> '''' \<and> under_root c root p = tk @ [''_versions'']"

lemma names_ok_iff: "names_ok w \<longleftrightarrow> (\<forall>k. node_at w k \<noteq> None \<longrightarrow> list_all simple_name k)"
proof -
  have "names_ok w \<longleftrightarrow> (\<forall>k. map_of (nodes w) k \<noteq> None \<longrightarrow> list_all simple_name k)"
    by (simp only: names_ok_def list_all_iff [of _ "gm_keys (nodes w)"] gm_get_key) blast
  moreover have "node_at w k \<noteq> None \<longleftrightarrow> k = [] \<or> map_of (nodes w) k \<noteq> None" for k
    by (simp add: node_at_def)
  moreover have "list_all simple_name []"
    by simp
  ultimately show ?thesis
    by metis
qed

lemma resolve_simple:
  assumes "list_all simple_name c"
  shows "list_all simple_name (resolve_path c p)"
proof -
  have "list_all simple_name st \<Longrightarrow> \<forall>x \<in> set xs. CHR ''/'' \<notin> set x \<Longrightarrow>
      list_all simple_name (foldl abs_step st xs)" for st xs
  proof (induction xs arbitrary: st)
    case (Cons x xs)
    have "list_all simple_name (abs_step st x)"
      using Cons.prems by (cases st) (simp_all add: abs_step_def, simp_all add: simple_name_def)
    with Cons show ?case by simp
  qed simp
  from this [of "if rooted p then [] else rev c" "split_slash p"] show ?thesis
    using assms split_slash_comps [of _ p] by (auto simp: resolve_path_def)
qed

lemma layout_file: "layout_ok tk w \<Longrightarrow> table_file tk k \<Longrightarrow> node_at w k \<noteq> Some Dir"
  by (auto simp: layout_ok_def list_all_iff node_at_def table_file_def dest!: map_of_SomeD split: if_splits)

lemma layout_dir: "layout_ok tk w \<Longrightarrow> table_dir tk k \<Longrightarrow> \<not> is_file w k"
  by (auto simp: layout_ok_def list_all_iff node_at_def is_file_iff dest!: map_of_SomeD split: if_splits)

lemma layout_okI:
  assumes "fs_ok w" and "\<And>k. table_file tk k \<Longrightarrow> node_at w k \<noteq> Some Dir"
    and "\<And>k. table_dir tk k \<Longrightarrow> \<not> is_file w k"
  shows "layout_ok tk w"
  unfolding layout_ok_def list_all_iff
proof (clarify, intro conjI impI)
  fix k n assume kn: "(k, n) \<in> set (nodes w)"
  then have at: "node_at w k = Some n"
    using assms(1) by (force simp: fs_ok_def gm_ok_def gm_keys_def node_at_def)
  show "table_file tk k \<Longrightarrow> n \<noteq> Dir" "table_dir tk k \<Longrightarrow> n = Dir"
    using at assms(2,3) [of k] by (auto simp: is_file_iff) (metis node.exhaust)
qed

lemma table_file_cases:
  assumes "table_file tk k"
  obtains x where "k = tk @ [''_versions'', x]" | f c where "k = tk @ [''data'', f, c]"
proof -
  have k: "k = tk @ drop (length tk) k"
    using assms by (metis append_take_drop_id table_file_def)
  show thesis
    using assms that by (subst (asm) table_file_def) (auto split: list.splits, (metis k)+)
qed

lemma table_file_ancestors:
  assumes "table_file tk k" and "i < length k"
  shows "table_dir tk (take i k)"
proof (cases "i \<le> length tk")
  case True
  then show ?thesis
    using assms(1) by (auto elim!: table_file_cases simp: table_dir_def)
next
  case False
  then obtain j where "i = length tk + Suc j"
    by (metis less_imp_Suc_add not_le add_Suc_right)
  with assms show ?thesis
    by (auto elim!: table_file_cases simp: table_dir_def less_Suc_eq split: nat.splits)
qed

lemma table_file_not_dir: "table_file tk k \<Longrightarrow> \<not> table_dir tk k"
  by (auto elim!: table_file_cases simp: table_dir_def dest: arg_cong [of _ _ length])

lemma table_file_no_file_above:
  assumes "layout_ok tk w" and "table_file tk k"
  shows "i < length k \<Longrightarrow> \<not> is_file w (take i k)"
  using table_file_ancestors [OF assms(2)] layout_dir [OF assms(1)] by blast

lemma table_file_nonempty: "table_file tk k \<Longrightarrow> k \<noteq> []"
  by (auto elim: table_file_cases)

lemma mkdir_table:
  assumes "fs_ready c tk w" and "table_file tk k" and "list_all simple_name k"
  obtains w1 where "os_MkdirAll (butlast k) w = Inr w1" "fs_ready c tk w1"
    "node_at w1 (butlast k) = Some Dir" "file_content w1 = file_content w" "node_at w1 k = node_at w k"
proof -
  have w: "fs_good c w" "plan w = []" "layout_ok tk w" "names_ok w" "list_all simple_name c"
    using assms(1) by (simp_all add: fs_ready_def)
  obtain ks x where k: "k = ks @ [x]"
    using table_file_nonempty [OF assms(2)] by (metis rev_exhaust)
  have up: "take i (butlast k) = take i k \<and> i < length k" if "i \<le> length (butlast k)" for i
    using that by (simp add: k)
  have nofile: "\<not> is_file w (take i (butlast k))" if "i \<le> length (butlast k)" for i
    using table_file_no_file_above [OF w(3) assms(2), of i] up [OF that] by simp
  have "butlast k \<noteq> [] \<Longrightarrow> \<not> list_ex (is_file w) (ancestors (butlast k) @ [butlast k])"
    unfolding list_ex_iff set_ancestors_self using nofile by blast
  then obtain w1 where w1: "os_MkdirAll (butlast k) w = Inr w1"
    by (cases "butlast k = []") (auto simp: os_MkdirAll_def)
  note at = os_MkdirAll_node_at [OF w1]
  have dir: "node_at w1 (butlast k) = Some Dir"
  proof (cases "butlast k = []")
    case False
    then have "\<exists>i. 0 < i \<and> i \<le> length (butlast k) \<and> butlast k = take i (butlast k)"
      by (intro exI [of _ "length (butlast k)"]) (simp add: k)
    moreover have "\<not> is_file w (butlast k)"
      using nofile [of "length (butlast k)"] by simp
    ultimately show ?thesis
      unfolding at by (auto simp: is_file_iff) (metis node.exhaust)
  qed simp
  have "layout_ok tk w1"
  proof (rule layout_okI)
    show "fs_ok w1"
      using w(1) os_MkdirAll_ok [OF _ w1] by (simp add: fs_good_def)
    show "node_at w1 q \<noteq> Some Dir" if "table_file tk q" for q
    proof -
      have "q \<noteq> take i (butlast k)" if "i \<le> length (butlast k)" for i
        using table_file_ancestors [OF assms(2), of i] table_file_not_dir [OF \<open>table_file tk q\<close>]
          up [OF that] by auto
      with layout_file [OF w(3) \<open>table_file tk q\<close>] show ?thesis
        unfolding at by metis
    qed
    show "\<not> is_file w1 q" if "table_dir tk q" for q
      using layout_dir [OF w(3) that] by (simp add: is_file_iff at)
  qed
  moreover have "names_ok w1"
    unfolding names_ok_iff at
  proof (intro allI impI)
    fix q assume q: "(if node_at w q = None \<and> (\<exists>i. 0 < i \<and> i \<le> length (butlast k) \<and> q = take i (butlast k))
        then Some Dir else node_at w q) \<noteq> None"
    have "list_all simple_name (take i (butlast k))" for i
      using assms(3) by (simp add: k list_all_iff) (meson in_set_takeD)
    with q w(4) show "list_all simple_name q"
      by (auto simp: names_ok_iff split: if_splits)
  qed
  ultimately have "fs_ready c tk w1"
    using w mkdir_world [OF w(1) w1] os_MkdirAll_keeps [OF w1] by (simp add: fs_ready_def)
  moreover have "k \<noteq> take i (butlast k)" for i
    by (auto simp: k dest: arg_cong [of _ _ length])
  then have "node_at w1 k = node_at w k"
    unfolding at by metis
  ultimately show thesis
    using that w1 dir os_MkdirAll_keeps(3) [OF w1] by blast
qed

lemma LocalFS_Write_ready:
  assumes "fs_ready c tk w" and "managed_path c root tk p"
  shows "\<exists>w'. LocalFS_Write root p d w = (Inr (), w') \<and> fs_ready c tk w'"
proof -
  let ?k = "under_root c root p"
  have k: "table_file tk ?k" "LocalFS_resolve root p \<noteq> ''''"
    using assms(2) by (simp_all add: managed_path_def)
  have simple: "list_all simple_name ?k"
    using assms(1) resolve_simple unfolding under_root_def fs_ready_def by blast
  obtain w1 where w1: "os_MkdirAll (butlast ?k) w = Inr w1" "fs_ready c tk w1"
    "node_at w1 (butlast ?k) = Some Dir"
    using mkdir_table [OF assms(1) k(1) simple] by blast
  have c: "cwd w = c" "plan w = []" "cwd w1 = c" "layout_ok tk w1" "fs_ok w1" "plan w1 = []"
      "names_ok w1" "list_all simple_name c"
    using assms(1) w1(2) by (simp_all add: fs_ready_def fs_good_def)
  have "\<not> list_ex (is_file w1) (ancestors ?k)"
    unfolding list_ex_iff set_ancestors using table_file_no_file_above [OF c(4) k(1)] by blast
  then obtain w2 where w2: "os_WriteFile (LocalFS_resolve root p) d w1 = Inr w2"
    using k w1(3) layout_file [OF c(4) k(1)] by (auto simp: os_WriteFile_def Let_def c resolve_full)
  note at = os_WriteFile_node_at [OF w2, unfolded c resolve_full]
  have "fs_ok w2"
    using os_WriteFile_ok [OF c(5) w2] .
  moreover have "layout_ok tk w2"
  proof (rule layout_okI [OF \<open>fs_ok w2\<close>])
    show "node_at w2 q \<noteq> Some Dir" if "table_file tk q" for q
      using layout_file [OF c(4) that] by (simp add: at)
    show "\<not> is_file w2 q" if "table_dir tk q" for q
      using layout_dir [OF c(4) that] that table_file_not_dir [OF k(1)] by (auto simp: is_file_iff at)
  qed
  moreover have "names_ok w2"
    using c(7) simple by (simp add: names_ok_iff at)
  ultimately have "fs_ready c tk w2"
    using at c by (simp add: fs_ready_def fs_good_def)
  then show ?thesis
    using w1 w2 c by (simp add: LocalFS_Write_def next_io_no_faults resolve_full)
qed

lemma ready_next: "fs_ready c tk w \<Longrightarrow> next_io w = (IoOk, w)"
  by (simp add: fs_ready_def next_io_no_faults)

lemma ready_content:
  assumes "fs_ready c tk w" and "table_file tk k"
  shows "node_at w k = map_option File (file_content w k)"
  using layout_file [of tk w k] assms
  by (auto simp: fs_ready_def file_content_def split: option.splits node.splits)

lemma ready_Stat:
  assumes "fs_ready c tk w" and "managed_path c root tk p"
  shows "os_Stat (LocalFS_resolve root p) w =
     (case file_content w (under_root c root p) of None \<Rightarrow> Inl ErrNotExist | Some d \<Rightarrow> Inr (File d))"
proof -
  let ?k = "under_root c root p"
  have k: "table_file tk ?k" "LocalFS_resolve root p \<noteq> ''''" "cwd w = c" "layout_ok tk w"
    using assms by (simp_all add: managed_path_def fs_ready_def fs_good_def)
  have "\<not> list_ex (is_file w) (ancestors ?k)"
    unfolding list_ex_iff set_ancestors using table_file_no_file_above [OF k(4) k(1)] by blast
  with k ready_content [OF assms(1) k(1)] show ?thesis
    by (simp add: os_Stat_def resolve_full split: option.splits)
qed

lemma LocalFS_Delete_ready:
  assumes "fs_ready c tk w" and "managed_path c root tk p" and "file_content w (under_root c root p) \<noteq> None"
  shows "\<exists>w'. LocalFS_Delete root p w = (Inr (), w') \<and> fs_ready c tk w' \<and>
           file_content w' (under_root c root p) = None"
proof -
  let ?k = "under_root c root p"
  obtain d where d: "os_Stat (LocalFS_resolve root p) w = Inr (File d)"
    using ready_Stat [OF assms(1,2)] assms(3) by auto
  have c: "cwd w = c" "plan w = []" "layout_ok tk w" "fs_ok w" "names_ok w" "list_all simple_name c"
    using assms(1) by (simp_all add: fs_ready_def fs_good_def)
  have "?k \<noteq> []"
    using assms(2) table_file_nonempty [of tk ?k] by (simp add: managed_path_def)
  then obtain w' where w': "os_Remove (LocalFS_resolve root p) w = Inr w'"
    using d assms(2)
    by (simp add: os_Remove_def managed_path_def c resolve_full)
  note at = os_Remove_node_at [OF w', unfolded c resolve_full]
  have ok: "fs_ok w'"
    using os_Remove_ok [OF c(4) w'] .
  have "layout_ok tk w'"
    using layout_file [OF c(3)] layout_dir [OF c(3)]
    by (intro layout_okI [OF ok]) (auto simp: at is_file_iff)
  moreover have "names_ok w'"
    using c(5) by (simp add: names_ok_iff at)
  ultimately have "fs_ready c tk w'"
    using ok at c by (simp add: fs_ready_def fs_good_def)
  moreover have "file_content w' ?k = None"
    by (simp add: file_content_def at)
  ultimately show ?thesis
    using w' by (simp add: LocalFS_Delete_def ready_next [OF assms(1)])
qed

lemma LocalFS_reads_ready:
  assumes "fs_ready c tk w" and "managed_path c root tk p"
  shows "LocalFS_Exists root p w = (Inr (file_content w (under_root c root p) \<noteq> None), w)"
    and "file_content w (under_root c root p) = Some d \<Longrightarrow> LocalFS_Size root p w = (Inr (int (length d)), w)"
    and "file_content w (under_root c root p) = None \<Longrightarrow> LocalFS_Size root p w = (Inl (StoErr ErrNotExist), w)"
    and "file_content w (under_root c root p) = Some d \<Longrightarrow> 0 \<le> len \<Longrightarrow> len \<le> int (length d) \<Longrightarrow>
           LocalFS_Read root p 0 len w = (Inr (take (nat len) d), w)"
  using ready_Stat [OF assms]
  by (auto simp: LocalFS_Exists_def LocalFS_Size_def LocalFS_Read_def ready_next [OF assms(1)] Let_def
      split: option.splits)

text \<open>Listing the directory of the versions.\<close>

lemma versions_file:
  assumes "versions_path c root tk dir" and "simple_name n"
  shows "under_root c root (path_Join [dir, n]) = tk @ [''_versions'', n]"
    and "managed_path c root tk (path_Join [dir, n])"
proof -
  show k: "under_root c root (path_Join [dir, n]) = tk @ [''_versions'', n]"
    using assms under_root_Join_name [of n dir c root] by (simp add: versions_path_def)
  show "managed_path c root tk (path_Join [dir, n])"
    using Join_Join_not_dot [OF assms(2), of root dir] unfolding managed_path_def k
    by (simp add: LocalFS_resolve_def table_file_def)
qed

lemma concat_singletons: "concat (map (\<lambda>x. if P x then [f x] else []) xs) = map f (filter P xs)"
  by (induction xs) auto

lemma names_simple:
  assumes "fs_ready c tk w" and "table_file tk (k @ [n])" and "node_at w (k @ [n]) \<noteq> None"
  shows "file_content w (k @ [n]) \<noteq> None"
  using ready_content [OF assms(1,2)] assms(3) by auto

lemma LocalFS_List_ready:
  assumes "fs_ready c tk w" and "versions_path c root tk dir"
  shows "(\<exists>ns. LocalFS_Exists root dir w = (Inr True, w) \<and>
         LocalFS_List root dir w = (Inr (map (\<lambda>n. path_Join [dir, n]) ns), w) \<and> distinct ns \<and>
         set ns = {n. simple_name n \<and> file_content w (under_root c root (path_Join [dir, n])) \<noteq> None}) \<or>
      (LocalFS_Exists root dir w = (Inr False, w) \<and>
         (\<forall>n. simple_name n \<longrightarrow> file_content w (under_root c root (path_Join [dir, n])) = None))"
proof -
  let ?k = "tk @ [''_versions'']"
  have w: "fs_ok w" "cwd w = c" "layout_ok tk w" "names_ok w"
    using assms(1) by (simp_all add: fs_ready_def fs_good_def)
  have k: "under_root c root dir = ?k" "LocalFS_resolve root dir \<noteq> ''''"
    using assms(2) by (simp_all add: versions_path_def)
  have tfile: "table_file tk (?k @ [n])" for n
    by (simp add: table_file_def)
  have key: "under_root c root (path_Join [dir, n]) = ?k @ [n]" if "simple_name n" for n
    using versions_file [OF assms(2) that] by simp
  show ?thesis
  proof (cases "node_at w ?k")
    case None
    have "\<not> is_file w (take i ?k)" if "i < length ?k" for i
      using table_file_no_file_above [OF w(3) tfile [of "[]"], of i] that by simp
    then have "\<not> list_ex (is_file w) (ancestors ?k)"
      unfolding list_ex_iff set_ancestors by fastforce
    then have "os_Stat (LocalFS_resolve root dir) w = Inl ErrNotExist"
      using None k w by (simp add: os_Stat_def resolve_full)
    moreover have "node_at w (?k @ [n]) = None" for n
      using fs_ok_parent [OF w(1), of "?k @ [n]"] None
      by (cases "node_at w (?k @ [n])") (simp_all add: butlast_append)
    then have "simple_name n \<Longrightarrow> file_content w (under_root c root (path_Join [dir, n])) = None" for n
      using key by (simp add: file_content_def)
    ultimately show ?thesis
      by (simp add: LocalFS_Exists_def ready_next [OF assms(1)])
  next
    case (Some nd)
    then have dir: "nd = Dir"
      using layout_dir [OF w(3), of ?k] by (cases nd) (auto simp: is_file_iff table_dir_def)
    then have stat: "os_Stat (LocalFS_resolve root dir) w = Inr Dir"
      using Some k w by (intro os_Stat_node_at) (simp_all add: resolve_full)
    let ?ns = "sort (children w ?k)"
    have child: "n \<in> set ?ns \<longleftrightarrow> simple_name n \<and> file_content w (?k @ [n]) \<noteq> None" for n
    proof -
      have "n \<in> set ?ns \<longleftrightarrow> node_at w (?k @ [n]) \<noteq> None"
        using children_iff [OF w(1), of n ?k] by simp
      moreover have "simple_name n" if "node_at w (?k @ [n]) \<noteq> None"
        using that w(4) by (fastforce simp: names_ok_iff)
      ultimately show ?thesis
        using ready_content [OF assms(1) tfile, of n] by auto
    qed
    have "node_at w (?k @ [n]) \<noteq> Some Dir" for n
      using layout_file [OF w(3) tfile] .
    then have "the (map_of (nodes w) (?k @ [n])) \<noteq> Dir" if "n \<in> set ?ns" for n
      using that child [of n] ready_content [OF assms(1) tfile, of n] by (auto simp: node_at_def)
    then have "filter (\<lambda>n. the (map_of (nodes w) (?k @ [n])) \<noteq> Dir) ?ns = ?ns"
      by (simp add: filter_id_conv)
    then have "LocalFS_List root dir w = (Inr (map (\<lambda>n. path_Join [dir, n]) ?ns), w)"
      by (simp add: LocalFS_List_def ready_next [OF assms(1)] os_ReadDir_def stat w resolve_full k
          comp_def concat_singletons del: path_Join.simps)
    moreover have "LocalFS_Exists root dir w = (Inr True, w)"
      by (simp add: LocalFS_Exists_def ready_next [OF assms(1)] stat)
    moreover have "distinct ?ns"
      using distinct_children [OF w(1)] by simp
    moreover have "set ?ns = {n. simple_name n \<and> file_content w (under_root c root (path_Join [dir, n])) \<noteq> None}"
      using key by (intro set_eqI) (auto simp only: child mem_Collect_eq)
    ultimately show ?thesis by blast
  qed
qed

interpretation lfs: store_spec "LocalFS root" "under_root c root" file_content "fs_good c"
  "fs_ready c tk" "managed_path c root tk" "versions_path c root tk" for root c tk
proof unfold_locales
  fix w p d
  assume w: "fs_ready c tk w"
  then show "fs_good c w"
    by (simp add: fs_ready_def)
  show "\<exists>w'. Store_Write (LocalFS root) p d w = (Inr (), w') \<and> fs_ready c tk w'"
    if "managed_path c root tk p"
    using LocalFS_Write_ready [OF w that] by simp
  show "\<exists>w'. Store_Delete (LocalFS root) p w = (Inr (), w') \<and> fs_ready c tk w' \<and>
      file_content w' (under_root c root p) = None"
    if "managed_path c root tk p" "file_content w (under_root c root p) \<noteq> None"
    using LocalFS_Delete_ready [OF w that] by simp
  show "Store_Exists (LocalFS root) p w = (Inr (file_content w (under_root c root p) \<noteq> None), w)"
    if "managed_path c root tk p"
    using LocalFS_reads_ready(1) [OF w that] by simp
  show "Store_Size (LocalFS root) p w = (Inr (int (length d)), w)"
    if "managed_path c root tk p" "file_content w (under_root c root p) = Some d"
    using LocalFS_reads_ready(2) [OF w that] by simp
  show "\<exists>e. Store_Size (LocalFS root) p w = (Inl (StoErr e), w)"
    if "managed_path c root tk p" "file_content w (under_root c root p) = None"
    using LocalFS_reads_ready(3) [OF w that] by simp
  show "Store_Read (LocalFS root) p 0 len w = (Inr (take (nat len) d), w)"
    if "managed_path c root tk p" "file_content w (under_root c root p) = Some d" "0 \<le> len"
      "len \<le> int (length d)" for len
    using LocalFS_reads_ready(4) [OF w that] by simp
next
  fix w dir
  assume "fs_ready c tk w" "versions_path c root tk dir"
  from LocalFS_List_ready [OF this]
  show "(\<exists>ns. Store_Exists (LocalFS root) dir w = (Inr True, w) \<and>
         Store_List (LocalFS root) dir w = (Inr (map (\<lambda>n. path_Join [dir, n]) ns), w) \<and> distinct ns \<and>
         set ns = {n. simple_name n \<and> file_content w (under_root c root (path_Join [dir, n])) \<noteq> None}) \<or>
      (Store_Exists (LocalFS root) dir w = (Inr False, w) \<and>
         (\<forall>n. simple_name n \<longrightarrow> file_content w (under_root c root (path_Join [dir, n])) = None))"
    by simp
qed

end
