(* ===== verification/ManifestStore.thy ===== *)
theory ManifestStore
  imports ManifestRoundtrip LocalFS
begin

text \<open>
  \<^verbatim>\<open>src/table/manifest_store.go\<close>: the versioned manifest files of a table and the \<open>_latest\<close>
  pointer with its compare-and-swap commit. The mutex of \<open>Commit\<close> makes each commit of one process
  one step. The client lemmas are proved inside a locale over the contract of the store, for every
  backend that keeps it, and then instantiated with the local file system.
\<close>

section \<open>Operations\<close>

definition manifestExt :: string where
  "manifestExt = ''.manifest''"

record 'w ManifestStore =
  ms_store :: "'w Store"
  ms_basePath :: string

definition NewManifestStore :: "'w Store \<Rightarrow> string \<Rightarrow> 'w ManifestStore" where
  "NewManifestStore store basePath = \<lparr>ms_store = store, ms_basePath = basePath\<rparr>"

definition manifestPath :: "'w ManifestStore \<Rightarrow> int \<Rightarrow> string" where
  "manifestPath ms version = path_Join [ms_basePath ms, FormatInt version @ manifestExt]"

definition MS_Write :: "'w ManifestStore \<Rightarrow> Manifest \<Rightarrow> 'w \<Rightarrow> unit res \<times> 'w" where
  "MS_Write ms m w =
     (case Manifest_Serialize m of
        Inl e \<Rightarrow> (Inl e, w)
      | Inr data \<Rightarrow> Store_Write (ms_store ms) (manifestPath ms (man_Version m)) data w)"

definition MS_readAll :: "'w ManifestStore \<Rightarrow> string \<Rightarrow> 'w \<Rightarrow> byte list res \<times> 'w" where
  "MS_readAll ms path w =
     (case Store_Size (ms_store ms) path w of
        (Inl e, w1) \<Rightarrow> (Inl e, w1)
      | (Inr len, w1) \<Rightarrow> Store_Read (ms_store ms) path 0 len w1)"

definition MS_Read :: "'w ManifestStore \<Rightarrow> int \<Rightarrow> 'w \<Rightarrow> Manifest res \<times> 'w" where
  "MS_Read ms version w =
     (case MS_readAll ms (manifestPath ms version) w of
        (Inl e, w1) \<Rightarrow> (Inl e, w1)
      | (Inr data, w1) \<Rightarrow> (DeserializeManifest data, w1))"

text \<open>The version a file of the directory stands for, if its name is one of a manifest.\<close>

definition version_of_path :: "string \<Rightarrow> int option" where
  "version_of_path p =
     (let name = path_Base p in
      if \<not> HasSuffix name manifestExt then None
      else case ParseInt (TrimSuffix name manifestExt) of Inl e \<Rightarrow> None | Inr v \<Rightarrow> Some v)"

definition MS_ListVersions :: "'w ManifestStore \<Rightarrow> 'w \<Rightarrow> int list res \<times> 'w" where
  "MS_ListVersions ms w =
     (case Store_Exists (ms_store ms) (ms_basePath ms) w of
        (Inl e, w1) \<Rightarrow> (Inl e, w1)
      | (Inr False, w1) \<Rightarrow> (Inr [], w1)
      | (Inr True, w1) \<Rightarrow>
          (case Store_List (ms_store ms) (ms_basePath ms) w1 of
             (Inl e, w2) \<Rightarrow> (Inl e, w2)
           | (Inr paths, w2) \<Rightarrow> (Inr (sort (List.map_filter version_of_path paths)), w2)))"

definition MS_LatestVersion :: "'w ManifestStore \<Rightarrow> 'w \<Rightarrow> int res \<times> 'w" where
  "MS_LatestVersion ms w =
     (case MS_ListVersions ms w of
        (Inl e, w1) \<Rightarrow> (Inl e, w1)
      | (Inr vs, w1) \<Rightarrow> (if vs = [] then Inl (TblErr ErrNoManifests) else Inr (last vs), w1))"

definition MS_DeleteVersion :: "'w ManifestStore \<Rightarrow> int \<Rightarrow> 'w \<Rightarrow> unit res \<times> 'w" where
  "MS_DeleteVersion ms version w = Store_Delete (ms_store ms) (manifestPath ms version) w"

definition latestPath :: "'w ManifestStore \<Rightarrow> string" where
  "latestPath ms = path_Join [ms_basePath ms, ''_latest'']"

definition MS_ReadLatest :: "'w ManifestStore \<Rightarrow> 'w \<Rightarrow> int res \<times> 'w" where
  "MS_ReadLatest ms w =
     (case Store_Exists (ms_store ms) (latestPath ms) w of
        (Inl e, w1) \<Rightarrow> (Inl e, w1)
      | (Inr False, w1) \<Rightarrow> (Inr 0, w1)
      | (Inr True, w1) \<Rightarrow>
          (case MS_readAll ms (latestPath ms) w1 of
             (Inl e, w2) \<Rightarrow> (Inl e, w2)
           | (Inr data, w2) \<Rightarrow> (ParseInt (TrimSpace (string_of_bytes data)), w2)))"

definition MS_Commit :: "'w ManifestStore \<Rightarrow> Manifest \<Rightarrow> int \<Rightarrow> 'w \<Rightarrow> unit res \<times> 'w" where
  "MS_Commit ms m expectedPrev w =
     (case MS_ReadLatest ms w of
        (Inl e, w1) \<Rightarrow> (Inl e, w1)
      | (Inr current, w1) \<Rightarrow>
          if current \<noteq> expectedPrev then (Inl VersionConflict, w1)
          else case MS_Write ms m w1 of
            (Inl e, w2) \<Rightarrow> (Inl e, w2)
          | (Inr _, w2) \<Rightarrow>
              Store_Write (ms_store ms) (latestPath ms) (bytes_of_string (FormatInt (man_Version m))) w2)"

section \<open>Names\<close>

lemma FormatInt_simple: "c \<in> set (FormatInt n) \<Longrightarrow> c \<noteq> CHR ''/'' \<and> c \<noteq> CHR ''.''"
  using FormatInt_chars [of c n] is_digit_sign [of c] by auto

lemma manifest_name_simple [simp]: "simple_name (FormatInt n @ manifestExt)"
  using FormatInt_simple [of _ n]
  by (cases "FormatInt n") (auto simp: simple_name_def manifestExt_def)

lemma latest_name_simple [simp]: "simple_name ''_latest''"
  by (simp add: simple_name_def)

lemma manifest_name_not_latest [simp]: "FormatInt n @ manifestExt \<noteq> ''_latest''"
proof
  assume "FormatInt n @ manifestExt = ''_latest''"
  then have "length (FormatInt n @ manifestExt) = length ''_latest''"
    by (rule arg_cong)
  then show False
    by (simp add: manifestExt_def)
qed

lemma version_of_manifest: "fits64 v \<Longrightarrow> version_of_path (path_Join [p, FormatInt v @ manifestExt]) = Some v"
  by (simp add: version_of_path_def path_Base_Join)

text \<open>Listing.\<close>

lemma ParseInt_fits: "ParseInt s = Inr v \<Longrightarrow> fits64 v"
  by (auto simp: ParseInt_def Let_def split: prod.splits if_splits)

lemma version_of_path_fits: "version_of_path p = Some v \<Longrightarrow> fits64 v"
  by (auto simp: version_of_path_def Let_def dest: ParseInt_fits split: if_splits sum.splits)

lemma set_map_filter_option: "set (List.map_filter f xs) = {y. \<exists>x \<in> set xs. f x = Some y}"
  by (force simp: List.map_filter_def)

lemma distinct_map_filter_option:
  "distinct xs \<Longrightarrow> (\<And>x y z. x \<in> set xs \<Longrightarrow> y \<in> set xs \<Longrightarrow> f x = Some z \<Longrightarrow> f y = Some z \<Longrightarrow> x = y) \<Longrightarrow>
     distinct (List.map_filter f xs)"
proof (induction xs)
  case (Cons x xs)
  then have "distinct (List.map_filter f xs)" by simp
  moreover have "y \<notin> set (List.map_filter f xs)" if "f x = Some y" for y
    using that Cons.prems by (auto simp: set_map_filter_option)
  ultimately show ?case
    by (auto simp: List.map_filter_simps split: option.splits)
qed (simp add: List.map_filter_simps)

section \<open>The versions on any store that keeps its contract\<close>

locale manifest_client = store_spec st key content good ok managed dir_path
  for st :: "'w Store" and key :: "string \<Rightarrow> 'k" and content good ok managed dir_path +
  fixes base :: string
  assumes base_dir: "dir_path base"
    and base_managed: "simple_name n \<Longrightarrow> managed (path_Join [base, n])"
    and base_key: "simple_name n \<Longrightarrow> simple_name n' \<Longrightarrow>
      key (path_Join [base, n]) = key (path_Join [base, n']) \<longleftrightarrow> n = n'"
begin

abbreviation ms :: "'w ManifestStore" where
  "ms \<equiv> NewManifestStore st base"

abbreviation mkey :: "int \<Rightarrow> 'k" where
  "mkey v \<equiv> key (manifestPath ms v)"

definition canonical :: "'w \<Rightarrow> bool" where
  "canonical w \<longleftrightarrow>
     (\<forall>n v. simple_name n \<longrightarrow> content w (key (path_Join [base, n])) \<noteq> None \<longrightarrow>
        version_of_path (path_Join [base, n]) = Some v \<longrightarrow> n = FormatInt v @ manifestExt)"

definition versions :: "'w \<Rightarrow> int set" where
  "versions w = {v. fits64 v \<and> content w (mkey v) \<noteq> None}"

lemma managed_manifest [simp]: "managed (manifestPath ms v)"
  by (simp add: manifestPath_def NewManifestStore_def base_managed)

lemma managed_latest [simp]: "managed (latestPath ms)"
  by (simp add: latestPath_def NewManifestStore_def base_managed)

lemma mkey_inj [simp]: "mkey v = mkey v' \<longleftrightarrow> v = v'"
  by (simp add: manifestPath_def NewManifestStore_def base_key)

lemma mkey_not_latest [simp]: "mkey v \<noteq> key (latestPath ms)" "key (latestPath ms) \<noteq> mkey v"
proof -
  show "mkey v \<noteq> key (latestPath ms)"
    by (simp add: manifestPath_def latestPath_def NewManifestStore_def base_key)
  then show "key (latestPath ms) \<noteq> mkey v"
    by metis
qed

lemma MS_Write_ok:
  assumes "ok w"
  obtains w' data where "MS_Write ms m w = (Inr (), w')" "ok w'" "Manifest_Serialize m = Inr data"
    "content w' = (content w)(mkey (man_Version m) := Some data)"
proof -
  obtain data where d: "Manifest_Serialize m = Inr data"
    by (simp add: Manifest_Serialize_def)
  obtain w' where w': "Store_Write st (manifestPath ms (man_Version m)) data w = (Inr (), w')" "ok w'"
    "content w' = (content w)(mkey (man_Version m) := Some data)"
    by (rule write_content [OF assms managed_manifest])
  then have "MS_Write ms m w = (Inr (), w')"
    by (simp add: MS_Write_def d NewManifestStore_def)
  with d w' that show thesis by blast
qed

lemma readAll_ok:
  assumes "ok w" and "managed p" and "content w (key p) = Some data"
  shows "MS_readAll ms p w = (Inr data, w)"
  using assms size_ok [OF assms] read_ok [OF assms, of "int (length data)"]
  by (simp add: MS_readAll_def NewManifestStore_def)

lemma MS_Read_content:
  assumes "ok w" and "content w (mkey v) = Some data"
  shows "MS_Read ms v w = (DeserializeManifest data, w)"
  by (simp add: MS_Read_def readAll_ok [OF assms(1) managed_manifest assms(2)])

lemma MS_Read_missing:
  assumes "ok w" and "content w (mkey v) = None"
  shows "\<exists>e. MS_Read ms v w = (Inl e, w)"
  using size_missing [OF assms(1) managed_manifest assms(2)]
  by (auto simp: MS_Read_def MS_readAll_def) (auto simp: NewManifestStore_def)

lemma MS_Read_Write:
  assumes "ok w" and "Manifest_ok m"
  obtains w' where "MS_Write ms m w = (Inr (), w')" "ok w'"
    "MS_Read ms (man_Version m) w' = (Inr m, w')"
proof -
  obtain w' data where w': "MS_Write ms m w = (Inr (), w')" "ok w'" "Manifest_Serialize m = Inr data"
    "content w' = (content w)(mkey (man_Version m) := Some data)"
    by (rule MS_Write_ok [OF assms(1)])
  then have "MS_Read ms (man_Version m) w' = (Inr m, w')"
    using MS_Read_content [OF w'(2), of "man_Version m" data] DeserializeManifest_Serialize [OF assms(2) w'(3)]
    by simp
  with w' that show thesis by blast
qed

lemma MS_Read_other:
  assumes "ok w" and "v \<noteq> man_Version m" and "content w (mkey v) \<noteq> None" and "MS_Write ms m w = (r, w')"
  shows "fst (MS_Read ms v w') = fst (MS_Read ms v w)"
proof -
  obtain w'' data where w'': "MS_Write ms m w = (Inr (), w'')" "ok w''"
    "content w'' = (content w)(mkey (man_Version m) := Some data)"
    by (rule MS_Write_ok [OF assms(1)])
  obtain d where "content w (mkey v) = Some d"
    using assms(3) by blast
  with w'' assms show ?thesis
    using MS_Read_content [OF assms(1), of v d] MS_Read_content [OF w''(2), of v d] by simp
qed

lemma ListVersions_ok:
  assumes "ok w" and "canonical w"
  shows "MS_ListVersions ms w = (Inr (sorted_list_of_set (versions w)), w) \<and> finite (versions w)"
  using list_ok [OF assms(1) base_dir]
proof (elim disjE exE conjE)
  fix ns
  assume ex: "Store_Exists st base w = (Inr True, w)"
    and ls: "Store_List st base w = (Inr (map (\<lambda>n. path_Join [base, n]) ns), w)" and d: "distinct ns"
    and ns: "set ns = {n. simple_name n \<and> content w (key (path_Join [base, n])) \<noteq> None}"
  let ?f = "\<lambda>n. version_of_path (path_Join [base, n])" and ?vs = "List.map_filter version_of_path (map (\<lambda>n. path_Join [base, n]) ns)"
  have vs: "?vs = List.map_filter ?f ns"
    by (simp add: List.map_filter_def comp_def filter_map)
  have name: "n = FormatInt v @ manifestExt" if "n \<in> set ns" "?f n = Some v" for n v
    using that assms(2) ns unfolding canonical_def by blast
  have "set ?vs = versions w"
  proof (intro set_eqI iffI)
    fix v assume "v \<in> set ?vs"
    then obtain n where n: "n \<in> set ns" "?f n = Some v"
      by (auto simp: vs set_map_filter_option)
    have "content w (key (path_Join [base, FormatInt v @ manifestExt])) \<noteq> None"
      using n(1) ns unfolding name [OF n] by blast
    then show "v \<in> versions w"
      using version_of_path_fits [OF n(2)] by (simp add: versions_def manifestPath_def NewManifestStore_def)
  next
    fix v assume v: "v \<in> versions w"
    then have "FormatInt v @ manifestExt \<in> set ns"
      unfolding ns by (simp add: versions_def manifestPath_def NewManifestStore_def)
    moreover have "?f (FormatInt v @ manifestExt) = Some v"
      using v by (simp add: versions_def version_of_manifest)
    ultimately show "v \<in> set ?vs"
      unfolding vs set_map_filter_option by blast
  qed
  moreover have "distinct ?vs"
    unfolding vs using d by (rule distinct_map_filter_option) (metis name)
  ultimately have "sort ?vs = sorted_list_of_set (versions w)" "finite (versions w)"
    by (metis distinct_remdups_id sorted_list_of_set_sort_remdups, metis List.finite_set)
  then show ?thesis
    using ex ls by (simp add: MS_ListVersions_def NewManifestStore_def)
next
  assume ex: "Store_Exists st base w = (Inr False, w)"
    and none: "\<forall>n. simple_name n \<longrightarrow> content w (key (path_Join [base, n])) = None"
  then have "versions w = {}"
    by (simp add: versions_def manifestPath_def NewManifestStore_def)
  then show ?thesis
    using ex by (simp add: MS_ListVersions_def NewManifestStore_def)
qed

lemma LatestVersion_ok:
  assumes "ok w" and "canonical w"
  shows "MS_LatestVersion ms w =
     (if versions w = {} then Inl (TblErr ErrNoManifests) else Inr (Max (versions w)), w)"
proof -
  have "finite (versions w)"
    using ListVersions_ok [OF assms] by simp
  moreover have "versions w \<noteq> {} \<Longrightarrow> last (sorted_list_of_set (versions w)) = Max (versions w)"
    using calculation by (rule last_sorted_list_of_set)
  ultimately show ?thesis
    using ListVersions_ok [OF assms] by (simp add: MS_LatestVersion_def)
qed

text \<open>Writing a manifest adds its version.\<close>

lemma versions_write:
  assumes "ok w" and "MS_Write ms m w = (r, w')" and "fits64 (man_Version m)"
  shows "versions w' = insert (man_Version m) (versions w)"
proof -
  obtain w'' data where w'': "MS_Write ms m w = (Inr (), w'')"
    "content w'' = (content w)(mkey (man_Version m) := Some data)"
    by (rule MS_Write_ok [OF assms(1)])
  with assms show ?thesis
    by (auto simp: versions_def)
qed

lemma canonical_write:
  assumes "ok w" and "canonical w" and "MS_Write ms m w = (r, w')" and "fits64 (man_Version m)"
  shows "canonical w'"
proof -
  obtain w'' data where w'': "MS_Write ms m w = (Inr (), w'')"
    "content w'' = (content w)(mkey (man_Version m) := Some data)"
    by (rule MS_Write_ok [OF assms(1)])
  have "n = FormatInt v @ manifestExt"
    if "simple_name n" "content w'' (key (path_Join [base, n])) \<noteq> None"
      "version_of_path (path_Join [base, n]) = Some v" for n v
  proof (cases "n = FormatInt (man_Version m) @ manifestExt")
    case True
    with that(3) assms(4) show ?thesis
      by (simp add: version_of_manifest)
  next
    case False
    then have "key (path_Join [base, n]) \<noteq> mkey (man_Version m)"
      using that(1) by (simp add: manifestPath_def NewManifestStore_def base_key)
    with that w''(2) assms(2) show ?thesis
      unfolding canonical_def by simp
  qed
  with w''(1) assms(3) show ?thesis
    unfolding canonical_def by simp
qed

end

end
