(* ===== verification/ManifestCommit.thy ===== *)
theory ManifestCommit
  imports ManifestStore Runs
begin

text \<open>
  What \<open>Commit\<close> of \<^verbatim>\<open>src/table/manifest_store.go\<close> promises: without faults it is an atomic
  compare-and-swap on the \<open>_latest\<close> pointer, and with any faults the pointer moves only after the
  manifest it points to is complete.
\<close>

section \<open>The abstract register\<close>

text \<open>The latest version and the manifests by version.\<close>

type_synonym register = "int \<times> (int \<Rightarrow> Manifest option)"

definition register_commit :: "Manifest \<times> int \<Rightarrow> register \<Rightarrow> unit res \<times> register" where
  "register_commit c r =
     (if fst r \<noteq> snd c then (Inl VersionConflict, r)
      else (Inr (), (man_Version (fst c), (snd r)(man_Version (fst c) \<mapsto> fst c))))"

text \<open>The successful commits of a run form a chain.\<close>

fun winners :: "(Manifest \<times> int) list \<Rightarrow> unit res list \<Rightarrow> (Manifest \<times> int) list" where
  "winners (c # cs) (Inr u # rs) = c # winners cs rs"
| "winners (c # cs) (Inl e # rs) = winners cs rs"
| "winners _ _ = []"

fun chain :: "int \<Rightarrow> (Manifest \<times> int) list \<Rightarrow> bool" where
  "chain cur [] = True"
| "chain cur ((m, prev) # cs) = (prev = cur \<and> chain (man_Version m) cs)"

lemma register_chain:
  "chain (fst r) (winners cs (fst (run_ops register_commit cs r)))"
proof (induction cs arbitrary: r)
  case (Cons c cs)
  obtain m prev where c: "c = (m, prev)"
    by (cases c)
  show ?case
    using Cons.IH [of "snd (register_commit c r)"]
    by (cases "fst r = prev") (simp_all add: c Let_def register_commit_def)
qed simp

definition commit_step :: "'w ManifestStore \<Rightarrow> Manifest \<times> int \<Rightarrow> 'w \<Rightarrow> unit res \<times> 'w" where
  "commit_step ms c w = MS_Commit ms (fst c) (snd c) w"

section \<open>Commits on any store\<close>

context manifest_client
begin

definition pointer :: "'w \<Rightarrow> int res" where
  "pointer w = (case content w (key (latestPath ms)) of
     None \<Rightarrow> Inr 0 | Some d \<Rightarrow> ParseInt (TrimSpace (string_of_bytes d)))"

definition stored :: "'w \<Rightarrow> int \<Rightarrow> Manifest option" where
  "stored w v = (case content w (mkey v) of
     None \<Rightarrow> None | Some d \<Rightarrow> (case DeserializeManifest d of Inl e \<Rightarrow> None | Inr m \<Rightarrow> Some m))"

definition registered :: "'w \<Rightarrow> register" where
  "registered w = ((case pointer w of Inl e \<Rightarrow> 0 | Inr v \<Rightarrow> v), stored w)"

definition commit_inv :: "'w \<Rightarrow> bool" where
  "commit_inv w \<longleftrightarrow> ok w \<and> (\<exists>v. pointer w = Inr v)"

lemma ReadLatest_ok:
  assumes "ok w"
  shows "MS_ReadLatest ms w = (pointer w, w)"
  using readAll_ok [OF assms managed_latest] exists_ok [OF assms managed_latest]
  by (cases "content w (key (latestPath ms))") (simp_all add: MS_ReadLatest_def pointer_def NewManifestStore_def)

lemma Commit_conflict:
  assumes "ok w" and "pointer w = Inr cur" and "cur \<noteq> prev"
  shows "MS_Commit ms m prev w = (Inl VersionConflict, w)"
  using assms by (simp add: MS_Commit_def ReadLatest_ok)

lemma Commit_swap:
  assumes "ok w" and "pointer w = Inr prev"
  obtains w' data where "MS_Commit ms m prev w = (Inr (), w')" "ok w'" "Manifest_Serialize m = Inr data"
    "content w' = (content w)(mkey (man_Version m) := Some data,
       key (latestPath ms) := Some (bytes_of_string (FormatInt (man_Version m))))"
proof -
  obtain w1 data where w1: "MS_Write ms m w = (Inr (), w1)" "ok w1" "Manifest_Serialize m = Inr data"
    "content w1 = (content w)(mkey (man_Version m) := Some data)"
    by (rule MS_Write_ok [OF assms(1)])
  obtain w2 where w2: "Store_Write st (latestPath ms) (bytes_of_string (FormatInt (man_Version m))) w1 = (Inr (), w2)"
    "ok w2" "content w2 = (content w1)(key (latestPath ms) := Some (bytes_of_string (FormatInt (man_Version m))))"
    by (rule write_content [OF w1(2) managed_latest])
  have "MS_Commit ms m prev w = (Inr (), w2)"
    using assms w1 w2 by (simp add: MS_Commit_def ReadLatest_ok) (simp add: NewManifestStore_def)
  with w1 w2 that show thesis by simp
qed

lemma Commit_registered:
  assumes "commit_inv w" and "Manifest_ok m"
  shows "commit_inv (snd (MS_Commit ms m prev w)) \<and>
     fst (MS_Commit ms m prev w) = fst (register_commit (m, prev) (registered w)) \<and>
     registered (snd (MS_Commit ms m prev w)) = snd (register_commit (m, prev) (registered w))"
proof -
  obtain cur where cur: "ok w" "pointer w = Inr cur"
    using assms(1) by (auto simp: commit_inv_def)
  show ?thesis
  proof (cases "cur = prev")
    case False
    with cur assms(1) show ?thesis
      by (simp add: Commit_conflict register_commit_def registered_def)
  next
    case True
    obtain w' data where w': "MS_Commit ms m prev w = (Inr (), w')" "ok w'" "Manifest_Serialize m = Inr data"
      "content w' = (content w)(mkey (man_Version m) := Some data,
         key (latestPath ms) := Some (bytes_of_string (FormatInt (man_Version m))))"
      by (rule Commit_swap [of w prev m]) (use cur True in auto)
    have "fits64 (man_Version m)"
      using assms(2) by (simp add: Manifest_ok_def)
    then have "pointer w' = Inr (man_Version m)"
      by (simp add: pointer_def w'(4))
    moreover have "stored w' = (stored w)(man_Version m \<mapsto> m)"
      using DeserializeManifest_Serialize [OF assms(2) w'(3)]
      by (simp add: fun_eq_iff stored_def w'(4))
    ultimately show ?thesis
      using True cur w'(1,2) by (simp add: register_commit_def registered_def commit_inv_def)
  qed
qed

section \<open>Commits under faults\<close>

lemma readAll_frame:
  assumes "good w" and "MS_readAll ms p w = (r, w')"
  shows "good w' \<and> content w' = content w"
proof -
  obtain rs w1 where w1: "Store_Size st p w = (rs, w1)"
    by fastforce
  with size_frame [OF assms(1) w1] assms(2) read_frame show ?thesis
    by (cases rs) (fastforce simp: MS_readAll_def NewManifestStore_def)+
qed

lemma ReadLatest_frame:
  assumes "good w" and "MS_ReadLatest ms w = (r, w')"
  shows "good w' \<and> content w' = content w"
proof -
  obtain re w1 where w1: "Store_Exists st (latestPath ms) w = (re, w1)"
    by fastforce
  note f1 = exists_frame [OF assms(1) w1]
  show ?thesis
  proof (cases "re = Inr True")
    case True
    obtain rd w2 where w2: "MS_readAll ms (latestPath ms) w1 = (rd, w2)"
      by fastforce
    then have "w2 = w'"
      using assms(2) w1 True by (cases rd) (auto simp: MS_ReadLatest_def NewManifestStore_def)
    with f1 readAll_frame [OF _ w2] show ?thesis by simp
  next
    case False
    then have "w' = w1"
      using assms(2) w1
      by (auto simp: MS_ReadLatest_def NewManifestStore_def split: sum.splits bool.splits)
    with f1 show ?thesis by simp
  qed
qed

lemma Commit_faults:
  assumes "good w" and "MS_Commit ms m prev w = (r, w')"
  shows "good w' \<and>
     (\<forall>k. k \<noteq> mkey (man_Version m) \<longrightarrow> k \<noteq> key (latestPath ms) \<longrightarrow> content w' k = content w k) \<and>
     (content w' (key (latestPath ms)) \<noteq> content w (key (latestPath ms)) \<longrightarrow>
        (\<exists>data. Manifest_Serialize m = Inr data \<and> content w' (mkey (man_Version m)) = Some data)) \<and>
     (r = Inr () \<longrightarrow>
        (\<exists>data. Manifest_Serialize m = Inr data \<and> content w' (mkey (man_Version m)) = Some data) \<and>
        content w' (key (latestPath ms)) = Some (bytes_of_string (FormatInt (man_Version m))))"
proof -
  obtain data where d: "Manifest_Serialize m = Inr data"
    by (simp add: Manifest_Serialize_def)
  obtain cur w1 where w1: "MS_ReadLatest ms w = (cur, w1)"
    by fastforce
  note f1 = ReadLatest_frame [OF assms(1) w1]
  obtain r2 w2 where w2: "Store_Write st (manifestPath ms (man_Version m)) data w1 = (r2, w2)"
    by fastforce
  note f2 = write_frame [OF _ w2]
  show ?thesis
  proof (cases "cur = Inr prev \<and> r2 = Inr ()")
    case False
    then have "w' = w1 \<and> r \<noteq> Inr () \<or> w' = w2 \<and> r \<noteq> Inr ()"
      using assms(2) w1 w2 d
      by (auto simp: MS_Commit_def MS_Write_def NewManifestStore_def split: sum.splits if_splits)
    with f1 f2 show ?thesis by auto
  next
    case True
    then have w3: "Store_Write st (latestPath ms) (bytes_of_string (FormatInt (man_Version m))) w2 = (r, w')"
      using assms(2) w1 w2 d by (simp add: MS_Commit_def MS_Write_def NewManifestStore_def)
    have "good w1" "good w2" "content w2 (mkey (man_Version m)) = Some data"
      using f1 f2 w2 True write_done by auto
    then show ?thesis
      using write_frame [OF _ w3] write_done f1 f2 d w3 by auto
  qed
qed

end

sublocale manifest_client \<subseteq> commits: refinement "commit_step ms" register_commit
  "\<lambda>c. Manifest_ok (fst c)" commit_inv registered
proof unfold_locales
  fix x :: "Manifest \<times> int" and s
  assume "Manifest_ok (fst x)" and "commit_inv s"
  from Commit_registered [OF this(2,1), of "snd x"]
  show "commit_inv (snd (commit_step ms x s))"
    and "fst (commit_step ms x s) = fst (register_commit x (registered s))"
    and "registered (snd (commit_step ms x s)) = snd (register_commit x (registered s))"
    by (simp_all add: commit_step_def)
qed

end
