(* ===== verification/LocalTable.thy ===== *)
theory LocalTable
  imports ManifestCommit
begin

text \<open>
  The manifest store of a table at \<open>tp\<close> on the local file system: the contract of the manifest
  client is discharged for every root and table path, and the properties of
  \<^verbatim>\<open>src/table/manifest_store.go\<close> are stated over files.
\<close>

definition table_key :: "string list \<Rightarrow> string \<Rightarrow> string \<Rightarrow> string list" where
  "table_key c root tp = under_root c root tp"

definition versions_dir :: "string \<Rightarrow> string" where
  "versions_dir tp = path_Join [tp, ''_versions'']"

definition local_ms :: "string \<Rightarrow> string \<Rightarrow> world ManifestStore" where
  "local_ms root tp = NewManifestStore (LocalFS root) (versions_dir tp)"

locale local_table =
  fixes c :: "string list" and root tp :: string
  assumes safe: "join_safe tp"
begin

lemma versions_dir_path: "versions_path c root (table_key c root tp) (versions_dir tp)"
proof -
  have n: "simple_name ''_versions''"
    by (simp add: simple_name_def)
  show ?thesis
    using Join_Join_not_dot [OF n, of root tp] under_root_Join_name [OF n safe, of c root]
    by (simp add: versions_path_def versions_dir_def table_key_def LocalFS_resolve_def)
qed

end

sublocale local_table \<subseteq> manifest_client "LocalFS root" "under_root c root" file_content "fs_good c"
  "fs_ready c (table_key c root tp)" "managed_path c root (table_key c root tp)"
  "versions_path c root (table_key c root tp)" "versions_dir tp"
proof unfold_locales
  show "versions_path c root (table_key c root tp) (versions_dir tp)"
    by (rule versions_dir_path)
  show "managed_path c root (table_key c root tp) (path_Join [versions_dir tp, n])" if "simple_name n" for n
    using versions_file(2) [OF versions_dir_path that] .
  show "under_root c root (path_Join [versions_dir tp, n]) = under_root c root (path_Join [versions_dir tp, n'])
      \<longleftrightarrow> n = n'" if "simple_name n" "simple_name n'" for n n'
    using versions_file(1) [OF versions_dir_path] that by simp
qed

text \<open>Every path the program joins is safe.\<close>

interpretation joined: local_table c root "path_Join xs" for c root xs
  by unfold_locales simp

lemma local_tableI: "join_safe tp \<Longrightarrow> local_table tp"
  by unfold_locales

section \<open>Manifests as files\<close>

context local_table
begin

lemma versions_key:
  "simple_name n \<Longrightarrow> under_root c root (path_Join [versions_dir tp, n]) = table_key c root tp @ [''_versions'', n]"
  using versions_file(1) [OF versions_dir_path] .

lemma mkey_key: "mkey v = table_key c root tp @ [''_versions'', FormatInt v @ manifestExt]"
  by (simp add: manifestPath_def NewManifestStore_def versions_key)

lemma latest_key: "under_root c root (latestPath ms) = table_key c root tp @ [''_versions'', ''_latest'']"
  by (simp add: latestPath_def NewManifestStore_def versions_key)

lemma fresh_registered:
  assumes "fs_ready c (table_key c root tp) w"
    and "\<forall>n. file_content w (table_key c root tp @ [''_versions'', n]) = None"
  shows "commit_inv w \<and> registered w = (0, Map.empty)"
proof -
  have "pointer w = Inr 0"
    using assms(2) by (simp add: pointer_def latest_key)
  moreover have "stored w = Map.empty"
    using assms(2) by (simp add: fun_eq_iff stored_def mkey_key)
  ultimately show ?thesis
    using assms(1) by (simp add: commit_inv_def registered_def)
qed

lemma stored_Read: "commit_inv w \<Longrightarrow> stored w v = Some m \<Longrightarrow> fst (MS_Read ms v w) = Inr m"
  using MS_Read_content [of w v]
  by (auto simp: commit_inv_def stored_def split: option.splits sum.splits)

lemma run_commits:
  assumes "commit_inv w" and "list_all (\<lambda>x. Manifest_ok (fst x)) cs"
    and "run_ops (commit_step ms) cs w = (rs, w')"
    and "run_ops register_commit cs (registered w) = (rs', cur, M)"
  shows "rs = rs' \<and> chain (fst (registered w)) (winners cs rs) \<and> fst (MS_ReadLatest ms w') = Inr cur \<and>
    (\<forall>v m. M v = Some m \<longrightarrow> fst (MS_Read ms v w') = Inr m)"
proof -
  have r: "commit_inv w'" "rs = rs'" "registered w' = (cur, M)"
    using commits.run_refines [OF assms(1,2)] assms(3,4) by simp_all
  then have "pointer w' = Inr cur" "stored w' = M"
    by (auto simp: registered_def commit_inv_def)
  moreover have "chain (fst (registered w)) (winners cs rs)"
    using register_chain [of "registered w" cs] r(2) assms(4) by simp
  ultimately show ?thesis
    using r stored_Read [OF r(1)] ReadLatest_ok by (auto simp: commit_inv_def)
qed

lemma commit_on_faults:
  assumes "fs_good c w" and "MS_Commit ms m prev w = (r, w')"
  shows "(\<forall>k. k \<noteq> table_key c root tp @ [''_versions'', FormatInt (man_Version m) @ manifestExt] \<longrightarrow>
      k \<noteq> table_key c root tp @ [''_versions'', ''_latest''] \<longrightarrow> file_content w' k = file_content w k) \<and>
    (file_content w' (table_key c root tp @ [''_versions'', ''_latest'']) \<noteq>
       file_content w (table_key c root tp @ [''_versions'', ''_latest'']) \<longrightarrow>
       (\<exists>data. Manifest_Serialize m = Inr data \<and>
          file_content w' (table_key c root tp @ [''_versions'', FormatInt (man_Version m) @ manifestExt]) = Some data)) \<and>
    (r = Inr () \<longrightarrow>
       (\<exists>data. Manifest_Serialize m = Inr data \<and>
          file_content w' (table_key c root tp @ [''_versions'', FormatInt (man_Version m) @ manifestExt]) = Some data) \<and>
       file_content w' (table_key c root tp @ [''_versions'', ''_latest'']) =
         Some (bytes_of_string (FormatInt (man_Version m))))"
  using Commit_faults [OF assms] unfolding mkey_key latest_key by blast

lemma write_read:
  assumes "fs_ready c (table_key c root tp) w" and "Manifest_ok m" and "MS_Write ms m w = (r, w')"
  shows "r = Inr () \<and> fst (MS_Read ms (man_Version m) w') = Inr m \<and>
    (\<forall>v old. v \<noteq> man_Version m \<and> fst (MS_Read ms v w) = Inr old \<longrightarrow> fst (MS_Read ms v w') = Inr old)"
proof -
  obtain w'' where w'': "MS_Write ms m w = (Inr (), w'')" "MS_Read ms (man_Version m) w'' = (Inr m, w'')"
    by (rule MS_Read_Write [OF assms(1,2)])
  moreover have "file_content w (mkey v) \<noteq> None" if "fst (MS_Read ms v w) = Inr old" for v old
    using that MS_Read_missing [OF assms(1)] by fastforce
  ultimately show ?thesis
    using assms(3) MS_Read_other [OF assms(1) _ _ assms(3)] by auto
qed

end

section \<open>Properties\<close>

text \<open>
  C1: without faults \<open>Commit\<close> is an atomic compare-and-swap: any sequence of commits on a fresh
  table, from however many writers, has the outcomes of the abstract register; the winners form a
  chain in which each names its predecessor as the version it expects; and afterwards \<open>_latest\<close> and
  every manifest read back from the disk are the register's.
\<close>

theorem commits_refine_register:
  assumes "join_safe tp" and "fs_ready c (table_key c root tp) w"
    and "\<forall>n. file_content w (table_key c root tp @ [''_versions'', n]) = None"
    and "list_all (\<lambda>x. Manifest_ok (fst x)) cs"
    and "run_ops (commit_step (local_ms root tp)) cs w = (rs, w')"
    and "run_ops register_commit cs (0, Map.empty) = (rs', cur, M)"
  shows "rs = rs' \<and> chain 0 (winners cs rs) \<and> fst (MS_ReadLatest (local_ms root tp) w') = Inr cur \<and>
         (\<forall>v m. M v = Some m \<longrightarrow> fst (MS_Read (local_ms root tp) v w') = Inr m)"
  using local_table.run_commits [OF local_tableI [OF assms(1)], where c = c and root = root and w = w and cs = cs
      and rs = rs and w' = w' and rs' = rs' and cur = cur and M = M]
    local_table.fresh_registered [OF local_tableI [OF assms(1)] assms(2,3)] assms(4-6)
  by (auto simp: local_ms_def)

definition empty_world :: world where
  "empty_world = \<lparr>nodes = [], cwd = [], dir_size = 4096, plan = []\<rparr>"

lemma empty_world_ready: "fs_ready [] tk empty_world"
  by (simp add: fs_ready_def fs_good_def fs_ok_def empty_world_def layout_ok_def names_ok_def)

lemma empty_world_content: "k \<noteq> [] \<Longrightarrow> file_content empty_world k = None"
  by (simp add: file_content_def node_at_def empty_world_def)

lemma join_safe_t: "join_safe ''t''"
  by (simp add: join_safe_def rooted_def)

lemma Manifest_ok_first: "Manifest_ok (NewManifest 1 (NewSchema []))"
  by (simp add: Manifest_ok_def NewManifest_def NewSchema_def fits64_def fits32_def map_ok_def)

theorem commits_refine_register_witness:
  "let m = NewManifest 1 (NewSchema []) in
   fst (run_ops (commit_step (local_ms ''/db'' ''t'')) [(m, 0), (m, 0)] empty_world) = [Inr (), Inl VersionConflict]"
proof -
  let ?m = "NewManifest 1 (NewSchema [])"
  have "1 = man_Version ?m"
    by (simp add: NewManifest_def)
  then have spec: "run_ops register_commit [(?m, 0), (?m, 0)] (0, Map.empty) =
      ([Inr (), Inl VersionConflict], 1, [1 \<mapsto> ?m])"
    by (simp add: register_commit_def Let_def)
  show ?thesis
    using commits_refine_register [OF join_safe_t empty_world_ready, of "''/db''" "[(?m, 0), (?m, 0)]"
        "fst (run_ops (commit_step (local_ms ''/db'' ''t'')) [(?m, 0), (?m, 0)] empty_world)"
        "snd (run_ops (commit_step (local_ms ''/db'' ''t'')) [(?m, 0), (?m, 0)] empty_world)"
        "[Inr (), Inl VersionConflict]" 1 "[1 \<mapsto> ?m]"]
    by (simp add: spec Manifest_ok_first empty_world_content Let_def del: run_ops.simps)
qed

text \<open>
  C26: whatever faults strike a commit (cancelled contexts, failing calls, writes cut short), it
  leaves every file but the new manifest and the pointer alone, and the pointer changes only after
  the manifest it will name is complete on the disk; a commit that reports success has written both.
\<close>

theorem Commit_crash_safe:
  assumes "join_safe tp" and "fs_good c w" and "MS_Commit (local_ms root tp) m prev w = (r, w')"
    and "manifest_key = table_key c root tp @ [''_versions'', FormatInt (man_Version m) @ manifestExt]"
    and "pointer_key = table_key c root tp @ [''_versions'', ''_latest'']"
  shows "(\<forall>k. k \<noteq> manifest_key \<longrightarrow> k \<noteq> pointer_key \<longrightarrow> file_content w' k = file_content w k) \<and>
    (file_content w' pointer_key \<noteq> file_content w pointer_key \<longrightarrow>
       (\<exists>data. Manifest_Serialize m = Inr data \<and> file_content w' manifest_key = Some data)) \<and>
    (r = Inr () \<longrightarrow>
       (\<exists>data. Manifest_Serialize m = Inr data \<and> file_content w' manifest_key = Some data) \<and>
       file_content w' pointer_key = Some (bytes_of_string (FormatInt (man_Version m))))"
  using local_table.commit_on_faults [OF local_tableI [OF assms(1)] assms(2)
      assms(3) [unfolded local_ms_def]] unfolding assms(4,5) by blast

theorem Commit_crash_safe_witness:
  "file_content (snd (MS_Commit (local_ms ''/db'' ''t'') (NewManifest 1 (NewSchema [])) 0
       (empty_world\<lparr>plan := [IoOk, IoTorn 3]\<rparr>))) [''db'', ''notes''] = None"
proof -
  let ?w = "empty_world\<lparr>plan := [IoOk, IoTorn 3]\<rparr>"
  have good: "fs_good [] ?w"
    by (simp add: fs_good_def fs_ok_def empty_world_def)
  have "file_content ?w [''db'', ''notes''] = None"
    by (simp add: file_content_def node_at_def empty_world_def)
  then show ?thesis
    using Commit_crash_safe [OF join_safe_t good prod.collapse [symmetric] refl refl, of "''/db''"]
    by (auto simp: table_key_def under_root_def path_Join.simps path_Clean_def clean_comps_def
        rooted_def clean_step_def resolve_path_def abs_step_def)
qed

text \<open>
  C28: a manifest written by \<open>Write\<close> is read back by \<open>Read\<close>, whatever its schema, fragments and tags
  are, and the manifests of other versions are read as before.
\<close>

theorem manifest_write_read:
  assumes "join_safe tp" and "fs_ready c (table_key c root tp) w" and "Manifest_ok m"
    and "MS_Write (local_ms root tp) m w = (r, w')"
  shows "r = Inr () \<and> fst (MS_Read (local_ms root tp) (man_Version m) w') = Inr m \<and>
    (\<forall>v old. v \<noteq> man_Version m \<and> fst (MS_Read (local_ms root tp) v w) = Inr old \<longrightarrow>
       fst (MS_Read (local_ms root tp) v w') = Inr old)"
  using local_table.write_read [OF local_tableI [OF assms(1)] assms(2,3) assms(4) [unfolded local_ms_def]]
  by (simp add: local_ms_def)

theorem manifest_write_read_witness:
  "fst (MS_Read (local_ms ''/db'' ''t'') 1
     (snd (MS_Write (local_ms ''/db'' ''t'') (NewManifest 1 (NewSchema [])) empty_world))) =
   Inr (NewManifest 1 (NewSchema []))"
  using manifest_write_read [OF join_safe_t empty_world_ready Manifest_ok_first prod.collapse [symmetric], of "''/db''"]
  by (simp add: NewManifest_def)

end
