(* ===== verification/VersionManager.thy ===== *)
theory VersionManager
  imports TableData Runs
begin

text \<open>
  \<^verbatim>\<open>src/table/version_manager.go\<close>: the in-memory cache of recent manifests. The map is an
  association list with distinct keys; \<open>sort.Slice\<close> on its distinct integer keys is the sorted list.
  Every method holds the mutex, so it is one step.

  The abstract cache is a finite map from versions to manifests that keeps its \<open>maxVersions\<close> highest
  versions; the methods refine it.
\<close>

section \<open>Operations\<close>

record VersionManager =
  vm_manifests :: "(int, Manifest) gomap"
  vm_latestVersion :: int
  vm_maxVersions :: int

definition NewVersionManager :: "int \<Rightarrow> VersionManager" where
  "NewVersionManager mx = \<lparr>vm_manifests = [], vm_latestVersion = -1, vm_maxVersions = mx\<rparr>"

definition versionsLocked :: "VersionManager \<Rightarrow> int list" where
  "versionsLocked vm = sort (gm_keys (vm_manifests vm))"

definition oldestVersion :: "VersionManager \<Rightarrow> int" where
  "oldestVersion vm = (if vm_manifests vm = [] then -1 else hd (versionsLocked vm))"

lemma length_gm_del_less: "k \<in> set (gm_keys m) \<Longrightarrow> length (gm_del k m) < length m"
  by (induction m) (force simp: gm_del_def gm_keys_def less_Suc_eq_le AList.length_delete_le)+

lemma oldestVersion_in: "vm_manifests vm \<noteq> [] \<Longrightarrow> oldestVersion vm \<in> set (gm_keys (vm_manifests vm))"
proof -
  assume "vm_manifests vm \<noteq> []"
  then have "sort (gm_keys (vm_manifests vm)) \<noteq> []"
    by (metis length_0_conv length_gm_keys length_sort)
  then show ?thesis
    using \<open>vm_manifests vm \<noteq> []\<close> hd_in_set [of "sort (gm_keys (vm_manifests vm))"]
    by (simp add: oldestVersion_def versionsLocked_def)
qed

text \<open>The loop of \<open>evict\<close>; a negative limit never reaches it.\<close>

function evict_loop :: "VersionManager \<Rightarrow> VersionManager" where
  "evict_loop vm =
     (if 0 < vm_maxVersions vm \<and> vm_maxVersions vm < int (length (vm_manifests vm)) then
        let oldest = oldestVersion vm in
        if oldest = vm_latestVersion vm then vm
        else evict_loop (vm\<lparr>vm_manifests := gm_del oldest (vm_manifests vm)\<rparr>)
      else vm)"
  by pat_completeness auto
termination
  by (relation "measure (\<lambda>vm. length (vm_manifests vm))") (auto intro!: length_gm_del_less oldestVersion_in)

declare evict_loop.simps [simp del]

definition VM_evict :: "VersionManager \<Rightarrow> VersionManager" where
  "VM_evict vm = (if vm_maxVersions vm \<le> 0 then vm else evict_loop vm)"

definition Publish :: "Manifest \<Rightarrow> VersionManager \<Rightarrow> VersionManager" where
  "Publish m vm =
     (let vm1 = vm\<lparr>vm_manifests := gm_put (man_Version m) m (vm_manifests vm)\<rparr>;
          vm2 = (if man_Version m > vm_latestVersion vm1 then vm1\<lparr>vm_latestVersion := man_Version m\<rparr> else vm1)
      in VM_evict vm2)"

definition VM_Get :: "VersionManager \<Rightarrow> int \<Rightarrow> Manifest option" where
  "VM_Get vm v = map_of (vm_manifests vm) v"

definition VM_Latest :: "VersionManager \<Rightarrow> Manifest option" where
  "VM_Latest vm = (if vm_latestVersion vm < 0 then None else map_of (vm_manifests vm) (vm_latestVersion vm))"

definition VM_LatestVersion :: "VersionManager \<Rightarrow> int" where
  "VM_LatestVersion vm = vm_latestVersion vm"

definition recomputeLatestLocked :: "VersionManager \<Rightarrow> int" where
  "recomputeLatestLocked vm = (if vm_manifests vm = [] then -1 else last (versionsLocked vm))"

definition VM_Remove :: "int \<Rightarrow> VersionManager \<Rightarrow> VersionManager" where
  "VM_Remove v vm =
     (let vm1 = vm\<lparr>vm_manifests := gm_del v (vm_manifests vm)\<rparr> in
      if v = vm_latestVersion vm1 then vm1\<lparr>vm_latestVersion := recomputeLatestLocked vm1\<rparr> else vm1)"

definition VM_Clear :: "VersionManager \<Rightarrow> VersionManager" where
  "VM_Clear vm = vm\<lparr>vm_manifests := [], vm_latestVersion := -1\<rparr>"

definition VM_Versions :: "VersionManager \<Rightarrow> int list" where
  "VM_Versions vm = versionsLocked vm"

definition VM_HasVersion :: "VersionManager \<Rightarrow> int \<Rightarrow> bool" where
  "VM_HasVersion vm v \<longleftrightarrow> map_of (vm_manifests vm) v \<noteq> None"

section \<open>The abstract cache\<close>

type_synonym vcache = "int \<Rightarrow> Manifest option"

definition top_versions :: "int \<Rightarrow> int set \<Rightarrow> int set" where
  "top_versions mx S = (if mx \<le> 0 then S else set (drop (card S - nat mx) (sorted_list_of_set S)))"

definition cache_publish :: "int \<Rightarrow> Manifest \<Rightarrow> vcache \<Rightarrow> vcache" where
  "cache_publish mx m A =
     (let B = A(man_Version m \<mapsto> m) in B |` top_versions mx (dom B))"

definition cache_latest :: "vcache \<Rightarrow> int" where
  "cache_latest A = (if dom A = {} then -1 else Max (dom A))"

datatype vm_op = VPublish Manifest | VRemove int | VClear | VGet int | VLatest | VVersions

datatype vm_out = VDone | VManifest "Manifest option" | VList "int list"

fun vm_step :: "vm_op \<Rightarrow> VersionManager \<Rightarrow> vm_out \<times> VersionManager" where
  "vm_step (VPublish m) vm = (VDone, Publish m vm)"
| "vm_step (VRemove v) vm = (VDone, VM_Remove v vm)"
| "vm_step VClear vm = (VDone, VM_Clear vm)"
| "vm_step (VGet v) vm = (VManifest (VM_Get vm v), vm)"
| "vm_step VLatest vm = (VManifest (VM_Latest vm), vm)"
| "vm_step VVersions vm = (VList (VM_Versions vm), vm)"

fun cache_step :: "int \<Rightarrow> vm_op \<Rightarrow> vcache \<Rightarrow> vm_out \<times> vcache" where
  "cache_step mx (VPublish m) A = (VDone, cache_publish mx m A)"
| "cache_step mx (VRemove v) A = (VDone, A(v := None))"
| "cache_step mx VClear A = (VDone, Map.empty)"
| "cache_step mx (VGet v) A = (VManifest (A v), A)"
| "cache_step mx VLatest A = (VManifest (if dom A = {} then None else A (Max (dom A))), A)"
| "cache_step mx VVersions A = (VList (sorted_list_of_set (dom A)), A)"

fun op_ok :: "vm_op \<Rightarrow> bool" where
  "op_ok (VPublish m) = (0 \<le> man_Version m)"
| "op_ok _ = True"

section \<open>Facts\<close>

definition vm_ok :: "int \<Rightarrow> VersionManager \<Rightarrow> bool" where
  "vm_ok mx vm \<longleftrightarrow>
     gm_ok (vm_manifests vm) \<and> (\<forall>v \<in> dom (map_of (vm_manifests vm)). 0 \<le> v) \<and>
     vm_latestVersion vm = cache_latest (map_of (vm_manifests vm)) \<and> vm_maxVersions vm = mx"

lemma dom_keys: "dom (map_of m) = set (gm_keys m)"
  by (simp add: gm_keys_def dom_map_of_conv_image_fst)

lemma versionsLocked_set: "gm_ok (vm_manifests vm) \<Longrightarrow> versionsLocked vm = sorted_list_of_set (dom (map_of (vm_manifests vm)))"
  by (simp add: versionsLocked_def dom_keys gm_ok_def sorted_list_of_set_sort_remdups distinct_remdups_id)

lemma hd_sorted_list_of_set: "finite S \<Longrightarrow> S \<noteq> {} \<Longrightarrow> hd (sorted_list_of_set S) = Min S" for S :: "int set"
  by (simp add: sorted_list_of_set_nonempty)

lemma top_versions_all: "finite S \<Longrightarrow> mx \<le> 0 \<or> int (card S) \<le> mx \<Longrightarrow> top_versions mx S = S"
  by (auto simp: top_versions_def)

lemma top_versions_min:
  assumes "finite S" and "0 < mx" and "mx < int (card S)"
  shows "top_versions mx S = top_versions mx (S - {Min S})"
proof -
  have "S \<noteq> {}"
    using assms(2,3) by auto
  then have "sorted_list_of_set S = Min S # sorted_list_of_set (S - {Min S})"
    using assms(1) by (simp add: sorted_list_of_set_nonempty)
  moreover have "card S - nat mx = Suc (card (S - {Min S}) - nat mx)"
    using assms \<open>S \<noteq> {}\<close> by simp
  ultimately show ?thesis
    using assms(2) by (simp add: top_versions_def)
qed

lemma top_versions_subset: "finite S \<Longrightarrow> top_versions mx S \<subseteq> S"
  by (auto simp: top_versions_def dest: in_set_dropD)

text \<open>The latest version survives eviction.\<close>

lemma Max_top_versions:
  assumes "finite S" and "S \<noteq> {}"
  shows "Max S \<in> top_versions mx S"
proof (cases "mx \<le> 0 \<or> int (card S) \<le> mx")
  case True
  with assms show ?thesis by (simp add: top_versions_all)
next
  case False
  let ?xs = "sorted_list_of_set S" and ?n = "card S - nat mx"
  have n: "?n < length ?xs"
    using False assms by simp
  then have "last ?xs = last (drop ?n ?xs)" "drop ?n ?xs \<noteq> []"
    by simp_all
  moreover have "last ?xs = Max S"
    using assms by (rule last_sorted_list_of_set)
  ultimately show ?thesis
    using False by (metis last_in_set top_versions_def)
qed

lemma Max_remove:
  fixes S :: "int set"
  assumes "finite S" and "S \<noteq> {}" and "v \<noteq> Max S"
  shows "S - {v} \<noteq> {} \<and> Max (S - {v}) = Max S"
proof -
  have "Max S \<in> S - {v}"
    using assms by simp
  then show ?thesis
    using assms(1) by (auto intro!: Max_eqI)
qed

lemma evict_loop_spec:
  assumes "vm_ok mx vm"
  shows "vm_ok mx (evict_loop vm) \<and>
    map_of (vm_manifests (evict_loop vm)) =
      (let A = map_of (vm_manifests vm) in A |` top_versions mx (dom A))"
  using assms
proof (induction vm rule: evict_loop.induct)
  case (1 vm)
  let ?m = "vm_manifests vm"
  let ?D = "dom (map_of ?m)" and ?o = "oldestVersion vm"
  let ?vm' = "vm\<lparr>vm_manifests := gm_del ?o ?m\<rparr>"
  have ok: "gm_ok ?m" "vm_maxVersions vm = mx" "vm_latestVersion vm = cache_latest (map_of ?m)"
    using "1.prems" by (simp_all add: vm_ok_def)
  have card: "card ?D = length ?m"
    using ok(1) by (metis distinct_card dom_keys gm_ok_def length_gm_keys)
  show ?case
  proof (cases "0 < mx \<and> mx < int (length ?m)")
    case False
    then have e: "evict_loop vm = vm"
      using ok(2) by (subst evict_loop.simps) auto
    have "top_versions mx ?D = ?D"
      using False card by (intro top_versions_all finite_dom_map_of) auto
    with e "1.prems" show ?thesis
      by (simp add: Let_def restrict_map_def fun_eq_iff domIff)
  next
    case True
    then have ne: "?m \<noteq> []" "?D \<noteq> {}"
      using card by (auto simp del: dom_eq_empty_conv)
    have o: "?o = Min ?D"
      using ne ok(1) by (simp add: oldestVersion_def versionsLocked_set finite_dom_map_of hd_sorted_list_of_set)
    have "card ?D > 1"
      using True card by linarith
    then have min_max: "Min ?D \<noteq> Max ?D"
      by (metis Max_ge Min_le card_1_singleton_iff dual_order.antisym finite_dom_map_of is_singletonI'
          is_singleton_altdef less_irrefl ne(2))
    have "vm_latestVersion vm = Max ?D"
      using ok(3) ne(2) by (simp add: cache_latest_def)
    with min_max o have step: "evict_loop vm = evict_loop ?vm'"
      using True ok(2) by (subst evict_loop.simps) (simp add: Let_def)
    have dom': "dom (map_of (vm_manifests ?vm')) = ?D - {Min ?D}"
      by (auto simp: o split: if_splits)
    have "cache_latest (map_of (vm_manifests ?vm')) = cache_latest (map_of ?m)"
      using Max_remove [OF finite_dom_map_of ne(2) min_max] ne(2) unfolding cache_latest_def dom' by simp
    then have ok': "vm_ok mx ?vm'"
      using "1.prems" by (auto simp: vm_ok_def)
    have top: "top_versions mx ?D = top_versions mx (?D - {Min ?D})"
      using True card by (intro top_versions_min finite_dom_map_of) auto
    have IH: "vm_ok mx (evict_loop ?vm') \<and> map_of (vm_manifests (evict_loop ?vm')) =
        (let A = map_of (vm_manifests ?vm') in A |` top_versions mx (dom A))"
      by (rule "1.IH" [OF _ refl _ ok']) (use True ok(2) min_max o \<open>vm_latestVersion vm = Max ?D\<close> in simp_all)
    have "top_versions mx (?D - {Min ?D}) \<subseteq> ?D - {Min ?D}"
      by (rule top_versions_subset) (simp add: finite_dom_map_of)
    then have "map_of (vm_manifests ?vm') |` top_versions mx (?D - {Min ?D}) = map_of ?m |` top_versions mx ?D"
      unfolding top by (auto simp: restrict_map_def o fun_eq_iff)
    with IH show ?thesis
      unfolding Let_def dom' step by argo
  qed
qed

lemma cache_latest_remove:
  assumes "finite (dom A)" and "v \<noteq> cache_latest A"
  shows "cache_latest (A(v := None)) = cache_latest A"
proof (cases "dom A = {}")
  case False
  then have "v \<noteq> Max (dom A)"
    using assms(2) by (simp add: cache_latest_def)
  then have "dom A - {v} \<noteq> {} \<and> Max (dom A - {v}) = Max (dom A)"
    using Max_remove [OF assms(1) False] by blast
  moreover have "dom (A(v := None)) = dom A - {v}"
    by simp
  ultimately show ?thesis
    unfolding cache_latest_def using False by (simp only: if_False)
qed (auto simp: cache_latest_def)

lemma cache_latest_put:
  assumes "\<forall>v \<in> dom A. 0 \<le> v" and "0 \<le> k" and "finite (dom A)"
  shows "cache_latest (A(k \<mapsto> m)) = (if k > cache_latest A then k else cache_latest A)"
proof (cases "dom A = {}")
  case True
  with assms(2) show ?thesis
    by (simp add: cache_latest_def)
next
  case False
  have "dom (A(k \<mapsto> m)) = insert k (dom A)"
    by simp
  then have "cache_latest (A(k \<mapsto> m)) = max k (Max (dom A))"
    unfolding cache_latest_def using assms(3) False by (simp only: Max_insert) simp
  with False show ?thesis
    unfolding cache_latest_def max_def by simp
qed

lemma Publish_spec:
  assumes "vm_ok mx vm" and "0 \<le> man_Version m"
  shows "vm_ok mx (Publish m vm) \<and>
    map_of (vm_manifests (Publish m vm)) = cache_publish mx m (map_of (vm_manifests vm))"
proof -
  define vm2 where "vm2 = (let vm1 = vm\<lparr>vm_manifests := gm_put (man_Version m) m (vm_manifests vm)\<rparr> in
    if man_Version m > vm_latestVersion vm1 then vm1\<lparr>vm_latestVersion := man_Version m\<rparr> else vm1)"
  have pub: "Publish m vm = VM_evict vm2"
    by (simp add: Publish_def vm2_def Let_def)
  have ok2: "vm_ok mx vm2" and map2: "map_of (vm_manifests vm2) = (map_of (vm_manifests vm))(man_Version m \<mapsto> m)"
    using assms cache_latest_put [of "map_of (vm_manifests vm)" "man_Version m" m]
    by (auto simp: vm2_def vm_ok_def Let_def finite_dom_map_of)
  let ?B = "(map_of (vm_manifests vm))(man_Version m \<mapsto> m)"
  show ?thesis
  proof (cases "mx \<le> 0")
    case True
    then have "VM_evict vm2 = vm2"
      using ok2 by (simp add: VM_evict_def vm_ok_def)
    moreover have "?B |` top_versions mx (dom ?B) = ?B"
      using True by (auto simp: top_versions_def restrict_map_def fun_eq_iff domIff)
    ultimately show ?thesis
      using ok2 map2 by (simp add: pub cache_publish_def Let_def)
  next
    case False
    then have "VM_evict vm2 = evict_loop vm2"
      using ok2 by (simp add: VM_evict_def vm_ok_def)
    then show ?thesis
      using evict_loop_spec [OF ok2] map2 by (simp add: pub cache_publish_def Let_def)
  qed
qed

lemma Remove_spec:
  assumes "vm_ok mx vm"
  shows "vm_ok mx (VM_Remove v vm) \<and>
    map_of (vm_manifests (VM_Remove v vm)) = (map_of (vm_manifests vm))(v := None)"
proof -
  let ?m = "gm_del v (vm_manifests vm)" and ?A = "map_of (vm_manifests vm)"
  have ok: "gm_ok ?m" "vm_latestVersion vm = cache_latest ?A"
    using assms by (simp_all add: vm_ok_def)
  have "recomputeLatestLocked (vm\<lparr>vm_manifests := ?m\<rparr>) = cache_latest (map_of ?m)"
    using ok(1) versionsLocked_set [of "vm\<lparr>vm_manifests := ?m\<rparr>"]
    by (auto simp: recomputeLatestLocked_def cache_latest_def finite_dom_map_of last_sorted_list_of_set
        simp del: gm_get_del)
  moreover have "cache_latest (?A(v := None)) = cache_latest ?A" if "v \<noteq> cache_latest ?A"
    using that by (intro cache_latest_remove finite_dom_map_of)
  ultimately show ?thesis
    using assms ok by (auto simp: VM_Remove_def vm_ok_def Let_def)
qed

interpretation vm: refinement vm_step "cache_step mx" op_ok "vm_ok mx" "\<lambda>vm. map_of (vm_manifests vm)" for mx
proof unfold_locales
  fix x vm
  assume x: "op_ok x" and vm: "vm_ok mx vm"
  have latest: "VM_Latest vm = (if dom (map_of (vm_manifests vm)) = {} then None
      else map_of (vm_manifests vm) (Max (dom (map_of (vm_manifests vm)))))"
  proof (cases "dom (map_of (vm_manifests vm)) = {}")
    case False
    then have "0 \<le> Max (dom (map_of (vm_manifests vm)))"
      using vm Max_in [OF finite_dom_map_of False] unfolding vm_ok_def by blast
    with False vm show ?thesis
      by (simp add: VM_Latest_def vm_ok_def cache_latest_def)
  qed (use vm in \<open>simp add: VM_Latest_def vm_ok_def cache_latest_def\<close>)
  have clear: "vm_ok mx (VM_Clear vm)"
    using vm by (simp add: VM_Clear_def vm_ok_def cache_latest_def)
  show "vm_ok mx (snd (vm_step x vm))"
    using x vm clear Publish_spec Remove_spec by (cases x) simp_all
  show "fst (vm_step x vm) = fst (cache_step mx x (map_of (vm_manifests vm)))"
    using vm latest by (cases x) (simp_all add: VM_Get_def VM_Versions_def versionsLocked_set vm_ok_def)
  show "map_of (vm_manifests (snd (vm_step x vm))) = snd (cache_step mx x (map_of (vm_manifests vm)))"
    using x vm Publish_spec Remove_spec by (cases x) (simp_all add: VM_Clear_def)
qed

lemma card_top_versions: "finite S \<Longrightarrow> 0 < mx \<Longrightarrow> int (card (top_versions mx S)) \<le> mx"
proof -
  assume "finite S" "0 < mx"
  then have "card (top_versions mx S) \<le> length (drop (card S - nat mx) (sorted_list_of_set S))"
    unfolding top_versions_def using \<open>0 < mx\<close> card_length [of "drop (card S - nat mx) (sorted_list_of_set S)"]
    by (simp only: not_le [symmetric] if_False if_True simp_thms split: if_split)
  then show ?thesis
    using \<open>0 < mx\<close> \<open>finite S\<close> by simp
qed

lemma vm_length: "vm_ok mx vm \<Longrightarrow> length (vm_manifests vm) = card (dom (map_of (vm_manifests vm)))"
  by (metis distinct_card dom_keys gm_ok_def length_gm_keys vm_ok_def)

definition vm_small :: "int \<Rightarrow> VersionManager \<Rightarrow> bool" where
  "vm_small mx vm \<longleftrightarrow> vm_ok mx vm \<and> (0 < mx \<longrightarrow> int (length (vm_manifests vm)) \<le> mx)"

lemma vm_small_step:
  assumes "op_ok x" and "vm_small mx vm"
  shows "vm_small mx (snd (vm_step x vm))"
proof -
  have ok: "vm_ok mx vm"
    using assms(2) by (simp add: vm_small_def)
  have ok': "vm_ok mx (snd (vm_step x vm))"
    using vm.step_inv [OF assms(1) ok] .
  show ?thesis
  proof (cases x)
    case (VPublish m)
    let ?B = "(map_of (vm_manifests vm))(man_Version m \<mapsto> m)"
    have "dom (map_of (vm_manifests (Publish m vm))) \<subseteq> top_versions mx (dom ?B)"
      using Publish_spec [OF ok, of m] assms(1) VPublish by (auto simp: cache_publish_def Let_def)
    moreover have "finite (top_versions mx (dom ?B))"
      using top_versions_subset [of "dom ?B" mx] by (metis finite_dom_map_of finite_insert finite_subset dom_fun_upd option.discI)
    ultimately have "card (dom (map_of (vm_manifests (Publish m vm)))) \<le> card (top_versions mx (dom ?B))"
      by (simp add: card_mono)
    moreover have "0 < mx \<Longrightarrow> int (card (top_versions mx (dom ?B))) \<le> mx"
      by (intro card_top_versions) (simp_all add: finite_dom_map_of)
    ultimately show ?thesis
      using ok' vm_length [OF ok'] VPublish by (auto simp: vm_small_def)
  next
    case (VRemove v)
    have "length (gm_del v (vm_manifests vm)) \<le> length (vm_manifests vm)"
      by (simp add: gm_del_def length_delete_le)
    then show ?thesis
      using ok' assms(2) VRemove by (auto simp: vm_small_def VM_Remove_def Let_def)
  qed (use ok' assms(2) in \<open>auto simp: vm_small_def VM_Clear_def\<close>)
qed

lemma vm_small_bounded:
  assumes "vm_small mx vm"
  shows "vm_manifests vm \<noteq> [] \<Longrightarrow>
    VM_HasVersion vm (VM_LatestVersion vm) \<and> VM_LatestVersion vm = last (VM_Versions vm)"
proof -
  assume ne: "vm_manifests vm \<noteq> []"
  let ?D = "dom (map_of (vm_manifests vm))"
  have ok: "vm_ok mx vm"
    using assms by (simp add: vm_small_def)
  have D: "finite ?D" "?D \<noteq> {}"
    using ne by (simp_all add: finite_dom_map_of)
  have "VM_LatestVersion vm = Max ?D"
    using ok D(2) by (simp add: VM_LatestVersion_def vm_ok_def cache_latest_def)
  then show ?thesis
    using Max_in [OF D] ok
    by (simp add: VM_HasVersion_def VM_Versions_def versionsLocked_set vm_ok_def domD
        last_sorted_list_of_set [OF D] domIff [symmetric] del: domIff)
qed

section \<open>Properties\<close>

text \<open>
  C31: for every sequence of \<open>Publish\<close>, \<open>Remove\<close>, \<open>Clear\<close>, \<open>Get\<close>, \<open>Latest\<close> and \<open>Versions\<close> whose
  published versions are not negative (every caller counts them from 1; the code does not check it) the version
  manager answers as the abstract cache: after a \<open>Publish\<close> it holds the \<open>maxVersions\<close> highest versions
  and nothing else, \<open>Get\<close> returns the manifest published last for a version, and \<open>Latest\<close> the one of
  the highest version.
\<close>

theorem vm_refines_cache:
  assumes "list_all op_ok ops"
  shows "fst (run_ops vm_step ops (NewVersionManager mx)) = fst (run_ops (cache_step mx) ops Map.empty)"
proof -
  have "vm_ok mx (NewVersionManager mx)" "map_of (vm_manifests (NewVersionManager mx)) = Map.empty"
    by (simp_all add: NewVersionManager_def vm_ok_def cache_latest_def)
  then show ?thesis
    using vm.run_refines [OF _ assms, of mx "NewVersionManager mx"] by simp
qed

theorem vm_refines_cache_witness:
  "fst (run_ops vm_step
     [VPublish (NewManifest 1 \<lparr>Fields = []\<rparr>), VPublish (NewManifest 2 \<lparr>Fields = []\<rparr>), VVersions]
     (NewVersionManager 1)) = [VDone, VDone, VList [2]]"
proof -
  have "top_versions 1 {1} = {1}" "top_versions 1 {2, 1} = {2}"
    by (simp_all add: top_versions_def)
  then have "fst (run_ops (cache_step 1)
     [VPublish (NewManifest 1 \<lparr>Fields = []\<rparr>), VPublish (NewManifest 2 \<lparr>Fields = []\<rparr>), VVersions] Map.empty)
     = [VDone, VDone, VList [2]]"
    by (simp add: Let_def cache_publish_def NewManifest_def)
  then show ?thesis
    using vm_refines_cache [of "[VPublish (NewManifest 1 \<lparr>Fields = []\<rparr>),
        VPublish (NewManifest 2 \<lparr>Fields = []\<rparr>), VVersions]" 1]
    by (simp add: NewManifest_def)
qed

text \<open>
  C32: after every sequence of these operations that publishes no negative version a positive limit bounds the number of cached manifests, and the
  latest version is cached whenever anything is: \<open>evict\<close> terminates before it reaches the latest one.
\<close>

theorem vm_bounded:
  assumes "list_all op_ok ops" and "vm = snd (run_ops vm_step ops (NewVersionManager mx))"
  shows "(0 < mx \<longrightarrow> int (length (VM_Versions vm)) \<le> mx) \<and>
    (VM_Versions vm \<noteq> [] \<longrightarrow> VM_HasVersion vm (VM_LatestVersion vm) \<and> VM_LatestVersion vm = last (VM_Versions vm))"
proof -
  have "vm_small mx (NewVersionManager mx)"
    by (simp add: NewVersionManager_def vm_small_def vm_ok_def cache_latest_def)
  then have small: "vm_small mx vm"
    unfolding assms(2) using run_invariant [of op_ok "vm_small mx" vm_step, OF vm_small_step] assms(1) by blast
  have "length (VM_Versions vm) = length (vm_manifests vm)"
    by (simp add: VM_Versions_def versionsLocked_def)
  then have "VM_Versions vm = [] \<longleftrightarrow> vm_manifests vm = []"
    by (metis length_0_conv)
  with \<open>length (VM_Versions vm) = _\<close> vm_small_bounded [OF small] small show ?thesis
    by (metis vm_small_def)
qed

theorem vm_bounded_witness:
  "length (VM_Versions (snd (run_ops vm_step
     [VPublish (NewManifest 1 \<lparr>Fields = []\<rparr>), VPublish (NewManifest 2 \<lparr>Fields = []\<rparr>)] (NewVersionManager 1)))) \<le> 1"
  using vm_bounded [of "[VPublish (NewManifest 1 \<lparr>Fields = []\<rparr>), VPublish (NewManifest 2 \<lparr>Fields = []\<rparr>)]", OF _ refl, of 1]
  by (simp add: NewManifest_def)

end
