(* ===== verification/FragmentIO.thy ===== *)
theory FragmentIO
  imports Store TableData MiniBlock GoStrconv
begin

text \<open>
  \<^verbatim>\<open>src/table/fragment_writer.go\<close> and \<^verbatim>\<open>src/table/fragment_reader.go\<close>: the columns of a
  batch, one encoded file each, and reading them back. The columns of a batch are visited in the
  order of their association list, which stands for the order of Go's \<open>range\<close> over the map.
\<close>

section \<open>The writer\<close>

record 'w FragmentWriter =
  fw_store :: "'w Store"
  fw_schema :: Schema
  fw_fragmentID :: int
  fw_basePath :: string
  fw_compression :: CompressionType
  fw_encoder :: MiniBlockEncoder
  fw_dataFiles :: "DataFile list"
  fw_numRows :: int

definition fragment_dir :: "string \<Rightarrow> int \<Rightarrow> string" where
  "fragment_dir tablePath fid = path_Join [tablePath, ''data'', ''f'' @ FormatInt fid]"

definition NewFragmentWriter ::
  "'w Store \<Rightarrow> Schema \<Rightarrow> int \<Rightarrow> string \<Rightarrow> CompressionType \<Rightarrow> 'w FragmentWriter" where
  "NewFragmentWriter store schema fid tablePath compression =
     \<lparr>fw_store = store, fw_schema = schema, fw_fragmentID = fid, fw_basePath = fragment_dir tablePath fid,
      fw_compression = compression, fw_encoder = NewMiniBlockEncoder compression,
      fw_dataFiles = [], fw_numRows = 0\<rparr>"

definition inferNumRows :: "column \<Rightarrow> Field \<Rightarrow> int res" where
  "inferNumRows data field =
     (case fld_Type field of
        TypeInt8 \<Rightarrow> (case data of Int8s d \<Rightarrow> Inr (int (length d)) | _ \<Rightarrow> Inl (TblErr ErrColumnData))
      | TypeInt16 \<Rightarrow> (case data of Int16s d \<Rightarrow> Inr (int (length d)) | _ \<Rightarrow> Inl (TblErr ErrColumnData))
      | TypeInt32 \<Rightarrow> (case data of Int32s d \<Rightarrow> Inr (int (length d)) | _ \<Rightarrow> Inl (TblErr ErrColumnData))
      | TypeInt64 \<Rightarrow> (case data of Int64s d \<Rightarrow> Inr (int (length d)) | _ \<Rightarrow> Inl (TblErr ErrColumnData))
      | TypeFloat32 \<Rightarrow> (case data of Float32s d \<Rightarrow> Inr (int (length d)) | _ \<Rightarrow> Inl (TblErr ErrColumnData))
      | TypeFloat64 \<Rightarrow> (case data of Float64s d \<Rightarrow> Inr (int (length d)) | _ \<Rightarrow> Inl (TblErr ErrColumnData))
      | TypeString \<Rightarrow> (case data of Strings d \<Rightarrow> Inr (int (length d)) | _ \<Rightarrow> Inl (TblErr ErrColumnData))
      | TypeBinary \<Rightarrow> (case data of Binaries d \<Rightarrow> Inr (int (length d)) | _ \<Rightarrow> Inl (TblErr ErrColumnData))
      | TypeFixedSizeList \<Rightarrow>
          (case data of
             Float32s d \<Rightarrow>
               if fld_Dimension field \<le> 0 then Inl (TblErr ErrFieldDimension)
               else Inr (int (length d) div fld_Dimension field)
           | _ \<Rightarrow> Inl (TblErr ErrColumnData))
      | _ \<Rightarrow> Inl (TblErr ErrFieldType))"

definition column_path :: "string \<Rightarrow> int \<Rightarrow> string" where
  "column_path basePath columnID = path_Join [basePath, ''col_'' @ FormatInt columnID @ ''.lance'']"

definition WriteColumn ::
  "codecs \<Rightarrow> 'w FragmentWriter \<Rightarrow> int \<Rightarrow> column \<Rightarrow> 'w \<Rightarrow> unit res \<times> 'w FragmentWriter \<times> 'w" where
  "WriteColumn C fw columnID data w =
     (case FieldByID (fw_schema fw) columnID of
        None \<Rightarrow> (Inl (TblErr ErrFieldNotFound), fw, w)
      | Some field \<Rightarrow>
          (case MiniBlock_Encode C (fw_encoder fw) data (fld_Type field) of
             Inl e \<Rightarrow> (Inl e, fw, w)
           | Inr encoded \<Rightarrow>
               let path = column_path (fw_basePath fw) columnID in
               (case Store_Write (fw_store fw) path encoded w of
                  (Inl e, w1) \<Rightarrow> (Inl e, fw, w1)
                | (Inr _, w1) \<Rightarrow>
                    (case Store_Size (fw_store fw) path w1 of
                       (Inl e, w2) \<Rightarrow> (Inl e, fw, w2)
                     | (Inr len, w2) \<Rightarrow>
                         (case inferNumRows data field of
                            Inl e \<Rightarrow> (Inl e, fw, w2)
                          | Inr rowCount \<Rightarrow>
                              (Inr (),
                               fw\<lparr>fw_dataFiles := fw_dataFiles fw @
                                    [\<lparr>df_Path = path, df_ColumnID = columnID, df_NumRows = rowCount,
                                      df_FileSize = len\<rparr>],
                                  fw_numRows := (if rowCount > fw_numRows fw then rowCount else fw_numRows fw)\<rparr>,
                               w2))))))"

fun WriteColumns ::
  "codecs \<Rightarrow> 'w FragmentWriter \<Rightarrow> (int, column) gomap \<Rightarrow> 'w \<Rightarrow> unit res \<times> 'w FragmentWriter \<times> 'w" where
  "WriteColumns C fw [] w = (Inr (), fw, w)"
| "WriteColumns C fw ((columnID, data) # cols) w =
     (case WriteColumn C fw columnID data w of
        (Inl e, fw1, w1) \<Rightarrow> (Inl e, fw1, w1)
      | (Inr _, fw1, w1) \<Rightarrow> WriteColumns C fw1 cols w1)"

definition WriteBatch ::
  "codecs \<Rightarrow> 'w FragmentWriter \<Rightarrow> RecordBatch \<Rightarrow> 'w \<Rightarrow> unit res \<times> 'w FragmentWriter \<times> 'w" where
  "WriteBatch C fw batch w = WriteColumns C fw (rb_Columns batch) w"

definition Finish :: "'w FragmentWriter \<Rightarrow> Fragment" where
  "Finish fw =
     (NewFragment (fw_fragmentID fw))
       \<lparr>fr_NumRows := fw_numRows fw, fr_PhysicalRows := fw_numRows fw, fr_DataFiles := fw_dataFiles fw\<rparr>"

section \<open>The reader\<close>

record 'w FragmentReader =
  frd_store :: "'w Store"
  frd_schema :: Schema
  frd_encoder :: MiniBlockEncoder

definition NewFragmentReader :: "'w Store \<Rightarrow> Schema \<Rightarrow> CompressionType \<Rightarrow> 'w FragmentReader" where
  "NewFragmentReader store schema compression =
     \<lparr>frd_store = store, frd_schema = schema, frd_encoder = NewMiniBlockEncoder compression\<rparr>"

definition findDataFile :: "Fragment \<Rightarrow> int \<Rightarrow> DataFile option" where
  "findDataFile frag columnID = find (\<lambda>df. df_ColumnID df = columnID) (fr_DataFiles frag)"

definition ReadColumn ::
  "codecs \<Rightarrow> 'w FragmentReader \<Rightarrow> Fragment \<Rightarrow> int \<Rightarrow> 'w \<Rightarrow> column res \<times> 'w" where
  "ReadColumn C r frag columnID w =
     (case FieldByID (frd_schema r) columnID of
        None \<Rightarrow> (Inl (TblErr ErrFieldNotFound), w)
      | Some field \<Rightarrow>
          (case findDataFile frag columnID of
             None \<Rightarrow> (Inl (TblErr ErrDataFileNotFound), w)
           | Some df \<Rightarrow>
               (case Store_Read (frd_store r) (df_Path df) 0 (df_FileSize df) w of
                  (Inl e, w1) \<Rightarrow> (Inl e, w1)
                | (Inr data, w1) \<Rightarrow>
                    (MiniBlock_Decode C (frd_encoder r) data (fld_Type field) (df_NumRows df), w1))))"

fun ReadColumns ::
  "codecs \<Rightarrow> 'w FragmentReader \<Rightarrow> Fragment \<Rightarrow> int list \<Rightarrow> RecordBatch \<Rightarrow> 'w \<Rightarrow> RecordBatch res \<times> 'w" where
  "ReadColumns C r frag [] batch w = (Inr batch, w)"
| "ReadColumns C r frag (i # is) batch w =
     (case ReadColumn C r frag i w of
        (Inl e, w1) \<Rightarrow> (Inl e, w1)
      | (Inr data, w1) \<Rightarrow> ReadColumns C r frag is (SetColumn i data batch) w1)"

definition ReadBatch ::
  "codecs \<Rightarrow> 'w FragmentReader \<Rightarrow> Fragment \<Rightarrow> int list \<Rightarrow> 'w \<Rightarrow> RecordBatch res \<times> 'w" where
  "ReadBatch C r frag columnIDs w =
     (let numRows = (if fr_PhysicalRows frag = 0 then fr_NumRows frag else fr_PhysicalRows frag) in
      ReadColumns C r frag columnIDs (NewRecordBatch (frd_schema r) numRows) w)"

section \<open>Writing and reading back, on any store\<close>

text \<open>
  A column the writer accepts for a field: a value of its type that the encoder restores, of a size
  an \<open>int32\<close> counts.
\<close>

definition column_fits :: "Field \<Rightarrow> column \<Rightarrow> bool" where
  "column_fits f data \<longleftrightarrow>
     column_ok (fld_Type f) data \<and> (fld_Type f = TypeFixedSizeList \<longrightarrow> 0 < fld_Dimension f) \<and>
     (case MiniBlock_serialize data (fld_Type f) of Inl e \<Rightarrow> False | Inr buf \<Rightarrow> length buf < 2 ^ 31)"

definition batch_fits :: "Schema \<Rightarrow> (int, column) gomap \<Rightarrow> bool" where
  "batch_fits schema cols \<longleftrightarrow>
     gm_ok cols \<and>
     list_all (\<lambda>(i, d). case FieldByID schema i of None \<Rightarrow> False | Some f \<Rightarrow> column_fits f d) cols"

definition column_rows :: "Field \<Rightarrow> column \<Rightarrow> int" where
  "column_rows f data = (case inferNumRows data f of Inl e \<Rightarrow> 0 | Inr n \<Rightarrow> n)"

lemma inferNumRows_fits: "column_fits f data \<Longrightarrow> inferNumRows data f = Inr (column_rows f data)"
  by (cases data) (auto simp: column_fits_def column_ok_def inferNumRows_def column_rows_def)

locale fragment_client = store_spec st key content good ok managed dir_path
  for st :: "'w Store" and key :: "string \<Rightarrow> 'k" and content good ok managed dir_path +
  fixes tp :: string and C :: codecs and comp :: CompressionType
  assumes column_managed: "managed (column_path (fragment_dir tp i) j)"
    and column_key: "key (column_path (fragment_dir tp i) j) = key (column_path (fragment_dir tp i') j')
      \<longleftrightarrow> i = i' \<and> j = j'"
    and codec: "codec_ok C comp (effective_block_size (NewMiniBlockEncoder comp))"
begin

abbreviation ckey :: "int \<Rightarrow> int \<Rightarrow> 'k" where
  "ckey fid i \<equiv> key (column_path (fragment_dir tp fid) i)"

definition stored_column :: "'w \<Rightarrow> int \<Rightarrow> Field \<Rightarrow> int \<Rightarrow> column \<Rightarrow> DataFile \<Rightarrow> bool" where
  "stored_column w fid f i d df \<longleftrightarrow>
     df_ColumnID df = i \<and> df_Path df = column_path (fragment_dir tp fid) i \<and> df_NumRows df = column_rows f d \<and>
     (\<exists>page. content w (ckey fid i) = Some page \<and> df_FileSize df = int (length page) \<and>
        MiniBlock_Encode C (NewMiniBlockEncoder comp) d (fld_Type f) = Inr page \<and>
        (\<forall>rows. MiniBlock_Decode C (NewMiniBlockEncoder comp) page (fld_Type f) rows = Inr d))"

lemma stored_column_frame:
  "stored_column w fid f i d df \<Longrightarrow> content w' (ckey fid i) = content w (ckey fid i) \<Longrightarrow>
     stored_column w' fid f i d df"
  by (simp add: stored_column_def)

lemma encode_column:
  assumes "column_fits f d"
  obtains page where "MiniBlock_Encode C (NewMiniBlockEncoder comp) d (fld_Type f) = Inr page"
    "\<forall>rows. MiniBlock_Decode C (NewMiniBlockEncoder comp) page (fld_Type f) rows = Inr d"
proof -
  have c: "codec_ok C (Compression (NewMiniBlockEncoder comp)) (effective_block_size (NewMiniBlockEncoder comp))"
    using codec by (simp add: NewMiniBlockEncoder_def)
  have fits: "column_ok (fld_Type f) d"
    "\<forall>buf. MiniBlock_serialize d (fld_Type f) = Inr buf \<longrightarrow> length buf < 2 ^ 31"
    using assms by (auto simp: column_fits_def)
  have rt: "\<exists>page. MiniBlock_Encode C (NewMiniBlockEncoder comp) d (fld_Type f) = Inr page \<and>
      MiniBlock_Decode C (NewMiniBlockEncoder comp) page (fld_Type f) rows = Inr d" for rows
    by (rule MiniBlock_Encode_Decode [OF fits(1) c fits(2)])
  obtain page where page: "MiniBlock_Encode C (NewMiniBlockEncoder comp) d (fld_Type f) = Inr page"
    using rt [of 0] by blast
  moreover have "\<forall>rows. MiniBlock_Decode C (NewMiniBlockEncoder comp) page (fld_Type f) rows = Inr d"
    using rt page by auto
  ultimately show thesis
    by (rule that)
qed

lemma WriteColumn_ok:
  assumes "ok w" and "FieldByID (fw_schema fw) i = Some f" and "column_fits f d"
    and "fw_store fw = st" and "fw_basePath fw = fragment_dir tp fid"
    and "fw_encoder fw = NewMiniBlockEncoder comp"
  obtains w' df page where
    "WriteColumn C fw i d w = (Inr (), fw\<lparr>fw_dataFiles := fw_dataFiles fw @ [df],
       fw_numRows := max (fw_numRows fw) (column_rows f d)\<rparr>, w')"
    "ok w'" "content w' = (content w)(ckey fid i := Some page)" "stored_column w' fid f i d df"
    "MiniBlock_Encode C (NewMiniBlockEncoder comp) d (fld_Type f) = Inr page"
    "df = \<lparr>df_Path = column_path (fragment_dir tp fid) i, df_ColumnID = i, df_NumRows = column_rows f d,
       df_FileSize = int (length page)\<rparr>"
proof -
  obtain page where page: "MiniBlock_Encode C (NewMiniBlockEncoder comp) d (fld_Type f) = Inr page"
    "\<forall>rows. MiniBlock_Decode C (NewMiniBlockEncoder comp) page (fld_Type f) rows = Inr d"
    by (rule encode_column [OF assms(3)])
  let ?path = "column_path (fragment_dir tp fid) i"
  obtain w' where w': "Store_Write st ?path page w = (Inr (), w')" "ok w'"
    "content w' = (content w)(ckey fid i := Some page)"
    by (rule write_content [OF assms(1) column_managed])
  have "Store_Size st ?path w' = (Inr (int (length page)), w')"
    using size_ok [OF w'(2) column_managed, of fid i page] w'(3) by simp
  then have "WriteColumn C fw i d w = (Inr (), fw\<lparr>fw_dataFiles := fw_dataFiles fw @
      [\<lparr>df_Path = ?path, df_ColumnID = i, df_NumRows = column_rows f d, df_FileSize = int (length page)\<rparr>],
       fw_numRows := max (fw_numRows fw) (column_rows f d)\<rparr>, w')"
    using assms(2-) page w' inferNumRows_fits [OF assms(3)]
    by (simp add: WriteColumn_def Let_def max_def)
  moreover have "stored_column w' fid f i d
      \<lparr>df_Path = ?path, df_ColumnID = i, df_NumRows = column_rows f d, df_FileSize = int (length page)\<rparr>"
    using page w'(3) by (simp add: stored_column_def)
  ultimately show thesis
    using that w' page(1) by blast
qed

text \<open>The row count of a fragment is the largest of its columns.\<close>

definition batch_rows :: "Schema \<Rightarrow> (int, column) gomap \<Rightarrow> int \<Rightarrow> int" where
  "batch_rows schema cols n =
     foldl (\<lambda>m (i, d). max m (column_rows (the (FieldByID schema i)) d)) n cols"

lemma WriteColumns_ok:
  assumes "ok w" and "batch_fits (fw_schema fw) cols"
    and "fw_store fw = st" and "fw_basePath fw = fragment_dir tp fid"
    and "fw_encoder fw = NewMiniBlockEncoder comp"
  shows "\<exists>dfs w'. WriteColumns C fw cols w =
        (Inr (), fw\<lparr>fw_dataFiles := fw_dataFiles fw @ dfs,
           fw_numRows := batch_rows (fw_schema fw) cols (fw_numRows fw)\<rparr>, w') \<and>
      ok w' \<and> map df_ColumnID dfs = gm_keys cols \<and>
      (\<forall>k. k \<notin> ckey fid ` set (gm_keys cols) \<longrightarrow> content w' k = content w k) \<and>
      list_all2 (\<lambda>(i, d) df. stored_column w' fid (the (FieldByID (fw_schema fw) i)) i d df) cols dfs"
  using assms
proof (induction cols arbitrary: fw w)
  case Nil
  then show ?case
    by (intro exI [of _ "[]"] exI [of _ w]) (simp add: batch_rows_def)
next
  case (Cons x cols)
  obtain i d where x: "x = (i, d)"
    by (cases x)
  obtain f where f: "FieldByID (fw_schema fw) i = Some f" "column_fits f d"
    and cols: "batch_fits (fw_schema fw) cols" and new: "i \<notin> set (gm_keys cols)"
    using Cons.prems(2) by (auto simp: x batch_fits_def gm_ok_def gm_keys_def split: option.splits)
  obtain w1 df page where w1:
    "WriteColumn C fw i d w = (Inr (), fw\<lparr>fw_dataFiles := fw_dataFiles fw @ [df],
       fw_numRows := max (fw_numRows fw) (column_rows f d)\<rparr>, w1)"
    "ok w1" "content w1 = (content w)(ckey fid i := Some page)" "stored_column w1 fid f i d df"
    "MiniBlock_Encode C (NewMiniBlockEncoder comp) d (fld_Type f) = Inr page"
    "df = \<lparr>df_Path = column_path (fragment_dir tp fid) i, df_ColumnID = i, df_NumRows = column_rows f d,
       df_FileSize = int (length page)\<rparr>"
    by (rule WriteColumn_ok [OF Cons.prems(1) f Cons.prems(3-5)])
  let ?fw1 = "fw\<lparr>fw_dataFiles := fw_dataFiles fw @ [df],
       fw_numRows := max (fw_numRows fw) (column_rows f d)\<rparr>"
  obtain dfs w' where w': "WriteColumns C ?fw1 cols w1 =
        (Inr (), ?fw1\<lparr>fw_dataFiles := fw_dataFiles ?fw1 @ dfs,
           fw_numRows := batch_rows (fw_schema ?fw1) cols (fw_numRows ?fw1)\<rparr>, w')"
      "ok w'" "map df_ColumnID dfs = gm_keys cols"
      "\<forall>k. k \<notin> ckey fid ` set (gm_keys cols) \<longrightarrow> content w' k = content w1 k"
      "list_all2 (\<lambda>(i, d) df. stored_column w' fid (the (FieldByID (fw_schema ?fw1) i)) i d df) cols dfs"
    using Cons.IH [OF w1(2), of ?fw1] cols Cons.prems(3-5) by auto
  have "ckey fid i \<notin> ckey fid ` set (gm_keys cols)"
    using new by (auto simp: column_key)
  then have "stored_column w' fid f i d df"
    using stored_column_frame [OF w1(4)] w'(4) by blast
  moreover have "df_ColumnID df = i"
    using w1(4) by (simp add: stored_column_def)
  moreover have "content w' k = content w k" if "k \<notin> ckey fid ` set (gm_keys (x # cols))" for k
    using that w'(4) w1(3) by (simp add: x gm_keys_def)
  ultimately show ?case
    using w' w1(1) f(1) by (intro exI [of _ "df # dfs"] exI [of _ w']) (simp add: x gm_keys_def batch_rows_def)
qed

lemma find_zip:
  "list_all2 (\<lambda>(i, d) df. P i d df \<and> df_ColumnID df = i) cols dfs \<Longrightarrow> (i, d) \<in> set cols \<Longrightarrow>
     distinct (map fst cols) \<Longrightarrow> \<exists>df. find (\<lambda>df. df_ColumnID df = i) dfs = Some df \<and> P i d df"
proof (induction cols arbitrary: dfs)
  case (Cons x cols)
  then obtain df dfs' where dfs: "dfs = df # dfs'" "P (fst x) (snd x) df" "df_ColumnID df = fst x"
    "list_all2 (\<lambda>(i, d) df. P i d df \<and> df_ColumnID df = i) cols dfs'"
    by (cases x) (auto simp: list_all2_Cons1)
  show ?case
  proof (cases "x = (i, d)")
    case True
    then show ?thesis using dfs by simp
  next
    case False
    then have "(i, d) \<in> set cols" "fst x \<noteq> i"
      using Cons.prems(2,3) by (auto simp: rev_image_eqI)
    then have "\<exists>df. find (\<lambda>df. df_ColumnID df = i) dfs' = Some df \<and> P i d df"
      using Cons.IH [OF dfs(4)] Cons.prems(3) by simp
    with \<open>fst x \<noteq> i\<close> show ?thesis
      unfolding dfs(1) find.simps dfs(3) by simp
  qed
qed simp

text \<open>A fragment whose files hold the columns of a batch.\<close>

definition fragment_holds :: "'w \<Rightarrow> Schema \<Rightarrow> (int, column) gomap \<Rightarrow> Fragment \<Rightarrow> bool" where
  "fragment_holds w schema cols frag \<longleftrightarrow>
     (\<forall>(i, d) \<in> set cols. \<exists>f df. FieldByID schema i = Some f \<and> findDataFile frag i = Some df \<and>
        stored_column w (fr_ID frag) f i d df)"

lemma fragment_holds_frame:
  assumes "fragment_holds w schema cols frag"
    and "\<And>i. content w' (ckey (fr_ID frag) i) = content w (ckey (fr_ID frag) i)"
  shows "fragment_holds w' schema cols frag"
  using assms stored_column_frame unfolding fragment_holds_def by blast

lemma WriteBatch_holds:
  assumes "ok w" and "batch_fits schema (rb_Columns batch)"
  obtains w' fw' where
    "WriteBatch C (NewFragmentWriter st schema fid tp comp) batch w = (Inr (), fw', w')" "ok w'"
    "fragment_holds w' schema (rb_Columns batch) (Finish fw')" "fr_ID (Finish fw') = fid"
    "ColumnIDs (Finish fw') = gm_keys (rb_Columns batch)"
    "fr_NumRows (Finish fw') = batch_rows schema (rb_Columns batch) 0"
    "\<And>k. k \<notin> range (ckey fid) \<Longrightarrow> content w' k = content w k"
    "list_all2 (\<lambda>(i, d) df. stored_column w' fid (the (FieldByID schema i)) i d df) (rb_Columns batch)
       (fr_DataFiles (Finish fw'))"
    "fr_DeletionFile (Finish fw') = None" "fr_PhysicalRows (Finish fw') = fr_NumRows (Finish fw')"
proof -
  let ?fw = "NewFragmentWriter st schema fid tp comp" and ?cols = "rb_Columns batch"
  have fw: "fw_store ?fw = st" "fw_basePath ?fw = fragment_dir tp fid"
    "fw_encoder ?fw = NewMiniBlockEncoder comp" "fw_schema ?fw = schema"
    by (simp_all add: NewFragmentWriter_def)
  have fits: "batch_fits (fw_schema ?fw) ?cols"
    using assms(2) fw(4) by simp
  obtain dfs w' where w': "WriteColumns C ?fw ?cols w =
        (Inr (), ?fw\<lparr>fw_dataFiles := fw_dataFiles ?fw @ dfs,
           fw_numRows := batch_rows (fw_schema ?fw) ?cols (fw_numRows ?fw)\<rparr>, w')"
      "ok w'" "map df_ColumnID dfs = gm_keys ?cols"
      "\<forall>k. k \<notin> ckey fid ` set (gm_keys ?cols) \<longrightarrow> content w' k = content w k"
      "list_all2 (\<lambda>(i, d) df. stored_column w' fid (the (FieldByID (fw_schema ?fw) i)) i d df) ?cols dfs"
    using WriteColumns_ok [OF assms(1) fits fw(1-3)] by blast
  define fw' where "fw' = ?fw\<lparr>fw_dataFiles := fw_dataFiles ?fw @ dfs,
           fw_numRows := batch_rows (fw_schema ?fw) ?cols (fw_numRows ?fw)\<rparr>"
  have run: "WriteBatch C ?fw batch w = (Inr (), fw', w')"
    using w'(1) by (simp add: WriteBatch_def fw'_def)
  have all: "list_all2 (\<lambda>(i, d) df. stored_column w' fid (the (FieldByID schema i)) i d df \<and> df_ColumnID df = i) ?cols dfs"
    using w'(5) unfolding fw(4) by (rule list_all2_mono) (auto simp: stored_column_def)
  have frag: "fr_DataFiles (Finish fw') = dfs" "fr_ID (Finish fw') = fid"
    "fr_NumRows (Finish fw') = batch_rows schema ?cols 0"
    "fr_DeletionFile (Finish fw') = None" "fr_PhysicalRows (Finish fw') = fr_NumRows (Finish fw')"
    by (simp_all add: fw'_def Finish_def NewFragment_def NewFragmentWriter_def)
  have holds: "fragment_holds w' schema ?cols (Finish fw')"
    unfolding fragment_holds_def findDataFile_def frag
  proof clarify
    fix i d assume id: "(i, d) \<in> set ?cols"
    obtain f where "FieldByID schema i = Some f"
      using assms(2) id by (fastforce simp: batch_fits_def list_all_iff split: option.splits)
    with find_zip [OF all id] assms(2)
    show "\<exists>f df. FieldByID schema i = Some f \<and> find (\<lambda>df. df_ColumnID df = i) dfs = Some df \<and>
        stored_column w' fid f i d df"
      by (auto simp: batch_fits_def gm_ok_def gm_keys_def)
  qed
  have ids: "ColumnIDs (Finish fw') = gm_keys ?cols"
    using w'(3) frag(1) by (simp add: ColumnIDs_def)
  have files: "list_all2 (\<lambda>(i, d) df. stored_column w' fid (the (FieldByID schema i)) i d df) ?cols (fr_DataFiles (Finish fw'))"
    using w'(5) unfolding frag(1) fw(4) .
  have "content w' k = content w k" if "k \<notin> range (ckey fid)" for k
    using that w'(4) by blast
  then show thesis
    by (rule that [OF run w'(2) holds frag(2) ids frag(3) _ files frag(4,5)])
qed

lemma ReadColumn_holds:
  assumes "ok w" and "fragment_holds w schema cols frag" and "map_of cols i = Some d"
  shows "ReadColumn C (NewFragmentReader st schema comp) frag i w = (Inr d, w)"
proof -
  obtain f df where f: "FieldByID schema i = Some f" "findDataFile frag i = Some df"
    "stored_column w (fr_ID frag) f i d df"
    using assms(2) map_of_SomeD [OF assms(3)] unfolding fragment_holds_def by blast
  then obtain page where page: "content w (ckey (fr_ID frag) i) = Some page"
    "df_FileSize df = int (length page)" "df_Path df = column_path (fragment_dir tp (fr_ID frag)) i"
    "\<And>rows. MiniBlock_Decode C (NewMiniBlockEncoder comp) page (fld_Type f) rows = Inr d"
    by (auto simp: stored_column_def)
  then have "Store_Read st (df_Path df) 0 (df_FileSize df) w = (Inr page, w)"
    using read_ok [OF assms(1) column_managed page(1), of "int (length page)"] by simp
  with f page(4) show ?thesis
    by (simp add: ReadColumn_def NewFragmentReader_def)
qed

text \<open>Whatever the columns are, only files of the fragment change, and a data file is on the disk.\<close>

definition file_present :: "'w \<Rightarrow> int \<Rightarrow> DataFile \<Rightarrow> bool" where
  "file_present w fid df \<longleftrightarrow>
     df_Path df = column_path (fragment_dir tp fid) (df_ColumnID df) \<and>
     (\<exists>page. content w (ckey fid (df_ColumnID df)) = Some page \<and> df_FileSize df = int (length page))"

lemma file_present_frame:
  "file_present w fid df \<Longrightarrow> content w' (ckey fid (df_ColumnID df)) = content w (ckey fid (df_ColumnID df)) \<Longrightarrow>
     file_present w' fid df"
  by (simp add: file_present_def)

lemma WriteColumn_any:
  assumes "ok w" and "fw_store fw = st" and "fw_basePath fw = fragment_dir tp fid"
    and "WriteColumn C fw i d w = (r, fw', w')"
  shows "ok w' \<and> (\<forall>k. k \<noteq> ckey fid i \<longrightarrow> content w' k = content w k) \<and>
    (case r of Inl e \<Rightarrow> fw' = fw
     | Inr _ \<Rightarrow> \<exists>df n. fw' = fw\<lparr>fw_dataFiles := fw_dataFiles fw @ [df], fw_numRows := n\<rparr> \<and>
         df_ColumnID df = i \<and> file_present w' fid df)"
proof (cases "FieldByID (fw_schema fw) i")
  case None
  then show ?thesis
    using assms by (auto simp: WriteColumn_def)
next
  case (Some f)
  show ?thesis
  proof (cases "MiniBlock_Encode C (fw_encoder fw) d (fld_Type f)")
    case (Inl e)
    then show ?thesis
      using assms Some by (auto simp: WriteColumn_def)
  next
    case (Inr page)
    let ?path = "column_path (fragment_dir tp fid) i"
    obtain w1 where w1: "Store_Write st ?path page w = (Inr (), w1)" "ok w1"
      "content w1 = (content w)(ckey fid i := Some page)"
      by (rule write_content [OF assms(1) column_managed])
    have "Store_Size st ?path w1 = (Inr (int (length page)), w1)"
      using size_ok [OF w1(2) column_managed, of fid i page] w1(3) by simp
    show ?thesis
    proof (cases "inferNumRows d f")
      case (Inl e)
      then have "WriteColumn C fw i d w = (Inl e, fw, w1)"
        using assms(2,3) Some Inr w1 \<open>Store_Size st ?path w1 = _\<close> by (simp add: WriteColumn_def Let_def)
      then show ?thesis
        using assms(4) w1 by simp
    next
      case n: (Inr n)
      let ?df = "\<lparr>df_Path = ?path, df_ColumnID = i, df_NumRows = n, df_FileSize = int (length page)\<rparr>"
      have "WriteColumn C fw i d w =
          (Inr (), fw\<lparr>fw_dataFiles := fw_dataFiles fw @ [?df], fw_numRows := max (fw_numRows fw) n\<rparr>, w1)"
        using assms(2,3) Some Inr w1 \<open>Store_Size st ?path w1 = _\<close> n by (simp add: WriteColumn_def Let_def max_def)
      moreover have "file_present w1 fid ?df"
        using w1(3) by (simp add: file_present_def)
      ultimately show ?thesis
        using assms(4) w1 by (auto intro: exI [of _ ?df])
    qed
  qed
qed

lemma WriteColumns_any:
  assumes "ok w" and "fw_store fw = st" and "fw_basePath fw = fragment_dir tp fid"
    and "WriteColumns C fw cols w = (r, fw', w')" and "distinct (gm_keys cols)"
  shows "ok w' \<and> (\<forall>k. k \<notin> ckey fid ` set (gm_keys cols) \<longrightarrow> content w' k = content w k) \<and>
    (case r of Inl e \<Rightarrow> True
     | Inr _ \<Rightarrow> \<exists>dfs n. fw' = fw\<lparr>fw_dataFiles := fw_dataFiles fw @ dfs, fw_numRows := n\<rparr> \<and>
         map df_ColumnID dfs = gm_keys cols \<and> list_all (file_present w' fid) dfs)"
  using assms
proof (induction cols arbitrary: fw w)
  case Nil
  then show ?case
    by (auto intro!: exI [of _ "[]"] exI [of _ "fw_numRows fw"])
next
  case (Cons x cols)
  obtain i d where x: "x = (i, d)"
    by (cases x)
  obtain r1 fw1 w1 where c: "WriteColumn C fw i d w = (r1, fw1, w1)"
    by (metis prod_cases3)
  note one = WriteColumn_any [OF Cons.prems(1-3) c]
  have new: "i \<notin> set (gm_keys cols)" "distinct (gm_keys cols)"
    using Cons.prems(5) by (simp_all add: x gm_keys_def)
  show ?case
  proof (cases r1)
    case (Inl e)
    then show ?thesis
      using one Cons.prems(4) by (auto simp: x c gm_keys_def)
  next
    case (Inr u)
    obtain df n where df: "fw1 = fw\<lparr>fw_dataFiles := fw_dataFiles fw @ [df], fw_numRows := n\<rparr>"
      "df_ColumnID df = i" "file_present w1 fid df" "ok w1" "\<forall>k. k \<noteq> ckey fid i \<longrightarrow> content w1 k = content w k"
      using one Inr by auto
    have run: "WriteColumns C fw1 cols w1 = (r, fw', w')"
      using Cons.prems(4) by (simp add: x c Inr)
    note rest = Cons.IH [OF df(4) _ _ run new(2), unfolded df(1), simplified, OF Cons.prems(2,3)]
    have frame: "\<forall>k. k \<notin> ckey fid ` set (gm_keys (x # cols)) \<longrightarrow> content w' k = content w k"
      using rest df(5) by (simp add: x gm_keys_def)
    have "ckey fid i \<notin> ckey fid ` set (gm_keys cols)"
      using new by (auto simp: column_key)
    then have "file_present w' fid df"
      using file_present_frame [OF df(3)] df(2) rest by metis
    then show ?thesis
    proof (cases r)
      case (Inr u)
      obtain dfs n' where dfs: "fw' = fw\<lparr>fw_dataFiles := fw_dataFiles fw @ df # dfs, fw_numRows := n'\<rparr>"
        "map df_ColumnID dfs = gm_keys cols" "list_all (file_present w' fid) dfs"
        using rest Inr by auto
      then show ?thesis
        using rest frame df(2) Inr \<open>file_present w' fid df\<close>
        by (intro conjI) (auto simp: x gm_keys_def intro!: exI [of _ "df # dfs"] exI [of _ n'])
    qed (use rest frame in auto)
  qed
qed

end

section \<open>A store that answers every read with one page\<close>

text \<open>An example for the readers: its state is empty, and every column reads as the given one.\<close>

definition page_store :: "column \<Rightarrow> DataType \<Rightarrow> unit Store" where
  "page_store data dt =
     \<lparr>Store_Read = \<lambda>p off len w. (MiniBlock_Encode no_codecs (NewMiniBlockEncoder CompressionNone) data dt, w),
      Store_Write = \<lambda>p d w. (Inl (StoErr ErrOS), w), Store_Delete = \<lambda>p w. (Inl (StoErr ErrOS), w),
      Store_Exists = \<lambda>p w. (Inr True, w), Store_List = \<lambda>p w. (Inr [], w), Store_Size = \<lambda>p w. (Inr 0, w),
      Store_OpenWrite = \<lambda>p w. (Inl (StoErr ErrOS), w)\<rparr>"

definition page_fragment :: "int \<Rightarrow> int \<Rightarrow> Fragment" where
  "page_fragment i rows =
     (NewFragment i)\<lparr>fr_NumRows := rows, fr_DataFiles := [\<lparr>df_Path = ''p'', df_ColumnID = 0, df_NumRows = rows, df_FileSize = 0\<rparr>]\<rparr>"

end
