(* ===== verification/MergeBatches.thy ===== *)
theory MergeBatches
  imports TableData
begin

text \<open>
  \<open>mergeColumn\<close> and \<open>mergeRecordBatches\<close> of \<^verbatim>\<open>src/table/async_writer.go\<close>: the columns of
  several batches, appended. Slices are values here and \<open>append\<close> is concatenation. That holds of slices
  that share no backing array: \<open>append\<close> may write into spare capacity of the first slice, which a caller
  that has handed over overlapping slices would see; no such caller is modelled.
\<close>

fun mergeColumn :: "column \<Rightarrow> column \<Rightarrow> column res" where
  "mergeColumn (Int8s a) incoming =
     (case incoming of Int8s b \<Rightarrow> Inr (Int8s (a @ b)) | _ \<Rightarrow> Inl (TblErr ErrMergeType))"
| "mergeColumn (Int16s a) incoming =
     (case incoming of Int16s b \<Rightarrow> Inr (Int16s (a @ b)) | _ \<Rightarrow> Inl (TblErr ErrMergeType))"
| "mergeColumn (Int32s a) incoming =
     (case incoming of Int32s b \<Rightarrow> Inr (Int32s (a @ b)) | _ \<Rightarrow> Inl (TblErr ErrMergeType))"
| "mergeColumn (Int64s a) incoming =
     (case incoming of Int64s b \<Rightarrow> Inr (Int64s (a @ b)) | _ \<Rightarrow> Inl (TblErr ErrMergeType))"
| "mergeColumn (Float32s a) incoming =
     (case incoming of Float32s b \<Rightarrow> Inr (Float32s (a @ b)) | _ \<Rightarrow> Inl (TblErr ErrMergeType))"
| "mergeColumn (Float64s a) incoming =
     (case incoming of Float64s b \<Rightarrow> Inr (Float64s (a @ b)) | _ \<Rightarrow> Inl (TblErr ErrMergeType))"
| "mergeColumn (Strings a) incoming =
     (case incoming of Strings b \<Rightarrow> Inr (Strings (a @ b)) | _ \<Rightarrow> Inl (TblErr ErrMergeType))"
| "mergeColumn (Binaries a) incoming =
     (case incoming of Binaries b \<Rightarrow> Inr (Binaries (a @ b)) | _ \<Rightarrow> Inl (TblErr ErrMergeType))"
| "mergeColumn OtherValue incoming = Inl (TblErr ErrMergeUnsupported)"

text \<open>
  The inner loop over the batches after the first, and the outer one over the columns of the first.
  The schemas are compared by pointer, which \<open>same\<close> stands for.
\<close>

fun merge_rest :: "column \<Rightarrow> int \<Rightarrow> RecordBatch list \<Rightarrow> column res" where
  "merge_rest result colID [] = Inr result"
| "merge_rest result colID (b # bs) =
     (case map_of (rb_Columns b) colID of
        None \<Rightarrow> merge_rest result colID bs
      | Some data \<Rightarrow>
          (case mergeColumn result data of
             Inl e \<Rightarrow> Inl e
           | Inr result' \<Rightarrow> merge_rest result' colID bs))"

fun merge_columns ::
  "(int, column) gomap \<Rightarrow> RecordBatch list \<Rightarrow> RecordBatch \<Rightarrow> RecordBatch res" where
  "merge_columns [] rest merged = Inr merged"
| "merge_columns ((colID, first) # cols) rest merged =
     (case merge_rest first colID rest of
        Inl e \<Rightarrow> Inl e
      | Inr result \<Rightarrow> merge_columns cols rest (SetColumn colID result merged))"

fun total_rows :: "(RecordBatch \<Rightarrow> bool) \<Rightarrow> RecordBatch list \<Rightarrow> int \<Rightarrow> int res" where
  "total_rows same_schema [] n = Inr n"
| "total_rows same_schema (b # bs) n =
     (if \<not> same_schema b then Inl (TblErr ErrSchemaMismatch)
      else total_rows same_schema bs (wrap64 (n + rb_NumRows b)))"

definition mergeRecordBatches ::
  "(RecordBatch \<Rightarrow> RecordBatch \<Rightarrow> bool) \<Rightarrow> RecordBatch list \<Rightarrow> RecordBatch res" where
  "mergeRecordBatches same batches =
     (case batches of
        [] \<Rightarrow> Inl (TblErr ErrNoBatches)
      | [b] \<Rightarrow> Inr b
      | b # rest \<Rightarrow>
          (case total_rows (same b) batches 0 of
             Inl e \<Rightarrow> Inl e
           | Inr totalRows \<Rightarrow>
               merge_columns (rb_Columns b) rest (NewRecordBatch (rb_Schema b) totalRows)))"

section \<open>What merging does to the values\<close>

datatype cell =
    CInt8 "8 word" | CInt16 "16 word" | CInt32 "32 word" | CInt64 "64 word"
  | CFloat32 f32 | CFloat64 f64 | CString string | CBinary "byte list"

fun cells :: "column \<Rightarrow> cell list" where
  "cells (Int8s a) = map CInt8 a"
| "cells (Int16s a) = map CInt16 a"
| "cells (Int32s a) = map CInt32 a"
| "cells (Int64s a) = map CInt64 a"
| "cells (Float32s a) = map CFloat32 a"
| "cells (Float64s a) = map CFloat64 a"
| "cells (Strings a) = map CString a"
| "cells (Binaries a) = map CBinary a"
| "cells OtherValue = []"

text \<open>The slice type of a column; none for any other value.\<close>

fun slice_type :: "column \<Rightarrow> nat option" where
  "slice_type (Int8s a) = Some 0"
| "slice_type (Int16s a) = Some 1"
| "slice_type (Int32s a) = Some 2"
| "slice_type (Int64s a) = Some 3"
| "slice_type (Float32s a) = Some 4"
| "slice_type (Float64s a) = Some 5"
| "slice_type (Strings a) = Some 6"
| "slice_type (Binaries a) = Some 7"
| "slice_type OtherValue = None"

lemma mergeColumn_spec:
  "(case mergeColumn a b of
      Inl e \<Rightarrow> slice_type a = None \<or> slice_type a \<noteq> slice_type b
    | Inr c \<Rightarrow> cells c = cells a @ cells b \<and> slice_type c = slice_type a \<and> slice_type a = slice_type b \<and>
        slice_type a \<noteq> None)"
  by (cases a; cases b) simp_all

definition batch_cells :: "int \<Rightarrow> RecordBatch \<Rightarrow> cell list" where
  "batch_cells i b = (case Column b i of None \<Rightarrow> [] | Some c \<Rightarrow> cells c)"

definition mergeable :: "int \<Rightarrow> column \<Rightarrow> RecordBatch list \<Rightarrow> bool" where
  "mergeable i c bs \<longleftrightarrow>
     list_all (\<lambda>b. case Column b i of None \<Rightarrow> True | Some d \<Rightarrow> slice_type c \<noteq> None \<and> slice_type d = slice_type c) bs"

lemma merge_rest_spec:
  "(case merge_rest c i bs of
      Inl e \<Rightarrow> \<not> mergeable i c bs
    | Inr r \<Rightarrow> mergeable i c bs \<and> cells r = cells c @ concat (map (batch_cells i) bs))"
proof (induction c i bs rule: merge_rest.induct)
  case (2 c i b bs)
  show ?case
  proof (cases "map_of (rb_Columns b) i")
    case None
    with 2 show ?thesis
      by (auto simp: mergeable_def batch_cells_def Column_def split: sum.splits)
  next
    case (Some d)
    show ?thesis
    proof (cases "mergeColumn c d")
      case (Inl e)
      then show ?thesis
        using Some mergeColumn_spec [of c d] by (auto simp: mergeable_def Column_def)
    next
      case (Inr r)
      note spec = mergeColumn_spec [of c d, unfolded Inr, simplified]
      have "slice_type r = slice_type c"
        using spec by simp
      then have "mergeable i c bs = mergeable i r bs"
        by (simp only: mergeable_def)
      moreover obtain y where "slice_type c = Some y" "slice_type d = Some y"
        using spec by (metis option.exhaust)
      then have "mergeable i c (b # bs) = mergeable i c bs"
        using Some by (simp add: mergeable_def Column_def)
      moreover have "batch_cells i b = cells d"
        using Some by (simp add: batch_cells_def Column_def)
      ultimately show ?thesis
        using "2.IH"(2) [OF Some Inr] \<open>mergeable i c (b # bs) = mergeable i c bs\<close> Some Inr spec
        by (simp split: sum.splits)
    qed
  qed
qed (simp add: mergeable_def)

lemma merge_columns_spec:
  assumes "distinct (map fst cols)"
  shows "(case merge_columns cols rest m of
      Inl e \<Rightarrow> \<not> list_all (\<lambda>(i, c). mergeable i c rest) cols
    | Inr m' \<Rightarrow> list_all (\<lambda>(i, c). mergeable i c rest) cols \<and>
        rb_Schema m' = rb_Schema m \<and> rb_NumRows m' = rb_NumRows m \<and>
        (\<forall>i. case map_of cols i of
           None \<Rightarrow> Column m' i = Column m i
         | Some c \<Rightarrow> Column m' i \<noteq> None \<and> batch_cells i m' = cells c @ concat (map (batch_cells i) rest)))"
  using assms
proof (induction cols rest m rule: merge_columns.induct)
  case (2 i c cols rest m)
  show ?case
  proof (cases "merge_rest c i rest")
    case (Inl e)
    then show ?thesis
      using merge_rest_spec [where c = c and i = i and bs = rest] by simp
  next
    case (Inr r)
    note spec = merge_rest_spec [where c = c and i = i and bs = rest, unfolded Inr, simplified]
    have i: "map_of cols i = None" and d: "distinct (map fst cols)"
      using "2.prems" by (auto simp: map_of_eq_None_iff)
    show ?thesis
    proof (cases "merge_columns cols rest (SetColumn i r m)")
      case (Inl e)
      then show ?thesis
        using "2.IH" [OF Inr d] Inr by simp
    next
      case m': (Inr m')
      note IH = "2.IH" [OF Inr d, unfolded m', simplified]
      have "Column m' i = Some r"
        using IH i by (metis (mono_tags, lifting) Column_SetColumn option.case(1))
      moreover have "case map_of cols j of
           None \<Rightarrow> Column m' j = Column m j
         | Some c \<Rightarrow> Column m' j \<noteq> None \<and> batch_cells j m' = cells c @ concat (map (batch_cells j) rest)"
        if "j \<noteq> i" for j
        using conjunct2 [OF conjunct2 [OF conjunct2 [OF IH]], rule_format, of j] that
        by (auto split: option.splits)
      ultimately show ?thesis
        using IH spec Inr m' by (auto simp: SetColumn_def batch_cells_def)
    qed
  qed
qed simp

lemma merge_columns_gm_ok:
  "merge_columns cols rest m = Inr m' \<Longrightarrow> gm_ok (rb_Columns m) \<Longrightarrow> gm_ok (rb_Columns m')"
  by (induction cols rest m rule: merge_columns.induct) (auto simp: SetColumn_def split: sum.splits)

lemma mergeRecordBatches_gm_ok:
  "mergeRecordBatches same bs = Inr m \<Longrightarrow> \<forall>b \<in> set bs. gm_ok (rb_Columns b) \<Longrightarrow> gm_ok (rb_Columns m)"
  by (auto simp: mergeRecordBatches_def NewRecordBatch_def split: list.splits sum.splits dest!: merge_columns_gm_ok)

lemma total_rows_spec:
  "total_rows same bs n =
     (if list_all same bs then Inr (foldl (\<lambda>k b. wrap64 (k + rb_NumRows b)) n bs) else Inl (TblErr ErrSchemaMismatch))"
  by (induction same bs n rule: total_rows.induct) simp_all

section \<open>Properties\<close>

text \<open>
  C34: merging batches of one schema appends, for every column of the first batch, the values the
  batches hold for it in their order, and adds up their rows; it fails exactly when a batch has
  another schema or a column of another slice type. Columns only later batches have are left out.
\<close>

theorem mergeRecordBatches_appends:
  assumes "distinct (map fst (rb_Columns b))" and "rest \<noteq> []"
  shows "(case mergeRecordBatches same (b # rest) of
      Inl e \<Rightarrow> \<not> list_all (same b) (b # rest) \<or> \<not> list_all (\<lambda>(i, c). mergeable i c rest) (rb_Columns b)
    | Inr m \<Rightarrow> list_all (same b) (b # rest) \<and> list_all (\<lambda>(i, c). mergeable i c rest) (rb_Columns b) \<and>
        rb_Schema m = rb_Schema b \<and>
        rb_NumRows m = foldl (\<lambda>k b. wrap64 (k + rb_NumRows b)) 0 (b # rest) \<and>
        (\<forall>i. if Column b i = None then Column m i = None
             else Column m i \<noteq> None \<and> batch_cells i m = concat (map (batch_cells i) (b # rest))))"
proof -
  obtain b' rest' where rest: "rest = b' # rest'"
    using assms(2) by (cases rest) auto
  show ?thesis
  proof (cases "list_all (same b) (b # rest)")
    case False
    then show ?thesis
      by (auto simp: mergeRecordBatches_def rest total_rows_spec)
  next
    case True
    let ?n = "foldl (\<lambda>k b. wrap64 (k + rb_NumRows b)) 0 (b # rest)"
    have m: "mergeRecordBatches same (b # rest) = merge_columns (rb_Columns b) rest (NewRecordBatch (rb_Schema b) ?n)"
      using True by (simp add: mergeRecordBatches_def rest total_rows_spec)
    have "Column (NewRecordBatch (rb_Schema b) ?n) i = None" for i
      by (simp add: Column_def NewRecordBatch_def)
    moreover have "Column b i = map_of (rb_Columns b) i" for i
      by (simp add: Column_def)
    moreover note spec = merge_columns_spec [OF assms(1), of rest "NewRecordBatch (rb_Schema b) ?n"]
    ultimately show ?thesis
    proof (cases "merge_columns (rb_Columns b) rest (NewRecordBatch (rb_Schema b) ?n)")
      case (Inl e)
      then show ?thesis
        using spec unfolding m by simp
    next
      case (Inr r)
      note spec = spec [unfolded Inr, simplified]
      have "if Column b i = None then Column r i = None
            else Column r i \<noteq> None \<and> batch_cells i r = concat (map (batch_cells i) (b # rest))" for i
        using conjunct2 [OF conjunct2 [OF conjunct2 [OF spec]], rule_format, of i]
        by (auto simp: Column_def NewRecordBatch_def batch_cells_def split: option.splits)
      with spec True show ?thesis
        unfolding m Inr by (simp add: NewRecordBatch_def)
    qed
  qed
qed

theorem mergeRecordBatches_appends_witness:
  "case mergeRecordBatches (\<lambda>_ _. True)
     [SetColumn 0 (Int64s [1]) (NewRecordBatch (NewSchema []) 1), SetColumn 0 (Int64s [2]) (NewRecordBatch (NewSchema []) 1)]
   of Inl e \<Rightarrow> False | Inr m \<Rightarrow> rb_NumRows m = 2 \<and> batch_cells 0 m = [CInt64 1, CInt64 2]"
proof -
  let ?b = "SetColumn 0 (Int64s [1]) (NewRecordBatch (NewSchema []) 1)"
    and ?c = "SetColumn 0 (Int64s [2]) (NewRecordBatch (NewSchema []) 1)"
  have "distinct (map fst (rb_Columns ?b))" "list_all (\<lambda>(i, c). mergeable i c [?c]) (rb_Columns ?b)"
    "batch_cells 0 ?b = [CInt64 1]" "batch_cells 0 ?c = [CInt64 2]" "Column ?b 0 \<noteq> None"
    "foldl (\<lambda>k b. wrap64 (k + rb_NumRows b)) 0 [?b, ?c] = 2"
    by (simp_all add: SetColumn_def NewRecordBatch_def gm_put_def mergeable_def batch_cells_def Column_def fits64_def)
  then show ?thesis
    using mergeRecordBatches_appends [of ?b "[?c]" "\<lambda>_ _. True"] by (auto split: sum.splits)
qed

end
