(* ===== verification/Table.thy ===== *)
theory Table
  imports ManifestStore FragmentIO VersionManager MergeBatches
begin

text \<open>
  \<^verbatim>\<open>src/table/table.go\<close>: a table with its versions. Every method holds the lock, so it is one
  step of the table and the store; the time of day is an argument. A method that fails returns the
  state it has reached.
\<close>

section \<open>Operations\<close>

record 'w Table =
  tb_name :: string
  tb_tablePath :: string
  tb_schema :: Schema
  tb_store :: "'w Store"
  tb_manifestStore :: "'w ManifestStore"
  tb_versionMgr :: VersionManager
  tb_compression :: CompressionType
  tb_nextFragmentID :: int
  tb_nextVersion :: int

definition NewTable ::
  "string \<Rightarrow> string \<Rightarrow> Schema \<Rightarrow> 'w Store \<Rightarrow> CompressionType \<Rightarrow> 'w Table" where
  "NewTable name tablePath schema store compression =
     \<lparr>tb_name = name, tb_tablePath = tablePath, tb_schema = schema, tb_store = store,
      tb_manifestStore = NewManifestStore store (path_Join [tablePath, ''_versions'']),
      tb_versionMgr = NewVersionManager 10, tb_compression = compression,
      tb_nextFragmentID = 0, tb_nextVersion = 1\<rparr>"

definition Create ::
  "int \<Rightarrow> string \<Rightarrow> string \<Rightarrow> Schema \<Rightarrow> 'w Store \<Rightarrow> CompressionType \<Rightarrow> 'w \<Rightarrow> 'w Table res \<times> 'w" where
  "Create now name tablePath schema store compression w =
     (let t = NewTable name tablePath schema store compression;
          manifest = (NewManifest (tb_nextVersion t) schema)\<lparr>man_MaxFragmentID := 0, man_Timestamp := now\<rparr>
      in case MS_Write (tb_manifestStore t) manifest w of
           (Inl e, w1) \<Rightarrow> (Inl e, w1)
         | (Inr _, w1) \<Rightarrow>
             (Inr (t\<lparr>tb_nextVersion := wrap64 (tb_nextVersion t + 1),
                     tb_versionMgr := Publish manifest (tb_versionMgr t)\<rparr>), w1))"

definition OpenTable ::
  "string \<Rightarrow> string \<Rightarrow> 'w Store \<Rightarrow> CompressionType \<Rightarrow> 'w \<Rightarrow> 'w Table res \<times> 'w" where
  "OpenTable name tablePath store compression w =
     (let t = NewTable name tablePath \<lparr>Fields = []\<rparr> store compression in
      case MS_LatestVersion (tb_manifestStore t) w of
        (Inl e, w1) \<Rightarrow> (Inl e, w1)
      | (Inr latest, w1) \<Rightarrow>
          (case MS_Read (tb_manifestStore t) latest w1 of
             (Inl e, w2) \<Rightarrow> (Inl e, w2)
           | (Inr manifest, w2) \<Rightarrow>
               (Inr (t\<lparr>tb_schema := man_Schema manifest, tb_nextVersion := wrap64 (latest + 1),
                       tb_nextFragmentID := wrap32 (man_MaxFragmentID manifest + 1),
                       tb_versionMgr := Publish manifest (tb_versionMgr t)\<rparr>), w2)))"

definition LatestManifest :: "'w Table \<Rightarrow> 'w \<Rightarrow> Manifest res \<times> 'w" where
  "LatestManifest t w =
     (case MS_LatestVersion (tb_manifestStore t) w of
        (Inl e, w1) \<Rightarrow> (Inl e, w1)
      | (Inr latestVersion, w1) \<Rightarrow>
          (case VM_Get (tb_versionMgr t) latestVersion of
             Some cached \<Rightarrow> (Inr cached, w1)
           | None \<Rightarrow> MS_Read (tb_manifestStore t) latestVersion w1))"

definition CheckoutVersion :: "'w Table \<Rightarrow> int \<Rightarrow> 'w \<Rightarrow> Manifest res \<times> 'w" where
  "CheckoutVersion t version w =
     (case VM_Get (tb_versionMgr t) version of
        Some m \<Rightarrow> (Inr m, w)
      | None \<Rightarrow> MS_Read (tb_manifestStore t) version w)"

definition NumFragments :: "'w Table \<Rightarrow> 'w \<Rightarrow> int res \<times> 'w" where
  "NumFragments t w =
     (case LatestManifest t w of
        (Inl e, w1) \<Rightarrow> (Inl e, w1)
      | (Inr m, w1) \<Rightarrow> (Inr (int (length (man_Fragments m))), w1))"

definition NumRows :: "'w Table \<Rightarrow> 'w \<Rightarrow> int res \<times> 'w" where
  "NumRows t w =
     (case LatestManifest t w of
        (Inl e, w1) \<Rightarrow> (Inl e, w1)
      | (Inr m, w1) \<Rightarrow> (Inr (foldl (\<lambda>total f. wrap64 (total + fr_NumRows f)) 0 (man_Fragments m)), w1))"

definition ListVersions :: "'w Table \<Rightarrow> 'w \<Rightarrow> int list res \<times> 'w" where
  "ListVersions t w = MS_ListVersions (tb_manifestStore t) w"

text \<open>The batch a \<open>BatchInsert\<close> writes.\<close>

definition insert_batch ::
  "(RecordBatch \<Rightarrow> RecordBatch \<Rightarrow> bool) \<Rightarrow> RecordBatch list \<Rightarrow> RecordBatch res" where
  "insert_batch same batches =
     (if length batches > 1 then mergeRecordBatches same batches else Inr (hd batches))"

text \<open>
  The tail that \<open>BatchInsert\<close>, \<open>AddColumn\<close> and \<open>DropColumn\<close> have in common: the next version is
  taken, the manifest written, and published once it is on the disk.
\<close>

definition commit_manifest :: "(int \<Rightarrow> Manifest) \<Rightarrow> 'w Table \<Rightarrow> 'w \<Rightarrow> unit res \<times> 'w Table \<times> 'w" where
  "commit_manifest mk t w =
     (let version = tb_nextVersion t; t1 = t\<lparr>tb_nextVersion := wrap64 (version + 1)\<rparr>; m = mk version in
      case MS_Write (tb_manifestStore t1) m w of
        (Inl e, w1) \<Rightarrow> (Inl e, t1, w1)
      | (Inr _, w1) \<Rightarrow>
          (Inr (), t1\<lparr>tb_schema := man_Schema m, tb_versionMgr := Publish m (tb_versionMgr t1)\<rparr>, w1))"

definition BatchInsert ::
  "(RecordBatch \<Rightarrow> RecordBatch \<Rightarrow> bool) \<Rightarrow> codecs \<Rightarrow> int \<Rightarrow> 'w Table \<Rightarrow> RecordBatch list \<Rightarrow> 'w \<Rightarrow>
     Fragment res \<times> 'w Table \<times> 'w" where
  "BatchInsert same C now t batches w =
     (if batches = [] then (Inl (TblErr ErrNoBatches), t, w)
      else case insert_batch same batches of
        Inl e \<Rightarrow> (Inl e, t, w)
      | Inr batch \<Rightarrow>
          let fragmentID = tb_nextFragmentID t;
              writer = NewFragmentWriter (tb_store t) (tb_schema t) fragmentID (tb_tablePath t) (tb_compression t)
          in (case WriteBatch C writer batch w of
                (Inl e, writer1, w1) \<Rightarrow> (Inl e, t, w1)
              | (Inr _, writer1, w1) \<Rightarrow>
                  let frag = Finish writer1;
                      t1 = t\<lparr>tb_nextFragmentID := wrap32 (fragmentID + 1)\<rparr>
                  in (case VM_Latest (tb_versionMgr t1) of
                        None \<Rightarrow> (Inl (TblErr ErrNoManifest), t1, w1)
                      | Some latest \<Rightarrow>
                          (case commit_manifest
                              (\<lambda>version. (NewManifest version (tb_schema t1))
                                 \<lparr>man_Fragments := man_Fragments latest @ [frag],
                                  man_MaxFragmentID := fragmentID, man_Timestamp := now\<rparr>) t1 w1 of
                             (Inl e, t2, w2) \<Rightarrow> (Inl e, t2, w2)
                           | (Inr _, t2, w2) \<Rightarrow> (Inr frag, t2, w2)))))"

definition Insert ::
  "(RecordBatch \<Rightarrow> RecordBatch \<Rightarrow> bool) \<Rightarrow> codecs \<Rightarrow> int \<Rightarrow> 'w Table \<Rightarrow> RecordBatch \<Rightarrow> 'w \<Rightarrow>
     Fragment res \<times> 'w Table \<times> 'w" where
  "Insert same C now t batch w = BatchInsert same C now t [batch] w"

definition max_field_ID :: "Schema \<Rightarrow> int" where
  "max_field_ID s = foldl (\<lambda>maxID f. if fld_ID f > maxID then fld_ID f else maxID) 0 (Fields s)"

text \<open>A schema change keeps the fragments of the latest manifest.\<close>

definition evolve :: "int \<Rightarrow> Schema \<Rightarrow> 'w Table \<Rightarrow> 'w \<Rightarrow> unit res \<times> 'w Table \<times> 'w" where
  "evolve now newSchema t w =
     (case VM_Latest (tb_versionMgr t) of
        None \<Rightarrow> (Inl (TblErr ErrNoManifest), t, w)
      | Some latest \<Rightarrow>
          commit_manifest
            (\<lambda>version. (NewManifest version newSchema)
               \<lparr>man_Fragments := man_Fragments latest,
                man_MaxFragmentID := man_MaxFragmentID latest, man_Timestamp := now\<rparr>) t w)"

definition AddColumn :: "int \<Rightarrow> 'w Table \<Rightarrow> Field \<Rightarrow> 'w \<Rightarrow> unit res \<times> 'w Table \<times> 'w" where
  "AddColumn now t field w =
     (if HasField (tb_schema t) (fld_Name field) then (Inl (TblErr ErrFieldExists), t, w)
      else
        let newField = set_fld_ID (wrap32 (max_field_ID (tb_schema t) + 1)) field
        in evolve now \<lparr>Fields = Fields (tb_schema t) @ [newField]\<rparr> t w)"

definition DropColumn :: "int \<Rightarrow> 'w Table \<Rightarrow> string \<Rightarrow> 'w \<Rightarrow> unit res \<times> 'w Table \<times> 'w" where
  "DropColumn now t columnName w =
     (if FieldByName (tb_schema t) columnName = None then (Inl (TblErr ErrNoColumn), t, w)
      else evolve now \<lparr>Fields = filter (\<lambda>f. fld_Name f \<noteq> columnName) (Fields (tb_schema t))\<rparr> t w)"

section \<open>Accessors\<close>

definition Table_Schema :: "'w Table \<Rightarrow> Schema" where
  "Table_Schema t = tb_schema t"

definition Table_Name :: "'w Table \<Rightarrow> string" where
  "Table_Name t = tb_name t"

definition Table_ManifestStore :: "'w Table \<Rightarrow> 'w ManifestStore" where
  "Table_ManifestStore t = tb_manifestStore t"

text \<open>\<open>Close\<close> has nothing to flush.\<close>

definition Table_Close :: "'w Table \<Rightarrow> unit res \<times> 'w Table" where
  "Table_Close t = (Inr (), t)"

end
