(* ===== verification/TableHistory.thy ===== *)
theory TableHistory
  imports Table ManifestCommit
begin

text \<open>
  The history of a table: a sequence of inserts, schema changes and reopenings only adds versions.
  The invariant ties the table's counters and its cache to the manifests on the store; it is stated
  inside a locale that joins the contracts of the manifest store and of the fragment files.
\<close>

section \<open>Publishing a newer version\<close>

lemma VM_Latest_max:
  assumes "vm_ok mx vm" and "VM_Get vm v = Some m" and "\<And>v' m'. VM_Get vm v' = Some m' \<Longrightarrow> v' \<le> v"
  shows "VM_Latest vm = Some m"
proof -
  let ?D = "dom (map_of (vm_manifests vm))"
  have "v \<in> ?D"
    using assms(2) by (auto simp: VM_Get_def)
  moreover have "Max ?D = v"
    using assms(3) \<open>v \<in> ?D\<close> by (intro Max_eqI finite_dom_map_of) (auto simp: VM_Get_def)
  moreover have "0 \<le> v"
    using assms(1) \<open>v \<in> ?D\<close> by (simp add: vm_ok_def)
  moreover have "vm_latestVersion vm = v"
    using assms(1) calculation(1,2) by (auto simp: vm_ok_def cache_latest_def)
  ultimately show ?thesis
    using assms(2) by (simp add: VM_Latest_def VM_Get_def)
qed

lemma Publish_newer:
  assumes "vm_ok mx vm" and "0 \<le> man_Version m" and "\<And>v' m'. VM_Get vm v' = Some m' \<Longrightarrow> v' < man_Version m"
  shows "vm_ok mx (Publish m vm) \<and> VM_Latest (Publish m vm) = Some m \<and>
    (\<forall>v m'. VM_Get (Publish m vm) v = Some m' \<longrightarrow> v = man_Version m \<and> m' = m \<or> VM_Get vm v = Some m')"
proof -
  let ?B = "(map_of (vm_manifests vm))(man_Version m \<mapsto> m)"
  note spec = Publish_spec [OF assms(1,2)]
  have get: "VM_Get (Publish m vm) = ?B |` top_versions mx (dom ?B)"
    using spec by (simp add: VM_Get_def cache_publish_def Let_def fun_eq_iff)
  have "Max (dom ?B) = man_Version m"
    using assms(3) by (intro Max_eqI) (auto simp: VM_Get_def finite_dom_map_of less_imp_le)
  then have "man_Version m \<in> top_versions mx (dom ?B)"
    using Max_top_versions [of "dom ?B" mx] by (simp add: finite_dom_map_of)
  then have "VM_Get (Publish m vm) (man_Version m) = Some m"
    by (simp add: get)
  moreover have sub: "v = man_Version m \<and> m' = m \<or> VM_Get vm v = Some m'"
    if "VM_Get (Publish m vm) v = Some m'" for v m'
    using that by (auto simp: get restrict_map_def VM_Get_def split: if_splits)
  moreover have "VM_Latest (Publish m vm) = Some m"
    using spec calculation(1) by (rule_tac VM_Latest_max) (auto dest!: sub assms(3))
  ultimately show ?thesis
    using spec by blast
qed

lemma NewVersionManager_ok: "vm_ok mx (NewVersionManager mx)" "VM_Get (NewVersionManager mx) v = None"
  by (simp_all add: NewVersionManager_def vm_ok_def cache_latest_def VM_Get_def)

section \<open>Steps of a table\<close>

text \<open>
  What may happen to a table: inserts of any batches, schema changes, each successful or not, and
  reopening. The side conditions keep the counters, times and sizes within their Go types.
\<close>

definition in_range :: "'w Table \<Rightarrow> int \<Rightarrow> bool" where
  "in_range t now \<longleftrightarrow>
     fits64 now \<and> tb_nextVersion t < 2 ^ 63 - 1 \<and> tb_nextFragmentID t < 2 ^ 31 - 1"

inductive table_step ::
  "(RecordBatch \<Rightarrow> RecordBatch \<Rightarrow> bool) \<Rightarrow> codecs \<Rightarrow> 'w Table \<times> 'w \<Rightarrow> 'w Table \<times> 'w \<Rightarrow> bool"
  for same C where
  step_insert: "BatchInsert same C now t bs w = (r, t', w') \<Longrightarrow> in_range t now \<Longrightarrow>
    \<forall>b \<in> set bs. gm_ok (rb_Columns b) \<Longrightarrow> \<forall>f. r = Inr f \<longrightarrow> Fragment_ok f \<Longrightarrow>
    table_step same C (t, w) (t', w')"
| step_add: "AddColumn now t field w = (ra, t', w') \<Longrightarrow> in_range t now \<Longrightarrow> Field_ok field \<Longrightarrow>
    table_step same C (t, w) (t', w')"
| step_drop: "DropColumn now t n w = (rd, t', w') \<Longrightarrow> in_range t now \<Longrightarrow>
    table_step same C (t, w) (t', w')"
| step_open: "OpenTable name (tb_tablePath t) (tb_store t) (tb_compression t) w = (Inr t', w') \<Longrightarrow>
    table_step same C (t, w) (t', w')"

inductive_cases table_stepE: "table_step same C (t, w) (t', w')"

lemma insert_batch_gm_ok:
  "insert_batch same bs = Inr b \<Longrightarrow> bs \<noteq> [] \<Longrightarrow> \<forall>b \<in> set bs. gm_ok (rb_Columns b) \<Longrightarrow> gm_ok (rb_Columns b)"
  by (auto simp: insert_batch_def dest: mergeRecordBatches_gm_ok split: if_splits)

section \<open>The sizes of a fragment\<close>

text \<open>Paths of data files that are valid text, as a manifest stores them.\<close>

definition paths_ok :: "string \<Rightarrow> bool" where
  "paths_ok tp \<longleftrightarrow> (\<forall>i j. utf8_ok (column_path (fragment_dir tp i) j))"

text \<open>A table path in ASCII gives such paths.\<close>

lemma ascii_utf8: "ascii s \<Longrightarrow> utf8_ok s"
  by (rule utf8_ok_ascii) (simp add: ascii_def list_all_iff)

lemma ascii_FormatInt: "ascii (FormatInt n)"
proof -
  have "ascii (show_nat k)" for k
    using show_nat_digits [of k] by (fastforce simp: ascii_def is_digit_def list_all_iff)
  then show ?thesis
    by (simp add: FormatInt_def)
qed

lemma paths_ok_ascii: "ascii tp \<Longrightarrow> paths_ok tp"
  unfolding paths_ok_def column_path_def fragment_dir_def
  by (intro allI ascii_utf8 ascii_Join) (auto intro!: ascii_Join simp: ascii_FormatInt)

lemma length_serializeStrings_ge: "4 * length d \<le> length (serializeStrings d)"
  by (induction d) (simp_all add: serializeStrings_def put_blob_def)

lemma length_serializeBytes_ge: "4 * length d \<le> length (serializeBytes d)"
  by (induction d) (simp_all add: serializeBytes_def put_blob_def)

lemma column_rows_bound:
  assumes "column_fits f d"
  shows "0 \<le> column_rows f d \<and> column_rows f d < 2 ^ 31"
proof -
  have div: "0 \<le> int n div k \<and> int n div k < 2 ^ 31" if k: "0 < k" and n: "4 * n < 2 ^ 31" for n and k :: int
  proof -
    obtain m where m: "k = int m"
      using k zero_less_imp_eq_int [of k] by auto
    have "n div m \<le> n"
      by (rule div_le_dividend)
    with n have "n div m < 2 ^ 31"
      by linarith
    then show ?thesis
      by (simp add: m flip: of_nat_div)
  qed
  show ?thesis
  proof (cases d)
    case (Strings x)
    with assms length_serializeStrings_ge [of x] show ?thesis
      by (auto simp: column_fits_def column_ok_def column_rows_def inferNumRows_def)
  next
    case (Binaries x)
    with assms length_serializeBytes_ge [of x] show ?thesis
      by (auto simp: column_fits_def column_ok_def column_rows_def inferNumRows_def)
  next
    case (Float32s x)
    with assms div [of "fld_Dimension f" "length x"] show ?thesis
      by (auto simp: column_fits_def column_ok_def column_rows_def inferNumRows_def)
  qed (use assms in \<open>auto simp: column_fits_def column_ok_def column_rows_def inferNumRows_def\<close>)
qed

lemma list_all2_member: "list_all2 P xs ys \<Longrightarrow> y \<in> set ys \<Longrightarrow> \<exists>x \<in> set xs. P x y"
  by (induction xs ys rule: list_all2_induct) auto

section \<open>The invariant\<close>

locale table_client =
  manifest_client st key content good ok managed dir_path "path_Join [tp, ''_versions'']" +
  frag: fragment_client st key content good ok managed dir_path tp C comp
  for st :: "'w Store" and key :: "string \<Rightarrow> 'k" and content good ok managed dir_path tp C comp +
  assumes manifest_column: "simple_name n \<Longrightarrow>
    key (path_Join [path_Join [tp, ''_versions''], n]) \<noteq> key (column_path (fragment_dir tp i) j)"
begin

abbreviation "ckey \<equiv> \<lambda>i j. key (column_path (fragment_dir tp i) j)"

lemma column_not_manifest [simp]: "ckey i j \<noteq> mkey v" "mkey v \<noteq> ckey i j"
  using manifest_column [of "FormatInt v @ manifestExt" i j]
  by (simp_all add: manifestPath_def NewManifestStore_def eq_commute)

definition fragment_present :: "'w \<Rightarrow> Fragment \<Rightarrow> bool" where
  "fragment_present w f \<longleftrightarrow> list_all (frag.file_present w (fr_ID f)) (fr_DataFiles f)"

definition manifest_present :: "'w \<Rightarrow> int \<Rightarrow> int \<Rightarrow> Manifest \<Rightarrow> bool" where
  "manifest_present w maxid fid m \<longleftrightarrow>
     Manifest_ok m \<and> list_all (\<lambda>f. fragment_present w f \<and> fr_ID f \<le> maxid \<and> fr_ID f < fid) (man_Fragments m)"

text \<open>
  A table on a store: its versions are \<open>1, \<dots>, nextVersion - 1\<close>, the cache holds manifests of the
  store and the latest of them, and no fragment of any version has an identifier beyond the
  \<open>MaxFragmentID\<close> of the latest one, or the next fragment's.
\<close>

definition history_ok :: "'w \<Rightarrow> int \<Rightarrow> int \<Rightarrow> int \<Rightarrow> bool" where
  "history_ok w nextv maxid fid \<longleftrightarrow>
     versions w = {1..<nextv} \<and>
     (\<forall>v \<in> {1..<nextv}. \<exists>m. stored w v = Some m \<and> man_Version m = v \<and> manifest_present w maxid fid m)"

definition attached :: "'w Table \<Rightarrow> bool" where
  "attached t \<longleftrightarrow>
     tb_store t = st \<and> tb_manifestStore t = ms \<and> tb_tablePath t = tp \<and> tb_compression t = comp"

definition table_inv :: "'w Table \<Rightarrow> 'w \<Rightarrow> bool" where
  "table_inv t w \<longleftrightarrow>
     ok w \<and> canonical w \<and> attached t \<and>
     1 < tb_nextVersion t \<and> fits64 (tb_nextVersion t) \<and> 0 \<le> tb_nextFragmentID t \<and>
     vm_ok 10 (tb_versionMgr t) \<and>
     (\<forall>v m. VM_Get (tb_versionMgr t) v = Some m \<longrightarrow> stored w v = Some m \<and> v < tb_nextVersion t) \<and>
     (\<exists>latest. VM_Latest (tb_versionMgr t) = Some latest \<and> stored w (tb_nextVersion t - 1) = Some latest \<and>
        man_Schema latest = tb_schema t \<and>
        0 \<le> man_MaxFragmentID latest \<and> man_MaxFragmentID latest < 2 ^ 31 - 1 \<and>
        man_MaxFragmentID latest \<le> tb_nextFragmentID t \<and>
        history_ok w (tb_nextVersion t) (man_MaxFragmentID latest) (tb_nextFragmentID t))"

lemma fragment_present_frame:
  "fragment_present w f \<Longrightarrow> (\<And>j. content w' (ckey (fr_ID f) j) = content w (ckey (fr_ID f) j)) \<Longrightarrow>
     fragment_present w' f"
  unfolding fragment_present_def list_all_iff using frag.file_present_frame by blast

lemma manifest_present_frame:
  assumes "manifest_present w maxid fid m" and "maxid \<le> maxid'" and "fid \<le> fid'"
    and "\<And>i j. i < fid \<Longrightarrow> content w' (ckey i j) = content w (ckey i j)"
  shows "manifest_present w' maxid' fid' m"
  using assms fragment_present_frame [of w _ w'] unfolding manifest_present_def list_all_iff by force

lemma stored_frame: "content w' (mkey v) = content w (mkey v) \<Longrightarrow> stored w' v = stored w v"
  by (simp add: stored_def)

lemma canonical_frame:
  "canonical w \<Longrightarrow> (\<And>n. simple_name n \<Longrightarrow> content w' (key (path_Join [path_Join [tp, ''_versions''], n])) =
     content w (key (path_Join [path_Join [tp, ''_versions''], n]))) \<Longrightarrow> canonical w'"
  unfolding canonical_def by simp

text \<open>Files of fragments that no version has may change, and the next identifier may grow.\<close>

lemma table_inv_fragments:
  assumes "table_inv t w" and "ok w'" and "tb_nextFragmentID t \<le> fid"
    and "\<And>k. (\<And>i j. tb_nextFragmentID t \<le> i \<Longrightarrow> k \<noteq> ckey i j) \<Longrightarrow> content w' k = content w k"
  shows "table_inv (t\<lparr>tb_nextFragmentID := fid\<rparr>) w' \<and> stored w' = stored w"
proof -
  have m: "content w' (mkey v) = content w (mkey v)" for v
    by (rule assms(4)) simp
  have n: "content w' (key (path_Join [path_Join [tp, ''_versions''], n])) =
     content w (key (path_Join [path_Join [tp, ''_versions''], n]))" if "simple_name n" for n
    by (rule assms(4)) (rule manifest_column [OF that])
  have c: "content w' (ckey i j) = content w (ckey i j)" if "i < tb_nextFragmentID t" for i j
  proof (rule assms(4))
    show "ckey i j \<noteq> ckey i' j'" if "tb_nextFragmentID t \<le> i'" for i' j'
      using \<open>i < tb_nextFragmentID t\<close> that by (simp add: frag.column_key)
  qed
  have stored: "stored w' = stored w"
    by (rule ext) (rule stored_frame [OF m])
  obtain latest where latest: "VM_Latest (tb_versionMgr t) = Some latest" "stored w (tb_nextVersion t - 1) = Some latest"
    "man_Schema latest = tb_schema t" "0 \<le> man_MaxFragmentID latest" "man_MaxFragmentID latest < 2 ^ 31 - 1"
    "man_MaxFragmentID latest \<le> tb_nextFragmentID t"
    "history_ok w (tb_nextVersion t) (man_MaxFragmentID latest) (tb_nextFragmentID t)"
    using assms(1) by (auto simp: table_inv_def)
  have "versions w' = versions w"
    by (simp add: versions_def m)
  moreover have "manifest_present w' maxid fid x" if "manifest_present w maxid (tb_nextFragmentID t) x" for maxid x
    using manifest_present_frame [OF that order_refl assms(3) c] by blast
  ultimately have "history_ok w' (tb_nextVersion t) (man_MaxFragmentID latest) fid"
    using latest(7) unfolding history_ok_def stored by metis
  moreover have "canonical w'"
    using assms(1) n by (intro canonical_frame [of w w']) (simp_all add: table_inv_def)
  ultimately show ?thesis
    using assms(1-3) latest(1-6) by (simp add: table_inv_def attached_def stored)
qed

text \<open>Writing and publishing the next manifest.\<close>

lemma stored_write:
  assumes "ok w" and "canonical w" and "Manifest_ok m"
  obtains w' where "MS_Write ms m w = (Inr (), w')" "ok w'" "canonical w'"
    "versions w' = insert (man_Version m) (versions w)" "stored w' = (stored w)(man_Version m \<mapsto> m)"
    "\<And>i j. content w' (ckey i j) = content w (ckey i j)"
proof -
  obtain w' data where w': "MS_Write ms m w = (Inr (), w')" "ok w'" "Manifest_Serialize m = Inr data"
    "content w' = (content w)(mkey (man_Version m) := Some data)"
    by (rule MS_Write_ok [OF assms(1)])
  have v: "fits64 (man_Version m)"
    using assms(3) by (simp add: Manifest_ok_def)
  have "stored w' = (stored w)(man_Version m \<mapsto> m)"
    using DeserializeManifest_Serialize [OF assms(3) w'(3)] by (simp add: fun_eq_iff stored_def w'(4))
  then show thesis
    using that [OF w'(1,2) canonical_write [OF assms(1,2) w'(1) v] versions_write [OF assms(1) w'(1) v]] w'(4)
    by simp
qed

lemma commit_manifest_inv:
  assumes "table_inv t w" and "tb_nextVersion t < 2 ^ 63 - 1" and "VM_Latest (tb_versionMgr t) = Some latest"
    and "man_Version (mk (tb_nextVersion t)) = tb_nextVersion t"
    and "manifest_present w (man_MaxFragmentID (mk (tb_nextVersion t))) (tb_nextFragmentID t) (mk (tb_nextVersion t))"
    and "man_MaxFragmentID latest \<le> man_MaxFragmentID (mk (tb_nextVersion t))"
    and "man_MaxFragmentID (mk (tb_nextVersion t)) < 2 ^ 31 - 1"
    and "man_MaxFragmentID (mk (tb_nextVersion t)) \<le> tb_nextFragmentID t"
  obtains t' w' where "commit_manifest mk t w = (Inr (), t', w')" "table_inv t' w'"
    "stored w' = (stored w)(tb_nextVersion t \<mapsto> mk (tb_nextVersion t))"
    "\<forall>i j. content w' (ckey i j) = content w (ckey i j)"
    "tb_nextVersion t' = tb_nextVersion t + 1" "tb_nextFragmentID t' = tb_nextFragmentID t"
    "tb_schema t' = man_Schema (mk (tb_nextVersion t))"
    "VM_Latest (tb_versionMgr t') = Some (mk (tb_nextVersion t))"
proof -
  let ?v = "tb_nextVersion t" and ?m = "mk (tb_nextVersion t)"
  have t: "ok w" "canonical w" "attached t" "1 < ?v" "0 \<le> tb_nextFragmentID t" "vm_ok 10 (tb_versionMgr t)"
    "\<And>v m. VM_Get (tb_versionMgr t) v = Some m \<Longrightarrow> stored w v = Some m \<and> v < ?v"
    "stored w (?v - 1) = Some latest" "0 \<le> man_MaxFragmentID latest"
    "history_ok w ?v (man_MaxFragmentID latest) (tb_nextFragmentID t)"
    using assms(1,3) unfolding table_inv_def by auto
  have m: "Manifest_ok ?m"
    using assms(5) by (simp add: manifest_present_def)
  obtain w' where w': "MS_Write ms ?m w = (Inr (), w')" "ok w'" "canonical w'"
    "versions w' = insert ?v (versions w)" "stored w' = (stored w)(?v \<mapsto> ?m)"
    "\<And>i j. content w' (ckey i j) = content w (ckey i j)"
    using stored_write [OF t(1,2) m] assms(4) by metis
  let ?t' = "t\<lparr>tb_nextVersion := ?v + 1, tb_schema := man_Schema ?m, tb_versionMgr := Publish ?m (tb_versionMgr t)\<rparr>"
  have v1: "wrap64 (?v + 1) = ?v + 1" "fits64 (?v + 1)"
    using t(4) assms(2) by (simp_all add: fits64_def)
  then have run: "commit_manifest mk t w = (Inr (), ?t', w')"
    using w'(1) t(3) by (simp add: commit_manifest_def Let_def attached_def)
  have pub: "vm_ok 10 (Publish ?m (tb_versionMgr t))" "VM_Latest (Publish ?m (tb_versionMgr t)) = Some ?m"
    "\<And>v m'. VM_Get (Publish ?m (tb_versionMgr t)) v = Some m' \<Longrightarrow>
       v = ?v \<and> m' = ?m \<or> VM_Get (tb_versionMgr t) v = Some m'"
    using Publish_newer [OF t(6), of ?m] t(4,7) assms(4) by auto
  have "history_ok w' (?v + 1) (man_MaxFragmentID ?m) (tb_nextFragmentID t)"
    unfolding history_ok_def
  proof (intro conjI ballI)
    show "versions w' = {1..<?v + 1}"
      using t(4,10) w'(4) by (auto simp: history_ok_def)
    fix v assume v: "v \<in> {1..<?v + 1}"
    show "\<exists>m. stored w' v = Some m \<and> man_Version m = v \<and>
        manifest_present w' (man_MaxFragmentID ?m) (tb_nextFragmentID t) m"
    proof (cases "v = ?v")
      case True
      then show ?thesis
        using assms(4) manifest_present_frame [OF assms(5) order_refl order_refl w'(6)] by (simp add: w'(5))
    next
      case False
      then obtain m where "stored w v = Some m" "man_Version m = v"
        "manifest_present w (man_MaxFragmentID latest) (tb_nextFragmentID t) m"
        using v t(10) unfolding history_ok_def by force
      then show ?thesis
        using False manifest_present_frame [OF _ assms(6) order_refl w'(6)] by (simp add: w'(5))
    qed
  qed
  moreover have "stored w' v = Some m' \<and> v < ?v + 1" if "VM_Get (Publish ?m (tb_versionMgr t)) v = Some m'" for v m'
    using pub(3) [OF that] t(7) [of v m'] by (auto simp: w'(5))
  ultimately have "table_inv ?t' w'"
    using t(3-5,9) w'(2,3,5) v1(2) pub(1,2) assms(6-8) by (simp add: table_inv_def attached_def)
  with run show thesis
    using that [of ?t' w'] w'(5,6) pub(2) by simp
qed

section \<open>Every operation\<close>

text \<open>What a step leaves alone: the manifests there are and the files of their fragments.\<close>

definition kept :: "'w \<Rightarrow> int \<Rightarrow> 'w \<Rightarrow> bool" where
  "kept w fid w' \<longleftrightarrow>
     (\<forall>v m. stored w v = Some m \<longrightarrow> stored w' v = Some m) \<and>
     (\<forall>i j. i < fid \<longrightarrow> content w' (ckey i j) = content w (ckey i j))"

lemma table_inv_latest:
  assumes "table_inv t w"
  obtains latest where "VM_Latest (tb_versionMgr t) = Some latest" "stored w (tb_nextVersion t - 1) = Some latest"
    "man_Schema latest = tb_schema t" "0 \<le> man_MaxFragmentID latest" "man_MaxFragmentID latest < 2 ^ 31 - 1"
    "man_MaxFragmentID latest \<le> tb_nextFragmentID t"
    "manifest_present w (man_MaxFragmentID latest) (tb_nextFragmentID t) latest"
proof -
  obtain latest where latest: "VM_Latest (tb_versionMgr t) = Some latest" "stored w (tb_nextVersion t - 1) = Some latest"
    "man_Schema latest = tb_schema t" "0 \<le> man_MaxFragmentID latest" "man_MaxFragmentID latest < 2 ^ 31 - 1"
    "man_MaxFragmentID latest \<le> tb_nextFragmentID t"
    "history_ok w (tb_nextVersion t) (man_MaxFragmentID latest) (tb_nextFragmentID t)" "1 < tb_nextVersion t"
    using assms by (auto simp: table_inv_def)
  then have "tb_nextVersion t - 1 \<in> {1..<tb_nextVersion t}"
    by simp
  then have "\<exists>m. stored w (tb_nextVersion t - 1) = Some m \<and>
      manifest_present w (man_MaxFragmentID latest) (tb_nextFragmentID t) m"
    using latest(7) unfolding history_ok_def by blast
  then have "manifest_present w (man_MaxFragmentID latest) (tb_nextFragmentID t) latest"
    using latest(2) by simp
  with latest that show thesis by blast
qed

lemma next_not_stored: "table_inv t w \<Longrightarrow> stored w v = Some m \<Longrightarrow> fits64 v \<Longrightarrow> v < tb_nextVersion t"
proof -
  assume inv: "table_inv t w" and v: "stored w v = Some m" "fits64 v"
  then have "v \<in> versions w"
    by (auto simp: stored_def versions_def split: option.splits)
  then show ?thesis
    using inv by (auto simp: table_inv_def history_ok_def)
qed

lemma kept_put:
  assumes "table_inv t w" and "stored w' = (stored w)(tb_nextVersion t \<mapsto> m)"
    and "\<And>i j. i < fid \<Longrightarrow> content w' (ckey i j) = content w (ckey i j)"
  shows "kept w fid w'"
proof -
  have "fits64 (tb_nextVersion t)"
    using assms(1) by (simp add: table_inv_def)
  then have "stored w (tb_nextVersion t) = None"
    using next_not_stored [OF assms(1), of "tb_nextVersion t"] by (cases "stored w (tb_nextVersion t)") auto
  then show ?thesis
    using assms(2,3) by (auto simp: kept_def)
qed

lemma evolve_inv:
  assumes "table_inv t w" and "tb_nextVersion t < 2 ^ 63 - 1" and "fits64 now" and "Fields_ok (Fields s)"
  obtains t' w' latest where "evolve now s t w = (Inr (), t', w')" "table_inv t' w'"
    "VM_Latest (tb_versionMgr t) = Some latest"
    "stored w' = (stored w)(tb_nextVersion t \<mapsto> (NewManifest (tb_nextVersion t) s)
       \<lparr>man_Fragments := man_Fragments latest, man_MaxFragmentID := man_MaxFragmentID latest, man_Timestamp := now\<rparr>)"
    "kept w (tb_nextFragmentID t) w'"
    "tb_nextVersion t' = tb_nextVersion t + 1" "tb_schema t' = s" "tb_nextFragmentID t' = tb_nextFragmentID t"
proof -
  obtain latest where latest: "VM_Latest (tb_versionMgr t) = Some latest"
    "0 \<le> man_MaxFragmentID latest" "man_MaxFragmentID latest < 2 ^ 31 - 1"
    "manifest_present w (man_MaxFragmentID latest) (tb_nextFragmentID t) latest"
    "man_MaxFragmentID latest \<le> tb_nextFragmentID t"
    by (rule table_inv_latest [OF assms(1)])
  let ?mk = "\<lambda>version. (NewManifest version s)\<lparr>man_Fragments := man_Fragments latest,
    man_MaxFragmentID := man_MaxFragmentID latest, man_Timestamp := now\<rparr>"
  have fits: "fits64 (tb_nextVersion t)"
    using assms(1) by (simp add: table_inv_def)
  then have present: "manifest_present w (man_MaxFragmentID (?mk (tb_nextVersion t))) (tb_nextFragmentID t) (?mk (tb_nextVersion t))"
    using latest assms(3,4) by (simp add: manifest_present_def Manifest_ok_def NewManifest_def map_ok_def fits32_def)
  have mk: "man_Version (?mk (tb_nextVersion t)) = tb_nextVersion t"
    "man_MaxFragmentID latest \<le> man_MaxFragmentID (?mk (tb_nextVersion t))"
    "man_MaxFragmentID (?mk (tb_nextVersion t)) < 2 ^ 31 - 1"
    "man_MaxFragmentID (?mk (tb_nextVersion t)) \<le> tb_nextFragmentID t"
    using latest(3,5) by (simp_all add: NewManifest_def)
  obtain t' w' where t': "commit_manifest ?mk t w = (Inr (), t', w')" "table_inv t' w'"
    "stored w' = (stored w)(tb_nextVersion t \<mapsto> ?mk (tb_nextVersion t))"
    "\<forall>i j. content w' (ckey i j) = content w (ckey i j)"
    "tb_nextVersion t' = tb_nextVersion t + 1" "tb_nextFragmentID t' = tb_nextFragmentID t"
    "tb_schema t' = man_Schema (?mk (tb_nextVersion t))"
    "VM_Latest (tb_versionMgr t') = Some (?mk (tb_nextVersion t))"
    by (rule commit_manifest_inv [where mk = ?mk, OF assms(1,2) latest(1) mk(1) present mk(2-4)])
  have "evolve now s t w = (Inr (), t', w')"
    using t'(1) latest(1) by (simp add: evolve_def)
  moreover have "kept w (tb_nextFragmentID t) w'"
    using kept_put [OF assms(1) t'(3)] t'(4) by blast
  moreover have "tb_schema t' = s"
    using t'(7) by (simp add: NewManifest_def)
  ultimately show thesis
    using that [of t' w' latest] latest(1) t'(2,3,5,6) by blast
qed

lemma table_schema_ok: "table_inv t w \<Longrightarrow> Fields_ok (Fields (tb_schema t))"
  by (erule table_inv_latest) (auto simp: manifest_present_def Manifest_ok_def)

lemma set_fld_ID_ok: "Field_ok f \<Longrightarrow> fits32 i \<Longrightarrow> Field_ok (set_fld_ID i f)"
  by (cases f) simp

lemma AddColumn_inv:
  assumes "table_inv t w" and "tb_nextVersion t < 2 ^ 63 - 1" and "fits64 now" and "Field_ok f"
    and "AddColumn now t f w = (r, t', w')"
  shows "table_inv t' w' \<and> kept w (tb_nextFragmentID t) w'"
proof (cases "HasField (tb_schema t) (fld_Name f)")
  case True
  then show ?thesis
    using assms(1,5) by (simp add: AddColumn_def kept_def)
next
  case False
  let ?s = "\<lparr>Fields = Fields (tb_schema t) @ [set_fld_ID (wrap32 (max_field_ID (tb_schema t) + 1)) f]\<rparr>"
  have "Fields_ok (Fields ?s)"
    using table_schema_ok [OF assms(1)] set_fld_ID_ok [OF assms(4) fits32_wrap32] by (simp add: Fields_ok_iff)
  then show ?thesis
    using assms(5) False by (rule_tac evolve_inv [OF assms(1-3), of ?s]) (simp_all add: AddColumn_def)
qed

lemma DropColumn_inv:
  assumes "table_inv t w" and "tb_nextVersion t < 2 ^ 63 - 1" and "fits64 now"
    and "DropColumn now t n w = (r, t', w')"
  shows "table_inv t' w' \<and> kept w (tb_nextFragmentID t) w'"
proof (cases "FieldByName (tb_schema t) n = None")
  case True
  then show ?thesis
    using assms(1,4) by (simp add: DropColumn_def kept_def)
next
  case False
  let ?s = "\<lparr>Fields = filter (\<lambda>f. fld_Name f \<noteq> n) (Fields (tb_schema t))\<rparr>"
  have "Fields_ok (Fields ?s)"
    using table_schema_ok [OF assms(1)] by (auto simp: Fields_ok_iff list_all_iff)
  then show ?thesis
    using assms(4) False by (rule_tac evolve_inv [OF assms(1-3), of ?s]) (simp_all add: DropColumn_def)
qed

text \<open>The writer of a table, on any batch.\<close>

lemma write_fragment:
  assumes "table_inv t w" and "gm_ok (rb_Columns batch)"
    and "WriteBatch C (NewFragmentWriter (tb_store t) (tb_schema t) (tb_nextFragmentID t) (tb_tablePath t)
           (tb_compression t)) batch w = (r, fw', w1)"
  shows "ok w1 \<and>
    (\<forall>k. (\<forall>i j. tb_nextFragmentID t \<le> i \<longrightarrow> k \<noteq> ckey i j) \<longrightarrow> content w1 k = content w k) \<and>
    (r = Inr () \<longrightarrow> fr_ID (Finish fw') = tb_nextFragmentID t \<and> fragment_present w1 (Finish fw'))"
proof -
  let ?fw = "NewFragmentWriter st (tb_schema t) (tb_nextFragmentID t) tp comp"
  have t: "ok w" "tb_store t = st" "tb_tablePath t = tp" "tb_compression t = comp"
    using assms(1) by (simp_all add: table_inv_def attached_def)
  have fw: "fw_store ?fw = st" "fw_basePath ?fw = fragment_dir tp (tb_nextFragmentID t)"
    "fw_dataFiles ?fw = []" "fw_fragmentID ?fw = tb_nextFragmentID t"
    by (simp_all add: NewFragmentWriter_def)
  have run: "WriteColumns C ?fw (rb_Columns batch) w = (r, fw', w1)"
    using assms(3) t by (simp add: WriteBatch_def)
  have "distinct (gm_keys (rb_Columns batch))"
    using assms(2) by (simp add: gm_ok_def)
  note any = frag.WriteColumns_any [OF t(1) fw(1,2) run this]
  then have "content w1 k = content w k" if "\<forall>i j. tb_nextFragmentID t \<le> i \<longrightarrow> k \<noteq> ckey i j" for k
    using that by blast
  moreover have "fr_ID (Finish fw') = tb_nextFragmentID t \<and> fragment_present w1 (Finish fw')" if "r = Inr ()"
    using any that fw(3,4) by (auto simp: Finish_def NewFragment_def fragment_present_def)
  ultimately show ?thesis
    using any by blast
qed

lemma commit_manifest_succeeds:
  assumes "ok w" and "attached t"
  shows "fst (commit_manifest mk t w) = Inr ()"
proof -
  obtain w' data where "MS_Write ms (mk (tb_nextVersion t)) w = (Inr (), w')"
    using MS_Write_ok [OF assms(1)] by metis
  then show ?thesis
    using assms(2) by (simp add: commit_manifest_def Let_def attached_def)
qed

text \<open>An insert whose fragment has been written.\<close>

lemma BatchInsert_written:
  assumes "table_inv t w" and "tb_nextVersion t < 2 ^ 63 - 1" and "tb_nextFragmentID t < 2 ^ 31 - 1"
    and "fits64 now" and "bs \<noteq> []" and "insert_batch same bs = Inr batch" and "gm_ok (rb_Columns batch)"
    and "WriteBatch C (NewFragmentWriter (tb_store t) (tb_schema t) (tb_nextFragmentID t) (tb_tablePath t)
           (tb_compression t)) batch w = (Inr (), fw', w1)"
    and "BatchInsert same C now t bs w = (r, t', w')" and "\<And>f. r = Inr f \<Longrightarrow> Fragment_ok f"
  obtains latest where "r = Inr (Finish fw')" "table_inv t' w'" "VM_Latest (tb_versionMgr t) = Some latest"
    "stored w' = (stored w)(tb_nextVersion t \<mapsto> (NewManifest (tb_nextVersion t) (tb_schema t))
       \<lparr>man_Fragments := man_Fragments latest @ [Finish fw'], man_MaxFragmentID := tb_nextFragmentID t,
        man_Timestamp := now\<rparr>)"
    "\<forall>i j. content w' (ckey i j) = content w1 (ckey i j)" "kept w (tb_nextFragmentID t) w'"
    "tb_nextVersion t' = tb_nextVersion t + 1" "tb_nextFragmentID t' = tb_nextFragmentID t + 1"
    "tb_schema t' = tb_schema t"
proof -
  let ?fid = "tb_nextFragmentID t"
  let ?t1 = "t\<lparr>tb_nextFragmentID := ?fid + 1\<rparr>" and ?f = "Finish fw'"
  note frag = write_fragment [OF assms(1,7,8)]
  have old: "content w1 (ckey i j) = content w (ckey i j)" if "i < ?fid" for i j
    using frag that frag.column_key by (metis linorder_not_less)
  have "table_inv (t\<lparr>tb_nextFragmentID := ?fid + 1\<rparr>) w1 \<and> stored w1 = stored w"
    using frag by (intro table_inv_fragments [OF assms(1)]) (simp, simp, blast)
  then have inv1: "table_inv ?t1 w1" "stored w1 = stored w"
    by simp_all
  obtain latest where latest: "VM_Latest (tb_versionMgr t) = Some latest" "0 \<le> man_MaxFragmentID latest"
    "manifest_present w (man_MaxFragmentID latest) ?fid latest" "man_MaxFragmentID latest \<le> ?fid"
    by (rule table_inv_latest [OF assms(1)])
  let ?mk = "\<lambda>version. (NewManifest version (tb_schema t))\<lparr>man_Fragments := man_Fragments latest @ [?f],
    man_MaxFragmentID := ?fid, man_Timestamp := now\<rparr>"
  have t: "0 \<le> ?fid" "fits64 (tb_nextVersion t)"
    using assms(1) by (simp_all add: table_inv_def)
  have wrap: "wrap32 (?fid + 1) = ?fid + 1"
    using t(1) assms(3) by (simp add: fits32_def)
  have run: "BatchInsert same C now t bs w = (case commit_manifest ?mk ?t1 w1 of
      (Inl e, t2, w2) \<Rightarrow> (Inl e, t2, w2) | (Inr _, t2, w2) \<Rightarrow> (Inr ?f, t2, w2))"
    using assms(5,6,8) latest(1) wrap by (simp add: BatchInsert_def Let_def)
  have "fst (commit_manifest ?mk ?t1 w1) = Inr ()"
    using inv1(1) by (intro commit_manifest_succeeds) (simp_all add: table_inv_def)
  then have r: "r = Inr ?f"
    using run assms(9) by (auto split: prod.splits)
  have "manifest_present w1 (man_MaxFragmentID latest) ?fid latest"
    using manifest_present_frame [OF latest(3) order_refl order_refl old] .
  then have "manifest_present w1 ?fid (?fid + 1) latest"
    by (auto simp: manifest_present_def list_all_iff)
  then have present: "manifest_present w1 (man_MaxFragmentID (?mk (tb_nextVersion ?t1)))
      (tb_nextFragmentID ?t1) (?mk (tb_nextVersion ?t1))"
    using frag assms(10) [OF r] t assms(3,4) table_schema_ok [OF assms(1)]
    by (simp add: manifest_present_def Manifest_ok_def NewManifest_def map_ok_def fits32_def)
  have mk: "man_Version (?mk (tb_nextVersion ?t1)) = tb_nextVersion ?t1"
    "man_MaxFragmentID latest \<le> man_MaxFragmentID (?mk (tb_nextVersion ?t1))"
    "man_MaxFragmentID (?mk (tb_nextVersion ?t1)) < 2 ^ 31 - 1"
    "man_MaxFragmentID (?mk (tb_nextVersion ?t1)) \<le> tb_nextFragmentID ?t1"
    using latest(4) assms(3) by (simp_all add: NewManifest_def)
  have room: "tb_nextVersion ?t1 < 2 ^ 63 - 1" "VM_Latest (tb_versionMgr ?t1) = Some latest"
    using assms(2) latest(1) by simp_all
  obtain t2 w2 where t2: "commit_manifest ?mk ?t1 w1 = (Inr (), t2, w2)" "table_inv t2 w2"
    "stored w2 = (stored w1)(tb_nextVersion ?t1 \<mapsto> ?mk (tb_nextVersion ?t1))"
    "\<forall>i j. content w2 (ckey i j) = content w1 (ckey i j)"
    "tb_nextVersion t2 = tb_nextVersion ?t1 + 1" "tb_nextFragmentID t2 = tb_nextFragmentID ?t1"
    "tb_schema t2 = man_Schema (?mk (tb_nextVersion ?t1))"
    "VM_Latest (tb_versionMgr t2) = Some (?mk (tb_nextVersion ?t1))"
    by (rule commit_manifest_inv [where mk = ?mk, OF inv1(1) room mk(1) present mk(2-4)])
  have "kept w ?fid w2"
    using t2(3,4) inv1(2) old by (intro kept_put [OF assms(1)]) simp_all
  moreover have "t' = t2" "w' = w2"
    using run t2(1) assms(9) by simp_all
  moreover have "man_Schema (?mk (tb_nextVersion ?t1)) = tb_schema t"
    by (simp add: NewManifest_def)
  ultimately show thesis
    using that [of latest] r latest(1) t2 inv1(2) by simp
qed

lemma BatchInsert_fragment:
  assumes "bs \<noteq> []" and "insert_batch same bs = Inr batch"
    and "WriteBatch C (NewFragmentWriter (tb_store t) (tb_schema t) (tb_nextFragmentID t) (tb_tablePath t)
           (tb_compression t)) batch w = (Inr (), fw', w1)"
    and "BatchInsert same C now t bs w = (Inr f, t', w')"
  shows "f = Finish fw'"
  using assms by (auto simp: BatchInsert_def Let_def split: option.splits prod.splits sum.splits)

lemma BatchInsert_inv:
  assumes "table_inv t w" and "tb_nextVersion t < 2 ^ 63 - 1" and "tb_nextFragmentID t < 2 ^ 31 - 1"
    and "fits64 now" and "\<And>b. insert_batch same bs = Inr b \<Longrightarrow> gm_ok (rb_Columns b)"
    and "BatchInsert same C now t bs w = (r, t', w')" and "\<And>f. r = Inr f \<Longrightarrow> Fragment_ok f"
  shows "table_inv t' w' \<and> kept w (tb_nextFragmentID t) w'"
proof (cases "bs = [] \<or> (\<exists>e. insert_batch same bs = Inl e)")
  case True
  then have "t' = t" "w' = w"
    using assms(6) by (auto simp: BatchInsert_def split: if_splits)
  with assms(1) show ?thesis
    by (simp add: kept_def)
next
  case False
  then obtain batch where batch: "bs \<noteq> []" "insert_batch same bs = Inr batch"
    by (cases "insert_batch same bs") auto
  let ?fid = "tb_nextFragmentID t"
  obtain r1 fw' w1 where w1: "WriteBatch C (NewFragmentWriter (tb_store t) (tb_schema t) ?fid (tb_tablePath t)
      (tb_compression t)) batch w = (r1, fw', w1)"
    by (metis prod_cases3)
  note gm = assms(5) [OF batch(2)]
  note frag = write_fragment [OF assms(1) gm w1]
  show ?thesis
  proof (cases r1)
    case (Inl e)
    have "table_inv (t\<lparr>tb_nextFragmentID := ?fid\<rparr>) w1 \<and> stored w1 = stored w"
      using frag by (intro table_inv_fragments [OF assms(1)]) (simp, simp, blast)
    moreover have "content w1 (ckey i j) = content w (ckey i j)" if "i < ?fid" for i j
      using frag that frag.column_key by (metis linorder_not_less)
    moreover have "t' = t" "w' = w1"
      using Inl assms(6) batch w1 by (simp_all add: BatchInsert_def Let_def)
    ultimately show ?thesis
      by (simp add: kept_def)
  next
    case (Inr u)
    show ?thesis
      by (rule BatchInsert_written [OF assms(1-4) batch gm w1 [unfolded Inr, simplified] assms(6,7)])
        (auto simp: Inr)
  qed
qed

lemma batch_rows_bound:
  assumes "batch_fits s cols" and "0 \<le> n" and "n < 2 ^ 31"
  shows "0 \<le> frag.batch_rows s cols n \<and> frag.batch_rows s cols n < 2 ^ 31"
proof -
  have "0 \<le> foldl (\<lambda>m (i, d). max m (column_rows (the (FieldByID s i)) d)) n cols \<and>
      foldl (\<lambda>m (i, d). max m (column_rows (the (FieldByID s i)) d)) n cols < 2 ^ 31"
    if "list_all (\<lambda>(i, d). case FieldByID s i of None \<Rightarrow> False | Some f \<Rightarrow> column_fits f d) cols" "0 \<le> n" "n < 2 ^ 31"
    for n
    using that
  proof (induction cols arbitrary: n)
    case (Cons x cols)
    obtain i d where x: "x = (i, d)" by (cases x)
    obtain f where f: "FieldByID s i = Some f" "column_fits f d"
      using Cons.prems(1) by (auto simp: x split: option.splits)
    from column_rows_bound [OF f(2)] Cons.prems(2,3)
    have "0 \<le> max n (column_rows f d)" "max n (column_rows f d) < 2 ^ 31" by simp_all
    then show ?case
      using Cons.IH [of "max n (column_rows f d)"] Cons.prems(1) f(1) by (simp add: x)
  qed simp
  then show ?thesis
    using assms by (simp add: batch_fits_def frag.batch_rows_def)
qed

text \<open>The fragment of a fitting batch is one a manifest can record.\<close>

lemma written_fragment_ok:
  assumes "batch_fits s (rb_Columns b)" and "Fields_ok (Fields s)" and "paths_ok tp" and "fits32 fid"
    and "fr_ID f = fid" and "fr_NumRows f = frag.batch_rows s (rb_Columns b) 0"
    and "fr_DeletionFile f = None" and "fr_PhysicalRows f = fr_NumRows f"
    and "list_all2 (\<lambda>(i, d) df. frag.stored_column w fid (the (FieldByID s i)) i d df) (rb_Columns b) (fr_DataFiles f)"
  shows "Fragment_ok f"
proof -
  have codec: "codec_ok C (Compression (NewMiniBlockEncoder comp)) (effective_block_size (NewMiniBlockEncoder comp))"
    using frag.codec by (simp add: NewMiniBlockEncoder_def)
  have files: "DataFile_ok df" if df: "df \<in> set (fr_DataFiles f)" for df
  proof -
    obtain i d where id: "(i, d) \<in> set (rb_Columns b)" "frag.stored_column w fid (the (FieldByID s i)) i d df"
      using list_all2_member [OF assms(9) df] by auto
    then obtain g where g: "FieldByID s i = Some g" "column_fits g d"
      using assms(1) by (fastforce simp: batch_fits_def list_all_iff split: option.splits)
    then have "Field_ok g" "fld_ID g = i"
      using FieldByID_Some [OF g(1)] assms(2) by (auto simp: Fields_ok_iff list_all_iff)
    then have i: "fits32 i"
      by (cases g) auto
    obtain page where page: "df_ColumnID df = i" "df_Path df = column_path (fragment_dir tp fid) i"
      "df_NumRows df = column_rows g d" "df_FileSize df = int (length page)"
      "MiniBlock_Encode C (NewMiniBlockEncoder comp) d (fld_Type g) = Inr page"
      using id(2) g(1) by (auto simp: frag.stored_column_def)
    obtain buf where "MiniBlock_serialize d (fld_Type g) = Inr buf" "length buf < 2 ^ 31"
      using g(2) by (auto simp: column_fits_def split: sum.splits)
    then have "length page < 2 ^ 63"
      using MiniBlock_Encode_size [OF codec _ _ page(5)] by blast
    then show ?thesis
      using page i column_rows_bound [OF g(2)] assms(3)
      by (simp add: DataFile_ok_def paths_ok_def fits64_def)
  qed
  have "0 \<le> fr_NumRows f \<and> fr_NumRows f < 2 ^ 31"
    using batch_rows_bound [OF assms(1), of 0] assms(6) by simp
  with files show ?thesis
    using assms(4,5,7,8) by (simp add: Fragment_ok_def list_all_iff fits64_def)
qed

lemma Create_inv:
  assumes "ok w" and "canonical w" and "versions w = {}" and "Fields_ok (Fields schema)" and "fits64 now"
  obtains t w' where "Create now name tp schema st comp w = (Inr t, w')" "table_inv t w'"
    "tb_schema t = schema" "tb_nextVersion t = 2" "tb_nextFragmentID t = 0"
    "stored w' 1 = Some ((NewManifest 1 schema)\<lparr>man_MaxFragmentID := 0, man_Timestamp := now\<rparr>)"
proof -
  let ?t = "NewTable name tp schema st comp"
  let ?m = "(NewManifest 1 schema)\<lparr>man_MaxFragmentID := 0, man_Timestamp := now\<rparr>"
  let ?t' = "?t\<lparr>tb_nextVersion := 2, tb_versionMgr := Publish ?m (NewVersionManager 10)\<rparr>"
  have m: "Manifest_ok ?m" "man_Version ?m = 1" "man_Fragments ?m = []" "man_MaxFragmentID ?m = 0" "man_Schema ?m = schema"
    using assms(4,5) by (simp_all add: Manifest_ok_def NewManifest_def map_ok_def fits32_def fits64_def)
  obtain w' where w': "MS_Write ms ?m w = (Inr (), w')" "ok w'" "canonical w'"
    "versions w' = insert (man_Version ?m) (versions w)" "stored w' = (stored w)(man_Version ?m \<mapsto> ?m)"
    "\<And>i j. content w' (ckey i j) = content w (ckey i j)"
    using stored_write [OF assms(1,2) m(1)] by blast
  have run: "Create now name tp schema st comp w = (Inr ?t', w')"
    using w'(1) by (simp add: Create_def NewTable_def Let_def fits64_def)
  have pub: "vm_ok 10 (Publish ?m (NewVersionManager 10))" "VM_Latest (Publish ?m (NewVersionManager 10)) = Some ?m"
    "\<And>v m'. VM_Get (Publish ?m (NewVersionManager 10)) v = Some m' \<Longrightarrow> v = 1 \<and> m' = ?m"
    using Publish_newer [OF NewVersionManager_ok(1), of ?m 10] m(2) by (auto simp: NewVersionManager_ok(2))
  have "history_ok w' 2 0 0"
    using m w'(4,5) assms(3) by (auto simp: history_ok_def manifest_present_def)
  moreover have "stored w' v = Some m' \<and> v < 2" if "VM_Get (Publish ?m (NewVersionManager 10)) v = Some m'" for v m'
    using pub(3) [OF that] w'(5) m(2) by simp
  ultimately have "table_inv ?t' w'"
    using w'(2,3,5) m pub(1,2) by (simp add: table_inv_def attached_def NewTable_def fits64_def)
  with run that w'(5) m(2) show thesis
    by (simp add: NewTable_def)
qed

text \<open>The store has the latest manifest the cache has.\<close>

lemma latest_read:
  assumes "table_inv t w" and "VM_Latest (tb_versionMgr t) = Some latest"
  shows "MS_LatestVersion ms w = (Inr (tb_nextVersion t - 1), w) \<and>
    MS_Read ms (tb_nextVersion t - 1) w = (Inr latest, w)"
proof -
  let ?v = "tb_nextVersion t"
  have t: "ok w" "canonical w" "1 < ?v" "versions w = {1..<?v}" "stored w (?v - 1) = Some latest"
    using assms by (auto simp: table_inv_def history_ok_def)
  have "Max {1..<?v} = ?v - 1"
    using t(3) by (intro Max_eqI) auto
  then have lv: "MS_LatestVersion ms w = (Inr (?v - 1), w)"
    using LatestVersion_ok [OF t(1,2)] t(3,4) by simp
  obtain data where "content w (mkey (?v - 1)) = Some data" "DeserializeManifest data = Inr latest"
    using t(5) by (auto simp: stored_def split: option.splits sum.splits)
  then show ?thesis
    using lv MS_Read_content [OF t(1)] by simp
qed

lemma Open_inv:
  assumes "table_inv t w"
  obtains t' where "OpenTable name tp st comp w = (Inr t', w)" "table_inv t' w"
    "tb_schema t' = tb_schema t" "tb_nextVersion t' = tb_nextVersion t"
proof -
  let ?v = "tb_nextVersion t"
  obtain latest where latest: "VM_Latest (tb_versionMgr t) = Some latest" "stored w (?v - 1) = Some latest"
    "man_Schema latest = tb_schema t" "0 \<le> man_MaxFragmentID latest" "man_MaxFragmentID latest < 2 ^ 31 - 1"
    by (rule table_inv_latest [OF assms])
  have t: "ok w" "canonical w" "1 < ?v" "fits64 ?v" and hist: "history_ok w ?v (man_MaxFragmentID latest) (tb_nextFragmentID t)"
    using assms latest(1) by (auto simp: table_inv_def)
  have lv: "MS_LatestVersion ms w = (Inr (?v - 1), w)" and rd: "MS_Read ms (?v - 1) w = (Inr latest, w)"
    using latest_read [OF assms latest(1)] by simp_all
  let ?t' = "(NewTable name tp (man_Schema latest) st comp)\<lparr>tb_nextVersion := ?v,
    tb_nextFragmentID := man_MaxFragmentID latest + 1, tb_versionMgr := Publish latest (NewVersionManager 10)\<rparr>"
  have run: "OpenTable name tp st comp w = (Inr ?t', w)"
    using lv rd t(4) latest(4,5) by (simp add: OpenTable_def NewTable_def Let_def fits32_def)
  have "?v - 1 \<in> {1..<?v}"
    using t(3) by simp
  with hist have "\<exists>m. stored w (?v - 1) = Some m \<and> man_Version m = ?v - 1"
    unfolding history_ok_def by blast
  then have v: "man_Version latest = ?v - 1"
    using latest(2) by simp
  have pub: "vm_ok 10 (Publish latest (NewVersionManager 10))" "VM_Latest (Publish latest (NewVersionManager 10)) = Some latest"
    "\<And>v m'. VM_Get (Publish latest (NewVersionManager 10)) v = Some m' \<Longrightarrow> v = ?v - 1 \<and> m' = latest"
    using Publish_newer [OF NewVersionManager_ok(1), of latest 10] v t(3) by (auto simp: NewVersionManager_ok(2))
  have "manifest_present w (man_MaxFragmentID latest) (man_MaxFragmentID latest + 1) m"
    if "manifest_present w (man_MaxFragmentID latest) (tb_nextFragmentID t) m" for m
    using that by (auto simp: manifest_present_def list_all_iff)
  then have "history_ok w ?v (man_MaxFragmentID latest) (man_MaxFragmentID latest + 1)"
    using hist unfolding history_ok_def by blast
  moreover have "stored w v = Some m' \<and> v < ?v" if "VM_Get (Publish latest (NewVersionManager 10)) v = Some m'" for v m'
    using pub(3) [OF that] latest(2) by simp
  ultimately have "table_inv ?t' w"
    using t latest pub(1,2) by (simp add: table_inv_def attached_def NewTable_def)
  with run that latest(3) show thesis
    by (simp add: NewTable_def)
qed

text \<open>The versions there are, with the files of their fragments.\<close>

definition preserved :: "'w \<Rightarrow> 'w \<Rightarrow> bool" where
  "preserved w w' \<longleftrightarrow>
     (\<forall>v \<in> versions w. \<forall>m. stored w v = Some m \<longrightarrow> stored w' v = Some m \<and>
        (\<forall>f \<in> set (man_Fragments m). \<forall>j. content w' (ckey (fr_ID f) j) = content w (ckey (fr_ID f) j)))"

lemma preserved_refl [simp]: "preserved w w"
  by (simp add: preserved_def)

lemma preserved_trans:
  assumes "preserved w w'" and "preserved w' w''"
  shows "preserved w w''"
proof -
  have "v \<in> versions w'" if "v \<in> versions w" "stored w' v = Some m" for v m
    using that by (auto simp: versions_def stored_def split: option.splits)
  then show ?thesis
    using assms unfolding preserved_def by metis
qed

lemma kept_preserved:
  assumes "table_inv t w" and "kept w (tb_nextFragmentID t) w'"
  shows "preserved w w'"
  unfolding preserved_def
proof (intro ballI allI impI conjI)
  fix v m assume v: "v \<in> versions w" "stored w v = Some m"
  show "stored w' v = Some m"
    using assms(2) v(2) by (simp add: kept_def)
  fix f j assume f: "f \<in> set (man_Fragments m)"
  obtain maxid where "history_ok w (tb_nextVersion t) maxid (tb_nextFragmentID t)"
    using assms(1) by (auto simp: table_inv_def)
  then have "\<exists>m'. stored w v = Some m' \<and> manifest_present w maxid (tb_nextFragmentID t) m'"
    using v(1) unfolding history_ok_def by blast
  then have "fr_ID f < tb_nextFragmentID t"
    using v(2) f by (auto simp: manifest_present_def list_all_iff)
  then show "content w' (ckey (fr_ID f) j) = content w (ckey (fr_ID f) j)"
    using assms(2) by (simp add: kept_def)
qed

text \<open>A column read from a fragment of a preserved version.\<close>

lemma ReadColumn_present:
  assumes "ok w" and "ok w'" and "fragment_present w f" and "frd_store r = st"
    and "\<And>j. content w' (ckey (fr_ID f) j) = content w (ckey (fr_ID f) j)"
  shows "fst (ReadColumn D r f i w') = fst (ReadColumn D r f i w)"
proof (cases "FieldByID (frd_schema r) i = None \<or> findDataFile f i = None")
  case True
  then show ?thesis
    by (auto simp: ReadColumn_def split: option.splits)
next
  case False
  then obtain fld df where df: "FieldByID (frd_schema r) i = Some fld" "findDataFile f i = Some df"
    by auto
  then have "df \<in> set (fr_DataFiles f)"
    by (auto simp: findDataFile_def find_Some_iff)
  then obtain page where page: "df_Path df = column_path (fragment_dir tp (fr_ID f)) (df_ColumnID df)"
    "content w (ckey (fr_ID f) (df_ColumnID df)) = Some page" "df_FileSize df = int (length page)"
    using assms(3) by (auto simp: fragment_present_def list_all_iff frag.file_present_def)
  have "Store_Read st (df_Path df) 0 (df_FileSize df) x = (Inr page, x)" if "ok x" "x = w \<or> x = w'" for x
    using read_ok [OF that(1) frag.column_managed, of "fr_ID f" "df_ColumnID df" page "int (length page)"] page that(2)
      assms(5) by auto
  then show ?thesis
    using df assms(1,2,4) by (simp add: ReadColumn_def)
qed

section \<open>Runs\<close>

lemma table_step_inv:
  assumes "table_step same C x y" and "table_inv (fst x) (snd x)"
  shows "table_inv (fst y) (snd y) \<and> preserved (snd x) (snd y)"
  using assms
proof (induction rule: table_step.induct)
  case (step_insert now t bs w r t' w')
  have inv: "table_inv t w"
    using step_insert.prems by simp
  show ?case
  proof (cases "bs = []")
    case True
    then show ?thesis
      using step_insert by (simp add: BatchInsert_def)
  next
    case False
    have range: "fits64 now" "tb_nextVersion t < 2 ^ 63 - 1" "tb_nextFragmentID t < 2 ^ 31 - 1"
      using step_insert.hyps(2) by (simp_all add: in_range_def)
    have "table_inv t' w' \<and> kept w (tb_nextFragmentID t) w'"
    proof (rule BatchInsert_inv [OF inv range(2,3,1) _ step_insert.hyps(1)])
      show "gm_ok (rb_Columns b)" if "insert_batch same bs = Inr b" for b
        using insert_batch_gm_ok [OF that False step_insert.hyps(3)] .
      show "Fragment_ok f" if "r = Inr f" for f
        using step_insert.hyps(4) that by blast
    qed
    then show ?thesis
      using kept_preserved [OF inv] by simp
  qed
next
  case (step_add now t field w ra t' w')
  then have inv: "table_inv t w"
    by simp
  have "table_inv t' w' \<and> kept w (tb_nextFragmentID t) w'"
    using AddColumn_inv [OF inv _ _ step_add.hyps(3,1)] step_add.hyps(2) by (simp add: in_range_def)
  then show ?case
    using kept_preserved [OF inv] by simp
next
  case (step_drop now t n w rd t' w')
  then have inv: "table_inv t w"
    by simp
  have "table_inv t' w' \<and> kept w (tb_nextFragmentID t) w'"
    using DropColumn_inv [OF inv _ _ step_drop.hyps(1)] step_drop.hyps(2) by (simp add: in_range_def)
  then show ?case
    using kept_preserved [OF inv] by simp
next
  case (step_open name t w t' w')
  then have inv: "table_inv t w"
    by simp
  obtain t1 where "OpenTable name tp st comp w = (Inr t1, w)" "table_inv t1 w"
    by (rule Open_inv [OF inv])
  moreover have "tb_store t = st" "tb_tablePath t = tp" "tb_compression t = comp"
    using inv by (simp_all add: table_inv_def attached_def)
  ultimately show ?case
    using step_open.hyps by simp
qed

lemma table_run_inv:
  assumes "(table_step same C)\<^sup>*\<^sup>* x y" and "table_inv (fst x) (snd x)"
  shows "table_inv (fst y) (snd y) \<and> preserved (snd x) (snd y)"
  using assms
proof (induction rule: rtranclp_induct)
  case (step y z)
  then show ?case
    using table_step_inv [OF step.hyps(2)] preserved_trans by blast
qed simp

text \<open>What the table answers.\<close>

lemma ListVersions_inv: "table_inv t w \<Longrightarrow> ListVersions t w = (Inr [1..tb_nextVersion t - 1], w)"
proof -
  assume inv: "table_inv t w"
  then have "ok w" "canonical w" and ms: "tb_manifestStore t = ms" and v: "versions w = {1..<tb_nextVersion t}"
    by (auto simp: table_inv_def attached_def history_ok_def)
  moreover have "sorted_list_of_set {1..<tb_nextVersion t} = [1..tb_nextVersion t - 1]"
  proof -
    have "{1..<tb_nextVersion t} = set [1..tb_nextVersion t - 1]"
      by auto
    then show ?thesis
      by (simp add: sorted_list_of_set.idem_if_sorted_distinct del: set_upto)
  qed
  ultimately show ?thesis
    using ListVersions_ok [of w] by (simp add: ListVersions_def)
qed

lemma CheckoutVersion_inv:
  assumes "table_inv t w" and "stored w v = Some m"
  shows "CheckoutVersion t v w = (Inr m, w)"
proof (cases "VM_Get (tb_versionMgr t) v")
  case None
  obtain data where "content w (mkey v) = Some data" "DeserializeManifest data = Inr m"
    using assms(2) by (auto simp: stored_def split: option.splits sum.splits)
  then have "MS_Read ms v w = (Inr m, w)"
    using MS_Read_content [of w v] assms(1) by (simp add: table_inv_def)
  with None assms(1) show ?thesis
    by (simp add: CheckoutVersion_def table_inv_def attached_def)
next
  case (Some m')
  then show ?thesis
    using assms by (auto simp: CheckoutVersion_def table_inv_def)
qed

lemma CheckoutVersion_stored:
  assumes "table_inv t w" and "fst (CheckoutVersion t v w) = Inr m"
  shows "stored w v = Some m"
proof (cases "VM_Get (tb_versionMgr t) v")
  case (Some m')
  then show ?thesis
    using assms by (auto simp: CheckoutVersion_def table_inv_def)
next
  case None
  then have r: "fst (MS_Read ms v w) = Inr m" and ok: "ok w"
    using assms by (auto simp: CheckoutVersion_def table_inv_def attached_def)
  then obtain data where "content w (mkey v) = Some data"
    using MS_Read_missing [OF ok, of v] by (cases "content w (mkey v)") auto
  then show ?thesis
    using r MS_Read_content [OF ok, of v data] by (simp add: stored_def)
qed

lemma LatestManifest_inv:
  assumes "table_inv t w"
  shows "\<exists>latest. VM_Latest (tb_versionMgr t) = Some latest \<and> LatestManifest t w = (Inr latest, w) \<and>
    stored w (tb_nextVersion t - 1) = Some latest"
proof -
  obtain latest where latest: "VM_Latest (tb_versionMgr t) = Some latest" "stored w (tb_nextVersion t - 1) = Some latest"
    by (rule table_inv_latest [OF assms])
  have "1 < tb_nextVersion t"
    using assms by (simp add: table_inv_def)
  then have "last [1..tb_nextVersion t - 1] = tb_nextVersion t - 1"
    by (simp add: upto_rec2)
  then have "MS_LatestVersion (tb_manifestStore t) w = (Inr (tb_nextVersion t - 1), w)"
    using ListVersions_inv [OF assms] \<open>1 < _\<close> by (simp add: ListVersions_def MS_LatestVersion_def)
  moreover have "CheckoutVersion t (tb_nextVersion t - 1) w = (Inr latest, w)"
    by (rule CheckoutVersion_inv [OF assms latest(2)])
  ultimately show ?thesis
    using latest by (auto simp: LatestManifest_def CheckoutVersion_def split: option.splits)
qed

end

end
