(* ===== verification/LocalHistory.thy ===== *)
theory LocalHistory
  imports LocalTable TableHistory
begin

text \<open>
  Tables on the local file system: the contract of \<open>TableHistory\<close> is discharged for every root, table
  path and codec that restores its input, and the properties of \<^verbatim>\<open>src/table/table.go\<close>,
  \<^verbatim>\<open>fragment_writer.go\<close> and \<^verbatim>\<open>fragment_reader.go\<close> are stated over files.
\<close>

locale local_history =
  fixes c :: "string list" and root tp :: string and C :: codecs and comp :: CompressionType
  assumes safe: "join_safe tp"
    and codec: "codec_ok C comp (effective_block_size (NewMiniBlockEncoder comp))"
begin

lemma versions_path: "versions_path c root (table_key c root tp) (path_Join [tp, ''_versions''])"
  using local_table.versions_dir_path [OF local_tableI [OF safe]] by (simp add: versions_dir_def)

lemma names: "simple_name ''data''" "simple_name (CHR ''f'' # FormatInt i)"
  "simple_name (''col_'' @ FormatInt j @ ''.lance'')"
  using FormatInt_simple [of _ i] FormatInt_simple [of _ j] by (auto simp: simple_name_def)

lemma fragment_key: "under_root c root (fragment_dir tp i) = table_key c root tp @ [''data'', CHR ''f'' # FormatInt i]"
  using under_root_Join_two [OF names(1,2) safe] by (simp add: fragment_dir_def table_key_def)

lemma column_file:
  "under_root c root (column_path (fragment_dir tp i) j) =
     table_key c root tp @ [''data'', CHR ''f'' # FormatInt i, ''col_'' @ FormatInt j @ ''.lance'']"
  using under_root_Join_name [OF names(3) [of j], where p = "fragment_dir tp i" and cwd = c and root = root] fragment_key
  by (simp add: column_path_def fragment_dir_def)

lemma column_managed: "managed_path c root (table_key c root tp) (column_path (fragment_dir tp i) j)"
proof -
  have "LocalFS_resolve root (column_path (fragment_dir tp i) j) \<noteq> '''' \<and>
      LocalFS_resolve root (column_path (fragment_dir tp i) j) \<noteq> ''.''"
    unfolding LocalFS_resolve_def column_path_def by (rule Join_Join_not_dot [OF names(3)])
  then show ?thesis
    by (simp add: managed_path_def column_file table_file_def)
qed

end

sublocale local_history \<subseteq> table_client "LocalFS root" "under_root c root" file_content "fs_good c"
  "fs_ready c (table_key c root tp)" "managed_path c root (table_key c root tp)"
  "versions_path c root (table_key c root tp)" tp C comp
proof unfold_locales
  let ?base = "path_Join [tp, ''_versions'']"
  show "versions_path c root (table_key c root tp) ?base"
    by (rule versions_path)
  show "managed_path c root (table_key c root tp) (path_Join [?base, n])" if "simple_name n" for n
    using versions_file(2) [OF versions_path that] .
  show "under_root c root (path_Join [?base, n]) = under_root c root (path_Join [?base, n']) \<longleftrightarrow> n = n'"
    if "simple_name n" "simple_name n'" for n n'
    using versions_file(1) [OF versions_path] that by simp
  show "managed_path c root (table_key c root tp) (column_path (fragment_dir tp i) j)" for i j
    by (rule column_managed)
  show "under_root c root (column_path (fragment_dir tp i) j) = under_root c root (column_path (fragment_dir tp i') j')
      \<longleftrightarrow> i = i' \<and> j = j'" for i j i' j'
    by (auto simp: column_file)
  show "codec_ok C comp (effective_block_size (NewMiniBlockEncoder comp))"
    by (rule codec)
  show "under_root c root (path_Join [?base, n]) \<noteq> under_root c root (column_path (fragment_dir tp i) j)"
    if "simple_name n" for n i j
    using versions_file(1) [OF versions_path that] by (simp add: column_file)
qed

section \<open>Tables created on a fresh directory\<close>

definition fresh_table :: "string list \<Rightarrow> string \<Rightarrow> string \<Rightarrow> world \<Rightarrow> bool" where
  "fresh_table c root tp w \<longleftrightarrow>
     fs_ready c (table_key c root tp) w \<and> (\<forall>n. file_content w (table_key c root tp @ [''_versions'', n]) = None)"

text \<open>The tables that creating one and any steps lead to, with the state of the disk.\<close>

definition table_reach ::
  "(RecordBatch \<Rightarrow> RecordBatch \<Rightarrow> bool) \<Rightarrow> codecs \<Rightarrow> string list \<Rightarrow> string \<Rightarrow> string \<Rightarrow> CompressionType \<Rightarrow>
     world Table \<Rightarrow> world \<Rightarrow> bool" where
  "table_reach same C c root tp cmp t w \<longleftrightarrow>
     (\<exists>now name schema w0 t1 w1. fresh_table c root tp w0 \<and> fits64 now \<and> Fields_ok (Fields schema) \<and>
        Create now name tp schema (LocalFS root) cmp w0 = (Inr t1, w1) \<and>
        (table_step same C)\<^sup>*\<^sup>* (t1, w1) (t, w))"

lemma table_reach_step:
  "table_reach same C c root tp cmp t w \<Longrightarrow> (table_step same C)\<^sup>*\<^sup>* (t, w) (t', w') \<Longrightarrow>
     table_reach same C c root tp cmp t' w'"
  unfolding table_reach_def by (meson rtranclp_trans)

lemma max_field_ID_ge: "f \<in> set (Fields s) \<Longrightarrow> fld_ID f \<le> max_field_ID s"
proof -
  have mono: "n \<le> foldl (\<lambda>maxID f. if fld_ID f > maxID then fld_ID f else maxID) n fs" for n fs
  proof (induction fs arbitrary: n)
    case (Cons g fs)
    show ?case
      using Cons.IH [of "if fld_ID g > n then fld_ID g else n"] by (auto split: if_splits)
  qed simp
  have "f \<in> set fs \<Longrightarrow> fld_ID f \<le> foldl (\<lambda>maxID f. if fld_ID f > maxID then fld_ID f else maxID) n fs" for n fs
  proof (induction fs arbitrary: n)
    case (Cons g fs)
    then show ?case
      using mono [of "if fld_ID g > n then fld_ID g else n" fs] by (auto split: if_splits)
  qed simp
  then show "f \<in> set (Fields s) \<Longrightarrow> fld_ID f \<le> max_field_ID s"
    by (simp add: max_field_ID_def)
qed

lemma max_field_ID_nonneg: "0 \<le> max_field_ID s"
proof -
  have "n \<le> foldl (\<lambda>maxID f. if fld_ID f > maxID then fld_ID f else maxID) n fs" for n fs
  proof (induction fs arbitrary: n)
    case (Cons g fs)
    show ?case
      using Cons.IH [of "if fld_ID g > n then fld_ID g else n"] by (auto split: if_splits)
  qed simp
  then show ?thesis
    by (simp add: max_field_ID_def)
qed

context local_history
begin

lemma fresh_versions:
  assumes "fresh_table c root tp w"
  shows "canonical w" "versions w = {}"
proof -
  have "under_root c root (path_Join [path_Join [tp, ''_versions''], n]) = table_key c root tp @ [''_versions'', n]"
    if "simple_name n" for n
    by (rule versions_file(1) [OF versions_path that])
  then show "canonical w" "versions w = {}"
    using assms by (auto simp: canonical_def versions_def fresh_table_def manifestPath_def NewManifestStore_def)
qed

lemma reach_inv: "table_reach same C c root tp comp t w \<Longrightarrow> table_inv t w"
proof -
  assume "table_reach same C c root tp comp t w"
  then obtain now name schema w0 t1 w1 where r: "fresh_table c root tp w0" "fits64 now" "Fields_ok (Fields schema)"
    "Create now name tp schema (LocalFS root) comp w0 = (Inr t1, w1)" "(table_step same C)\<^sup>*\<^sup>* (t1, w1) (t, w)"
    unfolding table_reach_def by blast
  have "fs_ready c (table_key c root tp) w0"
    using r(1) by (simp add: fresh_table_def)
  then obtain t2 w2 where "Create now name tp schema (LocalFS root) comp w0 = (Inr t2, w2)" "table_inv t2 w2"
    by (rule Create_inv [OF _ fresh_versions [OF r(1)] r(3,2)])
  then show ?thesis
    using r(4) table_run_inv [OF r(5)] by simp
qed

lemma snapshot:
  assumes "table_inv t w" and "(table_step same C)\<^sup>*\<^sup>* (t, w) (t', w')" and "fits64 v"
    and "fst (CheckoutVersion t v w) = Inr m"
  shows "CheckoutVersion t' v w' = (Inr m, w') \<and>
    (\<forall>f \<in> set (man_Fragments m). \<forall>r i. frd_store r = LocalFS root \<longrightarrow>
       fst (ReadColumn D r f i w') = fst (ReadColumn D r f i w))"
proof -
  have inv': "table_inv t' w'" and p: "preserved w w'"
    using table_run_inv [OF assms(2)] assms(1) by simp_all
  have s: "stored w v = Some m"
    by (rule CheckoutVersion_stored [OF assms(1,4)])
  then have v: "v \<in> versions w"
    using assms(3) by (auto simp: stored_def versions_def split: option.splits)
  obtain maxid where "history_ok w (tb_nextVersion t) maxid (tb_nextFragmentID t)"
    using assms(1) by (auto simp: table_inv_def)
  then have "\<exists>m'. stored w v = Some m' \<and> manifest_present w maxid (tb_nextFragmentID t) m'"
    using v unfolding history_ok_def by blast
  then have present: "fragment_present w f" if "f \<in> set (man_Fragments m)" for f
    using that s by (auto simp: manifest_present_def list_all_iff)
  have ok: "fs_ready c (table_key c root tp) w" "fs_ready c (table_key c root tp) w'"
    using assms(1) inv' by (simp_all add: table_inv_def)
  have "stored w' v = Some m"
    using p v s by (simp add: preserved_def)
  then have "CheckoutVersion t' v w' = (Inr m, w')"
    by (rule CheckoutVersion_inv [OF inv'])
  moreover have "fst (ReadColumn D r f i w') = fst (ReadColumn D r f i w)"
    if "f \<in> set (man_Fragments m)" "frd_store r = LocalFS root" for f r i
    using p v s that by (intro ReadColumn_present [OF ok present]) (auto simp: preserved_def)
  ultimately show ?thesis
    by blast
qed

text \<open>The fragments of the latest manifest read the same later on.\<close>

lemma latest_kept:
  assumes "table_inv t w" and "(table_step same C)\<^sup>*\<^sup>* (t, w) (t', w')" and "LatestManifest t w = (Inr m, w)"
    and "f \<in> set (man_Fragments m)" and "frd_store r = LocalFS root"
  shows "fst (ReadColumn D r f i w') = fst (ReadColumn D r f i w)"
proof -
  have "fits64 (tb_nextVersion t - 1)"
    using assms(1) by (auto simp: table_inv_def fits64_def)
  moreover have "fst (CheckoutVersion t (tb_nextVersion t - 1) w) = Inr m"
    using LatestManifest_inv [OF assms(1)] CheckoutVersion_inv [OF assms(1)] assms(3) by fastforce
  ultimately show ?thesis
    using snapshot [OF assms(1,2)] assms(4,5) by blast
qed

lemma insert_reads:
  assumes "table_inv t w" and "in_range t now" and "bs \<noteq> []" and "insert_batch same bs = Inr b"
    and "batch_fits (tb_schema t) (rb_Columns b)" and "BatchInsert same C now t bs w = (r, t', w')"
    and "paths_ok tp"
  shows "\<exists>f old m. r = Inr f \<and> Fragment_ok f \<and>
    fr_NumRows f = frag.batch_rows (tb_schema t) (rb_Columns b) 0 \<and> fr_PhysicalRows f = fr_NumRows f \<and>
    LatestManifest t w = (Inr old, w) \<and> LatestManifest t' w' = (Inr m, w') \<and>
    man_Version m = tb_nextVersion t \<and> man_Schema m = tb_schema t \<and> man_Fragments m = man_Fragments old @ [f] \<and>
    (\<forall>i d. Column b i = Some d \<longrightarrow>
       fst (ReadColumn C (NewFragmentReader (LocalFS root) (tb_schema t) comp) f i w') = Inr d)"
proof -
  have t: "fs_ready c (table_key c root tp) w" "tb_store t = LocalFS root" "tb_tablePath t = tp" "tb_compression t = comp"
    using assms(1) by (simp_all add: table_inv_def attached_def)
  have range: "tb_nextVersion t < 2 ^ 63 - 1" "tb_nextFragmentID t < 2 ^ 31 - 1" "fits64 now"
    using assms(2) by (simp_all add: in_range_def)
  have gm: "gm_ok (rb_Columns b)"
    using assms(5) by (simp add: batch_fits_def)
  obtain w1 fw' where w1: "WriteBatch C (NewFragmentWriter (LocalFS root) (tb_schema t) (tb_nextFragmentID t) tp comp) b w
      = (Inr (), fw', w1)" "fs_ready c (table_key c root tp) w1"
    "frag.fragment_holds w1 (tb_schema t) (rb_Columns b) (Finish fw')" "fr_ID (Finish fw') = tb_nextFragmentID t"
    "fr_NumRows (Finish fw') = frag.batch_rows (tb_schema t) (rb_Columns b) 0"
    "list_all2 (\<lambda>(i, d) df. frag.stored_column w1 (tb_nextFragmentID t) (the (FieldByID (tb_schema t) i)) i d df)
       (rb_Columns b) (fr_DataFiles (Finish fw'))"
    "fr_DeletionFile (Finish fw') = None" "fr_PhysicalRows (Finish fw') = fr_NumRows (Finish fw')"
    by (rule frag.WriteBatch_holds [OF t(1) assms(5)])
  have fid: "fits32 (tb_nextFragmentID t)"
    using assms(1) range(2) by (simp add: table_inv_def fits32_def)
  have okf: "Fragment_ok (Finish fw')"
    by (rule written_fragment_ok [OF assms(5) table_schema_ok [OF assms(1)] assms(7) fid w1(4,5,7,8,6)])
  have wb: "WriteBatch C (NewFragmentWriter (tb_store t) (tb_schema t) (tb_nextFragmentID t) (tb_tablePath t)
      (tb_compression t)) b w = (Inr (), fw', w1)"
    using w1(1) t by simp
  have r_ok: "Fragment_ok f" if "r = Inr f" for f
    using BatchInsert_fragment [OF assms(3,4) wb assms(6) [unfolded that]] okf by simp
  obtain latest where latest: "r = Inr (Finish fw')" "table_inv t' w'" "VM_Latest (tb_versionMgr t) = Some latest"
    "stored w' = (stored w)(tb_nextVersion t \<mapsto> (NewManifest (tb_nextVersion t) (tb_schema t))
       \<lparr>man_Fragments := man_Fragments latest @ [Finish fw'], man_MaxFragmentID := tb_nextFragmentID t,
        man_Timestamp := now\<rparr>)"
    "\<forall>i j. file_content w' (under_root c root (column_path (fragment_dir tp i) j)) =
       file_content w1 (under_root c root (column_path (fragment_dir tp i) j))"
    "tb_nextVersion t' = tb_nextVersion t + 1"
    using BatchInsert_written [OF assms(1) range assms(3,4) gm wb assms(6) r_ok] by metis
  have old: "LatestManifest t w = (Inr latest, w)"
    using LatestManifest_inv [OF assms(1)] latest(3) by simp
  have m: "LatestManifest t' w' = (Inr ((NewManifest (tb_nextVersion t) (tb_schema t))
       \<lparr>man_Fragments := man_Fragments latest @ [Finish fw'], man_MaxFragmentID := tb_nextFragmentID t,
        man_Timestamp := now\<rparr>), w')"
    using LatestManifest_inv [OF latest(2)] latest(4,6) by auto
  have "frag.fragment_holds w' (tb_schema t) (rb_Columns b) (Finish fw')"
    using latest(5) by (intro frag.fragment_holds_frame [OF w1(3)]) simp
  then have "fst (ReadColumn C (NewFragmentReader (LocalFS root) (tb_schema t) comp) (Finish fw') i w') = Inr d"
    if "Column b i = Some d" for i d
    using frag.ReadColumn_holds [of w' "tb_schema t" "rb_Columns b" "Finish fw'" i d] that latest(2)
    by (simp add: Column_def table_inv_def)
  with old m latest(1) okf w1(5,8) show ?thesis
    by (intro exI [of _ "Finish fw'"] exI [of _ latest] exI) (auto simp: NewManifest_def)
qed

lemma created:
  assumes "fresh_table c root tp w0" and "Fields_ok (Fields schema)"
  obtains t w where "table_reach same C c root tp comp t w" "tb_schema t = schema" "tb_nextVersion t = 2"
    "tb_nextFragmentID t = 0"
    "fst (CheckoutVersion t 1 w) = Inr ((NewManifest 1 schema)\<lparr>man_MaxFragmentID := 0, man_Timestamp := 0\<rparr>)"
proof -
  have now: "fits64 0" and ready: "fs_ready c (table_key c root tp) w0"
    using assms(1) by (simp_all add: fits64_def fresh_table_def)
  obtain t w where t: "Create 0 name tp schema (LocalFS root) comp w0 = (Inr t, w)" "table_inv t w"
    "tb_schema t = schema" "tb_nextVersion t = 2" "tb_nextFragmentID t = 0"
    "stored w 1 = Some ((NewManifest 1 schema)\<lparr>man_MaxFragmentID := 0, man_Timestamp := 0\<rparr>)"
    by (rule Create_inv [OF ready fresh_versions [OF assms(1)] assms(2) now])
  then have "table_reach same C c root tp comp t w"
    using assms now unfolding table_reach_def by blast
  with t(3-5) that show thesis
    using CheckoutVersion_inv [OF t(2) t(6)] by simp
qed

lemma evolve_latest:
  assumes "table_inv t w" and "in_range t now" and "Fields_ok (Fields s)" and "evolve now s t w = (r, t', w')"
  shows "\<exists>old m. r = Inr () \<and> tb_schema t' = s \<and> tb_nextVersion t' = tb_nextVersion t + 1 \<and>
    LatestManifest t w = (Inr old, w) \<and> LatestManifest t' w' = (Inr m, w') \<and>
    man_Version m = tb_nextVersion t \<and> man_Schema m = s \<and> man_Fragments m = man_Fragments old"
proof -
  have range: "tb_nextVersion t < 2 ^ 63 - 1" "fits64 now"
    using assms(2) by (simp_all add: in_range_def)
  obtain t1 w1 latest where e: "evolve now s t w = (Inr (), t1, w1)" "table_inv t1 w1"
    "VM_Latest (tb_versionMgr t) = Some latest"
    "stored w1 = (stored w)(tb_nextVersion t \<mapsto> (NewManifest (tb_nextVersion t) s)
       \<lparr>man_Fragments := man_Fragments latest, man_MaxFragmentID := man_MaxFragmentID latest, man_Timestamp := now\<rparr>)"
    "tb_nextVersion t1 = tb_nextVersion t + 1" "tb_schema t1 = s"
    using evolve_inv [OF assms(1) range assms(3)] by metis
  obtain m where m: "LatestManifest t1 w1 = (Inr m, w1)" "stored w1 (tb_nextVersion t1 - 1) = Some m"
    using LatestManifest_inv [OF e(2)] by blast
  have "LatestManifest t w = (Inr latest, w)"
    using LatestManifest_inv [OF assms(1)] e(3) by auto
  moreover have "m = (NewManifest (tb_nextVersion t) s)
       \<lparr>man_Fragments := man_Fragments latest, man_MaxFragmentID := man_MaxFragmentID latest, man_Timestamp := now\<rparr>"
    using m(2) e(4,5) by simp
  ultimately show ?thesis
    using e m(1) assms(4) by (auto simp: NewManifest_def)
qed

lemma reopen:
  assumes "table_inv t w"
  shows "ListVersions t w = (Inr [1..tb_nextVersion t - 1], w) \<and>
    (\<exists>t' m. OpenTable name tp (LocalFS root) comp w = (Inr t', w) \<and> tb_schema t' = tb_schema t \<and>
       tb_nextVersion t' = tb_nextVersion t \<and>
       LatestManifest t w = (Inr m, w) \<and> LatestManifest t' w = (Inr m, w) \<and>
       (\<forall>f \<in> set (man_Fragments m). fr_ID f < tb_nextFragmentID t \<and> fr_ID f < tb_nextFragmentID t'))"
proof -
  obtain t' where t': "OpenTable name tp (LocalFS root) comp w = (Inr t', w)" "table_inv t' w"
    "tb_schema t' = tb_schema t" "tb_nextVersion t' = tb_nextVersion t"
    by (rule Open_inv [OF assms])
  obtain m where m: "LatestManifest t w = (Inr m, w)" "stored w (tb_nextVersion t - 1) = Some m"
    using LatestManifest_inv [OF assms] by blast
  have "LatestManifest t' w = (Inr m, w)"
    using LatestManifest_inv [OF t'(2)] m(2) t'(4) by auto
  moreover have "fr_ID f < tb_nextFragmentID x" if x: "table_inv x w" "tb_nextVersion x = tb_nextVersion t"
    and f: "f \<in> set (man_Fragments m)" for x f
  proof -
    obtain latest where "stored w (tb_nextVersion x - 1) = Some latest"
      "manifest_present w (man_MaxFragmentID latest) (tb_nextFragmentID x) latest"
      by (rule table_inv_latest [OF x(1)])
    then show ?thesis
      using m(2) x(2) f by (auto simp: manifest_present_def list_all_iff)
  qed
  ultimately show ?thesis
    using t' m(1) ListVersions_inv [OF assms] assms by blast
qed

lemma add_latest:
  assumes "table_inv t w" and "in_range t now" and "Field_ok f" and "max_field_ID (tb_schema t) < 2 ^ 31 - 1"
    and "\<not> HasField (tb_schema t) (fld_Name f)" and "AddColumn now t f w = (r, t', w')"
  shows "\<exists>k old m. r = Inr () \<and> (\<forall>g \<in> set (Fields (tb_schema t)). fld_ID g < k) \<and>
    tb_schema t' = \<lparr>Fields = Fields (tb_schema t) @ [set_fld_ID k f]\<rparr> \<and>
    LatestManifest t w = (Inr old, w) \<and> LatestManifest t' w' = (Inr m, w') \<and>
    man_Version m = tb_nextVersion t \<and> man_Schema m = tb_schema t' \<and> man_Fragments m = man_Fragments old"
proof -
  let ?k = "wrap32 (max_field_ID (tb_schema t) + 1)"
  let ?s = "\<lparr>Fields = Fields (tb_schema t) @ [set_fld_ID ?k f]\<rparr>"
  have "Fields_ok (Fields ?s)"
    using table_schema_ok [OF assms(1)] set_fld_ID_ok [OF assms(3) fits32_wrap32] by (simp add: Fields_ok_iff)
  moreover have "evolve now ?s t w = (r, t', w')"
    using assms(5,6) by (simp add: AddColumn_def)
  moreover have "0 \<le> max_field_ID (tb_schema t)"
    by (rule max_field_ID_nonneg)
  then have "?k = max_field_ID (tb_schema t) + 1"
    using assms(4) by (simp add: fits32_def)
  then have "\<forall>g \<in> set (Fields (tb_schema t)). fld_ID g < ?k"
    using max_field_ID_ge [of _ "tb_schema t"] by fastforce
  ultimately show ?thesis
    using evolve_latest [OF assms(1,2), of ?s r t' w'] by auto
qed

lemma drop_latest:
  assumes "table_inv t w" and "in_range t now" and "HasField (tb_schema t) n"
    and "DropColumn now t n w = (r, t', w')"
  shows "\<exists>old m. r = Inr () \<and> tb_schema t' = \<lparr>Fields = filter (\<lambda>g. fld_Name g \<noteq> n) (Fields (tb_schema t))\<rparr> \<and>
    LatestManifest t w = (Inr old, w) \<and> LatestManifest t' w' = (Inr m, w') \<and>
    man_Version m = tb_nextVersion t \<and> man_Schema m = tb_schema t' \<and> man_Fragments m = man_Fragments old"
proof -
  let ?s = "\<lparr>Fields = filter (\<lambda>g. fld_Name g \<noteq> n) (Fields (tb_schema t))\<rparr>"
  have "Fields_ok (Fields ?s)"
    using table_schema_ok [OF assms(1)] by (auto simp: Fields_ok_iff list_all_iff)
  moreover have "evolve now ?s t w = (r, t', w')"
    using assms(3,4) by (auto simp: DropColumn_def HasField_def split: if_splits)
  ultimately show ?thesis
    using evolve_latest [OF assms(1,2), of ?s r t' w'] by auto
qed

end

section \<open>Properties\<close>

lemma local_historyI:
  "join_safe tp \<Longrightarrow> codec_ok C cmp (effective_block_size (NewMiniBlockEncoder cmp)) \<Longrightarrow> local_history tp C cmp"
  by unfold_locales

text \<open>
  C6: snapshot isolation: a version that can be checked out at some point of a table's life is checked
  out with the same manifest after any further inserts, schema changes and reopenings, and every
  column of its fragments reads back the same, also through the schema of another version.
\<close>

theorem table_snapshots:
  assumes "join_safe tp" and "codec_ok C cmp (effective_block_size (NewMiniBlockEncoder cmp))"
    and "table_reach same C c root tp cmp t w" and "(table_step same C)\<^sup>*\<^sup>* (t, w) (t', w')"
    and "fits64 v" and "fst (CheckoutVersion t v w) = Inr m"
  shows "CheckoutVersion t' v w' = (Inr m, w') \<and>
    (\<forall>f \<in> set (man_Fragments m). \<forall>r i. frd_store r = LocalFS root \<longrightarrow>
       fst (ReadColumn D r f i w') = fst (ReadColumn D r f i w))"
proof -
  note hist = local_historyI [OF assms(1,2)]
  show ?thesis
    by (rule local_history.snapshot [OF hist local_history.reach_inv [OF hist assms(3)] assms(4-6)])
qed


lemma no_codecs_ok: "codec_ok C CompressionNone (effective_block_size (NewMiniBlockEncoder CompressionNone))"
  by (rule codec_ok_None) (simp add: effective_block_size_def NewMiniBlockEncoder_def defaultMiniBlockSize_def)

interpretation plain_history: local_history c root "path_Join xs" C CompressionNone for c root xs C
  by unfold_locales (simp, rule no_codecs_ok)

lemma empty_world_fresh: "fresh_table [] root tp empty_world"
  by (simp add: fresh_table_def empty_world_ready empty_world_content)

lemma example_table:
  assumes "Fields_ok (Fields schema)"
  obtains t w where "table_reach (\<lambda>_ _. True) no_codecs [] ''/db'' ''t'' CompressionNone t w"
    "tb_schema t = schema" "tb_nextVersion t = 2" "tb_nextFragmentID t = 0"
    "fst (CheckoutVersion t 1 w) = Inr ((NewManifest 1 schema)\<lparr>man_MaxFragmentID := 0, man_Timestamp := 0\<rparr>)"
  using assms by (rule local_history.created [OF local_historyI [OF join_safe_t no_codecs_ok] empty_world_fresh])

theorem table_snapshots_witness:
  "\<exists>t w r t' w' m. tb_schema t = NewSchema [] \<and>
     AddColumn 7 t (Field 0 ''x'' TypeInt64 False 0 [] None) (w :: world) = (r, t', w') \<and>
     CheckoutVersion t' 1 w' = (Inr m, w') \<and> man_Version m = 1"
proof -
  let ?f = "Field 0 ''x'' TypeInt64 False 0 [] None"
  obtain t w where t: "table_reach (\<lambda>_ _. True) no_codecs [] ''/db'' ''t'' CompressionNone t w"
    "tb_schema t = NewSchema []" "tb_nextVersion t = 2" "tb_nextFragmentID t = 0"
    "fst (CheckoutVersion t 1 w) = Inr ((NewManifest 1 (NewSchema []))\<lparr>man_MaxFragmentID := 0, man_Timestamp := 0\<rparr>)"
    using example_table [of "NewSchema []"] by (auto simp: NewSchema_def)
  obtain r t' w' where a: "AddColumn 7 t ?f w = (r, t', w')"
    by (metis prod_cases3)
  have "table_step (\<lambda>_ _. True) no_codecs (t, w) (t', w')"
    by (rule table_step.step_add [OF a])
      (simp_all add: in_range_def t fits64_def fits32_def DataType_ok_def DataType_of_code_def utf8_ok_ascii)
  then have "(table_step (\<lambda>_ _. True) no_codecs)\<^sup>*\<^sup>* (t, w) (t', w')"
    by simp
  from table_snapshots [OF join_safe_t no_codecs_ok t(1) this _ t(5)]
  have "CheckoutVersion t' 1 w' = (Inr ((NewManifest 1 (NewSchema []))\<lparr>man_MaxFragmentID := 0, man_Timestamp := 0\<rparr>), w')"
    by (simp add: fits64_def)
  with a t(2) show ?thesis
    by (intro exI conjI) (assumption+, simp add: NewManifest_def)
qed

text \<open>
  C4: an insert of batches whose columns fit the schema succeeds, adds exactly one version with one
  more fragment than the latest one, and every column of the merged batch is read back from that
  fragment as it was given, through encoding, compression and the file system.
\<close>

theorem insert_then_read:
  assumes "join_safe tp" and "codec_ok C cmp (effective_block_size (NewMiniBlockEncoder cmp))"
    and "table_reach same C c root tp cmp t w" and "in_range t now"
    and "bs \<noteq> []" and "insert_batch same bs = Inr b" and "batch_fits (tb_schema t) (rb_Columns b)"
    and "BatchInsert same C now t bs w = (r, t', w')" and "paths_ok tp"
  shows "\<exists>f old m. r = Inr f \<and> LatestManifest t w = (Inr old, w) \<and> LatestManifest t' w' = (Inr m, w') \<and>
    man_Version m = tb_nextVersion t \<and> man_Schema m = tb_schema t \<and> man_Fragments m = man_Fragments old @ [f] \<and>
    (\<forall>i d. Column b i = Some d \<longrightarrow>
       fst (ReadColumn C (NewFragmentReader (LocalFS root) (tb_schema t) cmp) f i w') = Inr d)"
proof -
  note hist = local_historyI [OF assms(1,2)]
  show ?thesis
    using local_history.insert_reads [OF hist local_history.reach_inv [OF hist assms(3)] assms(4-9)] by blast
qed

lemma example_batch:
  assumes "tb_schema t = NewSchema [Field 0 ''x'' TypeInt64 False 0 [] None]"
    and "b = SetColumn 0 (Int64s [5]) (NewRecordBatch (tb_schema t) 1)"
  shows "insert_batch same [b] = Inr b" and "Column b 0 = Some (Int64s [5])"
    and "batch_fits (tb_schema t) (rb_Columns b)" and "gm_ok (rb_Columns b)"
proof -
  let ?f = "Field 0 ''x'' TypeInt64 False 0 [] None"
  have b: "rb_Columns b = [(0, Int64s [5])]"
    by (simp add: assms(2) SetColumn_def NewRecordBatch_def gm_put_def)
  then show "insert_batch same [b] = Inr b" "Column b 0 = Some (Int64s [5])" "gm_ok (rb_Columns b)"
    by (simp_all add: insert_batch_def Column_def gm_ok_def gm_keys_def)
  have "FieldByID (tb_schema t) 0 = Some ?f"
    by (simp add: assms(1) NewSchema_def FieldByID_def fits32_def)
  moreover have "column_fits ?f (Int64s [5])"
    by (simp add: column_fits_def) code_simp
  ultimately show "batch_fits (tb_schema t) (rb_Columns b)"
    by (simp add: batch_fits_def b gm_ok_def gm_keys_def)
qed

theorem insert_then_read_witness:
  "\<exists>t w r t' w' f. BatchInsert (\<lambda>_ _. True) no_codecs 7 t
       [SetColumn 0 (Int64s [5]) (NewRecordBatch (tb_schema t) 1)] (w :: world) = (Inr f, t', w') \<and>
     fst (ReadColumn no_codecs (NewFragmentReader (LocalFS ''/db'') (tb_schema t) CompressionNone) f 0 w') =
       Inr (Int64s [5])"
proof -
  note hist = local_historyI [OF join_safe_t no_codecs_ok, of no_codecs]
  let ?f = "Field 0 ''x'' TypeInt64 False 0 [] None"
  have ok: "Fields_ok (Fields (NewSchema [?f]))"
    by (simp add: NewSchema_def fits32_def DataType_ok_def DataType_of_code_def utf8_ok_ascii)
  obtain t w where t: "table_reach (\<lambda>_ _. True) no_codecs [] ''/db'' ''t'' CompressionNone t w"
    "tb_schema t = NewSchema [?f]" "tb_nextVersion t = 2" "tb_nextFragmentID t = 0"
    "fst (CheckoutVersion t 1 w) = Inr ((NewManifest 1 (NewSchema [?f]))\<lparr>man_MaxFragmentID := 0, man_Timestamp := 0\<rparr>)"
    by (rule example_table [OF ok])
  let ?b = "SetColumn 0 (Int64s [5]) (NewRecordBatch (tb_schema t) 1)"
  obtain r t' w' where run: "BatchInsert (\<lambda>_ _. True) no_codecs 7 t [?b] w = (r, t', w')"
    by (metis prod_cases3)
  note b = example_batch [OF t(2) refl]
  have good: "paths_ok ''t''"
    by (rule paths_ok_ascii) simp
  have range: "in_range t 7"
    by (simp add: in_range_def t(3,4) fits64_def)
  from insert_then_read [OF join_safe_t no_codecs_ok t(1) range _ b(1,3) run good] b(2)
  obtain f where "r = Inr f"
    "fst (ReadColumn no_codecs (NewFragmentReader (LocalFS ''/db'') (tb_schema t) CompressionNone) f 0 w') = Inr (Int64s [5])"
    by blast
  with run show ?thesis
    by blast
qed

text \<open>
  C10: zero-copy schema evolution: \<open>AddColumn\<close> refuses a name that exists and otherwise appends the
  field under an identifier beyond those of the schema; \<open>DropColumn\<close> refuses an unknown name and
  otherwise removes the fields of that name. Either adds one version that keeps the fragments of the
  latest one. (The identifier is beyond those of the current schema only: after the field with the
  highest one is dropped, \<open>max_field_ID\<close> and so the next identifier fall back.)
\<close>

theorem schema_evolution:
  assumes "join_safe tp" and "codec_ok C cmp (effective_block_size (NewMiniBlockEncoder cmp))"
    and "table_reach same C c root tp cmp t w" and "in_range t now" and "Field_ok f"
    and "max_field_ID (tb_schema t) < 2 ^ 31 - 1"
    and "AddColumn now t f w = (ra, ta, wa)" and "DropColumn now t n w = (rd, td, wd)"
  shows "(if HasField (tb_schema t) (fld_Name f) then ra = Inl (TblErr ErrFieldExists) \<and> ta = t \<and> wa = w
     else \<exists>k old m. ra = Inr () \<and> (\<forall>g \<in> set (Fields (tb_schema t)). fld_ID g < k) \<and>
       tb_schema ta = \<lparr>Fields = Fields (tb_schema t) @ [set_fld_ID k f]\<rparr> \<and>
       LatestManifest t w = (Inr old, w) \<and> LatestManifest ta wa = (Inr m, wa) \<and>
       man_Version m = tb_nextVersion t \<and> man_Schema m = tb_schema ta \<and> man_Fragments m = man_Fragments old) \<and>
    (if \<not> HasField (tb_schema t) n then rd = Inl (TblErr ErrNoColumn) \<and> td = t \<and> wd = w
     else \<exists>old m. rd = Inr () \<and> tb_schema td = \<lparr>Fields = filter (\<lambda>g. fld_Name g \<noteq> n) (Fields (tb_schema t))\<rparr> \<and>
       LatestManifest t w = (Inr old, w) \<and> LatestManifest td wd = (Inr m, wd) \<and>
       man_Version m = tb_nextVersion t \<and> man_Schema m = tb_schema td \<and> man_Fragments m = man_Fragments old)"
proof -
  note hist = local_historyI [OF assms(1,2)]
  note inv = local_history.reach_inv [OF hist assms(3)]
  show ?thesis
    using local_history.add_latest [OF hist inv assms(4,5,6) _ assms(7)]
      local_history.drop_latest [OF hist inv assms(4) _ assms(8)] assms(7,8)
    by (auto simp: AddColumn_def DropColumn_def HasField_def)
qed

theorem schema_evolution_witness:
  "\<exists>t w r t' w'. tb_schema t = NewSchema [] \<and>
     AddColumn 7 t (Field 0 ''x'' TypeInt64 False 0 [] None) (w :: world) = (r, t', w') \<and> r = Inr () \<and>
     length (Fields (tb_schema t')) = 1"
proof -
  let ?f = "Field 0 ''x'' TypeInt64 False 0 [] None"
  obtain t w where t: "table_reach (\<lambda>_ _. True) no_codecs [] ''/db'' ''t'' CompressionNone t w"
    "tb_schema t = NewSchema []" "tb_nextVersion t = 2" "tb_nextFragmentID t = 0"
    "fst (CheckoutVersion t 1 w) = Inr ((NewManifest 1 (NewSchema []))\<lparr>man_MaxFragmentID := 0, man_Timestamp := 0\<rparr>)"
    using example_table [of "NewSchema []"] by (auto simp: NewSchema_def)
  obtain r t' w' where a: "AddColumn 7 t ?f w = (r, t', w')"
    by (metis prod_cases3)
  obtain rd td wd where d: "DropColumn 7 t ''x'' w = (rd, td, wd)"
    by (metis prod_cases3)
  have "in_range t 7" "Field_ok ?f" "max_field_ID (tb_schema t) < 2 ^ 31 - 1" "\<not> HasField (tb_schema t) (fld_Name ?f)"
    by (simp_all add: in_range_def t fits64_def fits32_def DataType_ok_def DataType_of_code_def utf8_ok_ascii
        max_field_ID_def NewSchema_def HasField_def FieldByName_def)
  from schema_evolution [OF join_safe_t no_codecs_ok t(1) this(1-3) a d] this(4)
  have "r = Inr ()" "length (Fields (tb_schema t')) = 1"
    by (auto simp: t(2) NewSchema_def)
  with a t(2) show ?thesis
    by blast
qed

text \<open>
  C9: durability: whatever inserts and schema changes a table has seen, its versions are numbered from
  one without gaps, and opening it again from the disk finds the same schema, next version and latest
  manifest, and hands out only fragment identifiers that no fragment has.
\<close>

theorem table_reopen:
  assumes "join_safe tp" and "codec_ok C cmp (effective_block_size (NewMiniBlockEncoder cmp))"
    and "table_reach same C c root tp cmp t w"
  shows "ListVersions t w = (Inr [1..tb_nextVersion t - 1], w) \<and>
    (\<exists>t' m. OpenTable name tp (LocalFS root) cmp w = (Inr t', w) \<and> tb_schema t' = tb_schema t \<and>
       tb_nextVersion t' = tb_nextVersion t \<and>
       LatestManifest t w = (Inr m, w) \<and> LatestManifest t' w = (Inr m, w) \<and>
       (\<forall>f \<in> set (man_Fragments m). fr_ID f < tb_nextFragmentID t \<and> fr_ID f < tb_nextFragmentID t'))"
proof -
  note hist = local_historyI [OF assms(1,2)]
  show ?thesis
    by (rule local_history.reopen [OF hist local_history.reach_inv [OF hist assms(3)]])
qed

theorem table_reopen_witness:
  "\<exists>t w t'. ListVersions t (w :: world) = (Inr [1], w) \<and>
     OpenTable ''again'' ''t'' (LocalFS ''/db'') CompressionNone w = (Inr t', w) \<and> tb_nextVersion t' = 2"
proof -
  obtain t w where t: "table_reach (\<lambda>_ _. True) no_codecs [] ''/db'' ''t'' CompressionNone t w"
    "tb_schema t = NewSchema []" "tb_nextVersion t = 2" "tb_nextFragmentID t = 0"
    "fst (CheckoutVersion t 1 w) = Inr ((NewManifest 1 (NewSchema []))\<lparr>man_MaxFragmentID := 0, man_Timestamp := 0\<rparr>)"
    using example_table [of "NewSchema []"] by (auto simp: NewSchema_def)
  show ?thesis
    using table_reopen [OF join_safe_t no_codecs_ok t(1), of "''again''"] t(3) by auto
qed

end
