(* ===== verification/AsyncWriter.thy ===== *)
theory AsyncWriter
  imports Table
begin

text \<open>
  \<^verbatim>\<open>src/table/async_writer.go\<close>: batches queued on a channel and written by a background
  goroutine. The channels are lists with the capacities of the code; an unbuffered send and its
  receive are one step. The goroutine owns the accumulated batch and the counters, so each turn of
  its loop is one step, and \<open>Write\<close>, \<open>Close\<close> and the readers of the results interleave with it.
\<close>

section \<open>State\<close>

record FlushResult =
  flr_Fragment :: "Fragment option"
  flr_Manifest :: "Manifest option"
  flr_Error :: "goerr option"

definition defaultBatchChanCap :: nat where
  "defaultBatchChanCap = 256"

definition defaultResultChanCap :: nat where
  "defaultResultChanCap = 16"

record 'w AsyncWriter =
  aw_store :: "'w Store"
  aw_manifestStore :: "'w ManifestStore"
  aw_schema :: Schema
  aw_tablePath :: string
  aw_compression :: CompressionType
  aw_batchCh :: "RecordBatch list"
  aw_resultCh :: "FlushResult list"
  aw_closed :: bool
  aw_maxBatchSize :: int
  aw_flushInterval :: int
  aw_currentBatch :: "RecordBatch option"
  aw_currentRows :: int
  aw_fragmentID :: int
  aw_nextVersion :: int
  aw_done :: bool
  aw_started :: bool
  aw_closeErr :: "goerr option"

definition NewAsyncWriter ::
  "'w Store \<Rightarrow> 'w ManifestStore \<Rightarrow> Schema \<Rightarrow> string \<Rightarrow> CompressionType \<Rightarrow> int \<Rightarrow> int \<Rightarrow> 'w AsyncWriter" where
  "NewAsyncWriter store manifestStore schema tablePath compression maxBatchSize flushInterval =
     \<lparr>aw_store = store, aw_manifestStore = manifestStore, aw_schema = schema, aw_tablePath = tablePath,
      aw_compression = compression, aw_batchCh = [], aw_resultCh = [], aw_closed = False,
      aw_maxBatchSize = maxBatchSize, aw_flushInterval = flushInterval, aw_currentBatch = None,
      aw_currentRows = 0, aw_fragmentID = 0, aw_nextVersion = 0, aw_done = False, aw_started = False,
      aw_closeErr = None\<rparr>"

section \<open>The caller's side\<close>

text \<open>\<open>Start\<close> ignores a latest manifest it cannot read, and then starts at fragment 0.\<close>

definition AW_Start :: "'w AsyncWriter \<Rightarrow> 'w \<Rightarrow> unit res \<times> 'w AsyncWriter \<times> 'w" where
  "AW_Start a w =
     (case MS_ListVersions (aw_manifestStore a) w of
        (Inl e, w1) \<Rightarrow> (Inl e, a, w1)
      | (Inr vs, w1) \<Rightarrow>
          if vs = [] then
            (Inr (), a\<lparr>aw_nextVersion := 1, aw_fragmentID := 0, aw_started := True\<rparr>, w1)
          else
            let a1 = a\<lparr>aw_nextVersion := wrap64 (last vs + 1)\<rparr> in
            (case MS_Read (aw_manifestStore a1) (last vs) w1 of
               (Inl e, w2) \<Rightarrow> (Inr (), a1\<lparr>aw_started := True\<rparr>, w2)
             | (Inr m, w2) \<Rightarrow>
                 (Inr (), a1\<lparr>aw_fragmentID := wrap32 (man_MaxFragmentID m + 1), aw_started := True\<rparr>, w2)))"

text \<open>
  The \<open>select\<close> of \<open>Write\<close>: the communications that can proceed, of which Go picks one at random;
  \<open>pick\<close> is the draw. The default is taken when there is none.
\<close>

definition write_ready :: "RecordBatch \<Rightarrow> 'w AsyncWriter \<Rightarrow> (unit res \<times> 'w AsyncWriter) list" where
  "write_ready batch a =
     (if length (aw_batchCh a) < defaultBatchChanCap
      then [(Inr (), a\<lparr>aw_batchCh := aw_batchCh a @ [batch]\<rparr>)] else []) @
     (if aw_closed a then [(Inl (WrtErr ErrWriterClosed), a)] else []) @
     (if aw_done a then [(Inl (WrtErr ErrWriterNotRunning), a)] else [])"

definition AW_Write :: "bool \<Rightarrow> nat \<Rightarrow> RecordBatch \<Rightarrow> 'w AsyncWriter \<Rightarrow> unit res \<times> 'w AsyncWriter" where
  "AW_Write cancelled pick batch a =
     (if cancelled then (Inl (StoErr ErrCanceled), a)
      else case write_ready batch a of
        [] \<Rightarrow> (Inl (WrtErr ErrChannelFull), a)
      | rs \<Rightarrow> rs ! (pick mod length rs))"

section \<open>The goroutine\<close>

definition sendResult ::
  "Fragment option \<Rightarrow> Manifest option \<Rightarrow> goerr option \<Rightarrow> 'w AsyncWriter \<Rightarrow> 'w AsyncWriter" where
  "sendResult frag manifest err a =
     (if length (aw_resultCh a) < defaultResultChanCap
      then a\<lparr>aw_resultCh := aw_resultCh a @
              [\<lparr>flr_Fragment = frag, flr_Manifest = manifest, flr_Error = err\<rparr>]\<rparr>
      else a)"

text \<open>The loop of \<open>accumulate\<close>; columns merged before an error stay merged.\<close>

fun accumulate_columns ::
  "(int, column) gomap \<Rightarrow> (int, column) gomap \<Rightarrow> unit res \<times> (int, column) gomap" where
  "accumulate_columns [] cur = (Inr (), cur)"
| "accumulate_columns ((colID, data) # cols) cur =
     (case map_of cur colID of
        None \<Rightarrow> accumulate_columns cols (gm_put colID data cur)
      | Some existing \<Rightarrow>
          (case mergeColumn existing data of
             Inl e \<Rightarrow> (Inl e, cur)
           | Inr merged \<Rightarrow> accumulate_columns cols (gm_put colID merged cur)))"

definition accumulate :: "RecordBatch \<Rightarrow> 'w AsyncWriter \<Rightarrow> unit res \<times> 'w AsyncWriter" where
  "accumulate batch a =
     (let (cur, rows) = (case aw_currentBatch a of
            None \<Rightarrow> (NewRecordBatch (aw_schema a) 0, 0)
          | Some b \<Rightarrow> (b, aw_currentRows a)) in
      case accumulate_columns (rb_Columns batch) (rb_Columns cur) of
        (Inl e, cols) \<Rightarrow>
          (Inl e, a\<lparr>aw_currentBatch := Some (cur\<lparr>rb_Columns := cols\<rparr>), aw_currentRows := rows\<rparr>)
      | (Inr _, cols) \<Rightarrow>
          let rows' = wrap64 (rows + rb_NumRows batch) in
          (Inr (), a\<lparr>aw_currentBatch := Some (cur\<lparr>rb_Columns := cols, rb_NumRows := rows'\<rparr>),
                     aw_currentRows := rows'\<rparr>))"

text \<open>Any error of \<open>LatestVersion\<close> counts as a table without versions.\<close>

definition AW_flush :: "codecs \<Rightarrow> 'w AsyncWriter \<Rightarrow> 'w \<Rightarrow> unit res \<times> 'w AsyncWriter \<times> 'w" where
  "AW_flush C a w =
     (case aw_currentBatch a of
        None \<Rightarrow> (Inr (), a, w)
      | Some batch \<Rightarrow>
          if aw_currentRows a = 0 then (Inr (), a, w)
          else
            let fw = NewFragmentWriter (aw_store a) (aw_schema a) (aw_fragmentID a) (aw_tablePath a) (aw_compression a)
            in (case WriteBatch C fw batch w of
                  (Inl e, fw1, w1) \<Rightarrow> (Inl e, a, w1)
                | (Inr _, fw1, w1) \<Rightarrow>
                    let frag = Finish fw1;
                        a1 = a\<lparr>aw_fragmentID := wrap32 (aw_fragmentID a + 1)\<rparr>;
                        manifest = NewManifest (aw_nextVersion a1) (aw_schema a1);
                        (rm, w2) = (case MS_LatestVersion (aw_manifestStore a1) w1 of
                            (Inl e, w2) \<Rightarrow> (Inr (manifest\<lparr>man_Fragments := [frag], man_MaxFragmentID := fr_ID frag\<rparr>), w2)
                          | (Inr latest, w2) \<Rightarrow>
                              (case MS_Read (aw_manifestStore a1) latest w2 of
                                 (Inl e, w3) \<Rightarrow> (Inl e, w3)
                               | (Inr latestM, w3) \<Rightarrow>
                                   (Inr (manifest\<lparr>man_Fragments := man_Fragments latestM @ [frag],
                                       man_MaxFragmentID :=
                                         (if fr_ID frag > man_MaxFragmentID latestM then fr_ID frag
                                          else man_MaxFragmentID latestM)\<rparr>), w3)))
                    in (case rm of
                          Inl e \<Rightarrow> (Inl e, a1, w2)
                        | Inr m \<Rightarrow>
                            (case MS_Write (aw_manifestStore a1) m w2 of
                               (Inl e, w3) \<Rightarrow> (Inl e, a1, w3)
                             | (Inr _, w3) \<Rightarrow>
                                 (Inr (), sendResult (Some frag) (Some m) None
                                    (a1\<lparr>aw_nextVersion := wrap64 (aw_nextVersion a1 + 1),
                                        aw_currentBatch := None, aw_currentRows := 0\<rparr>), w3)))))"

text \<open>\<open>drainPending\<close> takes the batches that wait, up to the first that cannot be merged.\<close>

fun drain :: "RecordBatch list \<Rightarrow> 'w AsyncWriter \<Rightarrow> 'w AsyncWriter" where
  "drain [] a = a\<lparr>aw_batchCh := []\<rparr>"
| "drain (b # bs) a =
     (case accumulate b (a\<lparr>aw_batchCh := bs\<rparr>) of
        (Inl e, a1) \<Rightarrow> sendResult None None (Some e) a1
      | (Inr _, a1) \<Rightarrow> drain bs a1)"

definition drainPending :: "'w AsyncWriter \<Rightarrow> 'w AsyncWriter" where
  "drainPending a = drain (aw_batchCh a) a"

text \<open>The arms of the \<open>select\<close> in \<open>run\<close>: a batch, a flush request, the end, and the timer.\<close>

definition run_batch :: "codecs \<Rightarrow> RecordBatch \<Rightarrow> 'w AsyncWriter \<Rightarrow> 'w \<Rightarrow> 'w AsyncWriter \<times> 'w" where
  "run_batch C batch a w =
     (case accumulate batch a of
        (Inl e, a1) \<Rightarrow> (sendResult None None (Some e) a1, w)
      | (Inr _, a1) \<Rightarrow>
          if aw_maxBatchSize a1 > 0 \<and> aw_currentRows a1 \<ge> aw_maxBatchSize a1 then
            (case AW_flush C a1 w of
               (Inl e, a2, w1) \<Rightarrow> (sendResult None None (Some e) a2, w1)
             | (Inr _, a2, w1) \<Rightarrow> (a2, w1))
          else (a1, w))"

definition run_flush :: "codecs \<Rightarrow> 'w AsyncWriter \<Rightarrow> 'w \<Rightarrow> unit res \<times> 'w AsyncWriter \<times> 'w" where
  "run_flush C a w = AW_flush C (drainPending a) w"

definition run_stop :: "codecs \<Rightarrow> 'w AsyncWriter \<Rightarrow> 'w \<Rightarrow> 'w AsyncWriter \<times> 'w" where
  "run_stop C a w =
     (case AW_flush C (drainPending a) w of
        (r, a1, w1) \<Rightarrow>
          (a1\<lparr>aw_closeErr := (case r of Inl e \<Rightarrow> Some e | Inr _ \<Rightarrow> None), aw_done := True\<rparr>, w1))"

definition run_timer :: "codecs \<Rightarrow> 'w AsyncWriter \<Rightarrow> 'w \<Rightarrow> 'w AsyncWriter \<times> 'w" where
  "run_timer C a w =
     (if aw_currentBatch a \<noteq> None \<and> aw_currentRows a > 0 then snd (AW_flush C a w) else (a, w))"

section \<open>Columns of the right types\<close>

definition column_typed :: "Schema \<Rightarrow> int \<times> column \<Rightarrow> bool" where
  "column_typed s = (\<lambda>(i, d). case FieldByID s i of None \<Rightarrow> False
     | Some f \<Rightarrow> column_ok (fld_Type f) d \<and> (fld_Type f = TypeFixedSizeList \<longrightarrow> 0 < fld_Dimension f))"

definition columns_typed :: "Schema \<Rightarrow> (int, column) gomap \<Rightarrow> bool" where
  "columns_typed s cols \<longleftrightarrow> gm_ok cols \<and> list_all (column_typed s) cols"

text \<open>The serialized form of every column has a length an \<open>int32\<close> holds.\<close>

definition columns_small :: "Schema \<Rightarrow> (int, column) gomap \<Rightarrow> bool" where
  "columns_small s cols \<longleftrightarrow> list_all (\<lambda>(i, d). case FieldByID s i of None \<Rightarrow> True
     | Some f \<Rightarrow> (case MiniBlock_serialize d (fld_Type f) of Inl e \<Rightarrow> False | Inr buf \<Rightarrow> length buf < 2 ^ 31)) cols"

lemma batch_fits_iff: "batch_fits s cols \<longleftrightarrow> columns_typed s cols \<and> columns_small s cols"
  unfolding batch_fits_def columns_typed_def columns_small_def list_all_iff column_typed_def column_fits_def
  by (auto split: option.splits)

definition cols_cells :: "int \<Rightarrow> (int, column) gomap \<Rightarrow> cell list" where
  "cols_cells i cols = (case map_of cols i of None \<Rightarrow> [] | Some c \<Rightarrow> cells c)"

lemma batch_cells_columns: "batch_cells i b = cols_cells i (rb_Columns b)"
  by (simp add: batch_cells_def cols_cells_def Column_def)

text \<open>Two columns of one field merge into a column of that field.\<close>

lemma mergeColumn_typed:
  assumes "column_ok t a" and "column_ok t b"
  obtains c where "mergeColumn a b = Inr c" "column_ok t c" "cells c = cells a @ cells b"
proof -
  have "\<exists>c. mergeColumn a b = Inr c \<and> column_ok t c \<and> cells c = cells a @ cells b"
    using assms by (cases a; cases b) (auto simp: column_ok_def blobs_ok_def)
  with that show thesis by blast
qed

lemma columns_typed_put:
  assumes "columns_typed s cols" and "column_typed s (i, d)"
  shows "columns_typed s (gm_put i d cols)"
proof -
  have "set (gm_put i d cols) \<subseteq> insert (i, d) (set cols)"
    by (induction cols) (auto simp: gm_put_def)
  then show ?thesis
    using assms by (auto simp: columns_typed_def list_all_iff)
qed

lemma accumulate_columns_typed:
  assumes "columns_typed s cols" and "columns_typed s cur"
  obtains cur' where "accumulate_columns cols cur = (Inr (), cur')" "columns_typed s cur'"
    "\<forall>i. cols_cells i cur' = cols_cells i cur @ cols_cells i cols"
proof -
  have "\<exists>cur'. accumulate_columns cols cur = (Inr (), cur') \<and> columns_typed s cur' \<and>
      (\<forall>i. cols_cells i cur' = cols_cells i cur @ cols_cells i cols)"
    using assms
  proof (induction cols arbitrary: cur)
    case (Cons x cols)
    obtain i d where x: "x = (i, d)" by (cases x)
    have new: "i \<notin> set (gm_keys cols)" and cols: "columns_typed s cols" and d: "column_typed s (i, d)"
      using Cons.prems(1) by (simp_all add: x columns_typed_def gm_ok_def gm_keys_def)
    have absent: "cols_cells i cols = []"
      using new by (simp add: cols_cells_def gm_get_None [symmetric])
    obtain c where c: "accumulate_columns (x # cols) cur = accumulate_columns cols (gm_put i c cur)"
      "column_typed s (i, c)" "cells c = cols_cells i cur @ cells d"
    proof (cases "map_of cur i")
      case None
      with d that [of d] show thesis by (simp add: x cols_cells_def)
    next
      case (Some a)
      then have "column_typed s (i, a)"
        using Cons.prems(2) map_of_SomeD [OF Some] by (auto simp: columns_typed_def list_all_iff)
      with d obtain f where f: "FieldByID s i = Some f" "column_ok (fld_Type f) a" "column_ok (fld_Type f) d"
        "fld_Type f = TypeFixedSizeList \<longrightarrow> 0 < fld_Dimension f"
        by (auto simp: column_typed_def split: option.splits)
      obtain c where "mergeColumn a d = Inr c" "column_ok (fld_Type f) c" "cells c = cells a @ cells d"
        by (rule mergeColumn_typed [OF f(2,3)])
      with Some f that [of c] show thesis by (simp add: x cols_cells_def column_typed_def)
    qed
    obtain cur' where cur': "accumulate_columns cols (gm_put i c cur) = (Inr (), cur')" "columns_typed s cur'"
      "\<forall>j. cols_cells j cur' = cols_cells j (gm_put i c cur) @ cols_cells j cols"
      using Cons.IH [OF cols columns_typed_put [OF Cons.prems(2) c(2)]] by blast
    have "cols_cells j cur' = cols_cells j cur @ cols_cells j (x # cols)" for j
      using cur'(3) c(3) absent by (cases "j = i") (simp_all add: x cols_cells_def)
    with c(1) cur'(1,2) show ?case by auto
  qed (simp add: cols_cells_def)
  with that show thesis by blast
qed

text \<open>What waits in memory for one column: the accumulated cells and those of the queued batches.\<close>

definition current_columns :: "'w AsyncWriter \<Rightarrow> (int, column) gomap" where
  "current_columns a = (case aw_currentBatch a of None \<Rightarrow> [] | Some b \<Rightarrow> rb_Columns b)"

definition pending_cells :: "int \<Rightarrow> 'w AsyncWriter \<Rightarrow> cell list" where
  "pending_cells i a = cols_cells i (current_columns a) @ concat (map (batch_cells i) (aw_batchCh a))"

definition pending_typed :: "'w AsyncWriter \<Rightarrow> bool" where
  "pending_typed a \<longleftrightarrow> columns_typed (aw_schema a) (current_columns a) \<and>
     list_all (\<lambda>b. columns_typed (aw_schema a) (rb_Columns b)) (aw_batchCh a)"

text \<open>What the accumulation leaves alone.\<close>

definition same_target :: "'w AsyncWriter \<Rightarrow> 'w AsyncWriter \<Rightarrow> bool" where
  "same_target a b \<longleftrightarrow>
     aw_store a = aw_store b \<and> aw_manifestStore a = aw_manifestStore b \<and> aw_schema a = aw_schema b \<and>
     aw_tablePath a = aw_tablePath b \<and> aw_compression a = aw_compression b \<and>
     aw_fragmentID a = aw_fragmentID b \<and> aw_nextVersion a = aw_nextVersion b"

lemma accumulate_typed:
  assumes "columns_typed (aw_schema a) (rb_Columns b)" and "columns_typed (aw_schema a) (current_columns a)"
  obtains a' where "accumulate b a = (Inr (), a')" "same_target a' a" "aw_batchCh a' = aw_batchCh a"
    "columns_typed (aw_schema a) (current_columns a')"
    "\<forall>i. cols_cells i (current_columns a') = cols_cells i (current_columns a) @ batch_cells i b"
proof -
  obtain cols where "accumulate_columns (rb_Columns b) (current_columns a) = (Inr (), cols)"
    "columns_typed (aw_schema a) cols"
    "\<forall>i. cols_cells i cols = cols_cells i (current_columns a) @ cols_cells i (rb_Columns b)"
    by (rule accumulate_columns_typed [OF assms])
  then show thesis
    using that by (cases "aw_currentBatch a")
      (auto simp: accumulate_def current_columns_def NewRecordBatch_def same_target_def batch_cells_columns Let_def)
qed

lemma drain_typed:
  "list_all (\<lambda>b. columns_typed (aw_schema a) (rb_Columns b)) bs \<Longrightarrow>
   columns_typed (aw_schema a) (current_columns a) \<Longrightarrow>
   same_target (drain bs a) a \<and> aw_batchCh (drain bs a) = [] \<and>
   columns_typed (aw_schema a) (current_columns (drain bs a)) \<and>
   (\<forall>i. cols_cells i (current_columns (drain bs a)) =
      cols_cells i (current_columns a) @ concat (map (batch_cells i) bs))"
proof (induction bs arbitrary: a)
  case Nil
  then show ?case by (simp add: same_target_def current_columns_def)
next
  case (Cons b bs)
  let ?a = "a\<lparr>aw_batchCh := bs\<rparr>"
  have typed: "columns_typed (aw_schema ?a) (rb_Columns b)" "columns_typed (aw_schema ?a) (current_columns ?a)"
    using Cons.prems by (simp_all add: current_columns_def)
  obtain a' where a': "accumulate b ?a = (Inr (), a')" "same_target a' ?a" "aw_batchCh a' = aw_batchCh ?a"
    "columns_typed (aw_schema ?a) (current_columns a')"
    "\<forall>i. cols_cells i (current_columns a') = cols_cells i (current_columns ?a) @ batch_cells i b"
    by (rule accumulate_typed [OF typed])
  moreover have "current_columns ?a = current_columns a"
    by (simp add: current_columns_def)
  ultimately show ?case
    using Cons.IH [of a'] Cons.prems(1) by (simp add: same_target_def)
qed

lemma drainPending_typed:
  assumes "pending_typed a"
  shows "same_target (drainPending a) a \<and> aw_batchCh (drainPending a) = [] \<and> pending_typed (drainPending a) \<and>
    (\<forall>i. pending_cells i (drainPending a) = pending_cells i a)"
  using drain_typed [of a "aw_batchCh a"] assms
  by (auto simp: drainPending_def pending_typed_def pending_cells_def same_target_def)

section \<open>Runs\<close>

text \<open>
  A flush has room when the sizes of the columns it writes and the next counters fit their Go types.
\<close>

definition flush_room :: "'w AsyncWriter \<Rightarrow> bool" where
  "flush_room a \<longleftrightarrow> columns_small (aw_schema a) (current_columns a) \<and>
     aw_nextVersion a < 2 ^ 63 - 1 \<and> aw_fragmentID a < 2 ^ 31 - 1"

text \<open>
  The interleavings of callers and the goroutine, each step labelled with the batches it accepts:
  calls of \<open>Write\<close>, a consumer that takes a result, \<open>Close\<close>'s signal, and, until it ends, a turn of
  the goroutine's loop. It may end whenever it is told to, by the signal or the context.
\<close>

inductive aw_step ::
  "codecs \<Rightarrow> 'w AsyncWriter \<times> 'w \<Rightarrow> RecordBatch list \<Rightarrow> 'w AsyncWriter \<times> 'w \<Rightarrow> bool" for C where
  step_write: "AW_Write cancelled pick b a = (Inr (), a') \<Longrightarrow> aw_step C (a, w) [b] (a', w)"
| step_refused: "AW_Write cancelled pick b a = (Inl e, a') \<Longrightarrow> aw_step C (a, w) [] (a', w)"
| step_take: "aw_resultCh a = r # rs \<Longrightarrow> aw_step C (a, w) [] (a\<lparr>aw_resultCh := rs\<rparr>, w)"
| step_close: "aw_step C (a, w) [] (a\<lparr>aw_closed := True\<rparr>, w)"
| step_batch: "aw_started a \<Longrightarrow> \<not> aw_done a \<Longrightarrow> aw_batchCh a = b # bs \<Longrightarrow>
    flush_room (snd (accumulate b (a\<lparr>aw_batchCh := bs\<rparr>))) \<Longrightarrow>
    run_batch C b (a\<lparr>aw_batchCh := bs\<rparr>) w = (a', w') \<Longrightarrow> aw_step C (a, w) [] (a', w')"
| step_flush: "aw_started a \<Longrightarrow> \<not> aw_done a \<Longrightarrow> flush_room (drainPending a) \<Longrightarrow>
    run_flush C a w = (r, a', w') \<Longrightarrow> aw_step C (a, w) [] (a', w')"
| step_timer: "aw_started a \<Longrightarrow> \<not> aw_done a \<Longrightarrow> flush_room a \<Longrightarrow>
    run_timer C a w = (a', w') \<Longrightarrow> aw_step C (a, w) [] (a', w')"
| step_stop: "aw_started a \<Longrightarrow> \<not> aw_done a \<Longrightarrow> flush_room (drainPending a) \<Longrightarrow>
    run_stop C a w = (a', w') \<Longrightarrow> aw_step C (a, w) [] (a', w')"

inductive_cases aw_stepE: "aw_step C (a, w) bs (a', w')"

inductive aw_run ::
  "codecs \<Rightarrow> 'w AsyncWriter \<times> 'w \<Rightarrow> RecordBatch list \<Rightarrow> 'w AsyncWriter \<times> 'w \<Rightarrow> bool" for C where
  run_refl: "aw_run C s [] s"
| run_step: "aw_run C s bs s' \<Longrightarrow> aw_step C s' cs s'' \<Longrightarrow> aw_run C s (bs @ cs) s''"

lemma AW_Write_cases:
  assumes "AW_Write cancelled pick b a = (r, a')"
  shows "case r of Inl e \<Rightarrow> a' = a
    | Inr _ \<Rightarrow> length (aw_batchCh a) < defaultBatchChanCap \<and> a' = a\<lparr>aw_batchCh := aw_batchCh a @ [b]\<rparr>"
proof (cases "cancelled \<or> write_ready b a = []")
  case True
  with assms show ?thesis
    by (auto simp: AW_Write_def split: if_splits)
next
  case False
  then have "(r, a') = write_ready b a ! (pick mod length (write_ready b a))"
    using assms by (auto simp: AW_Write_def split: list.splits)
  then have "(r, a') \<in> set (write_ready b a)"
    using False by simp
  then show ?thesis
    by (auto simp: write_ready_def split: if_splits)
qed

text \<open>
  A flush that fails, whatever the store did, keeps the rows and the version for the next attempt.
\<close>

lemma AW_flush_error:
  assumes "AW_flush C a w = (Inl e, a', w')"
  shows "a' = a \<or> a' = a\<lparr>aw_fragmentID := wrap32 (aw_fragmentID a + 1)\<rparr>"
  using assms by (auto simp: AW_flush_def Let_def split: option.splits if_splits sum.splits prod.splits)

lemma AW_flush_success:
  assumes "AW_flush C a w = (Inr (), a', w')" and "aw_currentBatch a = Some b" and "aw_currentRows a \<noteq> 0"
  shows "aw_currentBatch a' = None \<and> aw_currentRows a' = 0 \<and> aw_batchCh a' = aw_batchCh a \<and>
    aw_nextVersion a' = wrap64 (aw_nextVersion a + 1) \<and> aw_fragmentID a' = wrap32 (aw_fragmentID a + 1)"
  using assms by (auto simp: AW_flush_def Let_def sendResult_def split: option.splits if_splits sum.splits prod.splits)

section \<open>Properties\<close>

lemma sendResult_other [simp]:
  "aw_batchCh (sendResult f m e a) = aw_batchCh a" "aw_done (sendResult f m e a) = aw_done a"
  "aw_started (sendResult f m e a) = aw_started a" "aw_currentBatch (sendResult f m e a) = aw_currentBatch a"
  "aw_currentRows (sendResult f m e a) = aw_currentRows a" "same_target (sendResult f m e a) a"
  by (simp_all add: sendResult_def same_target_def)

definition channels_ok :: "'w AsyncWriter \<Rightarrow> bool" where
  "channels_ok a \<longleftrightarrow> length (aw_batchCh a) \<le> defaultBatchChanCap \<and> length (aw_resultCh a) \<le> defaultResultChanCap"

lemma sendResult_channels [simp]: "channels_ok (sendResult f m e a) = channels_ok a"
  by (auto simp: sendResult_def channels_ok_def)

lemma accumulate_channels:
  "accumulate b a = (r, a') \<Longrightarrow> aw_batchCh a' = aw_batchCh a \<and> aw_resultCh a' = aw_resultCh a"
  by (auto simp: accumulate_def Let_def split: prod.splits sum.splits)

lemma drain_channels: "length bs \<le> length (aw_batchCh a) \<Longrightarrow> channels_ok a \<Longrightarrow> channels_ok (drain bs a)"
proof (induction bs arbitrary: a)
  case (Cons b bs)
  obtain r a1 where a1: "accumulate b (a\<lparr>aw_batchCh := bs\<rparr>) = (r, a1)"
    by fastforce
  then have "aw_batchCh a1 = bs" "aw_resultCh a1 = aw_resultCh a"
    using accumulate_channels [OF a1] by simp_all
  then have "channels_ok a1" "length bs \<le> length (aw_batchCh a1)"
    using Cons.prems by (simp_all add: channels_ok_def)
  then show ?case
    using Cons.IH [of a1] a1 by (simp split: sum.splits)
qed (simp add: channels_ok_def)

lemma AW_flush_channels: "AW_flush C a w = (r, a', w') \<Longrightarrow> channels_ok a \<Longrightarrow> channels_ok a'"
  by (auto simp: AW_flush_def Let_def split: option.splits if_splits sum.splits prod.splits)
    (simp_all add: channels_ok_def)

lemma aw_step_channels:
  assumes "aw_step C (a, w) acc (a', w')" and "channels_ok a"
  shows "channels_ok a'"
  using assms
proof cases
  case (step_write cancelled pick b)
  then show ?thesis
    using assms(2) by (auto dest!: AW_Write_cases simp: channels_ok_def)
next
  case (step_refused cancelled pick b e)
  then show ?thesis
    using assms(2) by (auto dest!: AW_Write_cases)
next
  case (step_batch b bs)
  let ?a = "a\<lparr>aw_batchCh := bs\<rparr>"
  obtain r a1 where a1: "accumulate b ?a = (r, a1)"
    by fastforce
  have "channels_ok a1"
    using accumulate_channels [OF a1] assms(2) step_batch(4) by (simp add: channels_ok_def)
  then show ?thesis
    using step_batch(6) a1 AW_flush_channels
    by (fastforce simp: run_batch_def split: sum.splits if_splits prod.splits)
next
  case (step_flush r)
  then show ?thesis
    using drain_channels [of "aw_batchCh a" a] assms(2) AW_flush_channels
    by (fastforce simp: run_flush_def drainPending_def)
next
  case step_timer
  then show ?thesis
    using assms(2) AW_flush_channels by (cases "AW_flush C a w") (auto simp: run_timer_def split: if_splits)
next
  case step_stop
  then show ?thesis
    using drain_channels [of "aw_batchCh a" a] assms(2) AW_flush_channels
    by (fastforce simp: run_stop_def drainPending_def channels_ok_def split: prod.splits)
qed (auto simp: channels_ok_def)

text \<open>
  C29: a flush is all or nothing in memory, whatever the store does: on an error the accumulated batch,
  its row count, the queue and the next version are kept for another attempt; on success the batch is
  cleared and both counters move on; with no rows it does nothing.
\<close>

theorem flush_keeps_or_commits:
  "case AW_flush C a w of (r, a', w') \<Rightarrow>
     (case r of
        Inl e \<Rightarrow> aw_currentBatch a' = aw_currentBatch a \<and> aw_currentRows a' = aw_currentRows a \<and>
          aw_batchCh a' = aw_batchCh a \<and> aw_nextVersion a' = aw_nextVersion a
      | Inr _ \<Rightarrow>
          if aw_currentBatch a = None \<or> aw_currentRows a = 0 then a' = a \<and> w' = w
          else aw_currentBatch a' = None \<and> aw_currentRows a' = 0 \<and> aw_batchCh a' = aw_batchCh a \<and>
            aw_nextVersion a' = wrap64 (aw_nextVersion a + 1) \<and> aw_fragmentID a' = wrap32 (aw_fragmentID a + 1))"
proof -
  obtain r a' w' where f: "AW_flush C a w = (r, a', w')"
    by (metis prod_cases3)
  show ?thesis
  proof (cases r)
    case (Inl e)
    with f AW_flush_error [of C a w e a' w'] show ?thesis by auto
  next
    case (Inr u)
    show ?thesis
    proof (cases "aw_currentBatch a = None \<or> aw_currentRows a = 0")
      case True
      with f Inr show ?thesis by (auto simp: AW_flush_def split: option.splits)
    next
      case False
      with f Inr AW_flush_success [of C a w a' w'] show ?thesis by auto
    qed
  qed
qed

text \<open>
  The channels never hold more than their capacities, in any interleaving of writers, consumers
  and the goroutine: at most 256 batches wait and at most 16 results.
\<close>

theorem channels_bounded:
  assumes "aw_run C (NewAsyncWriter st mst s tp cmp n i, w) acc (a, w')"
  shows "length (aw_batchCh a) \<le> 256 \<and> length (aw_resultCh a) \<le> 16"
proof -
  have "channels_ok (fst s') \<Longrightarrow> channels_ok (fst s'')" if "aw_run C s' bs s''" for s' s'' bs
    using that by induction (auto dest: aw_step_channels)
  from this [OF assms] have "channels_ok a"
    by (simp add: NewAsyncWriter_def channels_ok_def)
  then show ?thesis
    by (simp add: channels_ok_def defaultBatchChanCap_def defaultResultChanCap_def)
qed

text \<open>
  C30: what \<open>Write\<close> accepts once the goroutine has ended is lost: it only joins the queue, which nothing
  reads any more, and the store stays as it is. \<open>Write\<close> can still accept such a batch when there is
  room, since the closed channels are only alternatives of its \<open>select\<close>.
\<close>

theorem late_writes_lost:
  assumes "aw_done a" and "aw_run C (a, w) acc (a', w')"
  shows "w' = w \<and> aw_done a' \<and> aw_batchCh a' = aw_batchCh a @ acc \<and>
    ((\<exists>pick. fst (AW_Write False pick b a) = Inr ()) \<longleftrightarrow> length (aw_batchCh a) < defaultBatchChanCap)"
proof -
  have step: "snd s2 = snd s1 \<and> aw_done (fst s2) \<and> aw_batchCh (fst s2) = aw_batchCh (fst s1) @ bs"
    if "aw_step C s1 bs s2" "aw_done (fst s1)" for s1 s2 bs
    using that by cases (auto dest: AW_Write_cases)
  have "snd s2 = snd s1 \<and> aw_done (fst s2) \<and> aw_batchCh (fst s2) = aw_batchCh (fst s1) @ bs"
    if "aw_run C s1 bs s2" "aw_done (fst s1)" for s1 s2 bs
    using that by induction (auto dest: step)
  from this [OF assms(2)] assms(1)
  have run: "w' = w \<and> aw_done a' \<and> aw_batchCh a' = aw_batchCh a @ acc"
    by simp
  have "(\<exists>pick. fst (AW_Write False pick b a) = Inr ()) \<longleftrightarrow> length (aw_batchCh a) < defaultBatchChanCap"
  proof
    assume "\<exists>pick. fst (AW_Write False pick b a) = Inr ()"
    then obtain pick a1 where "AW_Write False pick b a = (Inr (), a1)"
      by (metis prod.collapse)
    from AW_Write_cases [OF this] show "length (aw_batchCh a) < defaultBatchChanCap"
      by simp
  next
    assume "length (aw_batchCh a) < defaultBatchChanCap"
    then have "fst (AW_Write False 0 b a) = Inr ()"
      by (simp add: AW_Write_def write_ready_def)
    then show "\<exists>pick. fst (AW_Write False pick b a) = Inr ()" ..
  qed
  with run show ?thesis by simp
qed

definition example_writer :: "unit AsyncWriter" where
  "example_writer = (let st = page_store (Int64s []) TypeInt64 in
     NewAsyncWriter st (NewManifestStore st ''v'') (NewSchema []) ''t'' CompressionNone 0 0)"

lemma example_write:
  "AW_Write False 0 b example_writer = (Inr (), example_writer\<lparr>aw_batchCh := [b]\<rparr>)"
  "AW_Write False 0 b (example_writer\<lparr>aw_done := True\<rparr>) = (Inr (), example_writer\<lparr>aw_done := True, aw_batchCh := [b]\<rparr>)"
  by (simp_all add: example_writer_def NewAsyncWriter_def AW_Write_def write_ready_def defaultBatchChanCap_def Let_def)

theorem channels_bounded_witness:
  "length (aw_batchCh (snd (AW_Write False 0 (NewRecordBatch (NewSchema []) 1) example_writer))) \<le> 256"
proof -
  let ?b = "NewRecordBatch (NewSchema []) 1"
  have "aw_run no_codecs (example_writer, ()) ([] @ [?b]) (example_writer\<lparr>aw_batchCh := [?b]\<rparr>, ())"
    by (rule run_step [OF run_refl step_write [OF example_write(1)]])
  from channels_bounded [OF this [unfolded example_writer_def Let_def]]
  have "length (aw_batchCh (example_writer\<lparr>aw_batchCh := [?b]\<rparr>)) \<le> 256"
    by (simp add: example_writer_def Let_def)
  then show ?thesis
    by (simp add: example_write)
qed

theorem late_writes_lost_witness:
  "\<exists>a. aw_run no_codecs (example_writer\<lparr>aw_done := True\<rparr>, ()) [NewRecordBatch (NewSchema []) 1] (a, ()) \<and>
     aw_batchCh a = [NewRecordBatch (NewSchema []) 1] \<and> aw_done a"
proof -
  let ?b = "NewRecordBatch (NewSchema []) 1" and ?a = "example_writer\<lparr>aw_done := True\<rparr>"
  have "aw_run no_codecs (?a, ()) ([] @ [?b]) (example_writer\<lparr>aw_done := True, aw_batchCh := [?b]\<rparr>, ())"
    by (rule run_step [OF run_refl step_write [OF example_write(2)]])
  moreover have "aw_done ?a" "aw_batchCh ?a = []"
    by (simp_all add: example_writer_def NewAsyncWriter_def Let_def)
  ultimately show ?thesis
    using late_writes_lost [of ?a no_codecs "()" "[?b]" "example_writer\<lparr>aw_done := True, aw_batchCh := [?b]\<rparr>" "()"]
    by auto
qed

end
