(* ===== verification/AsyncHistory.thy ===== *)
theory AsyncHistory
  imports LocalHistory AsyncWriter
begin

text \<open>
  The asynchronous writer on the local file system: every flush has the effect of one insert into a
  table with the writer's counters, so the history of the table is the one of \<open>TableHistory\<close> and no
  accepted cell is lost or reordered.
\<close>

section \<open>A table behind the writer\<close>

definition shadows :: "'w AsyncWriter \<Rightarrow> 'w Table \<Rightarrow> bool" where
  "shadows a t \<longleftrightarrow>
     aw_store a = tb_store t \<and> aw_manifestStore a = tb_manifestStore t \<and> aw_schema a = tb_schema t \<and>
     aw_tablePath a = tb_tablePath t \<and> aw_compression a = tb_compression t \<and>
     aw_fragmentID a = tb_nextFragmentID t \<and> aw_nextVersion a = tb_nextVersion t"

lemma shadows_same_target: "same_target a' a \<Longrightarrow> shadows a t \<Longrightarrow> shadows a' t"
  by (simp add: shadows_def same_target_def)

context table_client
begin

text \<open>
  A flush does to the store what an insert of the accumulated batch at time zero does, and leaves the
  writer with the counters of the table after it. The rows are read back from the new fragment.
\<close>

lemma flush_inserts:
  assumes inv: "table_inv t w" and sh: "shadows a t"
    and cur: "aw_currentBatch a = Some b" "aw_currentRows a \<noteq> 0"
    and fits: "batch_fits (tb_schema t) (rb_Columns b)" and paths: "paths_ok tp"
    and range: "tb_nextVersion t < 2 ^ 63 - 1" "tb_nextFragmentID t < 2 ^ 31 - 1"
  obtains f t' w' m where "BatchInsert same C 0 t [b] w = (Inr f, t', w')" "Fragment_ok f"
    "ColumnIDs f = gm_keys (rb_Columns b)"
    "AW_flush C a w = (Inr (), sendResult (Some f) (Some m) None
       (a\<lparr>aw_fragmentID := tb_nextFragmentID t', aw_nextVersion := tb_nextVersion t',
          aw_currentBatch := None, aw_currentRows := 0\<rparr>), w')"
    "shadows (a\<lparr>aw_fragmentID := tb_nextFragmentID t', aw_nextVersion := tb_nextVersion t',
       aw_currentBatch := None, aw_currentRows := 0\<rparr>) t'"
proof -
  let ?fid = "tb_nextFragmentID t"
  have t: "ok w" "tb_store t = st" "tb_tablePath t = tp" "tb_compression t = comp" "tb_manifestStore t = ms"
    "0 \<le> ?fid" "1 < tb_nextVersion t"
    using inv by (simp_all add: table_inv_def attached_def)
  have gm: "gm_ok (rb_Columns b)"
    using fits by (simp add: batch_fits_def)
  obtain w1 fw' where w1: "WriteBatch C (NewFragmentWriter st (tb_schema t) ?fid tp comp) b w = (Inr (), fw', w1)"
    "fr_ID (Finish fw') = ?fid" "fr_NumRows (Finish fw') = frag.batch_rows (tb_schema t) (rb_Columns b) 0"
    "list_all2 (\<lambda>(i, d) df. frag.stored_column w1 ?fid (the (FieldByID (tb_schema t) i)) i d df) (rb_Columns b)
       (fr_DataFiles (Finish fw'))"
    "fr_DeletionFile (Finish fw') = None" "fr_PhysicalRows (Finish fw') = fr_NumRows (Finish fw')"
    "ColumnIDs (Finish fw') = gm_keys (rb_Columns b)"
    by (rule frag.WriteBatch_holds [OF t(1) fits])
  have okf: "Fragment_ok (Finish fw')"
    using t(6) range(2)
    by (intro written_fragment_ok [OF fits table_schema_ok [OF inv] paths _ w1(2,3,5,6,4)]) (simp add: fits32_def)
  obtain r t' w' where bi: "BatchInsert same C 0 t [b] w = (r, t', w')"
    by (metis prod_cases3)
  have wb: "WriteBatch C (NewFragmentWriter (tb_store t) (tb_schema t) ?fid (tb_tablePath t) (tb_compression t)) b w
      = (Inr (), fw', w1)"
    using w1(1) t by simp
  have z: "fits64 0" and one: "insert_batch same [b] = Inr b" and ne: "[b] \<noteq> []"
    by (simp_all add: fits64_def insert_batch_def)
  have r_ok: "Fragment_ok f" if "r = Inr f" for f
    using BatchInsert_fragment [OF ne one wb bi [unfolded that]] okf by simp
  obtain latest where l: "r = Inr (Finish fw')" "VM_Latest (tb_versionMgr t) = Some latest"
    "tb_nextVersion t' = tb_nextVersion t + 1" "tb_nextFragmentID t' = ?fid + 1" "tb_schema t' = tb_schema t"
    using BatchInsert_written [OF inv range z _ one gm wb bi r_ok] by auto
  have frag: "ok w1" "\<forall>k. (\<forall>i j. ?fid \<le> i \<longrightarrow> k \<noteq> ckey i j) \<longrightarrow> content w1 k = content w k"
    using write_fragment [OF inv gm wb] by simp_all
  have "table_inv (t\<lparr>tb_nextFragmentID := ?fid + 1\<rparr>) w1"
    using frag by (intro conjunct1 [OF table_inv_fragments [OF inv]]) (simp, simp, blast)
  then have disk: "MS_LatestVersion ms w1 = (Inr (tb_nextVersion t - 1), w1)"
    "MS_Read ms (tb_nextVersion t - 1) w1 = (Inr latest, w1)"
    using latest_read [of "t\<lparr>tb_nextFragmentID := ?fid + 1\<rparr>" w1 latest] l(2) by simp_all
  have maxid: "man_MaxFragmentID latest \<le> ?fid"
    using inv l(2) by (auto simp: table_inv_def)
  let ?m = "(NewManifest (tb_nextVersion t) (tb_schema t))\<lparr>man_Fragments := man_Fragments latest @ [Finish fw'],
    man_MaxFragmentID := ?fid, man_Timestamp := 0\<rparr>"
  have wrap: "wrap32 (?fid + 1) = ?fid + 1" "wrap64 (tb_nextVersion t + 1) = tb_nextVersion t + 1"
    using t(6,7) range by (simp_all add: fits32_def fits64_def)
  let ?mk = "\<lambda>version. (NewManifest version (tb_schema t))\<lparr>man_Fragments := man_Fragments latest @ [Finish fw'],
    man_MaxFragmentID := ?fid, man_Timestamp := 0\<rparr>"
  obtain rc t2 w2 where cm: "commit_manifest ?mk (t\<lparr>tb_nextFragmentID := ?fid + 1\<rparr>) w1 = (rc, t2, w2)"
    by (metis prod_cases3)
  have "BatchInsert same C 0 t [b] w = (case commit_manifest ?mk (t\<lparr>tb_nextFragmentID := ?fid + 1\<rparr>) w1 of
      (Inl e, t2, w2) \<Rightarrow> (Inl e, t2, w2) | (Inr _, t2, w2) \<Rightarrow> (Inr (Finish fw'), t2, w2))"
    using one wb l(2) wrap(1) by (simp add: BatchInsert_def Let_def)
  then have c: "rc = Inr ()" "t2 = t'" "w2 = w'"
    using bi l(1) cm by (cases rc; simp)+
  obtain rw ww where mw: "MS_Write ms ?m w1 = (rw, ww)"
    by fastforce
  have wr: "MS_Write ms ?m w1 = (Inr (), w')" and tb: "tb_store t' = st" "tb_tablePath t' = tp"
    "tb_compression t' = comp" "tb_manifestStore t' = ms"
    using cm mw c t wrap by (cases rw; auto simp: commit_manifest_def Let_def)+
  have a: "aw_store a = st" "aw_manifestStore a = ms" "aw_schema a = tb_schema t" "aw_tablePath a = tp"
    "aw_compression a = comp" "aw_fragmentID a = ?fid" "aw_nextVersion a = tb_nextVersion t"
    using sh t by (simp_all add: shadows_def)
  have maxid': "man_MaxFragmentID latest < ?fid \<or> man_MaxFragmentID latest = ?fid"
    using maxid by linarith
  have "AW_flush C a w = (Inr (), sendResult (Some (Finish fw')) (Some ?m) None
       (a\<lparr>aw_fragmentID := ?fid + 1, aw_nextVersion := tb_nextVersion t + 1,
          aw_currentBatch := None, aw_currentRows := 0\<rparr>), w')"
    using a cur w1(1,2) disk wrap wr maxid'
    by (elim disjE) (simp_all add: AW_flush_def NewManifest_def Let_def)
  moreover have "shadows (a\<lparr>aw_fragmentID := tb_nextFragmentID t', aw_nextVersion := tb_nextVersion t',
       aw_currentBatch := None, aw_currentRows := 0\<rparr>) t'"
    using sh t tb l(5) by (simp add: shadows_def)
  ultimately show thesis
    using that [of "Finish fw'" t' w' ?m] bi l(1,3,4) okf w1(7) by simp
qed

end

section \<open>What a run leaves on the disk\<close>

definition fragment_cells :: "codecs \<Rightarrow> 'w FragmentReader \<Rightarrow> int \<Rightarrow> 'w \<Rightarrow> Fragment \<Rightarrow> cell list" where
  "fragment_cells C r i w f = (case fst (ReadColumn C r f i w) of Inl e \<Rightarrow> [] | Inr d \<Rightarrow> cells d)"

lemma absent_column_cells: "i \<notin> set (ColumnIDs f) \<Longrightarrow> fragment_cells C r i w f = []"
proof -
  assume "i \<notin> set (ColumnIDs f)"
  then have "findDataFile f i = None"
    by (auto simp: findDataFile_def ColumnIDs_def find_None_iff)
  then show ?thesis
    by (simp add: fragment_cells_def ReadColumn_def split: option.split)
qed

context local_history
begin

text \<open>
  After the steps that have accepted \<open>acc\<close>: a table with the writer's counters whose latest manifest
  has the fragments \<open>fs\<close> beyond those at the start, and for every column the cells of those fragments
  and the cells that still wait are the accepted ones in order.
\<close>

definition async_inv ::
  "(RecordBatch \<Rightarrow> RecordBatch \<Rightarrow> bool) \<Rightarrow> world Table \<Rightarrow> world \<Rightarrow> Manifest \<Rightarrow> RecordBatch list \<Rightarrow>
     world AsyncWriter \<Rightarrow> world \<Rightarrow> bool" where
  "async_inv same t0 w0 m0 acc a w \<longleftrightarrow> pending_typed a \<and> aw_schema a = tb_schema t0 \<and>
     (\<exists>t m fs. (table_step same C)\<^sup>*\<^sup>* (t0, w0) (t, w) \<and> table_inv t w \<and> shadows a t \<and>
        LatestManifest t w = (Inr m, w) \<and> man_Fragments m = man_Fragments m0 @ fs \<and>
        (\<forall>i. concat (map (fragment_cells C (NewFragmentReader (LocalFS root) (tb_schema t0) comp) i w) fs) @
           pending_cells i a = concat (map (batch_cells i) acc)))"

text \<open>Accepting, accumulating and reporting do not touch the disk.\<close>

lemma async_inv_memory:
  assumes "async_inv same t0 w0 m0 acc a w" and "same_target a' a" and "pending_typed a'"
    and "\<forall>i. pending_cells i a' = pending_cells i a @ concat (map (batch_cells i) new)"
  shows "async_inv same t0 w0 m0 (acc @ new) a' w"
proof -
  obtain t m fs where t: "(table_step same C)\<^sup>*\<^sup>* (t0, w0) (t, w)" "table_inv t w" "shadows a t"
    "LatestManifest t w = (Inr m, w)" "man_Fragments m = man_Fragments m0 @ fs"
    "\<forall>i. concat (map (fragment_cells C (NewFragmentReader (LocalFS root) (tb_schema t0) comp) i w) fs) @
       pending_cells i a = concat (map (batch_cells i) acc)"
    using assms(1) unfolding async_inv_def by blast
  have "\<forall>i. concat (map (fragment_cells C (NewFragmentReader (LocalFS root) (tb_schema t0) comp) i w) fs) @
       pending_cells i a' = concat (map (batch_cells i) (acc @ new))"
    using t(6) assms(4) by (metis append.assoc concat_append map_append)
  moreover have "aw_schema a' = tb_schema t0"
    using assms(1,2) by (simp add: async_inv_def same_target_def)
  ultimately show ?thesis
    using t(1,2,4,5) shadows_same_target [OF assms(2) t(3)] assms(3) unfolding async_inv_def by blast
qed

lemma fragment_kept:
  assumes "table_inv t w" and "(table_step same C)\<^sup>*\<^sup>* (t, w) (t', w')" and "LatestManifest t w = (Inr m, w)"
    and "f \<in> set (man_Fragments m)" and "frd_store r = LocalFS root"
  shows "fragment_cells C r i w' f = fragment_cells C r i w f"
  by (simp add: fragment_cells_def latest_kept [OF assms])

lemma async_inv_flush:
  assumes "async_inv same t0 w0 m0 acc a w" and "flush_room a" and "paths_ok tp"
    and "AW_flush C a w = (r, a', w')"
  shows "async_inv same t0 w0 m0 acc a' w' \<and> r = Inr ()"
proof (cases "aw_currentBatch a = None \<or> aw_currentRows a = 0")
  case True
  then have "a' = a" "w' = w" "r = Inr ()"
    using assms(4) by (auto simp: AW_flush_def split: option.splits)
  with assms(1) show ?thesis by simp
next
  case False
  then obtain b where b: "aw_currentBatch a = Some b" "aw_currentRows a \<noteq> 0"
    by auto
  let ?rd = "NewFragmentReader (LocalFS root) (tb_schema t0) comp"
  obtain t m fs where t: "(table_step same C)\<^sup>*\<^sup>* (t0, w0) (t, w)" "table_inv t w" "shadows a t"
    "LatestManifest t w = (Inr m, w)" "man_Fragments m = man_Fragments m0 @ fs"
    "\<forall>i. concat (map (fragment_cells C ?rd i w) fs) @ pending_cells i a = concat (map (batch_cells i) acc)"
    using assms(1) unfolding async_inv_def by blast
  have typed: "pending_typed a" and schema: "aw_schema a = tb_schema t0" "tb_schema t = tb_schema t0"
    using assms(1) t(3) by (simp_all add: async_inv_def shadows_def)
  have fits: "batch_fits (tb_schema t) (rb_Columns b)"
    using typed assms(2) b(1) schema
    by (simp add: batch_fits_iff pending_typed_def flush_room_def current_columns_def)
  have range: "tb_nextVersion t < 2 ^ 63 - 1" "tb_nextFragmentID t < 2 ^ 31 - 1" "in_range t 0"
    using assms(2) t(3) by (simp_all add: flush_room_def shadows_def in_range_def fits64_def)
  obtain f t' w2 m2 where f: "BatchInsert same C 0 t [b] w = (Inr f, t', w2)" "Fragment_ok f"
    "ColumnIDs f = gm_keys (rb_Columns b)"
    "AW_flush C a w = (Inr (), sendResult (Some f) (Some m2) None
       (a\<lparr>aw_fragmentID := tb_nextFragmentID t', aw_nextVersion := tb_nextVersion t',
          aw_currentBatch := None, aw_currentRows := 0\<rparr>), w2)"
    "shadows (a\<lparr>aw_fragmentID := tb_nextFragmentID t', aw_nextVersion := tb_nextVersion t',
       aw_currentBatch := None, aw_currentRows := 0\<rparr>) t'"
    by (rule flush_inserts [OF t(2,3) b fits assms(3) range(1,2)])
  let ?a = "a\<lparr>aw_fragmentID := tb_nextFragmentID t', aw_nextVersion := tb_nextVersion t',
          aw_currentBatch := None, aw_currentRows := 0\<rparr>"
  have a': "a' = sendResult (Some f) (Some m2) None ?a" "w' = w2" "r = Inr ()"
    using f(4) assms(4) by simp_all
  have gm: "\<forall>b \<in> set [b]. gm_ok (rb_Columns b)"
    using fits by (simp add: batch_fits_def)
  have step: "table_step same C (t, w) (t', w')"
    using f(2) by (intro step_insert [OF f(1) [folded a'(2)] range(3) gm]) simp
  then have inv': "table_inv t' w'"
    using table_step_inv [OF step] t(2) by simp
  obtain m' where m': "LatestManifest t' w' = (Inr m', w')" "man_Fragments m' = man_Fragments m @ [f]"
    "\<forall>i d. Column b i = Some d \<longrightarrow> fst (ReadColumn C ?rd f i w') = Inr d"
    using insert_reads [OF t(2) range(3) _ _ fits f(1) [folded a'(2)] assms(3)] t(4) schema(2)
    by (auto simp: insert_batch_def)
  have new: "fragment_cells C ?rd i w' f = batch_cells i b" for i
  proof (cases "Column b i")
    case None
    then have "i \<notin> set (ColumnIDs f)"
      using f(3) by (simp add: Column_def gm_get_None)
    with None show ?thesis
      by (simp add: absent_column_cells batch_cells_def)
  next
    case (Some d)
    with m'(3) show ?thesis
      by (simp add: fragment_cells_def batch_cells_def)
  qed
  have old: "fragment_cells C ?rd i w' g = fragment_cells C ?rd i w g" if "g \<in> set fs" for i g
    using that t(5) by (intro fragment_kept [OF t(2) r_into_rtranclp [where r = "table_step same C", OF step] t(4)]) (simp_all add: NewFragmentReader_def)
  have maps: "map (fragment_cells C ?rd i w') fs = map (fragment_cells C ?rd i w) fs" for i
    using old by simp
  have pend: "pending_cells i a = batch_cells i b @ pending_cells i a'" for i
    using b(1) by (simp add: a'(1) pending_cells_def current_columns_def batch_cells_columns cols_cells_def)
  have cells: "concat (map (fragment_cells C ?rd i w') (fs @ [f])) @ pending_cells i a' =
      concat (map (batch_cells i) acc)" for i
    using t(6) [rule_format, of i] new [of i] by (simp only: map_append maps pend concat_append) simp
  have "pending_typed a'" "aw_schema a' = tb_schema t0" "shadows a' t'"
    using typed schema shadows_same_target [OF sendResult_other(6) f(5)]
    by (simp_all add: a'(1) pending_typed_def current_columns_def columns_typed_def sendResult_def)
  moreover have "(table_step same C)\<^sup>*\<^sup>* (t0, w0) (t', w')"
    using t(1) step by (rule rtranclp.rtrancl_into_rtrancl)
  moreover have "man_Fragments m' = man_Fragments m0 @ (fs @ [f])"
    using m'(2) t(5) by simp
  ultimately show ?thesis
    using inv' m'(1) cells a'(3) unfolding async_inv_def by blast
qed

lemma async_inv_drained:
  "async_inv same t0 w0 m0 acc a w \<Longrightarrow> async_inv same t0 w0 m0 acc (drainPending a) w"
  using async_inv_memory [of same t0 w0 m0 acc a w "drainPending a" "[]"] drainPending_typed [of a]
  by (simp add: async_inv_def)

lemma async_step:
  assumes "aw_step C (a, w) new (a', w')" and "async_inv same t0 w0 m0 acc a w" and "paths_ok tp"
    and "\<forall>b \<in> set new. columns_typed (tb_schema t0) (rb_Columns b)"
  shows "async_inv same t0 w0 m0 (acc @ new) a' w'"
proof -
  have typed: "pending_typed a" and schema: "aw_schema a = tb_schema t0"
    using assms(2) by (simp_all add: async_inv_def)
  note memory = async_inv_memory [OF assms(2)]
  have quiet: "async_inv same t0 w0 m0 acc b w"
    if "same_target b a" "pending_typed b" "\<forall>i. pending_cells i b = pending_cells i a" for b
    using memory [of b "[]"] that by simp
  have drained: "async_inv same t0 w0 m0 acc (drainPending a) w"
    by (rule async_inv_drained [OF assms(2)])
  from assms(1) show ?thesis
  proof cases
    case (step_write cancelled pick b)
    then have "a' = a\<lparr>aw_batchCh := aw_batchCh a @ [b]\<rparr>"
      by (auto dest: AW_Write_cases)
    then show ?thesis
      using step_write assms(4) typed schema
      by (auto intro!: memory simp: same_target_def pending_typed_def pending_cells_def current_columns_def)
  next
    case (step_refused cancelled pick b e)
    then have "a' = a" "w' = w" "new = []"
      by (auto dest: AW_Write_cases)
    with assms(2) show ?thesis by simp
  next
    case (step_take r rs)
    then show ?thesis
      using typed by (auto intro!: quiet simp: same_target_def pending_typed_def pending_cells_def current_columns_def)
  next
    case step_close
    then show ?thesis
      using typed by (auto intro!: quiet simp: same_target_def pending_typed_def pending_cells_def current_columns_def)
  next
    case (step_batch b bs)
    let ?a = "a\<lparr>aw_batchCh := bs\<rparr>"
    have cur: "current_columns ?a = current_columns a"
      by (simp add: current_columns_def)
    have b: "columns_typed (aw_schema ?a) (rb_Columns b)" "columns_typed (aw_schema ?a) (current_columns ?a)"
      using typed step_batch by (simp_all add: pending_typed_def cur)
    obtain a1 where a1: "accumulate b ?a = (Inr (), a1)" "same_target a1 ?a" "aw_batchCh a1 = aw_batchCh ?a"
      "columns_typed (aw_schema ?a) (current_columns a1)"
      "\<forall>i. cols_cells i (current_columns a1) = cols_cells i (current_columns ?a) @ batch_cells i b"
      by (rule accumulate_typed [OF b])
    have "same_target a1 a" "pending_typed a1" "\<forall>i. pending_cells i a1 = pending_cells i a"
      using a1 typed step_batch by (simp_all add: same_target_def pending_typed_def pending_cells_def cur)
    then have inv: "async_inv same t0 w0 m0 acc a1 w"
      using quiet by simp
    obtain r a2 w2 where fl: "AW_flush C a1 w = (r, a2, w2)"
      by (metis prod_cases3)
    have "async_inv same t0 w0 m0 acc a2 w2 \<and> r = Inr ()"
      using step_batch a1(1) by (intro async_inv_flush [OF inv _ assms(3) fl]) simp
    then show ?thesis
      using step_batch a1(1) fl inv by (auto simp: run_batch_def split: if_splits)
  next
    case (step_flush r)
    then show ?thesis
      using async_inv_flush [OF drained _ assms(3)] by (auto simp: run_flush_def)
  next
    case step_timer
    then show ?thesis
      using async_inv_flush [OF assms(2) _ assms(3)] assms(2)
      by (cases "AW_flush C a w") (auto simp: run_timer_def split: if_splits)
  next
    case step_stop
    obtain r a2 w2 where fl: "AW_flush C (drainPending a) w = (r, a2, w2)"
      by (metis prod_cases3)
    have inv: "async_inv same t0 w0 m0 acc a2 w2"
      using async_inv_flush [OF drained _ assms(3) fl] step_stop by simp
    then have "pending_typed a2"
      by (simp add: async_inv_def)
    then have "async_inv same t0 w0 m0 (acc @ []) (a2\<lparr>aw_closeErr := e, aw_done := True\<rparr>) w2" for e
      by (intro async_inv_memory [OF inv]) (simp_all add: same_target_def pending_typed_def pending_cells_def current_columns_def)
    then show ?thesis
      using step_stop fl by (auto simp: run_stop_def)
  qed
qed

lemma async_run:
  assumes "aw_run C (a, w) new (a', w')" and "async_inv same t0 w0 m0 acc a w" and "paths_ok tp"
    and "\<forall>b \<in> set new. columns_typed (tb_schema t0) (rb_Columns b)"
  shows "async_inv same t0 w0 m0 (acc @ new) a' w'"
proof -
  have "async_inv same t0 w0 m0 (acc @ new) (fst s') (snd s')"
    if "aw_run C s new s'" "async_inv same t0 w0 m0 acc (fst s) (snd s)"
      "\<forall>b \<in> set new. columns_typed (tb_schema t0) (rb_Columns b)" for s s'
    using that
  proof induction
    case (run_step s bs s' cs s'')
    then have "async_inv same t0 w0 m0 (acc @ bs) (fst s') (snd s')" "aw_step C (fst s', snd s') cs (fst s'', snd s'')"
      by simp_all
    from async_step [OF this(2,1) assms(3)] show ?case
      using run_step.prems by simp
  qed simp
  from this [OF assms(1)] assms(2,4) show ?thesis by simp
qed

lemma latest_exists: "table_inv t w \<Longrightarrow> \<exists>m. LatestManifest t w = (Inr m, w)"
  using LatestManifest_inv by blast

text \<open>\<open>Start\<close> on a table reads the counters that opening the table gives.\<close>

lemma start_inv:
  assumes "table_inv t w" and "LatestManifest t w = (Inr m, w)"
    and "AW_Start (NewAsyncWriter (LocalFS root) (tb_manifestStore t) (tb_schema t) tp comp n i) w = (r, a, w')"
  shows "r = Inr () \<and> w' = w \<and> async_inv same t w m [] a w \<and> aw_nextVersion a = tb_nextVersion t \<and>
    aw_fragmentID a \<le> tb_nextFragmentID t + 1 \<and> aw_batchCh a = [] \<and> aw_currentBatch a = None \<and>
    aw_started a \<and> \<not> aw_done a"
proof -
  have t: "tb_manifestStore t = ms" "tb_tablePath t = tp" "tb_store t = LocalFS root" "tb_compression t = comp"
    "fits64 (tb_nextVersion t)" "1 < tb_nextVersion t"
    using assms(1) by (simp_all add: table_inv_def attached_def)
  obtain latest where l: "VM_Latest (tb_versionMgr t) = Some latest" "0 \<le> man_MaxFragmentID latest"
    "man_MaxFragmentID latest < 2 ^ 31 - 1" "man_MaxFragmentID latest \<le> tb_nextFragmentID t"
    by (rule table_inv_latest [OF assms(1)])
  have vs: "MS_ListVersions ms w = (Inr [1..tb_nextVersion t - 1], w)"
    using ListVersions_inv [OF assms(1)] t(1) by (simp add: ListVersions_def)
  have last: "last [1..tb_nextVersion t - 1] = tb_nextVersion t - 1" "[1..tb_nextVersion t - 1] \<noteq> []"
    using t(6) by (simp_all add: upto_rec2)
  have read: "MS_LatestVersion ms w = (Inr (tb_nextVersion t - 1), w)" "MS_Read ms (tb_nextVersion t - 1) w = (Inr latest, w)"
    using latest_read [OF assms(1) l(1)] by simp_all
  obtain t1 where t1: "OpenTable ''reopened'' tp (LocalFS root) comp w = (Inr t1, w)" "table_inv t1 w"
    "tb_schema t1 = tb_schema t" "tb_nextVersion t1 = tb_nextVersion t"
    by (rule Open_inv [OF assms(1)])
  have fid: "tb_nextFragmentID t1 = man_MaxFragmentID latest + 1"
    using t1(1) read l(2,3) by (auto simp: OpenTable_def NewTable_def Let_def fits32_def)
  have "table_step same C (t, w) (t1, w)"
    using t1(1) t by (intro step_open) simp
  moreover have "LatestManifest t1 w = (Inr m, w)"
    using LatestManifest_inv [OF t1(2)] LatestManifest_inv [OF assms(1)] assms(2) t1(4) by auto
  moreover have start: "r = Inr ()" "w' = w"
    "a = (NewAsyncWriter (LocalFS root) ms (tb_schema t) tp comp n i)\<lparr>aw_nextVersion := tb_nextVersion t,
       aw_fragmentID := man_MaxFragmentID latest + 1, aw_started := True\<rparr>"
    using assms(3) vs last read(2) t l(2,3)
    by (auto simp: AW_Start_def NewAsyncWriter_def Let_def fits32_def)
  moreover have "shadows a t1"
    using start(3) t1 fid by (simp add: shadows_def NewAsyncWriter_def table_inv_def attached_def)
  moreover have "pending_typed a" "\<forall>i. pending_cells i a = []" "aw_schema a = tb_schema t"
    using start(3)
    by (simp_all add: NewAsyncWriter_def pending_typed_def pending_cells_def current_columns_def columns_typed_def cols_cells_def)
  ultimately have "async_inv same t w m [] a w"
    using t1(2) unfolding async_inv_def
    by (intro conjI exI [of _ t1] exI [of _ m] exI [of _ "[]"]) auto
  with start l(4) show ?thesis by (simp add: NewAsyncWriter_def)
qed

end

section \<open>Properties\<close>

text \<open>
  C2: durability of asynchronous writes: when the writer is started on a table, then after any
  interleaving of writes, flushes, timer ticks and the final flush, the disk is that of a table in
  the same history, whose latest manifest has the old fragments and some new ones; for every column
  the cells read back from the new fragments, followed by those still in memory, are the cells of the
  accepted batches in the order they were accepted. Nothing is lost, duplicated or reordered.
\<close>

theorem async_writes_durable:
  assumes "join_safe tp" and "codec_ok C cmp (effective_block_size (NewMiniBlockEncoder cmp))" and "paths_ok tp"
    and "table_reach same C c root tp cmp t w"
    and "AW_Start (NewAsyncWriter (LocalFS root) (tb_manifestStore t) (tb_schema t) tp cmp n i) w = (r, a, w1)"
    and "aw_run C (a, w1) accepted (a', w')"
    and "\<forall>b \<in> set accepted. columns_typed (tb_schema t) (rb_Columns b)"
  shows "r = Inr () \<and> (\<exists>t' old m fs. table_reach same C c root tp cmp t' w' \<and>
    LatestManifest t w = (Inr old, w) \<and> LatestManifest t' w' = (Inr m, w') \<and>
    man_Fragments m = man_Fragments old @ fs \<and>
    (\<forall>i. concat (map (fragment_cells C (NewFragmentReader (LocalFS root) (tb_schema t) cmp) i w') fs) @
       pending_cells i a' = concat (map (batch_cells i) accepted)))"
proof -
  note hist = local_historyI [OF assms(1,2)]
  note inv = local_history.reach_inv [OF hist assms(4)]
  obtain old where old: "LatestManifest t w = (Inr old, w)"
    using local_history.latest_exists [OF hist inv] by blast
  have start: "r = Inr ()" "w1 = w" "local_history.async_inv c root tp C cmp same t w old [] a w"
    using local_history.start_inv [OF hist inv old assms(5), where same = same] by simp_all
  have "local_history.async_inv c root tp C cmp same t w old ([] @ accepted) a' w'"
    by (rule local_history.async_run [OF hist assms(6) [unfolded start(2)] start(3) assms(3,7)])
  then show ?thesis
    using start(1) old table_reach_step [OF assms(4)]
    unfolding local_history.async_inv_def [OF hist] append_Nil by blast
qed

text \<open>A new table whose writer has accepted one batch.\<close>

abbreviation "example_field \<equiv> Field 0 ''x'' TypeInt64 False 0 [] None"

definition example_batch :: RecordBatch where
  "example_batch = \<lparr>rb_Schema = NewSchema [example_field], rb_Columns = [(0, Int64s [5])], rb_NumRows = 1\<rparr>"

lemma example_writer:
  obtains t w a where "table_reach (\<lambda>_ _. True) no_codecs [] ''/db'' ''t'' CompressionNone t w"
    "tb_schema t = NewSchema [example_field]"
    "AW_Start (NewAsyncWriter (LocalFS ''/db'') (tb_manifestStore t) (tb_schema t) ''t'' CompressionNone 0 0) w =
      (Inr (), a, w)"
    "aw_run no_codecs (a, w) [example_batch] (a\<lparr>aw_batchCh := [example_batch]\<rparr>, w)"
    "drainPending (a\<lparr>aw_batchCh := [example_batch]\<rparr>) = a\<lparr>aw_batchCh := [], aw_currentBatch := Some
      \<lparr>rb_Schema = aw_schema a, rb_Columns = [(0, Int64s [5])], rb_NumRows = 1\<rparr>, aw_currentRows := 1\<rparr>"
    "flush_room (drainPending (a\<lparr>aw_batchCh := [example_batch]\<rparr>))" "aw_started a" "\<not> aw_done a"
    "columns_typed (tb_schema t) (rb_Columns example_batch)" "paths_ok ''t''" "aw_currentBatch a = None"
proof -
  note hist = local_historyI [OF join_safe_t no_codecs_ok, of no_codecs]
  have ok: "Fields_ok (Fields (NewSchema [example_field]))"
    by (simp add: NewSchema_def fits32_def DataType_ok_def DataType_of_code_def utf8_ok_ascii)
  obtain t w where t: "table_reach (\<lambda>_ _. True) no_codecs [] ''/db'' ''t'' CompressionNone t w"
    "tb_schema t = NewSchema [example_field]" "tb_nextVersion t = 2" "tb_nextFragmentID t = 0"
    by (rule example_table [OF ok])
  note inv = local_history.reach_inv [OF hist t(1)]
  obtain old where old: "LatestManifest t w = (Inr old, w)"
    using local_history.latest_exists [OF hist inv] by blast
  obtain r a w1 where start: "AW_Start (NewAsyncWriter (LocalFS ''/db'') (tb_manifestStore t) (tb_schema t) ''t''
      CompressionNone 0 0) w = (r, a, w1)"
    by (metis prod_cases3)
  note a = local_history.start_inv [OF hist inv old start, where same = "\<lambda>_ _. True"]
  let ?a1 = "a\<lparr>aw_batchCh := [example_batch]\<rparr>"
  have wr: "AW_Write False 0 example_batch a = (Inr (), ?a1)"
    using a by (simp add: AW_Write_def write_ready_def defaultBatchChanCap_def)
  have run: "aw_run no_codecs (a, w1) ([] @ [example_batch]) (?a1, w1)"
    by (rule run_step [OF run_refl step_write [OF wr]])
  have d: "drainPending ?a1 = a\<lparr>aw_batchCh := [], aw_currentBatch := Some
      \<lparr>rb_Schema = aw_schema a, rb_Columns = [(0, Int64s [5])], rb_NumRows = 1\<rparr>, aw_currentRows := 1\<rparr>"
    using a by (simp add: drainPending_def accumulate_def NewRecordBatch_def gm_put_def fits64_def example_batch_def)
  have schema: "aw_schema a = tb_schema t"
    using a by (simp add: local_history.async_inv_def [OF hist])
  have "columns_small (tb_schema t) [(0, Int64s [5])]"
    by (simp add: t(2) NewSchema_def columns_small_def FieldByID_def fits32_def)
  then have room: "flush_room (drainPending ?a1)"
    using a t(3,4) schema by (simp add: d flush_room_def current_columns_def)
  have "columns_typed (tb_schema t) (rb_Columns example_batch)"
    by (simp add: t(2) NewSchema_def columns_typed_def column_typed_def FieldByID_def fits32_def gm_ok_def gm_keys_def
        column_ok_def example_batch_def)
  then show thesis
    using that [OF t(1,2) _ _ d room] start run a paths_ok_ascii [of "''t''"] by simp
qed

text \<open>A batch written to a new table and flushed when the goroutine stops is on the disk.\<close>

theorem async_writes_durable_witness:
  "\<exists>t w m fs. table_reach (\<lambda>_ _. True) no_codecs [] ''/db'' ''t'' CompressionNone t w \<and>
     LatestManifest t w = (Inr m, w) \<and> set fs \<subseteq> set (man_Fragments m) \<and>
     concat (map (fragment_cells no_codecs (NewFragmentReader (LocalFS ''/db'')
       (NewSchema [example_field]) CompressionNone) 0 w) fs) = [CInt64 5]"
proof -
  obtain t w a where e: "table_reach (\<lambda>_ _. True) no_codecs [] ''/db'' ''t'' CompressionNone t w"
    "tb_schema t = NewSchema [example_field]"
    "AW_Start (NewAsyncWriter (LocalFS ''/db'') (tb_manifestStore t) (tb_schema t) ''t'' CompressionNone 0 0) w =
      (Inr (), a, w)"
    "aw_run no_codecs (a, w) [example_batch] (a\<lparr>aw_batchCh := [example_batch]\<rparr>, w)"
    "drainPending (a\<lparr>aw_batchCh := [example_batch]\<rparr>) = a\<lparr>aw_batchCh := [], aw_currentBatch := Some
      \<lparr>rb_Schema = aw_schema a, rb_Columns = [(0, Int64s [5])], rb_NumRows = 1\<rparr>, aw_currentRows := 1\<rparr>"
    "flush_room (drainPending (a\<lparr>aw_batchCh := [example_batch]\<rparr>))" "aw_started a" "\<not> aw_done a"
    "columns_typed (tb_schema t) (rb_Columns example_batch)" "paths_ok ''t''" "aw_currentBatch a = None"
    by (rule example_writer)
  note hist = local_historyI [OF join_safe_t no_codecs_ok, of no_codecs]
  let ?a1 = "a\<lparr>aw_batchCh := [example_batch]\<rparr>"
  obtain a2 w2 where stop: "run_stop no_codecs ?a1 w = (a2, w2)"
    by fastforce
  have run: "aw_run no_codecs (a, w) ([example_batch] @ []) (a2, w2)"
    using e by (intro run_step [OF e(4) step_stop [OF _ _ e(6) stop]]) simp_all
  have "\<forall>x \<in> set ([example_batch] @ []). columns_typed (tb_schema t) (rb_Columns x)"
    using e(9) by simp
  from async_writes_durable [OF join_safe_t no_codecs_ok e(10,1,3) run this]
  obtain t' m fs and old' :: Manifest where t': "table_reach (\<lambda>_ _. True) no_codecs [] ''/db'' ''t'' CompressionNone t' w2"
    "LatestManifest t' w2 = (Inr m, w2)" "man_Fragments m = man_Fragments old' @ fs"
    "\<forall>i. concat (map (fragment_cells no_codecs (NewFragmentReader (LocalFS ''/db'') (tb_schema t) CompressionNone) i w2) fs) @
       pending_cells i a2 = concat (map (batch_cells i) ([example_batch] @ []))"
    by (elim conjE exE) (rule that, assumption+)
  note inv = local_history.reach_inv [OF hist e(1)]
  obtain old where old: "LatestManifest t w = (Inr old, w)"
    using local_history.latest_exists [OF hist inv] by blast
  have "local_history.async_inv [] ''/db'' ''t'' no_codecs CompressionNone (\<lambda>_ _. True) t w old ([] @ [example_batch]) ?a1 w"
    by (rule local_history.async_run [OF hist e(4) _ e(10)])
      (use local_history.start_inv [OF hist inv old e(3)] e(9) in simp_all)
  note drained = local_history.async_inv_drained [OF hist this]
  obtain rr a3 w3 where fl: "AW_flush no_codecs (drainPending ?a1) w = (rr, a3, w3)"
    by (metis prod_cases3)
  have "rr = Inr ()"
    using local_history.async_inv_flush [OF hist drained e(6,10) fl] by blast
  then have "aw_currentBatch a3 = None" "aw_batchCh a3 = []"
    using AW_flush_success [of no_codecs "drainPending ?a1" w a3 w3] fl by (simp_all add: e(5))
  then have "pending_cells 0 a2 = []"
    using stop fl by (auto simp: run_stop_def pending_cells_def current_columns_def cols_cells_def)
  then have cells: "concat (map (fragment_cells no_codecs (NewFragmentReader (LocalFS ''/db'') (tb_schema t) CompressionNone) 0 w2) fs) =
      [CInt64 5]"
    using t'(4) [rule_format, of 0] by (simp add: batch_cells_def Column_def example_batch_def)
  have "set fs \<subseteq> set (man_Fragments m)"
    using t'(3) by simp
  with t'(1,2) cells [unfolded e(2)] show ?thesis
    by blast
qed

end
