(* ===== verification/AsyncCalls.thy ===== *)
theory AsyncCalls
  imports AsyncHistory
begin

text \<open>
  The blocking calls of \<^verbatim>\<open>src/table/async_writer.go\<close>, \<open>Flush\<close> and \<open>Close\<close>: each waits for the
  goroutine, which may take other arms of its \<open>select\<close> first. \<open>arms\<close> are the arms it takes before it
  sees the request, \<open>pick\<close> is the draw among the communications that can proceed.
\<close>

datatype run_arm = ArmBatch | ArmTimer | ArmCtxDone

fun run_arms :: "codecs \<Rightarrow> run_arm list \<Rightarrow> 'w AsyncWriter \<Rightarrow> 'w \<Rightarrow> 'w AsyncWriter \<times> 'w" where
  "run_arms C [] a w = (a, w)"
| "run_arms C (arm # arms) a w =
     (if aw_done a then (a, w)
      else
        let (a1, w1) = (case arm of
              ArmBatch \<Rightarrow> (case aw_batchCh a of [] \<Rightarrow> (a, w) | b # bs \<Rightarrow> run_batch C b (a\<lparr>aw_batchCh := bs\<rparr>) w)
            | ArmTimer \<Rightarrow> if aw_flushInterval a > 0 then run_timer C a w else (a, w)
            | ArmCtxDone \<Rightarrow> run_stop C a w)
        in run_arms C arms a1 w1)"

text \<open>
  The ways \<open>Flush\<close> can end: the goroutine serves the request, or the writer turns out to be closed or
  not running, perhaps after the request was served (the goroutine may then have stopped, when its
  context was cancelled). None means that it waits for ever.
\<close>

definition flush_outcomes :: "codecs \<Rightarrow> 'w AsyncWriter \<Rightarrow> 'w \<Rightarrow> (unit res \<times> 'w AsyncWriter \<times> 'w) list" where
  "flush_outcomes C a w =
     (if aw_started a \<and> \<not> aw_done a then
        let (r, a1, w1) = run_flush C a w; (a2, w2) = run_stop C a1 w1 in
        (r, a1, w1) # (Inl (WrtErr ErrWriterNotRunning), a2, w2) #
          (if aw_closed a then [(Inl (WrtErr ErrWriterClosed), a1, w1)] else [])
      else []) @
     (if aw_closed a then [(Inl (WrtErr ErrWriterClosed), a, w)] else []) @
     (if aw_done a then [(Inl (WrtErr ErrWriterNotRunning), a, w)] else [])"

definition AW_Flush ::
  "codecs \<Rightarrow> run_arm list \<Rightarrow> nat \<Rightarrow> 'w AsyncWriter \<Rightarrow> 'w \<Rightarrow> (unit res \<times> 'w AsyncWriter \<times> 'w) option" where
  "AW_Flush C arms pick a w =
     (let (a1, w1) = (if aw_started a then run_arms C arms a w else (a, w)) in
      case flush_outcomes C a1 w1 of
        [] \<Rightarrow> None
      | rs \<Rightarrow> Some (rs ! (pick mod length rs)))"

definition AW_Close :: "codecs \<Rightarrow> run_arm list \<Rightarrow> 'w AsyncWriter \<Rightarrow> 'w \<Rightarrow> unit res \<times> 'w AsyncWriter \<times> 'w" where
  "AW_Close C arms a w =
     (let a1 = a\<lparr>aw_closed := True\<rparr>;
          (a3, w3) = (if aw_started a1 then
              let (a2, w2) = run_arms C arms a1 w in
              if aw_done a2 then (a2, w2) else run_stop C a2 w2
            else (a1, w))
      in ((case aw_closeErr a3 of None \<Rightarrow> Inr () | Some e \<Rightarrow> Inl e), a3, w3))"

section \<open>Calls are runs\<close>

text \<open>The arms taken have room for what they flush.\<close>

fun arms_room :: "codecs \<Rightarrow> run_arm list \<Rightarrow> 'w AsyncWriter \<Rightarrow> 'w \<Rightarrow> bool" where
  "arms_room C [] a w = True"
| "arms_room C (arm # arms) a w =
     (aw_done a \<or>
      (case arm of
         ArmBatch \<Rightarrow> (case aw_batchCh a of [] \<Rightarrow> arms_room C arms a w
           | b # bs \<Rightarrow> flush_room (snd (accumulate b (a\<lparr>aw_batchCh := bs\<rparr>))) \<and>
               (case run_batch C b (a\<lparr>aw_batchCh := bs\<rparr>) w of (a1, w1) \<Rightarrow> arms_room C arms a1 w1))
       | ArmTimer \<Rightarrow> flush_room a \<and>
           (case (if aw_flushInterval a > 0 then run_timer C a w else (a, w)) of (a1, w1) \<Rightarrow> arms_room C arms a1 w1)
       | ArmCtxDone \<Rightarrow> flush_room (drainPending a) \<and> (case run_stop C a w of (a1, w1) \<Rightarrow> arms_room C arms a1 w1)))"

lemma aw_run_trans: "aw_run C s' cs s'' \<Longrightarrow> aw_run C s bs s' \<Longrightarrow> aw_run C s (bs @ cs) s''"
proof (induction arbitrary: bs rule: aw_run.induct)
  case (run_step s' cs s1 ds s2)
  have "aw_run C s (bs @ cs) s1"
    using run_step.IH run_step.prems by blast
  from aw_run.run_step [OF this run_step.hyps(2)] show ?case
    by simp
qed simp

lemma aw_run_one: "aw_step C s [] s' \<Longrightarrow> aw_run C s [] s'"
  using run_step [OF run_refl] by fastforce

lemma aw_run_then: "aw_step C s [] s' \<Longrightarrow> aw_run C s' [] s'' \<Longrightarrow> aw_run C s [] s''"
  using aw_run_trans [of C s' "[]" s'' s "[]"] aw_run_one by fastforce

lemma AW_flush_keeps:
  "AW_flush C a w = (r, a', w') \<Longrightarrow>
     aw_started a' = aw_started a \<and> aw_done a' = aw_done a \<and> aw_closed a' = aw_closed a"
  by (auto simp: AW_flush_def Let_def sendResult_def split: option.splits if_splits sum.splits prod.splits)

lemma accumulate_keeps:
  "accumulate b a = (r, a') \<Longrightarrow>
     aw_started a' = aw_started a \<and> aw_done a' = aw_done a \<and> aw_closed a' = aw_closed a"
  by (auto simp: accumulate_def Let_def split: prod.splits sum.splits)

lemma drain_keeps:
  "aw_started (drain bs a) = aw_started a \<and> aw_done (drain bs a) = aw_done a \<and> aw_closed (drain bs a) = aw_closed a"
proof (induction bs arbitrary: a)
  case (Cons b bs)
  obtain r a1 where "accumulate b (a\<lparr>aw_batchCh := bs\<rparr>) = (r, a1)"
    by fastforce
  with accumulate_keeps [OF this] Cons [of a1] show ?case
    by (auto simp: sendResult_def split: sum.splits)
qed simp

lemma run_arms_run:
  "aw_started a \<Longrightarrow> arms_room C arms a w \<Longrightarrow> run_arms C arms a w = (a', w') \<Longrightarrow>
     aw_run C (a, w) [] (a', w') \<and> aw_started a'"
proof (induction C arms a w rule: run_arms.induct)
  case (2 C arm arms a w)
  show ?case
  proof (cases "aw_done a")
    case True
    with 2 show ?thesis
      by (auto intro: run_refl)
  next
    case False
    note IH = "2.IH" [OF False refl]
    show ?thesis
    proof (cases arm)
      case ArmBatch
      show ?thesis
      proof (cases "aw_batchCh a")
        case Nil
        then show ?thesis
          using 2(2-) IH [of a w] False ArmBatch by simp
      next
        case (Cons b bs)
        obtain a1 w1 where r: "run_batch C b (a\<lparr>aw_batchCh := bs\<rparr>) w = (a1, w1)"
          by fastforce
        have room: "flush_room (snd (accumulate b (a\<lparr>aw_batchCh := bs\<rparr>)))" "arms_room C arms a1 w1"
          using "2.prems"(2) False ArmBatch Cons r by simp_all
        have "aw_step C (a, w) [] (a1, w1)"
          by (rule step_batch [OF "2.prems"(1) False Cons room(1) r])
        moreover have "aw_started a1"
          using r "2.prems"(1) AW_flush_keeps accumulate_keeps
          by (fastforce simp: run_batch_def split: sum.splits prod.splits if_splits)
        ultimately show ?thesis
          using IH [of a1 w1] room(2) "2.prems"(3) False ArmBatch Cons r aw_run_then by fastforce
      qed
    next
      case ArmTimer
      show ?thesis
      proof (cases "aw_flushInterval a > 0")
        case True
        obtain a1 w1 where r: "run_timer C a w = (a1, w1)"
          by fastforce
        have room: "flush_room a" "arms_room C arms a1 w1"
          using "2.prems"(2) False ArmTimer True r by simp_all
        have "aw_step C (a, w) [] (a1, w1)"
          by (rule step_timer [OF "2.prems"(1) False room(1) r])
        moreover have "aw_started a1"
          using r "2.prems"(1) AW_flush_keeps by (cases "AW_flush C a w") (fastforce simp: run_timer_def split: if_splits)
        ultimately show ?thesis
          using IH [of a1 w1] room(2) "2.prems"(3) False ArmTimer True r aw_run_then by fastforce
      next
        case no: False
        then show ?thesis
          using 2(2-) IH [of a w] False ArmTimer by simp
      qed
    next
      case ArmCtxDone
      obtain a1 w1 where r: "run_stop C a w = (a1, w1)"
        by fastforce
      have room: "flush_room (drainPending a)" "arms_room C arms a1 w1"
        using "2.prems"(2) False ArmCtxDone r by simp_all
      have "aw_step C (a, w) [] (a1, w1)"
        by (rule step_stop [OF "2.prems"(1) False room(1) r])
      moreover have "aw_started a1"
        using r "2.prems"(1) AW_flush_keeps drain_keeps [of "aw_batchCh a" a]
        by (cases "AW_flush C (drainPending a) w") (fastforce simp: run_stop_def drainPending_def)
      ultimately show ?thesis
        using IH [of a1 w1] room(2) "2.prems"(3) False ArmCtxDone r aw_run_then by fastforce
    qed
  qed
qed (auto intro: run_refl)

section \<open>The writer's flags\<close>

definition same_flags :: "'w AsyncWriter \<Rightarrow> 'w AsyncWriter \<Rightarrow> bool" where
  "same_flags a b \<longleftrightarrow> aw_started a = aw_started b \<and> aw_closed a = aw_closed b"

lemma sendResult_flags [simp]:
  "aw_started (sendResult f m e a) = aw_started a" "aw_closed (sendResult f m e a) = aw_closed a"
  by (simp_all add: sendResult_def)

lemma run_batch_flags:
  "run_batch C b a w = (a', w') \<Longrightarrow> same_flags a' a \<and> aw_done a' = aw_done a"
  using AW_flush_keeps accumulate_keeps
  by (fastforce simp: run_batch_def same_flags_def split: sum.splits prod.splits if_splits)

lemma run_flush_flags:
  "run_flush C a w = (r, a', w') \<Longrightarrow> same_flags a' a \<and> aw_done a' = aw_done a"
  using AW_flush_keeps drain_keeps [of "aw_batchCh a" a]
  by (fastforce simp: run_flush_def drainPending_def same_flags_def)

lemma run_stop_flags:
  "run_stop C a w = (a', w') \<Longrightarrow> same_flags a' a \<and> aw_done a'"
  using AW_flush_keeps drain_keeps [of "aw_batchCh a" a]
  by (cases "AW_flush C (drainPending a) w") (fastforce simp: run_stop_def drainPending_def same_flags_def)

lemma run_timer_flags:
  "run_timer C a w = (a', w') \<Longrightarrow> same_flags a' a \<and> aw_done a' = aw_done a"
  using AW_flush_keeps
  by (cases "AW_flush C a w") (fastforce simp: run_timer_def same_flags_def split: if_splits)

lemma run_arms_flags:
  "run_arms C arms a w = (a', w') \<Longrightarrow> same_flags a' a \<and> (aw_done a \<longrightarrow> a' = a \<and> w' = w)"
proof (induction C arms a w rule: run_arms.induct)
  case (2 C arm arms a w)
  show ?case
  proof (cases "aw_done a")
    case True
    with 2 show ?thesis by (simp add: same_flags_def)
  next
    case False
    obtain a1 w1 where arm: "(case arm of
          ArmBatch \<Rightarrow> (case aw_batchCh a of [] \<Rightarrow> (a, w) | b # bs \<Rightarrow> run_batch C b (a\<lparr>aw_batchCh := bs\<rparr>) w)
        | ArmTimer \<Rightarrow> if aw_flushInterval a > 0 then run_timer C a w else (a, w)
        | ArmCtxDone \<Rightarrow> run_stop C a w) = (a1, w1)"
      by fastforce
    then have "same_flags a1 a"
      using run_batch_flags run_timer_flags run_stop_flags
      by (fastforce simp: same_flags_def split: run_arm.splits list.splits if_splits)
    moreover have "run_arms C arms a1 w1 = (a', w')"
      using "2.prems" arm False by simp
    ultimately show ?thesis
      using "2.IH" [OF False arm [symmetric] refl] False by (simp add: same_flags_def)
  qed
qed (simp add: same_flags_def)

lemma flush_outcomes_flags:
  "(r, a', w') \<in> set (flush_outcomes C a w) \<Longrightarrow> same_flags a' a \<and> (aw_done a \<longrightarrow> aw_done a')"
proof -
  obtain rf a1 w1 where f: "run_flush C a w = (rf, a1, w1)"
    by (metis prod_cases3)
  obtain a2 w2 where s: "run_stop C a1 w1 = (a2, w2)"
    by fastforce
  assume "(r, a', w') \<in> set (flush_outcomes C a w)"
  then show ?thesis
    using run_flush_flags [OF f] run_stop_flags [OF s] f s
    by (auto simp: flush_outcomes_def same_flags_def split: if_splits)
qed

lemma AW_Flush_flags:
  assumes "AW_Flush C arms pick a w = Some (r, a', w')"
  shows "same_flags a' a \<and> (aw_done a \<longrightarrow> aw_done a')"
proof -
  obtain a1 w1 where a1: "(if aw_started a then run_arms C arms a w else (a, w)) = (a1, w1)"
    by fastforce
  have k: "same_flags a1 a" "aw_done a \<longrightarrow> a1 = a"
    using a1 run_arms_flags [of C arms a w a1 w1] by (auto simp: same_flags_def split: if_splits)
  have o: "flush_outcomes C a1 w1 \<noteq> []"
    "(r, a', w') = flush_outcomes C a1 w1 ! (pick mod length (flush_outcomes C a1 w1))"
    using assms a1 by (auto simp: AW_Flush_def split: list.splits)
  then have "(r, a', w') \<in> set (flush_outcomes C a1 w1)"
    by simp
  from flush_outcomes_flags [OF this] k show ?thesis
    by (auto simp: same_flags_def)
qed

lemma AW_Flush_returns: "aw_started a \<Longrightarrow> AW_Flush C arms pick a w \<noteq> None"
proof -
  assume a: "aw_started a"
  obtain a1 w1 where a1: "run_arms C arms a w = (a1, w1)"
    by fastforce
  then have "aw_started a1"
    using run_arms_flags [OF a1] a by (simp add: same_flags_def)
  then have "flush_outcomes C a1 w1 \<noteq> []"
    by (auto simp: flush_outcomes_def split: prod.splits)
  then show ?thesis
    using a a1 by (cases "flush_outcomes C a1 w1") (simp_all add: AW_Flush_def)
qed

lemma AW_Close_flags:
  assumes "AW_Close C arms a w = (r, a', w')" and "aw_started a"
  shows "aw_started a' \<and> aw_closed a' \<and> aw_done a'"
proof -
  obtain a2 w2 where a2: "run_arms C arms (a\<lparr>aw_closed := True\<rparr>) w = (a2, w2)"
    by fastforce
  have "aw_started a2 \<and> aw_closed a2"
    using run_arms_flags [OF a2] assms(2) by (simp add: same_flags_def)
  then show ?thesis
    using assms a2 run_stop_flags [of C a2 w2]
    by (auto simp: AW_Close_def same_flags_def split: if_splits prod.splits)
qed

lemma AW_Start_flags:
  "AW_Start a w = (r, a', w') \<Longrightarrow> aw_closed a' = aw_closed a \<and>
     (case r of Inl e \<Rightarrow> aw_started a' = aw_started a | Inr _ \<Rightarrow> aw_started a')"
  by (auto simp: AW_Start_def Let_def split: sum.splits prod.splits if_splits)

lemma AW_Write_flags: "AW_Write cancelled pick b a = (r, a') \<Longrightarrow> same_flags a' a \<and> aw_done a' = aw_done a"
  by (drule AW_Write_cases) (auto simp: same_flags_def split: sum.splits)

end
