(* ===== verification/AsyncClose.thy ===== *)
theory AsyncClose
  imports AsyncCalls
begin

text \<open>
  The end of an asynchronous writer: what \<open>Close\<close> of \<^verbatim>\<open>src/table/async_writer.go\<close> leaves behind. The
  rows a batch claims decide whether a flush writes it, so they are counted along with the cells.
\<close>

section \<open>Counting rows\<close>

abbreviation "row_count bs \<equiv> sum_list (map rb_NumRows bs)"

text \<open>
  The accumulated rows are never zero while columns wait, and with those of the queue they are at
  most the rows accepted so far.
\<close>

definition rows_ok :: "int \<Rightarrow> 'w AsyncWriter \<Rightarrow> bool" where
  "rows_ok n a \<longleftrightarrow>
     0 \<le> aw_currentRows a \<and> (aw_currentBatch a = None \<longrightarrow> aw_currentRows a = 0) \<and>
     (aw_currentRows a = 0 \<longrightarrow> current_columns a = []) \<and>
     (\<forall>b \<in> set (aw_batchCh a). 0 < rb_NumRows b) \<and>
     aw_currentRows a + row_count (aw_batchCh a) \<le> n"

lemma row_count_nonneg: "\<forall>b \<in> set bs. 0 < rb_NumRows b \<Longrightarrow> 0 \<le> row_count bs"
  by (intro sum_list_nonneg) auto

lemma rows_ok_mono: "rows_ok n a \<Longrightarrow> n \<le> m \<Longrightarrow> rows_ok m a"
  by (auto simp: rows_ok_def)

lemma accumulate_rows:
  assumes "accumulate b (a\<lparr>aw_batchCh := bs\<rparr>) = (Inr (), a')" and "rows_ok n a" and "aw_batchCh a = b # bs"
    and "n < 2 ^ 63"
  shows "rows_ok n a'"
proof -
  have b: "0 < rb_NumRows b" "0 \<le> row_count bs"
    using assms(2,3) row_count_nonneg [of bs] by (simp_all add: rows_ok_def)
  then have "fits64 (aw_currentRows a + rb_NumRows b)"
    using assms(2-4) by (simp add: rows_ok_def fits64_def)
  moreover have "aw_currentBatch a = None \<Longrightarrow> aw_currentRows a = 0" "0 \<le> aw_currentRows a"
    using assms(2) by (simp_all add: rows_ok_def)
  ultimately have "aw_currentRows a' = aw_currentRows a + rb_NumRows b \<and> aw_currentBatch a' \<noteq> None \<and> aw_batchCh a' = bs"
    using assms(1) by (auto simp: accumulate_def Let_def split: option.splits sum.splits prod.splits)
  then show ?thesis
    using assms(2,3) b by (simp add: rows_ok_def)
qed

lemma drain_rows:
  "rows_ok n a \<Longrightarrow> aw_batchCh a = bs \<Longrightarrow> pending_typed a \<Longrightarrow> n < 2 ^ 63 \<Longrightarrow> rows_ok n (drain bs a)"
proof (induction bs arbitrary: a)
  case (Cons b bs)
  let ?a = "a\<lparr>aw_batchCh := bs\<rparr>"
  have "columns_typed (aw_schema ?a) (rb_Columns b)" "columns_typed (aw_schema ?a) (current_columns ?a)"
    using Cons.prems by (simp_all add: pending_typed_def current_columns_def)
  from accumulate_typed [OF this] obtain a1 where a1: "accumulate b ?a = (Inr (), a1)" "same_target a1 ?a"
    "aw_batchCh a1 = aw_batchCh ?a" "columns_typed (aw_schema ?a) (current_columns a1)"
    by metis
  moreover have "pending_typed a1"
    using a1 Cons.prems(2,3) by (simp add: pending_typed_def same_target_def)
  ultimately show ?case
    using Cons.IH [of a1] accumulate_rows [OF a1(1) Cons.prems(1,2,4)] Cons.prems(4) by simp
qed (simp add: rows_ok_def current_columns_def)

lemma drainPending_rows: "rows_ok n a \<Longrightarrow> pending_typed a \<Longrightarrow> n < 2 ^ 63 \<Longrightarrow> rows_ok n (drainPending a)"
  by (simp add: drainPending_def drain_rows)

lemma sendResult_rows [simp]: "rows_ok n (sendResult f m e a) = rows_ok n a"
  by (simp add: rows_ok_def current_columns_def)

lemma AW_flush_rows:
  assumes "AW_flush C a w = (r, a', w')" and "rows_ok n a"
  shows "rows_ok n a' \<and> (r = Inr () \<longrightarrow> aw_currentRows a' = 0) \<and> aw_batchCh a' = aw_batchCh a"
proof (cases r)
  case (Inl e)
  then have "a' = a \<or> a' = a\<lparr>aw_fragmentID := wrap32 (aw_fragmentID a + 1)\<rparr>"
    by (intro AW_flush_error [OF assms(1) [unfolded Inl]])
  then show ?thesis
    using assms(2) Inl by (auto simp: rows_ok_def current_columns_def)
next
  case (Inr u)
  show ?thesis
  proof (cases "aw_currentBatch a = None \<or> aw_currentRows a = 0")
    case True
    then have "a' = a"
      using assms(1) Inr by (auto simp: AW_flush_def split: option.splits)
    then show ?thesis
      using assms(2) True by (auto simp: rows_ok_def)
  next
    case False
    then obtain b where "aw_currentBatch a = Some b"
      by auto
    from AW_flush_success [OF _ this] assms Inr False show ?thesis
      by (auto simp: rows_ok_def current_columns_def)
  qed
qed

lemma aw_step_rows:
  assumes "aw_step C (a, w) new (a', w')" and "pending_typed a" and "rows_ok n a"
    and "\<forall>b \<in> set new. 0 < rb_NumRows b" and "n + row_count new < 2 ^ 63"
  shows "rows_ok (n + row_count new) a'"
proof -
  have pos: "0 \<le> row_count new"
    using assms(4) by (rule row_count_nonneg)
  have n: "n < 2 ^ 63"
    using pos assms(5) by simp
  have drained: "rows_ok n (drainPending a)"
    by (rule drainPending_rows [OF assms(3,2) n])
  from assms(1) show ?thesis
  proof cases
    case (step_write cancelled pick b)
    then have "a' = a\<lparr>aw_batchCh := aw_batchCh a @ [b]\<rparr>"
      by (auto dest: AW_Write_cases)
    then show ?thesis
      using step_write assms(3,4) by (auto simp: rows_ok_def current_columns_def)
  next
    case (step_refused cancelled pick b e)
    then show ?thesis
      using assms(3) by (auto dest: AW_Write_cases)
  next
    case (step_batch b bs)
    then have "columns_typed (aw_schema (a\<lparr>aw_batchCh := bs\<rparr>)) (rb_Columns b)"
      "columns_typed (aw_schema (a\<lparr>aw_batchCh := bs\<rparr>)) (current_columns (a\<lparr>aw_batchCh := bs\<rparr>))"
      using assms(2) by (simp_all add: pending_typed_def current_columns_def)
    from accumulate_typed [OF this] obtain a1 where a1: "accumulate b (a\<lparr>aw_batchCh := bs\<rparr>) = (Inr (), a1)"
      by metis
    have "rows_ok n a1"
      by (rule accumulate_rows [OF a1 assms(3) _ n]) (use step_batch in simp)
    then show ?thesis
      using step_batch a1 AW_flush_rows [of C a1 w]
      by (auto simp: run_batch_def split: if_splits prod.splits sum.splits)
  next
    case (step_flush r)
    then show ?thesis
      using AW_flush_rows [OF _ drained] by (auto simp: run_flush_def)
  next
    case step_timer
    then show ?thesis
      using AW_flush_rows [OF _ assms(3), of C w] assms(3)
      by (cases "AW_flush C a w") (auto simp: run_timer_def split: if_splits)
  next
    case step_stop
    obtain r a1 w1 where f: "AW_flush C (drainPending a) w = (r, a1, w1)"
      by (metis prod_cases3)
    have "rows_ok n a1"
      using AW_flush_rows [OF f drained] by simp
    then show ?thesis
      using step_stop f by (auto simp: run_stop_def rows_ok_def current_columns_def)
  qed (use assms(3) in \<open>auto simp: rows_ok_def current_columns_def\<close>)
qed

section \<open>Writers that keep running\<close>

lemma aw_step_started:
  assumes "aw_step C (a, w) new (a', w')" and "aw_started a"
  shows "aw_started a'"
proof -
  have "same_flags a' (a\<lparr>aw_closed := aw_closed a'\<rparr>)"
    using assms(1)
  proof cases
    case (step_batch b bs)
    then show ?thesis
      using run_batch_flags [OF step_batch(6)] by (simp add: same_flags_def)
  next
    case (step_flush r)
    then show ?thesis
      using run_flush_flags by (fastforce simp: same_flags_def)
  next
    case step_timer
    then show ?thesis
      using run_timer_flags by (fastforce simp: same_flags_def)
  next
    case step_stop
    then show ?thesis
      using run_stop_flags by (fastforce simp: same_flags_def)
  qed (auto simp: same_flags_def dest: AW_Write_cases)
  then show ?thesis
    using assms(2) by (simp add: same_flags_def)
qed

lemma run_arms_alive:
  "ArmCtxDone \<notin> set arms \<Longrightarrow> \<not> aw_done a \<Longrightarrow> run_arms C arms a w = (a', w') \<Longrightarrow> \<not> aw_done a'"
proof (induction arms arbitrary: a w)
  case (Cons arm arms)
  obtain a1 w1 where arm: "(case arm of
        ArmBatch \<Rightarrow> (case aw_batchCh a of [] \<Rightarrow> (a, w) | b # bs \<Rightarrow> run_batch C b (a\<lparr>aw_batchCh := bs\<rparr>) w)
      | ArmTimer \<Rightarrow> if aw_flushInterval a > 0 then run_timer C a w else (a, w)
      | ArmCtxDone \<Rightarrow> run_stop C a w) = (a1, w1)"
    by fastforce
  then have "\<not> aw_done a1"
    using Cons.prems(1,2) run_batch_flags run_timer_flags
    by (fastforce split: run_arm.splits list.splits if_splits)
  with Cons arm show ?case
    by simp
qed simp

context local_history
begin

lemma async_run_rows:
  assumes "aw_run C (a, w) new (a', w')" and "async_inv same t0 w0 m0 [] a w" and "paths_ok tp"
    and "\<forall>b \<in> set new. columns_typed (tb_schema t0) (rb_Columns b) \<and> 0 < rb_NumRows b"
    and "row_count new < 2 ^ 63" and "rows_ok 0 a" and "aw_started a"
  shows "async_inv same t0 w0 m0 new a' w' \<and> rows_ok (row_count new) a' \<and> aw_started a'"
proof -
  have "async_inv same t0 w0 m0 new (fst s') (snd s') \<and> rows_ok (row_count new) (fst s') \<and> aw_started (fst s')"
    if "aw_run C s new s'" "async_inv same t0 w0 m0 [] (fst s) (snd s)" "rows_ok 0 (fst s)" "aw_started (fst s)"
      "\<forall>b \<in> set new. columns_typed (tb_schema t0) (rb_Columns b) \<and> 0 < rb_NumRows b" "row_count new < 2 ^ 63" for s s'
    using that
  proof induction
    case (run_step s bs s' cs s'')
    have pos: "0 \<le> row_count cs" "0 \<le> row_count bs"
      using run_step.prems(4) by (auto intro!: row_count_nonneg)
    have IH: "async_inv same t0 w0 m0 bs (fst s') (snd s')" "rows_ok (row_count bs) (fst s')" "aw_started (fst s')"
      using run_step pos by auto
    have step: "aw_step C (fst s', snd s') cs (fst s'', snd s'')"
      using run_step.hyps(2) by simp
    have "async_inv same t0 w0 m0 (bs @ cs) (fst s'') (snd s'')"
      using run_step.prems(4) by (intro async_step [OF step IH(1) assms(3)]) simp
    moreover have "pending_typed (fst s')"
      using IH(1) by (simp add: async_inv_def)
    then have "rows_ok (row_count bs + row_count cs) (fst s'')"
      using run_step.prems(4,5) by (intro aw_step_rows [OF step _ IH(2)]) auto
    ultimately show ?case
      using aw_step_started [OF step IH(3)] by simp
  qed simp
  from this [OF assms(1)] assms show ?thesis by simp
qed

end

section \<open>Properties\<close>

text \<open>
  C3: nothing is left behind: when a writer has run in any interleaving and its goroutine has not
  ended, \<open>Close\<close> (the goroutine may take other arms first) returns nil, the goroutine has ended,
  the channel and the memory are empty, and for every column the cells read back from the fragments
  added since the start are the cells of the accepted batches, each with at least one row, in the
  order they were accepted.
\<close>

theorem async_close_durable:
  assumes "join_safe tp" and "codec_ok C cmp (effective_block_size (NewMiniBlockEncoder cmp))" and "paths_ok tp"
    and "table_reach same C c root tp cmp t w"
    and "AW_Start (NewAsyncWriter (LocalFS root) (tb_manifestStore t) (tb_schema t) tp cmp n i) w = (r0, a, w1)"
    and "aw_run C (a, w1) accepted (a1, w2)" and "\<not> aw_done a1"
    and "\<forall>b \<in> set accepted. columns_typed (tb_schema t) (rb_Columns b) \<and> 0 < rb_NumRows b"
    and "row_count accepted < 2 ^ 63"
    and "ArmCtxDone \<notin> set arms" and "arms_room C arms (a1\<lparr>aw_closed := True\<rparr>) w2"
    and "flush_room (drainPending (fst (run_arms C arms (a1\<lparr>aw_closed := True\<rparr>) w2)))"
    and "AW_Close C arms a1 w2 = (r, a2, w3)"
  shows "r = Inr () \<and> aw_done a2 \<and> aw_batchCh a2 = [] \<and> current_columns a2 = [] \<and>
    (\<exists>t' old m fs. table_reach same C c root tp cmp t' w3 \<and>
      LatestManifest t w = (Inr old, w) \<and> LatestManifest t' w3 = (Inr m, w3) \<and>
      man_Fragments m = man_Fragments old @ fs \<and>
      (\<forall>i. concat (map (fragment_cells C (NewFragmentReader (LocalFS root) (tb_schema t) cmp) i w3) fs) =
         concat (map (batch_cells i) accepted)))"
proof -
  note hist = local_historyI [OF assms(1,2)]
  note inv = local_history.reach_inv [OF hist assms(4)]
  obtain old where old: "LatestManifest t w = (Inr old, w)"
    using local_history.latest_exists [OF hist inv] by blast
  note start = local_history.start_inv [OF hist inv old assms(5), where same = same]
  have rows0: "rows_ok 0 a"
    using start assms(5) by (auto simp: rows_ok_def AW_Start_def NewAsyncWriter_def Let_def current_columns_def
        split: sum.splits prod.splits if_splits)
  let ?a1 = "a1\<lparr>aw_closed := True\<rparr>"
  obtain a3 w4 where a3: "run_arms C arms ?a1 w2 = (a3, w4)"
    by fastforce
  have "local_history.async_inv c root tp C cmp same t w old accepted a1 w2 \<and> rows_ok (row_count accepted) a1 \<and> aw_started a1"
    using start by (intro local_history.async_run_rows [OF hist assms(6) _ assms(3,8,9) rows0]) simp_all
  then have started: "aw_started ?a1"
    by simp
  have "aw_run C (a, w1) (accepted @ []) (?a1, w2)"
    by (rule run_step [OF assms(6) step_close])
  from aw_run_trans [OF conjunct1 [OF run_arms_run [OF started assms(11) a3]] this]
  have run: "aw_run C (a, w1) accepted (a3, w4)"
    by simp
  have "local_history.async_inv c root tp C cmp same t w old accepted a3 w4 \<and> rows_ok (row_count accepted) a3 \<and> aw_started a3"
    using start by (intro local_history.async_run_rows [OF hist run _ assms(3,8,9) rows0]) simp_all
  then have k: "local_history.async_inv c root tp C cmp same t w old accepted a3 w4" "rows_ok (row_count accepted) a3"
    by simp_all
  have alive: "\<not> aw_done a3"
    by (rule run_arms_alive [OF assms(10) _ a3]) (use assms(7) in simp)
  obtain rf a4 w5 where fl: "AW_flush C (drainPending a3) w4 = (rf, a4, w5)"
    by (metis prod_cases3)
  have typed: "pending_typed a3"
    using k(1) by (simp add: local_history.async_inv_def [OF hist])
  have room: "flush_room (drainPending a3)"
    using assms(12) a3 by simp
  have f: "local_history.async_inv c root tp C cmp same t w old accepted a4 w5" "rf = Inr ()"
    using local_history.async_inv_flush [OF hist local_history.async_inv_drained [OF hist k(1)] room assms(3) fl]
    by simp_all
  have "rows_ok (row_count accepted) (drainPending a3)"
    by (rule drainPending_rows [OF k(2) typed assms(9)])
  then have empty: "current_columns a4 = []" "aw_batchCh a4 = []"
    using AW_flush_rows [OF fl] f(2) drainPending_typed [OF typed] by (auto simp: rows_ok_def)
  have a2: "a2 = a4\<lparr>aw_closeErr := None, aw_done := True\<rparr>" "w3 = w5" "r = Inr ()"
    using assms(13) a3 alive started fl f(2) by (auto simp: AW_Close_def run_stop_def)
  have pend: "pending_cells i a4 = []" for i
    using empty by (simp add: pending_cells_def cols_cells_def)
  obtain t' m fs where t': "(table_step same C)\<^sup>*\<^sup>* (t, w) (t', w5)" "LatestManifest t' w5 = (Inr m, w5)"
    "man_Fragments m = man_Fragments old @ fs"
    "\<forall>i. concat (map (fragment_cells C (NewFragmentReader (LocalFS root) (tb_schema t) cmp) i w5) fs) =
       concat (map (batch_cells i) accepted)"
    using f(1) pend unfolding local_history.async_inv_def [OF hist] by auto
  have "table_reach same C c root tp cmp t' w5"
    by (rule table_reach_step [OF assms(4) t'(1)])
  with t' old a2 empty show ?thesis
    by (auto simp: current_columns_def)
qed

text \<open>The batch that the example writer has accepted is on the disk when \<open>Close\<close> returns.\<close>

theorem async_close_durable_witness:
  "\<exists>t w m fs. table_reach (\<lambda>_ _. True) no_codecs [] ''/db'' ''t'' CompressionNone t w \<and>
     LatestManifest t w = (Inr m, w) \<and> set fs \<subseteq> set (man_Fragments m) \<and>
     concat (map (fragment_cells no_codecs (NewFragmentReader (LocalFS ''/db'')
       (NewSchema [example_field]) CompressionNone) 0 w) fs) = [CInt64 5]"
proof -
  obtain t w a where e: "table_reach (\<lambda>_ _. True) no_codecs [] ''/db'' ''t'' CompressionNone t w"
    "tb_schema t = NewSchema [example_field]"
    "AW_Start (NewAsyncWriter (LocalFS ''/db'') (tb_manifestStore t) (tb_schema t) ''t'' CompressionNone 0 0) w =
      (Inr (), a, w)"
    "aw_run no_codecs (a, w) [example_batch] (a\<lparr>aw_batchCh := [example_batch]\<rparr>, w)"
    "drainPending (a\<lparr>aw_batchCh := [example_batch]\<rparr>) = a\<lparr>aw_batchCh := [], aw_currentBatch := Some
      \<lparr>rb_Schema = aw_schema a, rb_Columns = [(0, Int64s [5])], rb_NumRows = 1\<rparr>, aw_currentRows := 1\<rparr>"
    "flush_room (drainPending (a\<lparr>aw_batchCh := [example_batch]\<rparr>))" "aw_started a" "\<not> aw_done a"
    "columns_typed (tb_schema t) (rb_Columns example_batch)" "paths_ok ''t''" "aw_currentBatch a = None"
    by (rule example_writer)
  let ?a1 = "a\<lparr>aw_batchCh := [example_batch]\<rparr>"
  obtain r a2 w3 where close: "AW_Close no_codecs [] ?a1 w = (r, a2, w3)"
    by (metis prod_cases3)
  have drain: "drainPending (?a1\<lparr>aw_closed := True\<rparr>) = (drainPending ?a1)\<lparr>aw_closed := True\<rparr>"
    by (simp add: drainPending_def accumulate_def NewRecordBatch_def gm_put_def fits64_def example_batch_def e(11))
  have room: "flush_room (drainPending (fst (run_arms no_codecs [] (?a1\<lparr>aw_closed := True\<rparr>) w)))"
    using e(6) by (simp add: drain flush_room_def current_columns_def)
  have typed: "\<forall>b \<in> set [example_batch]. columns_typed (tb_schema t) (rb_Columns b) \<and> 0 < rb_NumRows b"
    "sum_list (map rb_NumRows [example_batch]) < 2 ^ 63"
    using e(9) by (simp_all add: example_batch_def)
  from async_close_durable [OF join_safe_t no_codecs_ok e(10,1,3,4) _ typed _ _ room close] e(8)
  obtain t' m fs and old :: Manifest where t': "table_reach (\<lambda>_ _. True) no_codecs [] ''/db'' ''t'' CompressionNone t' w3"
    "LatestManifest t' w3 = (Inr m, w3)" "man_Fragments m = man_Fragments old @ fs"
    "\<forall>i. concat (map (fragment_cells no_codecs (NewFragmentReader (LocalFS ''/db'') (tb_schema t) CompressionNone) i w3) fs) =
       concat (map (batch_cells i) [example_batch])"
    by auto
  then have "set fs \<subseteq> set (man_Fragments m)"
    "concat (map (fragment_cells no_codecs (NewFragmentReader (LocalFS ''/db'') (NewSchema [example_field]) CompressionNone) 0 w3) fs) =
      [CInt64 5]"
    by (simp_all add: e(2) batch_cells_def Column_def example_batch_def flip: e(2))
  with t'(1,2) show ?thesis
    by blast
qed

end
