(* ===== verification/TableFaults.thy ===== *)
theory TableFaults
  imports LocalHistory
begin

text \<open>
  Tables under faults: contexts that are cancelled, calls that fail and writes that are cut short, in
  any order. The contract \<open>crash_store\<close> adds to \<open>store_spec\<close> what a store keeps when its operations
  fail; \<open>calm\<close> is the state with no further faults to come, in which the disk is read afterwards. The
  invariant is weaker than that of \<open>TableHistory\<close>: a failed commit leaves a gap in the versions, or a
  manifest that is cut short, and a failed insert leaves files no manifest names. The operations are
  those of \<open>Table\<close>; the properties are about \<^verbatim>\<open>src/table/table.go\<close> and
  \<^verbatim>\<open>manifest_store.go\<close> on \<^verbatim>\<open>src/storage/local_fs.go\<close>.
\<close>

section \<open>Attempts\<close>

text \<open>
  What one handle may try, successful or not: the inserts and the schema changes of \<open>table_step\<close>. It
  is not reopened on the way, which a manifest that is cut short prevents (theory \<open>TornCommits\<close>).
\<close>

inductive table_try ::
  "(RecordBatch \<Rightarrow> RecordBatch \<Rightarrow> bool) \<Rightarrow> codecs \<Rightarrow> 'w Table \<times> 'w \<Rightarrow> 'w Table \<times> 'w \<Rightarrow> bool"
  for same C where
  try_insert: "BatchInsert same C now t bs w = (r, t', w') \<Longrightarrow> in_range t now \<Longrightarrow>
    \<forall>b \<in> set bs. gm_ok (rb_Columns b) \<Longrightarrow> \<forall>f. r = Inr f \<longrightarrow> Fragment_ok f \<Longrightarrow>
    table_try same C (t, w) (t', w')"
| try_add: "AddColumn now t field w = (ra, t', w') \<Longrightarrow> in_range t now \<Longrightarrow> Field_ok field \<Longrightarrow>
    table_try same C (t, w) (t', w')"
| try_drop: "DropColumn now t n w = (rd, t', w') \<Longrightarrow> in_range t now \<Longrightarrow>
    table_try same C (t, w) (t', w')"

section \<open>Stores that fail\<close>

locale crash_store = store_spec st key content good ok managed dir_path
  for st :: "'w Store" and key :: "string \<Rightarrow> 'k" and content good ok managed dir_path +
  fixes calm :: "'w \<Rightarrow> 'w"
  assumes calm_content [simp]: "content (calm w) = content w"
    and calm_good: "ok (calm w) \<Longrightarrow> good w"
    and write_calm: "ok (calm w) \<Longrightarrow> managed p \<Longrightarrow> Store_Write st p d w = (r, w') \<Longrightarrow>
      ok (calm w') \<and> (r = Inr () \<longrightarrow> Store_Write st p d (calm w) = (Inr (), calm w'))"
    and size_calm: "ok (calm w) \<Longrightarrow> Store_Size st p w = (rs, w') \<Longrightarrow>
      ok (calm w') \<and> (\<forall>n. rs = Inr n \<longrightarrow> Store_Size st p (calm w) = (Inr n, calm w'))"
    and write_partial: "ok (calm w) \<Longrightarrow> managed p \<Longrightarrow> Store_Write st p d w = (r, w') \<Longrightarrow>
      content w' (key p) = content w (key p) \<or> (\<exists>n. content w' (key p) = Some (take n d))"

locale table_faults =
  table_client st key content good ok managed dir_path tp C comp +
  crash: crash_store st key content good ok managed dir_path calm
  for st :: "'w Store" and key :: "string \<Rightarrow> 'k" and content good ok managed dir_path tp C comp calm
begin

text \<open>Every operation changes its own files only, and a success is one of the store without faults.\<close>

lemma WriteColumn_faults:
  assumes "ok (calm w)" and "fw_store fw = st" and "fw_basePath fw = fragment_dir tp fid"
    and "WriteColumn C fw i d w = (r, fw', w')"
  shows "ok (calm w') \<and> (\<forall>k. k \<noteq> ckey fid i \<longrightarrow> content w' k = content w k) \<and>
    (r = Inr () \<longrightarrow> WriteColumn C fw i d (calm w) = (Inr (), fw', calm w'))"
proof (cases "FieldByID (fw_schema fw) i")
  case None
  then show ?thesis
    using assms by (auto simp: WriteColumn_def)
next
  case (Some f)
  let ?path = "column_path (fragment_dir tp fid) i"
  show ?thesis
  proof (cases "MiniBlock_Encode C (fw_encoder fw) d (fld_Type f)")
    case (Inl e)
    then show ?thesis
      using assms Some by (auto simp: WriteColumn_def)
  next
    case (Inr page)
    obtain r1 w1 where w1: "Store_Write st ?path page w = (r1, w1)"
      by fastforce
    note a = crash.write_calm [OF assms(1) frag.column_managed w1] write_frame [OF crash.calm_good [OF assms(1)] w1]
    obtain r2 w2 where w2: "Store_Size st ?path w1 = (r2, w2)"
      by fastforce
    have b: "ok (calm w2)" "\<forall>n. r2 = Inr n \<longrightarrow> Store_Size st ?path (calm w1) = (Inr n, calm w2)" "content w2 = content w1"
      using a crash.size_calm [OF _ w2] size_frame [OF _ w2] by blast+
    show ?thesis
    proof (cases r1)
      case (Inl e)
      then have "r = Inl e" "w' = w1"
        using assms(2-4) Some Inr w1 by (simp_all add: WriteColumn_def)
      then show ?thesis
        using a by simp
    next
      case written: (Inr u)
      then have kept: "\<forall>k. k \<noteq> ckey fid i \<longrightarrow> content w2 k = content w k"
        "Store_Write st ?path page (calm w) = (Inr (), calm w1)"
        using a b(3) by simp_all
      show ?thesis
      proof (cases r2)
        case (Inl e)
        then have "r = Inl e" "w' = w2"
          using assms(2-4) Some Inr w1 w2 written by (simp_all add: WriteColumn_def)
        then show ?thesis
          using kept(1) b(1) by simp
      next
        case sized: (Inr n)
        then have "w' = w2" "r = Inr () \<Longrightarrow> WriteColumn C fw i d (calm w) = (Inr (), fw', calm w2)"
          using assms(2-4) Some Inr w1 w2 written b(2) kept(2)
          by (cases "inferNumRows d f"; simp add: WriteColumn_def Let_def)+
        then show ?thesis
          using kept(1) b(1) by simp
      qed
    qed
  qed
qed

lemma WriteColumns_faults:
  assumes "ok (calm w)" and "fw_store fw = st" and "fw_basePath fw = fragment_dir tp fid"
    and "WriteColumns C fw cols w = (r, fw', w')"
  shows "ok (calm w') \<and> (\<forall>k. k \<notin> range (ckey fid) \<longrightarrow> content w' k = content w k) \<and>
    (r = Inr () \<longrightarrow> WriteColumns C fw cols (calm w) = (Inr (), fw', calm w'))"
  using assms
proof (induction cols arbitrary: fw w)
  case (Cons x cols)
  obtain i d where x: "x = (i, d)"
    by (cases x)
  obtain r1 fw1 w1 where c: "WriteColumn C fw i d w = (r1, fw1, w1)"
    by (metis prod_cases3)
  note one = WriteColumn_faults [OF Cons.prems(1-3) c]
  show ?case
  proof (cases r1)
    case (Inl e)
    then show ?thesis
      using one Cons.prems(4) by (auto simp: x c)
  next
    case (Inr u)
    then have calm1: "WriteColumn C fw i d (calm w) = (Inr (), fw1, calm w1)"
      using one by simp
    have "fw_store fw1 = st" "fw_basePath fw1 = fragment_dir tp fid"
      using frag.WriteColumn_any [OF Cons.prems(1-3) calm1] Cons.prems(2,3) by auto
    moreover have "WriteColumns C fw1 cols w1 = (r, fw', w')"
      using Cons.prems(4) by (simp add: x c Inr)
    ultimately show ?thesis
      using Cons.IH [of w1 fw1] one calm1 by (auto simp: x)
  qed
qed auto

lemma MS_Write_faults:
  assumes "ok (calm w)" and "MS_Write ms m w = (r, w')"
  shows "ok (calm w') \<and> (\<forall>k. k \<noteq> mkey (man_Version m) \<longrightarrow> content w' k = content w k) \<and>
    (r = Inr () \<longrightarrow> MS_Write ms m (calm w) = (Inr (), calm w'))"
proof -
  obtain data where d: "Manifest_Serialize m = Inr data"
    by (simp add: Manifest_Serialize_def)
  have w: "Store_Write st (manifestPath ms (man_Version m)) data w = (r, w')"
    using assms(2) by (simp add: MS_Write_def d) (simp add: NewManifestStore_def)
  show ?thesis
    using crash.write_calm [OF assms(1) managed_manifest w] write_frame [OF crash.calm_good [OF assms(1)] w]
    by (simp add: MS_Write_def d) (simp add: NewManifestStore_def)
qed

section \<open>What was committed stays\<close>

text \<open>A version on the disk with its fragments, below the counters of the table.\<close>

definition committed :: "'w Table \<Rightarrow> 'w \<Rightarrow> Manifest \<Rightarrow> bool" where
  "committed t w m \<longleftrightarrow>
     man_Version m < tb_nextVersion t \<and> stored w (man_Version m) = Some m \<and>
     list_all (\<lambda>f. fragment_present w f \<and> fr_ID f < tb_nextFragmentID t) (man_Fragments m)"

definition lasting :: "'w Table \<Rightarrow> 'w \<Rightarrow> 'w Table \<Rightarrow> 'w \<Rightarrow> bool" where
  "lasting t w t' w' \<longleftrightarrow>
     (\<forall>m. committed t w m \<longrightarrow> committed t' w' m \<and>
        (\<forall>f \<in> set (man_Fragments m). \<forall>j. content w' (ckey (fr_ID f) j) = content w (ckey (fr_ID f) j)))"

definition faulty_inv :: "'w Table \<Rightarrow> 'w \<Rightarrow> bool" where
  "faulty_inv t w \<longleftrightarrow>
     ok (calm w) \<and> attached t \<and> 1 < tb_nextVersion t \<and> fits64 (tb_nextVersion t) \<and>
     0 \<le> tb_nextFragmentID t \<and> vm_ok 10 (tb_versionMgr t) \<and>
     (\<forall>v m. VM_Get (tb_versionMgr t) v = Some m \<longrightarrow> v < tb_nextVersion t) \<and>
     (\<exists>latest. VM_Latest (tb_versionMgr t) = Some latest \<and> committed t w latest \<and> Manifest_ok latest \<and>
        man_Schema latest = tb_schema t)"

lemma fragment_present_calm [simp]: "fragment_present (calm w) = fragment_present w"
  using fragment_present_frame [of w _ "calm w"] fragment_present_frame [of "calm w" _ w] by auto

lemma stored_calm [simp]: "stored (calm w) = stored w"
  by (simp add: fun_eq_iff stored_def)

lemma lasting_refl [simp]: "lasting t w t w"
  by (simp add: lasting_def)

lemma lasting_trans: "lasting t w t1 w1 \<Longrightarrow> lasting t1 w1 t2 w2 \<Longrightarrow> lasting t w t2 w2"
  unfolding lasting_def by metis

text \<open>Changes beyond the counters.\<close>

lemma lasting_frame:
  assumes "tb_nextVersion t \<le> tb_nextVersion t'" and "tb_nextFragmentID t \<le> tb_nextFragmentID t'"
    and "\<And>v. v < tb_nextVersion t \<Longrightarrow> content w' (mkey v) = content w (mkey v)"
    and "\<And>i j. i < tb_nextFragmentID t \<Longrightarrow> content w' (ckey i j) = content w (ckey i j)"
  shows "lasting t w t' w'"
  unfolding lasting_def
proof (intro allI impI conjI ballI)
  fix m assume m: "committed t w m"
  then have "stored w' (man_Version m) = Some m"
    using stored_frame [OF assms(3)] by (simp add: committed_def)
  moreover have "fragment_present w' f \<and> fr_ID f < tb_nextFragmentID t'"
    if "f \<in> set (man_Fragments m)" for f
    using m that fragment_present_frame [of w f w'] assms(2,4) by (fastforce simp: committed_def list_all_iff)
  ultimately show "committed t' w' m"
    using m assms(1) by (simp add: committed_def list_all_iff)
  show "content w' (ckey (fr_ID f) j) = content w (ckey (fr_ID f) j)" if "f \<in> set (man_Fragments m)" for f j
    using m that assms(4) by (simp add: committed_def list_all_iff)
qed

lemma faulty_frame:
  assumes "faulty_inv t w" and "lasting t w t' w'" and "ok (calm w')" and "attached t'"
    and "tb_nextVersion t \<le> tb_nextVersion t'" and "fits64 (tb_nextVersion t')"
    and "tb_nextFragmentID t \<le> tb_nextFragmentID t'"
    and "tb_versionMgr t' = tb_versionMgr t" and "tb_schema t' = tb_schema t"
  shows "faulty_inv t' w'"
  using assms unfolding faulty_inv_def lasting_def by fastforce

lemma inv_faulty:
  assumes "table_inv t (calm w)"
  shows "faulty_inv t w" and "stored w v = Some m \<Longrightarrow> fits64 v \<Longrightarrow> committed t w m"
proof -
  have com: "committed t w m" if m: "stored w v = Some m" "fits64 v" for v m
  proof -
    have "v \<in> versions (calm w)"
      using m by (auto simp: versions_def stored_def split: option.splits)
    moreover obtain maxid where "history_ok (calm w) (tb_nextVersion t) maxid (tb_nextFragmentID t)"
      using assms by (auto simp: table_inv_def)
    ultimately have "v < tb_nextVersion t" "\<exists>m'. stored w v = Some m' \<and> man_Version m' = v \<and>
        manifest_present (calm w) maxid (tb_nextFragmentID t) m'"
      unfolding history_ok_def stored_calm by auto
    then show ?thesis
      using m(1) by (auto simp: committed_def manifest_present_def list_all_iff)
  qed
  then show "stored w v = Some m \<Longrightarrow> fits64 v \<Longrightarrow> committed t w m"
    by blast
  obtain latest where l: "VM_Latest (tb_versionMgr t) = Some latest" "man_Schema latest = tb_schema t"
    "stored (calm w) (tb_nextVersion t - 1) = Some latest" "man_MaxFragmentID latest < 2 ^ 31 - 1"
    using assms by (auto simp: table_inv_def)
  have "Manifest_ok latest"
    using table_inv_latest [OF assms] l(1) by (force simp: manifest_present_def)
  moreover have "fits64 (tb_nextVersion t - 1)"
    using assms by (auto simp: table_inv_def fits64_def)
  ultimately show "faulty_inv t w"
    using assms com l by (auto simp: table_inv_def faulty_inv_def)
qed

section \<open>The operations\<close>

text \<open>A fragment is written next to those of the committed versions.\<close>

lemma write_fragment_faults:
  assumes "faulty_inv t w" and "gm_ok (rb_Columns batch)"
    and "WriteBatch C (NewFragmentWriter (tb_store t) (tb_schema t) (tb_nextFragmentID t) (tb_tablePath t)
           (tb_compression t)) batch w = (r, fw', w1)"
  shows "0 \<le> k \<Longrightarrow> ok (calm w1) \<and> lasting t w (t\<lparr>tb_nextFragmentID := tb_nextFragmentID t + k\<rparr>) w1"
    and "r = Inr () \<Longrightarrow> fr_ID (Finish fw') = tb_nextFragmentID t \<and> fragment_present w1 (Finish fw')"
proof -
  let ?fw = "NewFragmentWriter st (tb_schema t) (tb_nextFragmentID t) tp comp"
  have t: "ok (calm w)" "tb_store t = st" "tb_tablePath t = tp" "tb_compression t = comp"
    using assms(1) by (simp_all add: faulty_inv_def attached_def)
  have fw: "fw_store ?fw = st" "fw_basePath ?fw = fragment_dir tp (tb_nextFragmentID t)"
    "fw_dataFiles ?fw = []" "fw_fragmentID ?fw = tb_nextFragmentID t"
    by (simp_all add: NewFragmentWriter_def)
  have run: "WriteColumns C ?fw (rb_Columns batch) w = (r, fw', w1)"
    using assms(3) t by (simp add: WriteBatch_def)
  note any = WriteColumns_faults [OF t(1) fw(1,2) run]
  have "content w1 (ckey i j) = content w (ckey i j)" if "i < tb_nextFragmentID t" for i j
  proof -
    have "ckey i j \<notin> range (ckey (tb_nextFragmentID t))"
      using that by (auto simp: frag.column_key)
    then show ?thesis
      using any by blast
  qed
  moreover have "content w1 (mkey v) = content w (mkey v)" for v
  proof -
    have "mkey v \<notin> range (ckey (tb_nextFragmentID t))"
      by (simp add: image_iff)
    then show ?thesis
      using any by blast
  qed
  ultimately show "0 \<le> k \<Longrightarrow> ok (calm w1) \<and> lasting t w (t\<lparr>tb_nextFragmentID := tb_nextFragmentID t + k\<rparr>) w1"
    using any by (intro conjI lasting_frame) simp_all
  assume "r = Inr ()"
  with any have "WriteColumns C ?fw (rb_Columns batch) (calm w) = (Inr (), fw', calm w1)"
    by blast
  note calm_run = frag.WriteColumns_any [OF t(1) fw(1,2) this]
  have "distinct (gm_keys (rb_Columns batch))"
    using assms(2) by (simp add: gm_ok_def)
  then have "fragment_present (calm w1) (Finish fw') \<and> fr_ID (Finish fw') = tb_nextFragmentID t"
    using calm_run fw(3,4)
    by (auto simp: Finish_def NewFragment_def fragment_present_calm [symmetric, of w1] fragment_present_def
        simp del: fragment_present_calm)
  then show "fr_ID (Finish fw') = tb_nextFragmentID t \<and> fragment_present w1 (Finish fw')"
    by simp
qed

text \<open>Committing the next manifest, or failing to.\<close>

lemma commit_faults:
  assumes "faulty_inv t w" and "tb_nextVersion t < 2 ^ 63 - 1"
    and "commit_manifest mk t w = (r, t', w')" and "man_Version (mk (tb_nextVersion t)) = tb_nextVersion t"
    and "r = Inr () \<Longrightarrow> Manifest_ok (mk (tb_nextVersion t))"
    and "list_all (\<lambda>f. fragment_present w f \<and> fr_ID f < tb_nextFragmentID t) (man_Fragments (mk (tb_nextVersion t)))"
  shows "faulty_inv t' w' \<and> lasting t w t' w' \<and> (\<forall>i j. content w' (ckey i j) = content w (ckey i j)) \<and>
    (r = Inr () \<longrightarrow> VM_Latest (tb_versionMgr t') = Some (mk (tb_nextVersion t)))"
proof -
  let ?v = "tb_nextVersion t" and ?m = "mk (tb_nextVersion t)"
  have t: "ok (calm w)" "attached t" "1 < ?v" "fits64 ?v" "vm_ok 10 (tb_versionMgr t)"
    "\<And>v m. VM_Get (tb_versionMgr t) v = Some m \<Longrightarrow> v < ?v" "0 \<le> tb_nextFragmentID t"
    using assms(1) by (auto simp: faulty_inv_def)
  have v1: "wrap64 (?v + 1) = ?v + 1" "fits64 (?v + 1)"
    using t(3) assms(2) by (simp_all add: fits64_def)
  obtain r1 where w': "MS_Write ms ?m w = (r1, w')" "r = r1"
    and t': "t' = (if r1 = Inr () then t\<lparr>tb_nextVersion := ?v + 1, tb_schema := man_Schema ?m,
        tb_versionMgr := Publish ?m (tb_versionMgr t)\<rparr> else t\<lparr>tb_nextVersion := ?v + 1\<rparr>)"
    using assms(3) t(2) v1(1) by (auto simp: commit_manifest_def Let_def attached_def split: sum.splits prod.splits)
  note written = MS_Write_faults [OF t(1) w'(1)]
  have next': "tb_nextVersion t' = ?v + 1" "tb_nextFragmentID t' = tb_nextFragmentID t" "attached t'"
    using t(2) by (simp_all add: t' attached_def)
  have old: "content w' (ckey i j) = content w (ckey i j)" for i j
    using written by simp
  have kept: "lasting t w t' w'"
    using next' written assms(4) by (intro lasting_frame) auto
  show ?thesis
  proof (cases r1)
    case (Inl e)
    then have "tb_versionMgr t' = tb_versionMgr t" "tb_schema t' = tb_schema t"
      by (simp_all add: t')
    then have "faulty_inv t' w'"
      using next' written v1(2) by (intro faulty_frame [OF assms(1) kept]) auto
    with kept old Inl w'(2) show ?thesis by simp
  next
    case (Inr u)
    then have ok_m: "Manifest_ok ?m"
      using assms(5) w'(2) by simp
    obtain data where "Manifest_Serialize ?m = Inr data"
      by (simp add: Manifest_Serialize_def)
    obtain w'' data where w'': "MS_Write ms ?m (calm w) = (Inr (), w'')" "Manifest_Serialize ?m = Inr data"
      "content w'' = (content (calm w))(mkey (man_Version ?m) := Some data)"
      by (rule MS_Write_ok [OF t(1)])
    have "w'' = calm w'"
      using written Inr w''(1) by simp
    then have "stored w' ?v = Some ?m"
      using w''(3) assms(4) DeserializeManifest_Serialize [OF ok_m w''(2)] by (simp add: stored_def)
    then have com: "committed t' w' ?m"
      using assms(4,6) old fragment_present_frame [of w _ w'] next' by (simp add: committed_def list_all_iff)
    have "vm_ok 10 (Publish ?m (tb_versionMgr t))" "VM_Latest (Publish ?m (tb_versionMgr t)) = Some ?m"
      "\<And>v m'. VM_Get (Publish ?m (tb_versionMgr t)) v = Some m' \<Longrightarrow>
         v = ?v \<and> m' = ?m \<or> VM_Get (tb_versionMgr t) v = Some m'"
      using Publish_newer [OF t(5), of ?m] t(3,6) assms(4) by auto
    then have "vm_ok 10 (tb_versionMgr t')" "VM_Latest (tb_versionMgr t') = Some ?m" "man_Schema ?m = tb_schema t'"
      "\<forall>v m. VM_Get (tb_versionMgr t') v = Some m \<longrightarrow> v < tb_nextVersion t'"
      using Inr t(6) by (fastforce simp: t')+
    moreover from this have "faulty_inv t' w'"
      using t(3,7) next' written v1(2) com ok_m by (simp add: faulty_inv_def)
    ultimately show ?thesis
      using kept old by blast
  qed
qed

lemma faulty_latest:
  assumes "faulty_inv t w"
  obtains latest where "VM_Latest (tb_versionMgr t) = Some latest" "committed t w latest" "Manifest_ok latest"
    "Fields_ok (Fields (tb_schema t))" "0 \<le> tb_nextFragmentID t" "fits64 (tb_nextVersion t)"
proof -
  obtain latest where "VM_Latest (tb_versionMgr t) = Some latest" "committed t w latest" "Manifest_ok latest"
    "man_Schema latest = tb_schema t"
    using assms by (auto simp: faulty_inv_def)
  then show thesis
    using that [of latest] assms by (auto simp: faulty_inv_def Manifest_ok_def)
qed

lemma evolve_faults:
  assumes "faulty_inv t w" and "in_range t now" and "Fields_ok (Fields s)" and "evolve now s t w = (r, t', w')"
  shows "faulty_inv t' w' \<and> lasting t w t' w'"
proof -
  obtain latest where latest: "VM_Latest (tb_versionMgr t) = Some latest" "committed t w latest" "Manifest_ok latest"
    "fits64 (tb_nextVersion t)"
    by (rule faulty_latest [OF assms(1)])
  let ?mk = "\<lambda>version. (NewManifest version s)\<lparr>man_Fragments := man_Fragments latest,
    man_MaxFragmentID := man_MaxFragmentID latest, man_Timestamp := now\<rparr>"
  have "commit_manifest ?mk t w = (r, t', w')"
    using assms(4) latest(1) by (simp add: evolve_def)
  moreover have "Manifest_ok (?mk (tb_nextVersion t))"
    using latest(3,4) assms(2,3) by (simp add: Manifest_ok_def NewManifest_def map_ok_def in_range_def)
  ultimately show ?thesis
    using commit_faults [where mk = ?mk, OF assms(1)] latest(2) assms(2)
    by (simp add: committed_def NewManifest_def in_range_def)
qed

lemma AddColumn_faults:
  assumes "faulty_inv t w" and "in_range t now" and "Field_ok f" and "AddColumn now t f w = (r, t', w')"
  shows "faulty_inv t' w' \<and> lasting t w t' w'"
proof (cases "HasField (tb_schema t) (fld_Name f)")
  case True
  then show ?thesis
    using assms(1,4) by (simp add: AddColumn_def)
next
  case False
  have "Fields_ok (Fields (tb_schema t))"
    by (rule faulty_latest [OF assms(1)])
  then have "Fields_ok (Fields (tb_schema t) @ [set_fld_ID (wrap32 (max_field_ID (tb_schema t) + 1)) f])"
    using set_fld_ID_ok [OF assms(3) fits32_wrap32] by (simp add: Fields_ok_iff)
  then show ?thesis
    using assms(4) False by (intro evolve_faults [OF assms(1,2)]) (simp_all add: AddColumn_def)
qed

lemma DropColumn_faults:
  assumes "faulty_inv t w" and "in_range t now" and "DropColumn now t n w = (r, t', w')"
  shows "faulty_inv t' w' \<and> lasting t w t' w'"
proof (cases "FieldByName (tb_schema t) n = None")
  case True
  then show ?thesis
    using assms(1,3) by (simp add: DropColumn_def)
next
  case False
  have "Fields_ok (Fields (tb_schema t))"
    by (rule faulty_latest [OF assms(1)])
  then have "Fields_ok (filter (\<lambda>f. fld_Name f \<noteq> n) (Fields (tb_schema t)))"
    by (auto simp: Fields_ok_iff list_all_iff)
  then show ?thesis
    using assms(3) False by (intro evolve_faults [OF assms(1,2)]) (simp_all add: DropColumn_def)
qed

text \<open>An insert whose fragment has been written.\<close>

lemma BatchInsert_commits:
  assumes "faulty_inv t w" and "in_range t now" and "bs \<noteq> []" and "insert_batch same bs = Inr batch"
    and "gm_ok (rb_Columns batch)"
    and "WriteBatch C (NewFragmentWriter (tb_store t) (tb_schema t) (tb_nextFragmentID t) (tb_tablePath t)
           (tb_compression t)) batch w = (Inr (), fw', w1)"
    and "BatchInsert same C now t bs w = (r, t', w')" and "\<And>f. r = Inr f \<Longrightarrow> Fragment_ok f"
  shows "faulty_inv t' w' \<and> lasting t w t' w' \<and> (\<forall>i j. content w' (ckey i j) = content w1 (ckey i j)) \<and>
    (\<forall>f. r = Inr f \<longrightarrow> (\<exists>m. VM_Latest (tb_versionMgr t') = Some m \<and> man_Version m = tb_nextVersion t \<and>
       f \<in> set (man_Fragments m)))"
proof -
  let ?fid = "tb_nextFragmentID t"
  let ?t1 = "t\<lparr>tb_nextFragmentID := ?fid + 1\<rparr>" and ?f = "Finish fw'"
  obtain latest where latest: "VM_Latest (tb_versionMgr t) = Some latest" "committed t w latest"
    "Fields_ok (Fields (tb_schema t))" "0 \<le> ?fid" "fits64 (tb_nextVersion t)" "Manifest_ok latest"
    by (rule faulty_latest [OF assms(1)])
  let ?mk = "\<lambda>version. (NewManifest version (tb_schema t))\<lparr>man_Fragments := man_Fragments latest @ [?f],
    man_MaxFragmentID := ?fid, man_Timestamp := now\<rparr>"
  have one: "ok (calm w1)" "lasting t w ?t1 w1"
    using write_fragment_faults(1) [OF assms(1,5,6), of 1] by simp_all
  have written: "fr_ID ?f = ?fid" "fragment_present w1 ?f"
    using write_fragment_faults(2) [OF assms(1,5,6)] by simp_all
  have inv1: "faulty_inv ?t1 w1"
    using assms(1) by (intro faulty_frame [OF assms(1) one(2,1)]) (simp_all add: faulty_inv_def attached_def)
  have range: "wrap32 (?fid + 1) = ?fid + 1" "fits32 ?fid" "fits64 now" "tb_nextVersion ?t1 < 2 ^ 63 - 1"
    using latest(4) assms(2) by (simp_all add: in_range_def fits32_def)
  obtain r2 where run: "commit_manifest ?mk ?t1 w1 = (r2, t', w')"
    and r: "r = (case r2 of Inl e \<Rightarrow> Inl e | Inr _ \<Rightarrow> Inr ?f)"
    using assms(3,4,6,7) latest(1) range(1)
    by (auto simp: BatchInsert_def Let_def split: prod.splits sum.splits)
  have com: "committed ?t1 w1 latest"
    using one(2) latest(2) by (simp add: lasting_def)
  have "Manifest_ok (?mk (tb_nextVersion ?t1))" if "r2 = Inr ()"
    using assms(8) that r latest(3,5,6) range(2,3) by (simp add: Manifest_ok_def NewManifest_def map_ok_def)
  then have commit: "faulty_inv t' w' \<and> lasting ?t1 w1 t' w' \<and> (\<forall>i j. content w' (ckey i j) = content w1 (ckey i j)) \<and>
      (r2 = Inr () \<longrightarrow> VM_Latest (tb_versionMgr t') = Some (?mk (tb_nextVersion t)))"
    using commit_faults [where mk = ?mk, OF inv1 range(4) run] com written
    by (simp add: committed_def NewManifest_def)
  moreover have "man_Version (?mk v) = v" "f \<in> set (man_Fragments (?mk v))" if "r = Inr f" for f v
    using that r by (auto simp: NewManifest_def split: sum.splits)
  moreover have "r2 = Inr ()" if "r = Inr f" for f
    using that r by (auto split: sum.splits)
  ultimately show ?thesis
    using lasting_trans [OF one(2)] by metis
qed

lemma BatchInsert_faults:
  assumes "faulty_inv t w" and "in_range t now" and "\<forall>b \<in> set bs. gm_ok (rb_Columns b)"
    and "BatchInsert same C now t bs w = (r, t', w')" and "\<And>f. r = Inr f \<Longrightarrow> Fragment_ok f"
  shows "faulty_inv t' w' \<and> lasting t w t' w'"
proof (cases "bs = [] \<or> (\<exists>e. insert_batch same bs = Inl e)")
  case True
  then have "t' = t" "w' = w"
    using assms(4) by (auto simp: BatchInsert_def split: if_splits)
  with assms(1) show ?thesis
    by simp
next
  case False
  then obtain batch where batch: "bs \<noteq> []" "insert_batch same bs = Inr batch"
    by (cases "insert_batch same bs") auto
  note gm = insert_batch_gm_ok [OF batch(2,1) assms(3)]
  obtain r1 fw' w1 where w1: "WriteBatch C (NewFragmentWriter (tb_store t) (tb_schema t) (tb_nextFragmentID t)
      (tb_tablePath t) (tb_compression t)) batch w = (r1, fw', w1)"
    by (metis prod_cases3)
  show ?thesis
  proof (cases r1)
    case (Inl e)
    then have "t' = t" "w' = w1"
      using assms(4) batch w1 by (simp_all add: BatchInsert_def Let_def)
    moreover have "ok (calm w1)" "lasting t w t w1"
      using write_fragment_faults(1) [OF assms(1) gm w1, of 0] by simp_all
    moreover have "faulty_inv t w1"
      using assms(1) by (intro faulty_frame [OF assms(1) calculation(4,3)]) (simp_all add: faulty_inv_def)
    ultimately show ?thesis
      by blast
  next
    case (Inr u)
    then show ?thesis
      using BatchInsert_commits [OF assms(1,2) batch gm _ assms(4,5)] w1 by auto
  qed
qed

lemma table_try_faults:
  assumes "table_try same C x y" and "faulty_inv (fst x) (snd x)"
  shows "faulty_inv (fst y) (snd y) \<and> lasting (fst x) (snd x) (fst y) (snd y)"
  using assms
proof (induction rule: table_try.induct)
  case (try_insert now t bs w r t' w')
  then show ?case
    using BatchInsert_faults [of t w now bs same r t' w'] by simp
next
  case (try_add now t field w ra t' w')
  then show ?case
    using AddColumn_faults [of t w now field ra t' w'] by simp
next
  case (try_drop now t n w rd t' w')
  then show ?case
    using DropColumn_faults [of t w now n rd t' w'] by simp
qed

lemma table_tries_faults:
  assumes "(table_try same C)\<^sup>*\<^sup>* x y" and "faulty_inv (fst x) (snd x)"
  shows "faulty_inv (fst y) (snd y) \<and> lasting (fst x) (snd x) (fst y) (snd y)"
  using assms
proof (induction rule: rtranclp_induct)
  case (step y z)
  then show ?case
    using table_try_faults [OF step.hyps(2)] lasting_trans by blast
qed simp

text \<open>An insert that reports success, whatever faults there were.\<close>

lemma insert_survives:
  assumes "faulty_inv t w" and "in_range t now" and "bs \<noteq> []" and "insert_batch same bs = Inr b"
    and "batch_fits (tb_schema t) (rb_Columns b)" and "paths_ok tp"
    and "BatchInsert same C now t bs w = (Inr f, t', w')"
  shows "faulty_inv t' w' \<and> frag.fragment_holds w' (tb_schema t) (rb_Columns b) f \<and>
    (\<exists>m. committed t' w' m \<and> man_Version m = tb_nextVersion t \<and> f \<in> set (man_Fragments m))"
proof -
  let ?fw = "NewFragmentWriter st (tb_schema t) (tb_nextFragmentID t) tp comp"
  have t: "ok (calm w)" "tb_store t = st" "tb_tablePath t = tp" "tb_compression t = comp"
    using assms(1) by (simp_all add: faulty_inv_def attached_def)
  have gm: "gm_ok (rb_Columns b)"
    using assms(5) by (simp add: batch_fits_def)
  obtain r1 fw' w1 where w1: "WriteBatch C ?fw b w = (r1, fw', w1)"
    by (metis prod_cases3)
  have r1: "r1 = Inr ()"
    using assms(3,4,7) w1 t by (cases r1) (simp_all add: BatchInsert_def Let_def)
  then have wb: "WriteBatch C (NewFragmentWriter (tb_store t) (tb_schema t) (tb_nextFragmentID t) (tb_tablePath t)
      (tb_compression t)) b w = (Inr (), fw', w1)"
    using w1 t by simp
  have f: "f = Finish fw'"
    by (rule BatchInsert_fragment [OF assms(3,4) wb assms(7)])
  have fw: "fw_store ?fw = st" "fw_basePath ?fw = fragment_dir tp (tb_nextFragmentID t)"
    by (simp_all add: NewFragmentWriter_def)
  have "WriteColumns C ?fw (rb_Columns b) w = (Inr (), fw', w1)"
    using w1 r1 by (simp add: WriteBatch_def)
  then have calm_run: "WriteBatch C ?fw b (calm w) = (Inr (), fw', calm w1)"
    using WriteColumns_faults [OF t(1) fw] by (simp add: WriteBatch_def)
  obtain w2 fw2 where w2: "WriteBatch C ?fw b (calm w) = (Inr (), fw2, w2)"
    "frag.fragment_holds w2 (tb_schema t) (rb_Columns b) (Finish fw2)" "fr_ID (Finish fw2) = tb_nextFragmentID t"
    "fr_NumRows (Finish fw2) = frag.batch_rows (tb_schema t) (rb_Columns b) 0"
    "list_all2 (\<lambda>(i, d) df. frag.stored_column w2 (tb_nextFragmentID t) (the (FieldByID (tb_schema t) i)) i d df)
       (rb_Columns b) (fr_DataFiles (Finish fw2))"
    "fr_DeletionFile (Finish fw2) = None" "fr_PhysicalRows (Finish fw2) = fr_NumRows (Finish fw2)"
    by (rule frag.WriteBatch_holds [OF t(1) assms(5)])
  have same: "fw2 = fw'" "w2 = calm w1"
    using w2(1) calm_run by simp_all
  have sch: "Fields_ok (Fields (tb_schema t))" and "0 \<le> tb_nextFragmentID t"
    by (rule faulty_latest [OF assms(1)], assumption)+
  then have fid: "fits32 (tb_nextFragmentID t)"
    using assms(2) by (simp add: in_range_def fits32_def)
  have "Fragment_ok f"
    unfolding f same(1) [symmetric]
    by (rule written_fragment_ok [OF assms(5) sch assms(6) fid w2(3,4,6,7,5)])
  then have "Inr f = Inr f' \<Longrightarrow> Fragment_ok f'" for f'
    by simp
  note commit = BatchInsert_commits [OF assms(1-4) gm wb assms(7) this]
  have ins: "faulty_inv t' w'" "\<forall>i j. content w' (ckey i j) = content w1 (ckey i j)"
    using commit by blast+
  have latest: "\<exists>m. VM_Latest (tb_versionMgr t') = Some m \<and> man_Version m = tb_nextVersion t \<and> f \<in> set (man_Fragments m)"
    using commit by blast
  have "frag.fragment_holds w' (tb_schema t) (rb_Columns b) (Finish fw2)"
    using ins(2) by (intro frag.fragment_holds_frame [OF w2(2)]) (simp add: same)
  then have "frag.fragment_holds w' (tb_schema t) (rb_Columns b) f"
    by (simp add: f same)
  moreover have "committed t' w' m" if "VM_Latest (tb_versionMgr t') = Some m" for m
    using that ins(1) by (auto simp: faulty_inv_def)
  ultimately show ?thesis
    using ins(1) latest by blast
qed

text \<open>Without further faults an insert succeeds, whatever happened before.\<close>

lemma BatchInsert_recovers:
  assumes "faulty_inv t w" and "ok w" and "bs \<noteq> []" and "insert_batch same bs = Inr b"
    and "batch_fits (tb_schema t) (rb_Columns b)"
  shows "\<exists>f t' w'. BatchInsert same C now t bs w = (Inr f, t', w')"
proof -
  obtain latest where latest: "VM_Latest (tb_versionMgr t) = Some latest"
    by (rule faulty_latest [OF assms(1)])
  have t: "attached t" "tb_store t = st" "tb_tablePath t = tp" "tb_compression t = comp"
    using assms(1) by (simp_all add: faulty_inv_def attached_def)
  obtain w1 fw' where w1: "WriteBatch C (NewFragmentWriter st (tb_schema t) (tb_nextFragmentID t) tp comp) b w
      = (Inr (), fw', w1)" "ok w1"
    by (rule frag.WriteBatch_holds [OF assms(2,5)])
  let ?t1 = "t\<lparr>tb_nextFragmentID := wrap32 (tb_nextFragmentID t + 1)\<rparr>"
  let ?mk = "\<lambda>version. (NewManifest version (tb_schema t))\<lparr>man_Fragments := man_Fragments latest @ [Finish fw'],
    man_MaxFragmentID := tb_nextFragmentID t, man_Timestamp := now\<rparr>"
  have "fst (commit_manifest ?mk ?t1 w1) = Inr ()"
    using t(1) w1(2) by (intro commit_manifest_succeeds) (simp_all add: attached_def)
  then obtain t2 w2 where "commit_manifest ?mk ?t1 w1 = (Inr (), t2, w2)"
    by (metis prod.collapse)
  then have "BatchInsert same C now t bs w = (Inr (Finish fw'), t2, w2)"
    using assms(3,4) w1(1) t(2-4) latest by (simp add: BatchInsert_def Let_def)
  then show ?thesis
    by blast
qed

text \<open>What is read once the faults are over.\<close>

lemma committed_reads:
  assumes "faulty_inv t w" and "faulty_inv t' w'" and "lasting t w t' w'" and "committed t w m"
  shows "fst (MS_Read ms (man_Version m) (calm w')) = Inr m \<and>
    (\<forall>f \<in> set (man_Fragments m). \<forall>r i. frd_store r = st \<longrightarrow>
       fst (ReadColumn D r f i (calm w')) = fst (ReadColumn D r f i (calm w)))"
proof -
  have ok: "ok (calm w)" "ok (calm w')"
    using assms(1,2) by (simp_all add: faulty_inv_def)
  have m: "committed t' w' m" "\<forall>f \<in> set (man_Fragments m). \<forall>j. content w' (ckey (fr_ID f) j) = content w (ckey (fr_ID f) j)"
    using assms(3,4) by (auto simp: lasting_def)
  then obtain data where "content (calm w') (mkey (man_Version m)) = Some data" "DeserializeManifest data = Inr m"
    by (auto simp: committed_def stored_def split: option.splits sum.splits)
  then have "fst (MS_Read ms (man_Version m) (calm w')) = Inr m"
    using MS_Read_content [OF ok(2)] by simp
  moreover have "fst (ReadColumn D r f i (calm w')) = fst (ReadColumn D r f i (calm w))"
    if "f \<in> set (man_Fragments m)" "frd_store r = st" for f r i
    using that m(2) assms(4) by (intro ReadColumn_present [OF ok]) (auto simp: committed_def list_all_iff)
  ultimately show ?thesis
    by blast
qed

end

section \<open>The local file system\<close>

lemma next_io_calm: "next_io w = (ev, w1) \<Longrightarrow> w1\<lparr>plan := []\<rparr> = w\<lparr>plan := []\<rparr>"
  by (auto simp: next_io_def split: list.splits)

lemma calm_nodes [simp]:
  "node_at (w\<lparr>plan := p\<rparr>) = node_at w" "is_file (w\<lparr>plan := p\<rparr>) = is_file w"
  "file_content (w\<lparr>plan := p\<rparr>) = file_content w" "fs_good c (w\<lparr>plan := p\<rparr>) = fs_good c w"
  by (simp_all add: fun_eq_iff node_at_def is_file_def file_content_def fs_good_def fs_ok_def)

lemma calm_calls [simp]:
  "os_MkdirAll q (w\<lparr>plan := p\<rparr>) = map_sum id (\<lambda>w1. w1\<lparr>plan := p\<rparr>) (os_MkdirAll q w)"
  "os_WriteFile full d (w\<lparr>plan := p\<rparr>) = map_sum id (\<lambda>w1. w1\<lparr>plan := p\<rparr>) (os_WriteFile full d w)"
  "os_Stat full (w\<lparr>plan := p\<rparr>) = os_Stat full w"
  by (simp_all add: os_MkdirAll_def os_WriteFile_def os_Stat_def Let_def)

text \<open>A write that reaches the disk, with all or part of its data, is one that a calm disk would do.\<close>

lemma calm_write:
  assumes "fs_ready c tk (w\<lparr>plan := []\<rparr>)" and "managed_path c root tk p"
  obtains w1 w2 where "os_MkdirAll (butlast (under_root c root p)) w = Inr w1"
    "os_WriteFile (LocalFS_resolve root p) d w1 = Inr w2" "fs_ready c tk (w2\<lparr>plan := []\<rparr>)"
    "LocalFS_Write root p d (w\<lparr>plan := []\<rparr>) = (Inr (), w2\<lparr>plan := []\<rparr>)"
proof -
  have c: "cwd w = c"
    using assms(1) by (simp add: fs_ready_def fs_good_def)
  obtain u where u: "LocalFS_Write root p d (w\<lparr>plan := []\<rparr>) = (Inr (), u)" "fs_ready c tk u"
    using LocalFS_Write_ready [OF assms] by blast
  have "next_io (w\<lparr>plan := []\<rparr>) = (IoOk, w\<lparr>plan := []\<rparr>)"
    by (simp add: next_io_def)
  note run = u(1) [unfolded LocalFS_Write_def this Let_def prod.case, simplified, unfolded resolve_full c]
  obtain w1 where w1: "os_MkdirAll (butlast (under_root c root p)) w = Inr w1"
    using run by (cases "os_MkdirAll (butlast (under_root c root p)) w") simp_all
  moreover obtain w2 where "os_WriteFile (LocalFS_resolve root p) d w1 = Inr w2" "u = w2\<lparr>plan := []\<rparr>"
    using run w1 by (cases "os_WriteFile (LocalFS_resolve root p) d w1") simp_all
  ultimately show thesis
    using u that by blast
qed

lemma LocalFS_Write_calm:
  assumes "fs_ready c tk (w\<lparr>plan := []\<rparr>)" and "managed_path c root tk p" and "LocalFS_Write root p d w = (r, w')"
  shows "fs_ready c tk (w'\<lparr>plan := []\<rparr>) \<and>
    (r = Inr () \<longrightarrow> LocalFS_Write root p d (w\<lparr>plan := []\<rparr>) = (Inr (), w'\<lparr>plan := []\<rparr>))"
proof -
  obtain ev w0 where ev: "next_io w = (ev, w0)"
    by fastforce
  have w0: "w0\<lparr>plan := []\<rparr> = w\<lparr>plan := []\<rparr>"
    by (rule next_io_calm [OF ev])
  then have ready: "fs_ready c tk (w0\<lparr>plan := []\<rparr>)"
    using assms(1) by simp
  then have c: "cwd w0 = c"
    by (simp add: fs_ready_def fs_good_def)
  show ?thesis
  proof (cases ev)
    case IoOk
    obtain w1 w2 where "os_MkdirAll (butlast (under_root c root p)) w0 = Inr w1"
      "os_WriteFile (LocalFS_resolve root p) d w1 = Inr w2" "fs_ready c tk (w2\<lparr>plan := []\<rparr>)"
      "LocalFS_Write root p d (w0\<lparr>plan := []\<rparr>) = (Inr (), w2\<lparr>plan := []\<rparr>)"
      by (rule calm_write [OF ready assms(2)])
    moreover have "r = Inr ()" "w' = w2"
      using assms(3) ev IoOk c calculation(1,2) by (simp_all add: LocalFS_Write_def resolve_full)
    ultimately show ?thesis
      using w0 by simp
  next
    case (IoTorn n)
    obtain w1 w2 where "os_MkdirAll (butlast (under_root c root p)) w0 = Inr w1"
      "os_WriteFile (LocalFS_resolve root p) (take n d) w1 = Inr w2" "fs_ready c tk (w2\<lparr>plan := []\<rparr>)"
      by (rule calm_write [OF ready assms(2)])
    moreover have "r \<noteq> Inr ()" "w' = w2"
      using assms(3) ev IoTorn c calculation(1,2) by (auto simp: LocalFS_Write_def resolve_full)
    ultimately show ?thesis
      by simp
  qed (use assms(3) ev ready in \<open>auto simp: LocalFS_Write_def\<close>)
qed

lemma LocalFS_Size_calm:
  assumes "fs_ready c tk (w\<lparr>plan := []\<rparr>)" and "LocalFS_Size root p w = (r, w')"
  shows "fs_ready c tk (w'\<lparr>plan := []\<rparr>) \<and>
    (\<forall>n. r = Inr n \<longrightarrow> LocalFS_Size root p (w\<lparr>plan := []\<rparr>) = (Inr n, w'\<lparr>plan := []\<rparr>))"
proof -
  obtain ev w0 where ev: "next_io w = (ev, w0)"
    by fastforce
  have w0: "w0\<lparr>plan := []\<rparr> = w\<lparr>plan := []\<rparr>"
    by (rule next_io_calm [OF ev])
  have same: "os_Stat full w0 = os_Stat full w" "dir_size w0 = dir_size w" for full
    using arg_cong [OF w0, of "os_Stat full"] next_io_keeps [OF ev] by simp_all
  have "next_io (w\<lparr>plan := []\<rparr>) = (IoOk, w\<lparr>plan := []\<rparr>)"
    by (simp add: next_io_def)
  then have "w' = w0 \<and> (\<forall>n. r = Inr n \<longrightarrow> LocalFS_Size root p (w\<lparr>plan := []\<rparr>) = (Inr n, w\<lparr>plan := []\<rparr>))"
    using assms(2) ev same
    by (auto simp: LocalFS_Size_def Let_def split: if_splits sum.splits node.splits)
  then show ?thesis
    using assms(1) w0 by simp
qed

interpretation lfs_crash: crash_store "LocalFS root" "under_root c root" file_content "fs_good c"
  "fs_ready c tk" "managed_path c root tk" "versions_path c root tk" "\<lambda>w. w\<lparr>plan := []\<rparr>" for c root tk
proof unfold_locales
  fix w w' p d r
  show "file_content (w\<lparr>plan := []\<rparr>) = file_content w"
    by simp
  show "fs_good c w" if "fs_ready c tk (w\<lparr>plan := []\<rparr>)"
    using that by (simp add: fs_ready_def)
  show "fs_ready c tk (w'\<lparr>plan := []\<rparr>) \<and>
      (r = Inr () \<longrightarrow> Store_Write (LocalFS root) p d (w\<lparr>plan := []\<rparr>) = (Inr (), w'\<lparr>plan := []\<rparr>))"
    if "fs_ready c tk (w\<lparr>plan := []\<rparr>)" "managed_path c root tk p" "Store_Write (LocalFS root) p d w = (r, w')"
    using LocalFS_Write_calm that by simp
  show "fs_ready c tk (w'\<lparr>plan := []\<rparr>) \<and>
      (\<forall>n. rs = Inr n \<longrightarrow> Store_Size (LocalFS root) p (w\<lparr>plan := []\<rparr>) = (Inr n, w'\<lparr>plan := []\<rparr>))"
    if "fs_ready c tk (w\<lparr>plan := []\<rparr>)" "Store_Size (LocalFS root) p w = (rs, w')" for rs
    using LocalFS_Size_calm that by simp
  show "file_content w' (under_root c root p) = file_content w (under_root c root p) \<or>
      (\<exists>n. file_content w' (under_root c root p) = Some (take n d))"
    if "fs_ready c tk (w\<lparr>plan := []\<rparr>)" "Store_Write (LocalFS root) p d w = (r, w')"
  proof -
    have good: "fs_good c w" and run: "LocalFS_Write root p d w = (r, w')"
      using that by (simp_all add: fs_ready_def)
    show ?thesis
    proof (rule LocalFS_Write_cases [OF good run])
      assume "file_content w' = (file_content w)(under_root c root p := Some d)"
      then have "file_content w' (under_root c root p) = Some (take (length d) d)"
        by simp
      then show ?thesis
        by blast
    qed auto
  qed
qed

sublocale local_history \<subseteq> faults: table_faults "LocalFS root" "under_root c root" file_content "fs_good c"
  "fs_ready c (table_key c root tp)" "managed_path c root (table_key c root tp)"
  "versions_path c root (table_key c root tp)" tp C comp "\<lambda>w. w\<lparr>plan := []\<rparr>"
  by unfold_locales

context local_history
begin

lemma ready_calm: "fs_ready c tk w \<Longrightarrow> w\<lparr>plan := []\<rparr> = w"
  by (cases w) (simp add: fs_ready_def)

lemma reach_faulty:
  assumes "table_reach same C c root tp comp t w"
  shows "faults.faulty_inv t (w\<lparr>plan := p\<rparr>)"
proof (rule faults.inv_faulty(1))
  have inv: "table_inv t w"
    by (rule reach_inv [OF assms])
  then have "fs_ready c (table_key c root tp) w"
    by (simp add: table_inv_def)
  then have "w\<lparr>plan := []\<rparr> = w"
    by (rule ready_calm)
  with inv show "table_inv t ((w\<lparr>plan := p\<rparr>)\<lparr>plan := []\<rparr>)"
    by simp
qed

lemma tries_faulty:
  assumes "table_reach same C c root tp comp t w" and "(table_try same C)\<^sup>*\<^sup>* (t, w\<lparr>plan := p\<rparr>) (t1, w1)"
  shows "faults.faulty_inv t1 w1 \<and> faults.lasting t (w\<lparr>plan := p\<rparr>) t1 w1"
    and "fits64 v \<Longrightarrow> fst (CheckoutVersion t v w) = Inr m \<Longrightarrow> faults.committed t1 w1 m \<and> man_Version m = v"
proof -
  have inv: "table_inv t w"
    by (rule reach_inv [OF assms(1)])
  then have "fs_ready c (table_key c root tp) w"
    by (simp add: table_inv_def)
  then have "w\<lparr>plan := []\<rparr> = w"
    by (rule ready_calm)
  then have calm: "table_inv t ((w\<lparr>plan := p\<rparr>)\<lparr>plan := []\<rparr>)"
    using inv by simp
  have start: "faults.faulty_inv t (w\<lparr>plan := p\<rparr>)"
    by (rule faults.inv_faulty(1) [OF calm])
  then show run: "faults.faulty_inv t1 w1 \<and> faults.lasting t (w\<lparr>plan := p\<rparr>) t1 w1"
    using faults.table_tries_faults [OF assms(2)] by simp
  assume v: "fits64 v" "fst (CheckoutVersion t v w) = Inr m"
  have s: "stored w v = Some m"
    by (rule CheckoutVersion_stored [OF inv v(2)])
  then have "v \<in> versions w"
    using v(1) by (auto simp: versions_def stored_def split: option.splits)
  then have "man_Version m = v"
    using inv s by (force simp: table_inv_def history_ok_def)
  moreover have "stored (w\<lparr>plan := p\<rparr>) v = Some m"
    using s by (simp add: stored_def)
  then have "faults.committed t (w\<lparr>plan := p\<rparr>) m"
    using faults.inv_faulty(2) [OF calm] v(1) by blast
  ultimately show "faults.committed t1 w1 m \<and> man_Version m = v"
    using run by (simp add: faults.lasting_def)
qed

text \<open>A write that is cut short leaves a prefix of its data, and so does the commit of a manifest.\<close>

lemma LocalFS_Write_torn:
  assumes "fs_ready c tk (w\<lparr>plan := []\<rparr>)" and "managed_path c root tk p" and "plan w = IoTorn n # fs"
  obtains u where "LocalFS_Write root p d w = (Inl (StoErr ErrOS), u)" "plan u = fs"
    "file_content u (under_root c root p) = Some (take n d)"
proof -
  let ?w = "w\<lparr>plan := fs\<rparr>"
  have ev: "next_io w = (IoTorn n, ?w)"
    using assms(3) by (simp add: next_io_def)
  have calm: "fs_ready c tk (?w\<lparr>plan := []\<rparr>)"
    using assms(1) by simp
  obtain w1 w2 where w2: "os_MkdirAll (butlast (under_root c root p)) ?w = Inr w1"
    "os_WriteFile (LocalFS_resolve root p) (take n d) w1 = Inr w2"
    by (rule calm_write [OF calm assms(2)])
  have c: "cwd ?w = c" "fs_good c ?w"
    using assms(1) by (simp_all add: fs_ready_def fs_good_def fs_ok_def)
  have "LocalFS_Write root p d w = (Inl (StoErr ErrOS), w2)"
    using w2 c(1) ev by (simp add: LocalFS_Write_def resolve_full)
  moreover have "plan w2 = fs"
    using os_MkdirAll_keeps(2) [OF w2(1)] os_WriteFile_node_at(3) [OF w2(2)] by simp
  moreover have "file_content w2 (under_root c root p) = Some (take n d)"
    using write_done_world [OF c(2) w2] by simp
  ultimately show thesis
    using that by blast
qed

lemma torn_commit:
  assumes "faults.faulty_inv t w" and "tb_nextVersion t < 2 ^ 63 - 1" and "man_Version (mk (tb_nextVersion t)) = tb_nextVersion t"
    and "plan w = IoTorn n # fs" and "commit_manifest mk t w = (r, t', w')"
    and "Manifest_Serialize (mk (tb_nextVersion t)) = Inr data"
  shows "r = Inl (StoErr ErrOS) \<and> plan w' = fs \<and> t' = t\<lparr>tb_nextVersion := tb_nextVersion t + 1\<rparr> \<and>
    file_content w' (mkey (tb_nextVersion t)) = Some (take n data)"
proof -
  let ?v = "tb_nextVersion t"
  have t: "fs_ready c (table_key c root tp) (w\<lparr>plan := []\<rparr>)" "attached t" "1 < ?v"
    using assms(1) by (auto simp: faults.faulty_inv_def)
  obtain u where u: "LocalFS_Write root (manifestPath ms ?v) data w = (Inl (StoErr ErrOS), u)"
    "plan u = fs" "file_content u (mkey ?v) = Some (take n data)"
    by (rule LocalFS_Write_torn [OF t(1) managed_manifest assms(4)])
  have "MS_Write ms (mk ?v) w = (Inl (StoErr ErrOS), u)"
    using u(1) assms(3,6) by (simp add: MS_Write_def) (simp add: NewManifestStore_def)
  moreover have "wrap64 (?v + 1) = ?v + 1"
    using t(3) assms(2) by (simp add: fits64_def)
  ultimately show ?thesis
    using assms(5) u(2,3) t(2) by (auto simp: commit_manifest_def Let_def attached_def)
qed

lemma torn_evolve:
  assumes "faults.faulty_inv t w" and "in_range t now" and "plan w = IoTorn n # fs" and "evolve now s t w = (r, t', w')"
  shows "plan w' = fs \<and> t' = t\<lparr>tb_nextVersion := tb_nextVersion t + 1\<rparr>"
proof -
  obtain latest where latest: "VM_Latest (tb_versionMgr t) = Some latest"
    by (rule faults.faulty_latest [OF assms(1)])
  let ?mk = "\<lambda>version. (NewManifest version s)\<lparr>man_Fragments := man_Fragments latest,
    man_MaxFragmentID := man_MaxFragmentID latest, man_Timestamp := now\<rparr>"
  obtain data where "Manifest_Serialize (?mk (tb_nextVersion t)) = Inr data"
    by (simp add: Manifest_Serialize_def)
  moreover have "commit_manifest ?mk t w = (r, t', w')"
    using assms(4) latest by (simp add: evolve_def)
  ultimately show ?thesis
    using torn_commit [OF assms(1) _ _ assms(3), of ?mk r t' w' data] assms(2) by (simp add: in_range_def NewManifest_def)
qed

text \<open>What was committed before the faults or between them.\<close>

lemma nothing_lost:
  assumes "table_reach same C c root tp comp t w"
    and "(table_try same C)\<^sup>*\<^sup>* (t, w\<lparr>plan := p\<rparr>) (t1, w1)" and "(table_try same C)\<^sup>*\<^sup>* (t1, w1) (t2, w2)"
    and "VM_Latest (tb_versionMgr t1) = Some m \<or> fits64 v \<and> fst (CheckoutVersion t v w) = Inr m"
  shows "fst (MS_Read ms (man_Version m) (w2\<lparr>plan := []\<rparr>)) = Inr m \<and>
    (\<forall>f \<in> set (man_Fragments m). \<forall>r i. frd_store r = LocalFS root \<longrightarrow>
       fst (ReadColumn D r f i (w2\<lparr>plan := []\<rparr>)) = fst (ReadColumn D r f i (w1\<lparr>plan := []\<rparr>)))"
proof -
  have mid: "faults.faulty_inv t1 w1"
    using tries_faulty(1) [OF assms(1,2)] by blast
  have "faults.committed t1 w1 m"
    using assms(4) tries_faulty(2) [OF assms(1,2)] mid by (auto simp: faults.faulty_inv_def)
  moreover have "faults.faulty_inv t2 w2 \<and> faults.lasting t1 w1 t2 w2"
    using faults.table_tries_faults [OF assms(3)] mid by simp
  ultimately show ?thesis
    using faults.committed_reads [OF mid] by blast
qed

text \<open>A successful insert stays readable.\<close>

lemma insert_lasts:
  assumes "faults.faulty_inv t1 w1" and "in_range t1 now" and "bs \<noteq> []" and "insert_batch same bs = Inr b"
    and "batch_fits (tb_schema t1) (rb_Columns b)" and "paths_ok tp"
    and "BatchInsert same C now t1 bs w1 = (r, t2, w2)" and "(table_try same C)\<^sup>*\<^sup>* (t2, w2) (t3, w3)"
  shows "(plan w1 = [] \<longrightarrow> (\<exists>f. r = Inr f)) \<and>
    (\<forall>f. r = Inr f \<longrightarrow> (\<exists>m. fst (MS_Read ms (tb_nextVersion t1) (w3\<lparr>plan := []\<rparr>)) = Inr m \<and>
       f \<in> set (man_Fragments m) \<and>
       (\<forall>i d. Column b i = Some d \<longrightarrow>
          fst (ReadColumn C (NewFragmentReader (LocalFS root) (tb_schema t1) comp) f i (w3\<lparr>plan := []\<rparr>)) = Inr d)))"
proof (intro conjI impI allI)
  show "\<exists>f. r = Inr f" if "plan w1 = []"
  proof -
    have "fs_ready c (table_key c root tp) w1"
      using assms(1) that by (cases w1) (simp add: faults.faulty_inv_def)
    then show ?thesis
      using faults.BatchInsert_recovers [OF assms(1) _ assms(3-5), of now] assms(7) by auto
  qed
  fix f assume "r = Inr f"
  note run = assms(7) [unfolded this]
  have ins: "faults.faulty_inv t2 w2" "frag.fragment_holds w2 (tb_schema t1) (rb_Columns b) f"
    and com: "\<exists>m. faults.committed t2 w2 m \<and> man_Version m = tb_nextVersion t1 \<and> f \<in> set (man_Fragments m)"
    using faults.insert_survives [OF assms(1-6) run] by blast+
  obtain m where m: "faults.committed t2 w2 m" "man_Version m = tb_nextVersion t1" "f \<in> set (man_Fragments m)"
    using com by blast
  have tries: "faults.faulty_inv t3 w3" "faults.lasting t2 w2 t3 w3"
    using faults.table_tries_faults [OF assms(8)] ins(1) by simp_all
  have "fst (MS_Read ms (man_Version m) (w3\<lparr>plan := []\<rparr>)) = Inr m"
    using faults.committed_reads [OF ins(1) tries m(1)] by blast
  moreover have "frag.fragment_holds w3 (tb_schema t1) (rb_Columns b) f"
    using tries(2) m by (intro frag.fragment_holds_frame [OF ins(2)]) (auto simp: faults.lasting_def)
  then have "frag.fragment_holds (w3\<lparr>plan := []\<rparr>) (tb_schema t1) (rb_Columns b) f"
    by (rule frag.fragment_holds_frame) simp
  then have "fst (ReadColumn C (NewFragmentReader (LocalFS root) (tb_schema t1) comp) f i (w3\<lparr>plan := []\<rparr>)) = Inr d"
    if "Column b i = Some d" for i d
    using frag.ReadColumn_holds [of "w3\<lparr>plan := []\<rparr>" "tb_schema t1" "rb_Columns b" f i d] that tries(1)
    by (simp add: Column_def faults.faulty_inv_def)
  ultimately show "\<exists>m. fst (MS_Read ms (tb_nextVersion t1) (w3\<lparr>plan := []\<rparr>)) = Inr m \<and>
       f \<in> set (man_Fragments m) \<and>
       (\<forall>i d. Column b i = Some d \<longrightarrow>
          fst (ReadColumn C (NewFragmentReader (LocalFS root) (tb_schema t1) comp) f i (w3\<lparr>plan := []\<rparr>)) = Inr d)"
    using m(2,3) by metis
qed

end

section \<open>Properties\<close>

text \<open>
  C8: whatever faults strike the inserts and schema changes of a table (cancelled contexts, failing
  calls, writes cut short, in any order), nothing it has committed is lost: a version that could be
  checked out at the start, and every manifest the table publishes on the way, is read from the disk
  afterwards as it was, with every column of its fragments.
\<close>

theorem faults_lose_nothing:
  assumes "join_safe tp" and "codec_ok C cmp (effective_block_size (NewMiniBlockEncoder cmp))"
    and "table_reach same C c root tp cmp t w"
    and "(table_try same C)\<^sup>*\<^sup>* (t, w\<lparr>plan := p\<rparr>) (t1, w1)" and "(table_try same C)\<^sup>*\<^sup>* (t1, w1) (t2, w2)"
    and "VM_Latest (tb_versionMgr t1) = Some m \<or> fits64 v \<and> fst (CheckoutVersion t v w) = Inr m"
  shows "fst (MS_Read (local_ms root tp) (man_Version m) (w2\<lparr>plan := []\<rparr>)) = Inr m \<and>
    (\<forall>f \<in> set (man_Fragments m). \<forall>r i. frd_store r = LocalFS root \<longrightarrow>
       fst (ReadColumn D r f i (w2\<lparr>plan := []\<rparr>)) = fst (ReadColumn D r f i (w1\<lparr>plan := []\<rparr>)))"
  unfolding local_ms_def versions_dir_def
  by (rule local_history.nothing_lost [OF local_historyI [OF assms(1,2)] assms(3-6)])

lemma AddColumn_try:
  assumes "tb_schema t = NewSchema []" and "tb_nextVersion t = 2" and "tb_nextFragmentID t = 0"
    and "AddColumn 7 t (Field 0 ''x'' TypeInt64 False 0 [] None) w = (r, t', w')"
  shows "table_try same C (t, w) (t', w')"
  by (rule table_try.try_add [OF assms(4)])
    (simp_all add: in_range_def assms(1-3) fits64_def fits32_def DataType_ok_def DataType_of_code_def utf8_ok_ascii)

theorem faults_lose_nothing_witness:
  "\<exists>t w r t' w'. AddColumn 7 t (Field 0 ''x'' TypeInt64 False 0 [] None) (w\<lparr>plan := [IoTorn 5]\<rparr>) = (r, t', w') \<and>
     fst (MS_Read (local_ms ''/db'' ''t'') 1 (w'\<lparr>plan := []\<rparr>)) =
       Inr ((NewManifest 1 (NewSchema []))\<lparr>man_MaxFragmentID := 0, man_Timestamp := 0\<rparr>)"
proof -
  let ?f = "Field 0 ''x'' TypeInt64 False 0 [] None"
  let ?m = "(NewManifest 1 (NewSchema []))\<lparr>man_MaxFragmentID := 0, man_Timestamp := 0\<rparr>"
  obtain t w where t: "table_reach (\<lambda>_ _. True) no_codecs [] ''/db'' ''t'' CompressionNone t w"
    "tb_schema t = NewSchema []" "tb_nextVersion t = 2" "tb_nextFragmentID t = 0"
    "fst (CheckoutVersion t 1 w) = Inr ?m"
    using example_table [of "NewSchema []"] by (auto simp: NewSchema_def)
  obtain r t' w' where a: "AddColumn 7 t ?f (w\<lparr>plan := [IoTorn 5]\<rparr>) = (r, t', w')"
    by (metis prod_cases3)
  have run: "(table_try (\<lambda>_ _. True) no_codecs)\<^sup>*\<^sup>* (t, w\<lparr>plan := [IoTorn 5]\<rparr>) (t', w')"
    using AddColumn_try [OF t(2-4) a] by blast
  have "fits64 1"
    by (simp add: fits64_def)
  with faults_lose_nothing [OF join_safe_t no_codecs_ok t(1) run rtranclp.rtrancl_refl, of ?m 1] t(5)
  have "fst (MS_Read (local_ms ''/db'' ''t'') (man_Version ?m) (w'\<lparr>plan := []\<rparr>)) = Inr ?m"
    by blast
  then have "fst (MS_Read (local_ms ''/db'' ''t'') 1 (w'\<lparr>plan := []\<rparr>)) = Inr ?m"
    by (simp add: NewManifest_def)
  with a show ?thesis
    by blast
qed

text \<open>
  C7: inserts are durable under faults: one that reports success, whatever failed before it, is on the
  disk for good, its manifest lists its fragment and every column reads back as it was given after any
  further attempts and faults; and once no more faults come an insert of fitting batches succeeds.
\<close>

theorem durable_inserts:
  assumes "join_safe tp" and "codec_ok C cmp (effective_block_size (NewMiniBlockEncoder cmp))"
    and "table_reach same C c root tp cmp t w" and "(table_try same C)\<^sup>*\<^sup>* (t, w\<lparr>plan := p\<rparr>) (t1, w1)"
    and "in_range t1 now" and "bs \<noteq> []" and "insert_batch same bs = Inr b"
    and "batch_fits (tb_schema t1) (rb_Columns b)" and "paths_ok tp"
    and "BatchInsert same C now t1 bs w1 = (r, t2, w2)" and "(table_try same C)\<^sup>*\<^sup>* (t2, w2) (t3, w3)"
  shows "(plan w1 = [] \<longrightarrow> (\<exists>f. r = Inr f)) \<and>
    (\<forall>f. r = Inr f \<longrightarrow>
      (\<exists>m. fst (MS_Read (local_ms root tp) (tb_nextVersion t1) (w3\<lparr>plan := []\<rparr>)) = Inr m \<and>
       f \<in> set (man_Fragments m) \<and>
       (\<forall>i d. Column b i = Some d \<longrightarrow>
          fst (ReadColumn C (NewFragmentReader (LocalFS root) (tb_schema t1) cmp) f i (w3\<lparr>plan := []\<rparr>)) = Inr d)))"
proof -
  note hist = local_historyI [OF assms(1,2)]
  show ?thesis
    unfolding local_ms_def versions_dir_def
    by (rule local_history.insert_lasts [OF hist conjunct1 [OF local_history.tries_faulty(1) [OF hist assms(3,4)]] assms(5-11)])
qed

theorem durable_inserts_witness:
  "\<exists>t w r t1 w1 f t2 w2.
     AddColumn 7 t (Field 0 ''y'' TypeInt64 False 0 [] None) (w\<lparr>plan := [IoTorn 0]\<rparr>) = (r, t1, w1) \<and>
     BatchInsert (\<lambda>_ _. True) no_codecs 8 t1
       [SetColumn 0 (Int64s [5]) (NewRecordBatch (tb_schema t1) 1)] w1 = (Inr f, t2, w2) \<and>
     fst (ReadColumn no_codecs (NewFragmentReader (LocalFS ''/db'') (tb_schema t1) CompressionNone) f 0 (w2\<lparr>plan := []\<rparr>)) =
       Inr (Int64s [5])"
proof -
  let ?f = "Field 0 ''x'' TypeInt64 False 0 [] None" and ?g = "Field 0 ''y'' TypeInt64 False 0 [] None"
  have ok: "Fields_ok (Fields (NewSchema [?f]))"
    by (simp add: NewSchema_def fits32_def DataType_ok_def DataType_of_code_def utf8_ok_ascii)
  obtain t w where t: "table_reach (\<lambda>_ _. True) no_codecs [] ''/db'' ''t'' CompressionNone t w"
    "tb_schema t = NewSchema [?f]" "tb_nextVersion t = 2" "tb_nextFragmentID t = 0"
    "fst (CheckoutVersion t 1 w) = Inr ((NewManifest 1 (NewSchema [?f]))\<lparr>man_MaxFragmentID := 0, man_Timestamp := 0\<rparr>)"
    by (rule example_table [OF ok])
  obtain r t1 w1 where a: "AddColumn 7 t ?g (w\<lparr>plan := [IoTorn 0]\<rparr>) = (r, t1, w1)"
    by (metis prod_cases3)
  have range: "in_range t 7" "\<not> HasField (tb_schema t) (fld_Name ?g)" "Field_ok ?g"
    by (simp_all add: in_range_def t fits64_def NewSchema_def HasField_def FieldByName_def fits32_def DataType_ok_def
        DataType_of_code_def utf8_ok_ascii)
  have "plan w1 = [] \<and> t1 = t\<lparr>tb_nextVersion := tb_nextVersion t + 1\<rparr>"
  proof -
    note hist = local_historyI [OF join_safe_t no_codecs_ok]
    have "HasField (tb_schema t) (fld_Name ?g) = False"
      using range(2) by blast
    then have "\<exists>s. evolve 7 s t (w\<lparr>plan := [IoTorn 0]\<rparr>) = (r, t1, w1)"
      using a by (auto simp: AddColumn_def)
    then show ?thesis
      using local_history.torn_evolve [OF hist local_history.reach_faulty [OF hist t(1)] range(1)] by auto
  qed
  then have t1: "plan w1 = []" "tb_schema t1 = NewSchema [?f]" "in_range t1 8"
    using t(2-4) by (simp_all add: in_range_def fits64_def)
  have run: "(table_try (\<lambda>_ _. True) no_codecs)\<^sup>*\<^sup>* (t, w\<lparr>plan := [IoTorn 0]\<rparr>) (t1, w1)"
    using table_try.try_add [OF a range(1,3)] by blast
  let ?b = "SetColumn 0 (Int64s [5]) (NewRecordBatch (tb_schema t1) 1)"
  obtain r2 t2 w2 where ins: "BatchInsert (\<lambda>_ _. True) no_codecs 8 t1 [?b] w1 = (r2, t2, w2)"
    by (metis prod_cases3)
  note b = example_batch [OF t1(2) refl]
  have "paths_ok ''t''"
    by (rule paths_ok_ascii) simp
  from durable_inserts [OF join_safe_t no_codecs_ok t(1) run t1(3) _ b(1,3) this ins rtranclp.rtrancl_refl] t1(1) b(2)
  obtain f where "r2 = Inr f"
    "fst (ReadColumn no_codecs (NewFragmentReader (LocalFS ''/db'') (tb_schema t1) CompressionNone) f 0 (w2\<lparr>plan := []\<rparr>)) =
       Inr (Int64s [5])"
    by blast
  with a ins show ?thesis
    by blast
qed

end
