(* ===== verification/GoJsonIndent.thy ===== *)
theory GoJsonIndent
  imports GoJsonRoundtrip
begin

text \<open>
  \<open>json.MarshalIndent\<close> with an empty prefix and two spaces of indentation, as \<open>Config.Save\<close> calls
  it: a member or element per line, a space after each colon, nothing inside an empty object or
  array. The parser reads the indented text like the compact one.
\<close>

definition indent_nl :: "nat \<Rightarrow> string" where
  "indent_nl d = CHR 0x0A # replicate (2 * d) (CHR '' '')"

fun indent_json :: "nat \<Rightarrow> json \<Rightarrow> string" and indent_elems :: "nat \<Rightarrow> json list \<Rightarrow> string"
  and indent_members :: "nat \<Rightarrow> (string \<times> json) list \<Rightarrow> string" where
  "indent_json d JNull = ''null''"
| "indent_json d (JBool b) = (if b then ''true'' else ''false'')"
| "indent_json d (JNum s) = s"
| "indent_json d (JStr s) = CHR 0x22 # quote_chars s @ [CHR 0x22]"
| "indent_json d (JArr js) =
     (if js = [] then ''[]''
      else CHR ''['' # indent_nl (Suc d) @ indent_elems (Suc d) js @ indent_nl d @ '']'')"
| "indent_json d (JObj ms) =
     (if ms = [] then ''{}''
      else CHR ''{'' # indent_nl (Suc d) @ indent_members (Suc d) ms @ indent_nl d @ ''}'')"
| "indent_elems d [] = ''''"
| "indent_elems d (j # js) =
     indent_json d j @ (if js = [] then '''' else CHR '','' # indent_nl d @ indent_elems d js)"
| "indent_members d [] = ''''"
| "indent_members d ((k, j) # ms) =
     CHR 0x22 # quote_chars k @ CHR 0x22 # CHR '':'' # CHR '' '' # indent_json d j @
       (if ms = [] then '''' else CHR '','' # indent_nl d @ indent_members d ms)"

section \<open>Reading it back\<close>

lemma skip_ws_nl [simp]: "skip_ws (indent_nl d @ s) = skip_ws s"
proof -
  have "skip_ws (replicate n (CHR '' '') @ s) = skip_ws s" for n
    by (induction n) (simp_all add: skip_ws_def is_ws_def)
  then show ?thesis
    by (simp add: indent_nl_def skip_ws_def is_ws_def)
qed

lemma skip_ws_space [simp]: "skip_ws (CHR '' '' # s) = skip_ws s"
  by (simp add: skip_ws_def is_ws_def)

lemma parse_value_skip: "skip_ws s = skip_ws t \<Longrightarrow> parse_value n s = parse_value n t"
  by (cases n) simp_all

lemma parse_members_skip: "skip_ws s = skip_ws t \<Longrightarrow> parse_members n s = parse_members n t"
  by (cases n) simp_all

lemma parse_elems_skip: "skip_ws s = skip_ws t \<Longrightarrow> parse_elems n s = parse_elems n t"
  using parse_value_skip [of s t] by (cases n) simp_all

lemma parse_after_nl [simp]:
  "parse_value n (indent_nl d @ s) = parse_value n s"
  "parse_members n (indent_nl d @ s) = parse_members n s"
  "parse_elems n (indent_nl d @ s) = parse_elems n s"
  "parse_value n (CHR '' '' # s) = parse_value n s"
  by (simp_all add: parse_value_skip [of "indent_nl d @ s" s] parse_members_skip [of "indent_nl d @ s" s]
      parse_elems_skip [of "indent_nl d @ s" s] parse_value_skip [of "CHR '' '' # s" s])

lemma ends_value_nl [simp]: "ends_value (indent_nl d @ s)"
  by (simp add: indent_nl_def number_char_def is_digit_def)

lemma indent_scalar:
  "\<forall>js. j \<noteq> JArr js \<Longrightarrow> \<forall>ms. j \<noteq> JObj ms \<Longrightarrow> indent_json d j = print_json j"
  by (cases j) auto

lemma indent_json_head:
  assumes "json_ok j"
  obtains c cs where "indent_json d j = c # cs" "\<not> is_ws c" "c \<noteq> CHR '']''"
proof -
  obtain c cs where p: "print_json j = c # cs" "\<not> is_ws c" "c \<noteq> CHR '']''"
    using assms by (rule print_json_head)
  consider js where "j = JArr js" | ms where "j = JObj ms" | "indent_json d j = print_json j"
    using indent_scalar by blast
  then show thesis
  proof cases
    case (1 js)
    then show thesis
      by (cases "js = []") (auto intro: that)
  next
    case (2 ms)
    then show thesis
      by (cases "ms = []") (auto intro: that)
  next
    case 3
    then show thesis
      using p that by metis
  qed
qed

lemma parse_indent:
  "json_ok j \<Longrightarrow> fuel_of j \<le> n \<Longrightarrow> ends_value rest \<Longrightarrow>
     parse_value n (indent_json d j @ rest) = Some (j, rest)"
  "elems_ok js \<Longrightarrow> fuel_elems js \<le> n \<Longrightarrow> js \<noteq> [] \<Longrightarrow>
     parse_elems n (indent_elems d js @ indent_nl e @ CHR '']'' # rest) = Some (js, rest)"
  "members_ok ms \<Longrightarrow> fuel_members ms \<le> n \<Longrightarrow> ms \<noteq> [] \<Longrightarrow>
     parse_members n (indent_members d ms @ indent_nl e @ CHR ''}'' # rest) = Some (ms, rest)"
proof (induction d j and d js and d ms arbitrary: n rest and n rest e and n rest e
    rule: indent_json_indent_elems_indent_members.induct)
  case (5 d js)
  then obtain m where m: "n = Suc m" "fuel_elems js \<le> m"
    by (cases n) auto
  show ?case
  proof (cases js)
    case Nil
    then show ?thesis by (simp add: m skip_ws_Cons)
  next
    case (Cons j js')
    let ?t = "indent_elems (Suc d) js @ indent_nl d @ CHR '']'' # rest"
    have p: "parse_elems m ?t = Some (js, rest)"
      using 5 m Cons by simp
    have "json_ok j"
      using 5 Cons by simp
    then obtain c cs where "indent_json (Suc d) j = c # cs" "\<not> is_ws c" "c \<noteq> CHR '']''"
      by (rule indent_json_head)
    then obtain cs' where c: "?t = c # cs'" "\<not> is_ws c" "c \<noteq> CHR '']''"
      by (simp add: Cons)
    then show ?thesis
      using p Cons by (simp add: m skip_ws_Cons del: indent_elems.simps)
  qed
next
  case (6 d ms)
  then obtain m where m: "n = Suc m" "fuel_members ms \<le> m"
    by (cases n) auto
  show ?case
  proof (cases ms)
    case Nil
    then show ?thesis by (simp add: m skip_ws_Cons)
  next
    case (Cons kj ms')
    then obtain cs where c: "indent_members (Suc d) ms = CHR 0x22 # cs"
      by (cases kj) simp
    have "parse_members m (indent_members (Suc d) ms @ indent_nl d @ CHR ''}'' # rest) = Some (ms, rest)"
      using 6 m Cons by simp
    with c Cons show ?thesis
      by (simp add: m skip_ws_Cons del: indent_members.simps)
  qed
next
  case (8 d j js)
  then obtain m where m: "n = Suc m" "fuel_of j \<le> m" "fuel_elems js \<le> m"
    by (cases n) auto
  show ?case
    using 8 m by (cases "js = []") (simp_all add: skip_ws_Cons)
next
  case (10 d k j ms)
  then obtain m where m: "n = Suc m" "fuel_of j \<le> m" "fuel_members ms \<le> m"
    by (cases n) auto
  show ?case
    using 10 m by (cases "ms = []") (simp_all add: skip_ws_Cons read_quote_chars)
qed (use parse_scalar indent_scalar in \<open>auto simp: Suc_le_eq gr0_conv_Suc simp del: print_json.simps indent_json.simps parse_value.simps\<close>)

text \<open>Indenting only adds text, so the length still bounds the fuel.\<close>

lemma indent_length:
  "length (print_json j) \<le> length (indent_json d j)"
  "length (print_elems js) \<le> length (indent_elems d js)"
  "length (print_members ms) \<le> length (indent_members d ms)"
  by (induction d j and d js and d ms rule: indent_json_indent_elems_indent_members.induct) auto

theorem parse_indent_json:
  assumes "json_ok j"
  shows "parse_json (indent_json 0 j) = Some j"
proof -
  have "fuel_of j \<le> Suc (length (indent_json 0 j))"
    using fuel_bound(1) [OF assms] indent_length(1) [of j 0] by simp
  then have "parse_value (Suc (length (indent_json 0 j))) (indent_json 0 j @ []) = Some (j, [])"
    by (intro parse_indent(1) [OF assms]) (simp_all add: ends_value_def)
  then show ?thesis
    by (simp add: parse_json_def skip_ws_def)
qed

end
