(* ===== verification/GoJsonPrefix.thy ===== *)
theory GoJsonPrefix
  imports GoJsonIndent
begin

text \<open>
  Texts that are cut short. A value the parser has read whole is read the same with more text after
  it, unless it is a number, which more digits may continue; so no proper prefix of an object's text
  is JSON, and a file that was only partly written is noticed when it is read.
\<close>

section \<open>Strings\<close>

lemma read_hex4_append: "read_hex4 s = Some (r, s') \<Longrightarrow> read_hex4 (s @ x) = Some (r, s' @ x)"
  by (cases s rule: read_hex4.cases) (auto split: option.splits)

lemma read_low_append: "read_low s = Some (r, s') \<Longrightarrow> read_low (s @ x) = Some (r, s' @ x)"
  by (auto simp: read_low_def read_hex4_append split: list.splits if_splits)

lemma read_low_None:
  assumes "read_low s = None" and "read_string s \<noteq> None"
  shows "read_low (s @ x) = None"
proof (cases s)
  case Nil
  then show ?thesis
    using assms(2) by (simp add: read_string.simps)
next
  case (Cons b s1)
  show ?thesis
  proof (cases s1)
    case Nil
    then show ?thesis
      using assms(2) Cons by (auto simp: read_low_def read_string.simps [of "[CHR 0x5C]"] split: list.splits)
  next
    case (Cons u s2)
    have "read_string (CHR 0x5C # CHR ''u'' # s2) = None" if "read_hex4 s2 = None"
      using that by (simp add: read_string.simps [of "CHR 0x5C # CHR ''u'' # s2"])
    then show ?thesis
      using assms \<open>s = b # s1\<close> Cons by (auto simp: read_low_def)
  qed
qed

lemma unescape_rune_append:
  assumes "read_string (snd (unescape_rune r s)) \<noteq> None"
  shows "unescape_rune r (s @ x) = map_prod id (\<lambda>s'. s' @ x) (unescape_rune r s)"
proof (cases "read_low s")
  case None
  then have "snd (unescape_rune r s) = s"
    by (simp add: unescape_rune_def)
  then have "is_surrogate r \<Longrightarrow> read_low (s @ x) = None"
    using read_low_None [OF None] assms by simp
  with None show ?thesis
    by (simp add: unescape_rune_def)
next
  case (Some p)
  obtain r1 s' where p: "p = (r1, s')"
    by fastforce
  then show ?thesis
    using Some read_low_append [of s r1 s' x] by (simp add: unescape_rune_def)
qed

text \<open>A code point that the text is too short for has no quote in it.\<close>

lemma utf8_len_bytes:
  assumes "utf8_len s = n" and "1 < n" and "c \<in> set (take n s)"
  shows "(0x80 :: nat) \<le> of_char c"
proof -
  obtain b bs where s: "s = b # bs"
    using assms(1,2) by (cases s) auto
  consider "bs = []" | b1 where "bs = [b1]" | b1 b2 where "bs = [b1, b2]" | b1 b2 b3 bs' where "bs = b1 # b2 # b3 # bs'"
    by (metis list.exhaust)
  then show ?thesis
    using assms by cases (auto simp: s utf8_len.simps Let_def byte_in_def split: if_splits)
qed

lemma utf8_len_append:
  assumes "CHR 0x22 \<in> set s"
  shows "utf8_len (s @ x) = utf8_len s"
proof (cases "utf8_len s = 0")
  case False
  then have "utf8_len (take (utf8_len s) s @ (drop (utf8_len s) s @ x)) = utf8_len s"
    by (intro utf8_len_take) simp_all
  then show ?thesis
    by (simp add: append_assoc [symmetric] del: append_assoc)
next
  case zero: True
  show ?thesis
  proof (rule ccontr)
    let ?n = "utf8_len (s @ x)"
    assume "?n \<noteq> utf8_len s"
    then have n: "0 < ?n"
      using zero by simp
    show False
    proof (cases "?n \<le> length s")
      case True
      have "utf8_len (take ?n (s @ x) @ drop ?n s) = ?n"
        using n by (intro utf8_len_take) simp_all
      with True zero n show False
        by simp
    next
      case False
      then have "CHR 0x22 \<in> set (take ?n (s @ x))"
        using assms by simp
      moreover have "s \<noteq> []"
        using assms by auto
      then have "1 < ?n"
        using False by (cases s) auto
      ultimately have "(0x80 :: nat) \<le> of_char (CHR 0x22)"
        using utf8_len_bytes [of "s @ x" ?n] by blast
      then show False
        by simp
    qed
  qed
qed

lemma read_string_cases:
  assumes "read_string s = Some (t, r)"
  obtains (quote) "s = CHR 0x22 # r" "t = []"
  | (code) es h es' t' where "s = CHR 0x5C # CHR ''u'' # es" "read_hex4 es = Some (h, es')"
      "read_string (snd (unescape_rune h es')) = Some (t', r)" "t = fst (unescape_rune h es') @ t'"
  | (escape) e d es t' where "s = CHR 0x5C # e # es" "e \<noteq> CHR ''u''" "unescape_char e = Some d"
      "read_string es = Some (t', r)" "t = d # t'"
  | (raw) c cs t' where "s = c # cs" "c \<noteq> CHR 0x22" "c \<noteq> CHR 0x5C" "\<not> of_char c < (0x20 :: nat)"
      "utf8_len s = 0" "read_string cs = Some (t', r)" "t = replacement @ t'"
  | (rune) c cs t' where "s = c # cs" "c \<noteq> CHR 0x22" "c \<noteq> CHR 0x5C" "\<not> of_char c < (0x20 :: nat)"
      "utf8_len s \<noteq> 0" "read_string (drop (utf8_len s) s) = Some (t', r)" "t = take (utf8_len s) s @ t'"
proof (cases s)
  case Nil
  then show thesis
    using assms by (simp add: read_string.simps [of "[]"])
next
  case (Cons c cs)
  note run = assms [unfolded read_string.simps [of s], unfolded Cons list.case, folded Cons]
  consider "c = CHR 0x22" | "c = CHR 0x5C" | "c \<noteq> CHR 0x22" "c \<noteq> CHR 0x5C"
    by blast
  then show thesis
  proof cases
    case 1
    then show thesis
      using run Cons quote by simp
  next
    case 2
    then obtain e es where e: "cs = e # es"
      using run by (cases cs) simp_all
    show thesis
    proof (cases "e = CHR ''u''")
      case True
      then show thesis
        using run 2 e Cons code by (auto split: option.splits)
    next
      case False
      then show thesis
        using run 2 e Cons escape by (auto split: option.splits)
    qed
  next
    case 3
    then have "\<not> of_char c < (0x20 :: nat)"
      using run by (auto split: if_splits)
    then show thesis
      using run 3 Cons raw rune by (cases "utf8_len s = 0") (auto simp: Let_def)
  qed
qed

lemma hex_rest: "read_hex4 es = Some (h, es') \<Longrightarrow> set es' \<subseteq> set es"
  by (cases es rule: read_hex4.cases) (auto split: option.splits)

lemma unescape_rest: "set (snd (unescape_rune h es)) \<subseteq> set es"
  by (auto simp: unescape_rune_def read_low_def dest!: hex_rest split: option.splits list.splits if_splits)

lemma read_string_quote: "read_string s = Some z \<Longrightarrow> CHR 0x22 \<in> set s"
proof (induction "length s" arbitrary: s z rule: less_induct)
  case less
  obtain t r where "z = (t, r)"
    by fastforce
  with less.prems have "read_string s = Some (t, r)"
    by simp
  then show ?case
  proof (cases rule: read_string_cases)
    case (code es h es' t')
    have "length (snd (unescape_rune h es')) < length s"
      using unescape_rune_shorter [of h es'] read_hex4_shorter [OF code(2)] code(1) by simp
    from less.hyps [OF this code(3)] show ?thesis
      using unescape_rest [of h es'] hex_rest [OF code(2)] code(1) by auto
  next
    case (escape e d es t')
    then show ?thesis
      using less.hyps [OF _ escape(4)] by simp
  next
    case (raw c cs t')
    then show ?thesis
      using less.hyps [OF _ raw(6)] by simp
  next
    case (rune c cs t')
    have "length (drop (utf8_len s) s) < length s"
      using rune(1,5) by simp
    from less.hyps [OF this rune(6)] show ?thesis
      by (rule in_set_dropD)
  qed simp
qed

lemma read_string_append: "read_string s = Some (t, r) \<Longrightarrow> read_string (s @ x) = Some (t, r @ x)"
proof (induction "length s" arbitrary: s t rule: less_induct)
  case less
  note quote_in = read_string_quote [OF less.prems]
  from less.prems show ?case
  proof (cases rule: read_string_cases)
    case quote
    then show ?thesis
      by (simp add: read_string.simps [of "CHR 0x22 # r @ x"])
  next
    case (code es h es' t')
    have len: "length (snd (unescape_rune h es')) < length s"
      using unescape_rune_shorter [of h es'] read_hex4_shorter [OF code(2)] code(1) by simp
    have "unescape_rune h (es' @ x) = map_prod id (\<lambda>s'. s' @ x) (unescape_rune h es')"
      using code(3) by (intro unescape_rune_append) simp
    then show ?thesis
      using less.hyps [OF len code(3)] read_hex4_append [OF code(2)] code(1,4)
      by (simp add: read_string.simps [of "CHR 0x5C # CHR ''u'' # es @ x"])
  next
    case (escape e d es t')
    then show ?thesis
      using less.hyps [OF _ escape(4)] by (simp add: read_string.simps [of "CHR 0x5C # e # es @ x"])
  next
    case (raw c cs t')
    then show ?thesis
      using less.hyps [OF _ raw(6)] utf8_len_append [OF quote_in, of x]
      by (simp add: read_string.simps [of "c # cs @ x"] Let_def)
  next
    case (rune c cs t')
    have len: "length (drop (utf8_len s) s) < length s" "utf8_len s \<le> length s"
      using rune(1,5) utf8_len_le [of s] by simp_all
    have "drop (utf8_len s) ((c # cs) @ x) = drop (utf8_len s) s @ x" "take (utf8_len s) ((c # cs) @ x) = take (utf8_len s) s"
      using len(2) unfolding rune(1) [symmetric] by simp_all
    then show ?thesis
      using less.hyps [OF len(1) rune(6)] utf8_len_append [OF quote_in, of x] rune
      by (simp add: read_string.simps [of "c # cs @ x"] Let_def)
  qed
qed

section \<open>Values\<close>

lemma skip_ws_append: "skip_ws s = c # cs \<Longrightarrow> skip_ws (s @ x) = c # cs @ x"
  unfolding skip_ws_def by (induction s) (auto split: if_splits)

lemma skip_ws_nonempty: "skip_ws s = c # cs \<Longrightarrow> s \<noteq> []"
  by (auto simp: skip_ws_def)

lemma read_word_append: "read_word w j s = Some (j', r) \<Longrightarrow> read_word w j (s @ x) = Some (j', r @ x)"
proof -
  assume "read_word w j s = Some (j', r)"
  then have w: "take (length w) s = w" "j' = j" "r = drop (length w) s"
    by (auto simp: read_word_def split: if_splits)
  then have "length w \<le> length s"
    by (metis length_take min.cobounded1)
  with w show ?thesis
    by (simp add: read_word_def)
qed

lemma read_number_append:
  assumes "read_number s = Some (j, r)" and "r \<noteq> []"
  shows "read_number (s @ x) = Some (j, r @ x)"
proof -
  have r: "r = dropWhile number_char s" "valid_number (takeWhile number_char s)" "j = JNum (takeWhile number_char s)"
    using assms(1) by (auto simp: read_number_def Let_def split: if_splits)
  then obtain c where "c \<in> set s" "\<not> number_char c"
    using assms(2) by (auto simp: dropWhile_eq_Nil_conv)
  then show ?thesis
    using r by (simp add: read_number_def takeWhile_append1 dropWhile_append1)
qed

lemma parse_append:
  "parse_value n s = Some (j, r) \<Longrightarrow> r \<noteq> [] \<or> (\<forall>l. j \<noteq> JNum l) \<Longrightarrow> parse_value n (s @ x) = Some (j, r @ x)"
  "parse_elems n s = Some (js, r) \<Longrightarrow> parse_elems n (s @ x) = Some (js, r @ x)"
  "parse_members n s = Some (ms, r) \<Longrightarrow> parse_members n (s @ x) = Some (ms, r @ x)"
proof (induction n s and n s and n s arbitrary: j r and js r and ms r
    rule: parse_value_parse_elems_parse_members.induct)
  case (2 n s)
  then obtain c cs where c: "skip_ws s = c # cs"
    by (auto split: list.splits)
  note c' = skip_ws_append [OF c, of x]
  consider "c = CHR ''{''" | "c = CHR ''[''" | "c = CHR 0x22" | "c \<noteq> CHR ''{''" "c \<noteq> CHR ''[''" "c \<noteq> CHR 0x22"
    by blast
  then show ?case
  proof cases
    case brace: 1
    then obtain d ds where d: "skip_ws cs = d # ds"
      using 2(3) c by (auto split: list.splits)
    then show ?thesis
      using brace 2 c c' skip_ws_append [OF d, of x] by (auto split: if_splits)
  next
    case bracket: 2
    then obtain d ds where d: "skip_ws cs = d # ds"
      using 2(3) c by (auto split: list.splits)
    then show ?thesis
      using bracket 2 c c' skip_ws_append [OF d, of x] by (auto split: if_splits)
  next
    case quote: 3
    then show ?thesis
      using 2(3) c c' read_string_append [of cs _ r x] by auto
  next
    case 4
    then have "read_word w v (c # cs) = Some (j, r) \<Longrightarrow> read_word w v (c # cs @ x) = Some (j, r @ x)" for w v
      using read_word_append [of w v "c # cs" j r x] by simp
    moreover have "read_number (c # cs) = Some (j, r) \<Longrightarrow> read_number (c # cs @ x) = Some (j, r @ x)"
      using 2(4) read_number_append [of "c # cs" j r x] by (auto simp: read_number_def Let_def split: if_splits)
    ultimately show ?thesis
      using 4 2(3) c c' by (simp split: if_splits)
  qed
next
  case (4 n s)
  then obtain j s1 where j: "parse_value n s = Some (j, s1)"
    by (auto split: option.splits)
  then obtain c cs where c: "skip_ws s1 = c # cs"
    using 4(3) by (auto split: list.splits)
  have "parse_value n (s @ x) = Some (j, s1 @ x)"
    using 4(1) j skip_ws_nonempty [OF c] by blast
  then show ?case
    using 4 j c skip_ws_append [OF c, of x] by (auto split: if_splits)
next
  case (6 n s)
  then obtain c cs where c: "skip_ws s = c # cs"
    by (auto split: list.splits)
  then obtain k s1 where k: "read_string cs = Some (k, s1)"
    using 6(3) by (auto split: option.splits if_splits)
  then obtain d ds where d: "skip_ws s1 = d # ds"
    using 6(3) c by (auto split: list.splits if_splits)
  then obtain j s2 where j: "parse_value n ds = Some (j, s2)"
    using 6(3) c k by (auto split: option.splits if_splits)
  then obtain e es where e: "skip_ws s2 = e # es"
    using 6(3) c k d by (auto split: list.splits if_splits)
  have "parse_value n (ds @ x) = Some (j, s2 @ x)"
    using 6 c k d j skip_ws_nonempty [OF e] by (auto split: if_splits)
  then show ?case
    using 6 c k d j e skip_ws_append [OF c, of x] read_string_append [OF k, of x] skip_ws_append [OF d, of x]
      skip_ws_append [OF e, of x] by (auto split: if_splits)
qed simp_all

text \<open>More fuel changes nothing.\<close>

lemma parse_more_fuel:
  "parse_value n s = Some z \<Longrightarrow> parse_value (Suc n) s = Some z"
  "parse_elems n s = Some zs \<Longrightarrow> parse_elems (Suc n) s = Some zs"
  "parse_members n s = Some zm \<Longrightarrow> parse_members (Suc n) s = Some zm"
proof (induction n s and n s and n s arbitrary: z and zs and zm
    rule: parse_value_parse_elems_parse_members.induct)
  case (2 n s)
  then obtain c cs where c: "skip_ws s = c # cs"
    by (auto split: list.splits)
  note run = 2(3) [unfolded parse_value.simps(2) [of n s] c list.case]
  show ?case
  proof (cases "c = CHR ''{'' \<or> c = CHR ''[''")
    case True
    then obtain d ds where d: "skip_ws cs = d # ds"
      using run by (auto split: list.splits)
    show ?thesis
      using run True c d 2(1) [OF c _ d] 2(2) [OF c _ _ d] unfolding parse_value.simps(2) [of "Suc n" s]
      by (auto simp del: parse_members.simps parse_elems.simps split: if_splits)
  next
    case False
    then show ?thesis
      using run c unfolding parse_value.simps(2) [of "Suc n" s] by simp
  qed
next
  case (4 n s)
  note run = 4(3) [unfolded parse_elems.simps(2) [of n s]]
  obtain j s1 where j: "parse_value n s = Some (j, s1)"
    using run by (auto split: option.splits)
  obtain c cs where c: "skip_ws s1 = c # cs"
    using run j by (auto split: list.splits)
  show ?case
    using run j c 4(1) [OF j] 4(2) [OF j refl c] unfolding parse_elems.simps(2) [of "Suc n" s]
    by (auto simp del: parse_value.simps parse_elems.simps split: if_splits)
next
  case (6 n s)
  note run = 6(3) [unfolded parse_members.simps(2) [of n s]]
  obtain c cs where c: "skip_ws s = c # cs"
    using run by (auto split: list.splits)
  obtain k s1 where k: "read_string cs = Some (k, s1)" "c = CHR 0x22"
    using run c by (auto split: option.splits if_splits)
  obtain d ds where d: "skip_ws s1 = d # ds" "d = CHR '':''"
    using run c k by (auto split: list.splits if_splits)
  obtain j s2 where j: "parse_value n ds = Some (j, s2)"
    using run c k d by (auto split: option.splits if_splits)
  obtain e es where e: "skip_ws s2 = e # es"
    using run c k d j by (auto split: list.splits)
  have "parse_value (Suc n) ds = Some (j, s2)"
    using 6(1) c k d j by simp
  moreover have "parse_members (Suc n) es = Some z" if "parse_members n es = Some z" "e = CHR '',''" for z
    using 6(2) c k d j e that by simp
  ultimately show ?case
    using run c k d j e unfolding parse_members.simps(2) [of "Suc n" s]
    by (auto simp del: parse_value.simps parse_members.simps split: if_splits)
qed simp_all

lemma parse_fuel_mono: "parse_value n s = Some z \<Longrightarrow> n \<le> m \<Longrightarrow> parse_value m s = Some z"
proof (induction m)
  case (Suc m)
  then show ?case
    using parse_more_fuel(1) [of m s z] by (cases "n = Suc m") auto
qed simp

section \<open>Prefixes\<close>

lemma parse_prefix:
  assumes "parse_value (Suc (length (CHR ''{'' # t))) (CHR ''{'' # t) = Some (j, [])" and "n < length (CHR ''{'' # t)"
  shows "parse_json (take n (CHR ''{'' # t)) = None"
proof (rule ccontr)
  let ?t = "CHR ''{'' # t" and ?p = "take n (CHR ''{'' # t)"
  assume "parse_json ?p \<noteq> None"
  then obtain j' r where p: "parse_value (Suc (length ?p)) ?p = Some (j', r)"
    by (auto simp: parse_json_def split: option.splits prod.splits)
  then obtain k where k: "n = Suc k"
    by (cases n) (simp_all add: skip_ws_def)
  have "\<forall>l. j' \<noteq> JNum l"
    using p by (auto simp: k skip_ws_Cons split: list.splits if_splits)
  then have "parse_value (Suc (length ?p)) (?p @ drop n ?t) = Some (j', r @ drop n ?t)"
    by (intro parse_append(1) [OF p]) blast
  then have "parse_value (Suc (length ?p)) ?t = Some (j', r @ drop n ?t)"
    by simp
  then have "parse_value (Suc (length ?t)) ?t = Some (j', r @ drop n ?t)"
    by (rule parse_fuel_mono) simp
  with assms show False
    by simp
qed

lemma print_json_prefix:
  assumes "json_ok (JObj ms)" and "n < length (print_json (JObj ms))"
  shows "parse_json (take n (print_json (JObj ms))) = None"
proof -
  have "parse_value (Suc (length (print_json (JObj ms)))) (print_json (JObj ms) @ []) = Some (JObj ms, [])"
    by (rule parse_print(1)) (use assms(1) fuel_bound(1) [OF assms(1)] in \<open>simp_all add: ends_value_def\<close>)
  then have "parse_value (Suc (length (CHR ''{'' # print_members ms @ ''}''))) (CHR ''{'' # print_members ms @ ''}'') =
      Some (JObj ms, [])"
    by (simp only: print_json.simps append_Nil2)
  then show ?thesis
    using parse_prefix [of "print_members ms @ ''}''" "JObj ms" n] assms(2) by simp
qed

lemma indent_json_prefix:
  assumes "json_ok (JObj ms)" and "n < length (indent_json 0 (JObj ms))"
  shows "parse_json (take n (indent_json 0 (JObj ms))) = None"
proof -
  let ?t = "indent_json 0 (JObj ms)"
  have "fuel_of (JObj ms) \<le> Suc (length ?t)"
    using fuel_bound(1) [OF assms(1)] indent_length(1) [of "JObj ms" 0] by linarith
  then have "parse_value (Suc (length ?t)) (?t @ []) = Some (JObj ms, [])"
    by (intro parse_indent(1) [OF assms(1)]) (simp_all add: ends_value_def)
  then have run: "parse_value (Suc (length ?t)) ?t = Some (JObj ms, [])"
    by simp
  have "\<exists>t. ?t = CHR ''{'' # t"
    by (cases "ms = []") simp_all
  then obtain t where t: "?t = CHR ''{'' # t"
    by blast
  show ?thesis
    using parse_prefix [of t "JObj ms" n] run assms(2) unfolding t by blast
qed

end
