(* ===== verification/TornCommits.thy ===== *)
theory TornCommits
  imports TableFaults GoJsonPrefix
begin

text \<open>
  What a table is once an insert or a schema change has met a fault. Manifests are written in place
  (\<^verbatim>\<open>Write\<close> of \<^verbatim>\<open>src/table/manifest_store.go\<close> over \<^verbatim>\<open>src/storage/local_fs.go\<close>), so the next manifest
  may be missing, complete or cut short; \<open>OpenTable\<close> and \<open>LatestManifest\<close> of \<^verbatim>\<open>src/table/table.go\<close>
  then go on from the last version, from the new one, or fail. No proper prefix of a manifest parses,
  by \<open>GoJsonPrefix\<close>.
\<close>

section \<open>Manifests cut short\<close>

lemma manifest_prefix:
  assumes "Manifest_ok m" and "Manifest_Serialize m = Inr all" and "take n all \<noteq> all"
  shows "DeserializeManifest (take n all) = Inl (TblErr ErrJson)"
proof -
  let ?s = "print_json (enc_Manifest m)"
  have all: "all = bytes_of_string ?s"
    using assms(2) by (simp add: Manifest_Serialize_def)
  have str: "string_of_bytes (take n all) = take n ?s"
    unfolding all string_of_bytes_def take_map by (simp flip: string_of_bytes_def take_map)
  have "n < length all"
    using assms(3) by (simp add: not_le [symmetric])
  then have "n < length (string_of_bytes all)"
    by (simp add: string_of_bytes_def)
  then have "n < length ?s"
    by (simp add: all)
  then have "parse_json (take n ?s) = None"
    using json_ok_enc_Manifest [OF assms(1)] unfolding enc_Manifest_def by (intro print_json_prefix)
  then show ?thesis
    by (simp add: DeserializeManifest_def str)
qed

section \<open>Attempts that get as far as writing\<close>

text \<open>
  An insert of batches that fit the schema, or a schema change that is not refused: \<open>s\<close> is the schema
  of the manifest it writes and \<open>calls\<close> the number of file operations before that write, one
  \<open>Write\<close> and one \<open>Size\<close> for every column of an insert.
\<close>

inductive table_attempt ::
  "(RecordBatch \<Rightarrow> RecordBatch \<Rightarrow> bool) \<Rightarrow> codecs \<Rightarrow> 'w Table \<Rightarrow> 'w \<Rightarrow> Schema \<Rightarrow> nat \<Rightarrow> unit res \<Rightarrow> 'w Table \<Rightarrow>
     'w \<Rightarrow> bool"
  for same C t w where
  attempt_insert: "BatchInsert same C now t bs w = (rf, t', w') \<Longrightarrow> in_range t now \<Longrightarrow> bs \<noteq> [] \<Longrightarrow>
    insert_batch same bs = Inr b \<Longrightarrow> batch_fits (tb_schema t) (rb_Columns b) \<Longrightarrow> paths_ok (tb_tablePath t) \<Longrightarrow>
    table_attempt same C t w (tb_schema t) (2 * length (rb_Columns b)) (map_sum id (\<lambda>_. ()) rf) t' w'"
| attempt_add: "AddColumn now t f w = (r, t', w') \<Longrightarrow> in_range t now \<Longrightarrow> Field_ok f \<Longrightarrow>
    \<not> HasField (tb_schema t) (fld_Name f) \<Longrightarrow>
    table_attempt same C t w
      \<lparr>Fields = Fields (tb_schema t) @ [set_fld_ID (wrap32 (max_field_ID (tb_schema t) + 1)) f]\<rparr> 0 r t' w'"
| attempt_drop: "DropColumn now t n w = (r, t', w') \<Longrightarrow> in_range t now \<Longrightarrow>
    FieldByName (tb_schema t) n \<noteq> None \<Longrightarrow>
    table_attempt same C t w \<lparr>Fields = filter (\<lambda>f. fld_Name f \<noteq> n) (Fields (tb_schema t))\<rparr> 0 r t' w'"

text \<open>
  What is left: a table that is opened with the manifest \<open>m\<close>, by name and by the handle \<open>t\<close>, or one that
  cannot be opened, nor its latest manifest be read.
\<close>

definition recovers :: "'w Table \<Rightarrow> Manifest \<Rightarrow> 'w \<Rightarrow> bool" where
  "recovers t m w \<longleftrightarrow>
     (\<forall>name cmp. \<exists>t'. fst (OpenTable name (tb_tablePath t) (tb_store t) cmp w) = Inr t' \<and>
        tb_schema t' = man_Schema m \<and> tb_nextVersion t' = man_Version m + 1) \<and>
     fst (LatestManifest t w) = Inr m"

definition blocked :: "'w Table \<Rightarrow> 'w \<Rightarrow> bool" where
  "blocked t w \<longleftrightarrow>
     (\<forall>name cmp. \<exists>e. fst (OpenTable name (tb_tablePath t) (tb_store t) cmp w) = Inl e) \<and>
     (\<exists>e. fst (LatestManifest t w) = Inl e)"

context table_faults
begin

text \<open>The latest version decides.\<close>

lemma latest_decides:
  assumes "ok u" and "canonical u" and "versions u = {1..<n + 1}" and "1 \<le> n" and "fits64 (n + 1)" and "attached t"
    and "content u (mkey n) = Some d"
  shows "DeserializeManifest d = Inr m \<Longrightarrow> man_Version m = n \<Longrightarrow>
      (\<forall>x. VM_Get (tb_versionMgr t) n = Some x \<longrightarrow> x = m) \<Longrightarrow> recovers t m u"
    and "DeserializeManifest d = Inl e \<Longrightarrow> (\<forall>x. VM_Get (tb_versionMgr t) n \<noteq> Some x) \<Longrightarrow> blocked t u"
proof -
  have "Max {1..<n + 1} = n" "{1..<n + 1} \<noteq> {}"
    using assms(4) by (auto intro!: Max_eqI)
  then have latest: "MS_LatestVersion ms u = (Inr n, u)"
    using LatestVersion_ok [OF assms(1,2)] assms(3) by simp
  have read: "MS_Read ms n u = (DeserializeManifest d, u)"
    by (rule MS_Read_content [OF assms(1,7)])
  have t: "tb_tablePath t = tp" "tb_store t = st" "tb_manifestStore t = ms"
    using assms(6) by (simp_all add: attached_def)
  show "recovers t m u" if "DeserializeManifest d = Inr m" "man_Version m = n"
    "\<forall>x. VM_Get (tb_versionMgr t) n = Some x \<longrightarrow> x = m"
    using latest read t that assms(5)
    by (cases "VM_Get (tb_versionMgr t) n")
      (simp_all add: recovers_def OpenTable_def NewTable_def LatestManifest_def Let_def)
  show "blocked t u" if "DeserializeManifest d = Inl e" "\<forall>x. VM_Get (tb_versionMgr t) n \<noteq> Some x"
    using latest read t that
    by (cases "VM_Get (tb_versionMgr t) n")
      (simp_all add: blocked_def OpenTable_def NewTable_def LatestManifest_def Let_def)
qed

text \<open>A table that is about to write its next version, the latest manifest being \<open>m0\<close>.\<close>

definition poised :: "'w Table \<Rightarrow> 'w \<Rightarrow> Manifest \<Rightarrow> bool" where
  "poised t w m0 \<longleftrightarrow>
     faulty_inv t w \<and> canonical w \<and> versions w = {1..<tb_nextVersion t} \<and> tb_nextVersion t < 2 ^ 63 - 1 \<and>
     VM_Latest (tb_versionMgr t) = Some m0 \<and> committed t w m0 \<and> man_Version m0 = tb_nextVersion t - 1 \<and>
     (\<forall>x. VM_Get (tb_versionMgr t) (tb_nextVersion t - 1) = Some x \<longrightarrow> x = m0)"

lemma inv_poised:
  assumes "table_inv t (calm w)" and "tb_nextVersion t < 2 ^ 63 - 1"
  obtains m0 where "poised t w m0" "stored w (tb_nextVersion t - 1) = Some m0"
proof -
  let ?v = "tb_nextVersion t"
  obtain m0 where m0: "VM_Latest (tb_versionMgr t) = Some m0" "stored w (?v - 1) = Some m0"
    using table_inv_latest [OF assms(1)] by (metis stored_calm)
  have t: "1 < ?v" "fits64 ?v" "canonical w" "versions w = {1..<?v}"
    and cache: "\<And>v m. VM_Get (tb_versionMgr t) v = Some m \<Longrightarrow> stored w v = Some m"
    using assms(1) by (auto simp: table_inv_def history_ok_def canonical_def versions_def)
  have "fits64 (?v - 1)"
    using t(1,2) by (simp add: fits64_def)
  then have com: "committed t w m0"
    by (rule inv_faulty(2) [OF assms(1) m0(2)])
  have "\<exists>m. stored (calm w) (?v - 1) = Some m \<and> man_Version m = ?v - 1"
  proof -
    obtain maxid where "history_ok (calm w) ?v maxid (tb_nextFragmentID t)"
      using assms(1) by (auto simp: table_inv_def)
    moreover have "?v - 1 \<in> {1..<?v}"
      using t(1) by simp
    ultimately show ?thesis
      unfolding history_ok_def by blast
  qed
  then have "man_Version m0 = ?v - 1"
    using m0(2) by simp
  moreover have "x = m0" if "VM_Get (tb_versionMgr t) (?v - 1) = Some x" for x
    using cache [OF that] m0(2) by simp
  ultimately have "poised t w m0"
    using inv_faulty(1) [OF assms(1)] t m0(1) com assms(2) by (simp add: poised_def)
  with m0(2) that show thesis by blast
qed

text \<open>The next manifest is missing, complete or cut short.\<close>

lemma commit_files:
  assumes "poised t w m0" and "man_Version m = tb_nextVersion t" and "MS_Write ms m w = (r, w')"
    and "Manifest_Serialize m = Inr all"
  shows "ok (calm w')" and "content w' (mkey (tb_nextVersion t)) = None \<Longrightarrow> canonical w' \<and> versions w' = {1..<tb_nextVersion t} \<and> r \<noteq> Inr ()"
    and "content w' (mkey (tb_nextVersion t)) = Some data \<Longrightarrow>
      canonical w' \<and> versions w' = {1..<tb_nextVersion t + 1} \<and> (\<exists>n. data = take n all) \<and> (r = Inr () \<longrightarrow> data = all)"
    and "stored w' (tb_nextVersion t - 1) = Some m0"
proof -
  let ?v = "tb_nextVersion t"
  have t: "ok (calm w)" "1 < ?v" "fits64 ?v" "canonical w" "versions w = {1..<?v}" "stored w (?v - 1) = Some m0"
    using assms(1) by (auto simp: poised_def faulty_inv_def committed_def)
  note written = MS_Write_faults [OF t(1) assms(3)]
  then show "ok (calm w')"
    by blast
  have "?v \<notin> versions w"
    by (simp add: t(5))
  then have none: "content w (mkey ?v) = None"
    using t(3) by (simp add: versions_def)
  have frame: "content w' (mkey v) = content w (mkey v)" if "v \<noteq> ?v" for v
    using written that assms(2) by simp
  show "stored w' (?v - 1) = Some m0"
    using stored_frame [OF frame, of "?v - 1"] t(6) by simp
  obtain u data where u: "MS_Write ms m (calm w) = (Inr (), u)" "Manifest_Serialize m = Inr data"
    "content u = (content (calm w))(mkey (man_Version m) := Some data)"
    by (rule MS_Write_ok [OF t(1)])
  have all: "content w' (mkey ?v) = Some all" if "r = Inr ()"
  proof -
    have "calm w' = u"
      using written u(1) that by simp
    then have "content w' = content u"
      using crash.calm_content [of w'] by simp
    then show ?thesis
      using u(2,3) assms(2,4) by simp
  qed
  have "Store_Write st (manifestPath ms (man_Version m)) all w = (r, w')"
    using assms(3,4) by (simp add: MS_Write_def) (simp add: NewManifestStore_def)
  note part = crash.write_partial [OF t(1) managed_manifest this]
  show "canonical w' \<and> versions w' = {1..<?v} \<and> r \<noteq> Inr ()" if "content w' (mkey ?v) = None"
  proof (intro conjI)
    have "content w' k = content w k" for k
      using written that none assms(2) by (cases "k = mkey ?v") simp_all
    then have "content w' = content w"
      by (rule ext)
    then show "canonical w'" "versions w' = {1..<?v}"
      using t(4,5) by (simp_all add: canonical_def versions_def)
    show "r \<noteq> Inr ()"
      using all that by auto
  qed
  show "canonical w' \<and> versions w' = {1..<?v + 1} \<and> (\<exists>n. data = take n all) \<and> (r = Inr () \<longrightarrow> data = all)"
    if "content w' (mkey ?v) = Some data" for data
  proof (intro conjI impI)
    have dom: "content w' k = None \<longleftrightarrow> content u k = None" for k
      using written that u(3) assms(2) by (cases "k = mkey ?v") simp_all
    have "canonical (calm w)"
      using t(4) by (simp add: canonical_def)
    then have "canonical u"
      using canonical_write [OF t(1) _ u(1)] t(3) assms(2) by simp
    then show "canonical w'"
      by (simp add: canonical_def dom)
    have "v \<in> versions w' \<longleftrightarrow> v \<in> insert ?v (versions w)" for v
      using that frame [of v] t(3) by (cases "v = ?v") (simp_all add: versions_def)
    then have "versions w' = insert ?v (versions w)"
      by blast
    also have "\<dots> = {1..<?v + 1}"
      using t(2) by (auto simp: t(5))
    finally show "versions w' = {1..<?v + 1}" .
    show "\<exists>n. data = take n all"
      using part that none assms(2) by auto
    show "data = all" if "r = Inr ()"
      using all [OF that] \<open>content w' (mkey ?v) = Some data\<close> by simp
  qed
qed

lemma commit_outcome:
  assumes "poised t w m0" and "man_Version (mk (tb_nextVersion t)) = tb_nextVersion t"
    and "Manifest_ok (mk (tb_nextVersion t))"
    and "list_all (\<lambda>f. fragment_present w f \<and> fr_ID f < tb_nextFragmentID t) (man_Fragments (mk (tb_nextVersion t)))"
    and "commit_manifest mk t w = (r, t', w')" and "Manifest_Serialize (mk (tb_nextVersion t)) = Inr all"
  shows "lasting t w t' w' \<and>
    (case content w' (mkey (tb_nextVersion t)) of
       None \<Rightarrow> r \<noteq> Inr () \<and> recovers t' m0 (calm w')
     | Some data \<Rightarrow>
         if data = all then recovers t' (mk (tb_nextVersion t)) (calm w')
         else r \<noteq> Inr () \<and> (\<exists>n. data = take n all) \<and> blocked t' (calm w'))"
proof -
  let ?v = "tb_nextVersion t" and ?m = "mk (tb_nextVersion t)"
  have t: "faulty_inv t w" "?v < 2 ^ 63 - 1" "attached t" "1 < ?v" "fits64 ?v" "vm_ok 10 (tb_versionMgr t)"
    and below: "\<And>v m. VM_Get (tb_versionMgr t) v = Some m \<Longrightarrow> v < ?v"
    and m0: "man_Version m0 = ?v - 1" "\<And>x. VM_Get (tb_versionMgr t) (?v - 1) = Some x \<Longrightarrow> x = m0"
    using assms(1) by (auto simp: poised_def faulty_inv_def)
  have v1: "wrap64 (?v + 1) = ?v + 1" "fits64 (?v + 1)"
    using t(2,4) by (simp_all add: fits64_def)
  have last: "lasting t w t' w'"
    using commit_faults [OF t(1,2) assms(5,2) assms(3) assms(4)] by blast
  obtain r1 where w': "MS_Write ms ?m w = (r1, w')" "r = r1"
    and t': "t' = (if r1 = Inr () then t\<lparr>tb_nextVersion := ?v + 1, tb_schema := man_Schema ?m,
        tb_versionMgr := Publish ?m (tb_versionMgr t)\<rparr> else t\<lparr>tb_nextVersion := ?v + 1\<rparr>)"
    using assms(5) t(3) v1(1) by (auto simp: commit_manifest_def Let_def attached_def split: sum.splits prod.splits)
  note files = commit_files [OF assms(1,2) w'(1) assms(6)]
  have att: "attached t'"
    using t(3) by (simp add: t' attached_def)
  have cache: "x = ?m" if "VM_Get (tb_versionMgr t') ?v = Some x" for x
    using that below [of ?v] Publish_newer [OF t(6), of ?m] assms(2) below t(4)
    by (fastforce simp: t' split: if_splits)
  have calm: "canonical (calm w') = canonical w'" "versions (calm w') = versions w'"
    by (simp_all add: canonical_def versions_def)
  show ?thesis
  proof (cases "content w' (mkey ?v)")
    case None
    note left = files(2) [OF None]
    then have "r1 \<noteq> Inr ()"
      by blast
    then have t'': "tb_versionMgr t' = tb_versionMgr t"
      by (simp add: t')
    obtain d where d: "content (calm w') (mkey (?v - 1)) = Some d" "DeserializeManifest d = Inr m0"
      using files(4) by (auto simp: stored_def split: option.splits sum.splits)
    have "recovers t' m0 (calm w')"
      by (rule latest_decides(1) [OF files(1) _ _ _ _ att d(1)]) (use left t(4,5) d(2) m0 in \<open>simp_all add: calm t''\<close>)
    with None left last w'(2) show ?thesis
      by simp
  next
    case (Some data)
    note left = files(3) [OF Some]
    have content: "content (calm w') (mkey ?v) = Some data"
      using Some by simp
    show ?thesis
    proof (cases "data = all")
      case True
      have "recovers t' ?m (calm w')"
        by (rule latest_decides(1) [OF files(1) _ _ _ _ att content])
          (use left t(4) v1(2) cache True DeserializeManifest_Serialize [OF assms(3,6)] assms(2) in \<open>simp_all add: calm\<close>)
      with Some True last show ?thesis
        by simp
    next
      case False
      then have torn: "r1 \<noteq> Inr ()"
        using left by blast
      obtain n where n: "data = take n all"
        using left by blast
      have "DeserializeManifest data = Inl (TblErr ErrJson)"
        using manifest_prefix [OF assms(3,6)] False n by simp
      moreover have "VM_Get (tb_versionMgr t') ?v \<noteq> Some x" for x
        using below [of ?v x] torn by (auto simp: t')
      ultimately have "blocked t' (calm w')"
        by (intro latest_decides(2) [OF files(1) _ _ _ _ att content]) (use left t(4) v1(2) in \<open>simp_all add: calm\<close>)
      with Some False left last w'(2) torn show ?thesis
        by simp
    qed
  qed
qed

text \<open>What an attempt does before it writes its manifest.\<close>

definition committing ::
  "'w Table \<Rightarrow> 'w \<Rightarrow> Manifest \<Rightarrow> Schema \<Rightarrow> (int \<Rightarrow> Manifest) \<Rightarrow> 'w Table \<Rightarrow> 'w \<Rightarrow> bool" where
  "committing t w m0 s mk t1 w1 \<longleftrightarrow>
     poised t1 w1 m0 \<and> lasting t w t1 w1 \<and> tb_nextVersion t1 = tb_nextVersion t \<and>
     man_Version (mk (tb_nextVersion t)) = tb_nextVersion t \<and> Manifest_ok (mk (tb_nextVersion t)) \<and>
     list_all (\<lambda>f. fragment_present w1 f \<and> fr_ID f < tb_nextFragmentID t1) (man_Fragments (mk (tb_nextVersion t))) \<and>
     man_Schema (mk (tb_nextVersion t)) = s \<and> (\<exists>new. man_Fragments (mk (tb_nextVersion t)) = man_Fragments m0 @ new)"

lemma poised_facts:
  assumes "poised t w m0"
  shows "faulty_inv t w" and "VM_Latest (tb_versionMgr t) = Some m0" and "committed t w m0" and "Manifest_ok m0"
    and "Fields_ok (Fields (tb_schema t))" and "fits64 (tb_nextVersion t)" and "0 \<le> tb_nextFragmentID t"
proof -
  show t: "faulty_inv t w" "VM_Latest (tb_versionMgr t) = Some m0" "committed t w m0"
    using assms by (simp_all add: poised_def)
  obtain m where "VM_Latest (tb_versionMgr t) = Some m" "Manifest_ok m" "Fields_ok (Fields (tb_schema t))"
    "0 \<le> tb_nextFragmentID t" "fits64 (tb_nextVersion t)"
    by (rule faulty_latest [OF t(1)])
  with t(2) show "Manifest_ok m0" "Fields_ok (Fields (tb_schema t))" "fits64 (tb_nextVersion t)" "0 \<le> tb_nextFragmentID t"
    by simp_all
qed

lemma evolve_commits:
  assumes "poised t w m0" and "in_range t now" and "Fields_ok (Fields s)" and "evolve now s t w = (r, t', w')"
  obtains mk where "committing t w m0 s mk t w" "commit_manifest mk t w = (r, t', w')"
proof -
  let ?mk = "\<lambda>version. (NewManifest version s)\<lparr>man_Fragments := man_Fragments m0,
    man_MaxFragmentID := man_MaxFragmentID m0, man_Timestamp := now\<rparr>"
  note m0 = poised_facts [OF assms(1)]
  have "Manifest_ok (?mk (tb_nextVersion t))"
    using m0(4,6) assms(2,3) by (simp add: Manifest_ok_def NewManifest_def map_ok_def in_range_def)
  then have "committing t w m0 s ?mk t w"
    using assms(1) m0(3) by (simp add: committing_def committed_def NewManifest_def)
  moreover have "commit_manifest ?mk t w = (r, t', w')"
    using assms(4) m0(2) by (simp add: evolve_def)
  ultimately show thesis
    by (rule that)
qed

lemma written_batch:
  assumes "faulty_inv t w" and "in_range t now" and "batch_fits (tb_schema t) (rb_Columns b)" and "paths_ok tp"
    and "WriteBatch C (NewFragmentWriter st (tb_schema t) (tb_nextFragmentID t) tp comp) b w = (Inr (), fw', w1)"
  shows "Fragment_ok (Finish fw')"
proof -
  let ?fw = "NewFragmentWriter st (tb_schema t) (tb_nextFragmentID t) tp comp"
  have ok: "ok (calm w)"
    using assms(1) by (simp add: faulty_inv_def)
  have fw: "fw_store ?fw = st" "fw_basePath ?fw = fragment_dir tp (tb_nextFragmentID t)"
    by (simp_all add: NewFragmentWriter_def)
  have run: "WriteBatch C ?fw b (calm w) = (Inr (), fw', calm w1)"
    using WriteColumns_faults [OF ok fw] assms(5) by (simp add: WriteBatch_def)
  obtain w2 fw2 where w2: "WriteBatch C ?fw b (calm w) = (Inr (), fw2, w2)" "fr_ID (Finish fw2) = tb_nextFragmentID t"
    "fr_NumRows (Finish fw2) = frag.batch_rows (tb_schema t) (rb_Columns b) 0"
    "list_all2 (\<lambda>(i, d) df. frag.stored_column w2 (tb_nextFragmentID t) (the (FieldByID (tb_schema t) i)) i d df)
       (rb_Columns b) (fr_DataFiles (Finish fw2))"
    "fr_DeletionFile (Finish fw2) = None" "fr_PhysicalRows (Finish fw2) = fr_NumRows (Finish fw2)"
    by (rule frag.WriteBatch_holds [OF ok assms(3)])
  have "fw2 = fw'"
    using w2(1) run by simp
  have sch: "Fields_ok (Fields (tb_schema t))" and "0 \<le> tb_nextFragmentID t"
    by (rule faulty_latest [OF assms(1)], assumption)+
  then have "fits32 (tb_nextFragmentID t)"
    using assms(2) by (simp add: in_range_def fits32_def)
  from written_fragment_ok [OF assms(3) sch assms(4) this w2(2,3,5,6,4)] show ?thesis
    by (simp add: \<open>fw2 = fw'\<close>)
qed

lemma poised_fragments:
  assumes "poised t w m0" and "gm_ok (rb_Columns b)" and "0 \<le> k" and "k \<le> 1" and "in_range t now"
    and "WriteBatch C (NewFragmentWriter st (tb_schema t) (tb_nextFragmentID t) tp comp) b w = (r, fw', w1)"
  shows "poised (t\<lparr>tb_nextFragmentID := tb_nextFragmentID t + k\<rparr>) w1 m0"
    and "lasting t w (t\<lparr>tb_nextFragmentID := tb_nextFragmentID t + k\<rparr>) w1"
proof -
  let ?fw = "NewFragmentWriter st (tb_schema t) (tb_nextFragmentID t) tp comp"
  let ?t = "t\<lparr>tb_nextFragmentID := tb_nextFragmentID t + k\<rparr>"
  note inv0 = poised_facts(1) [OF assms(1)]
  have at: "attached t" "ok (calm w)"
    using inv0 by (simp_all add: faulty_inv_def)
  then have t: "faulty_inv t w" "canonical w" "versions w = {1..<tb_nextVersion t}" "ok (calm w)" "tb_store t = st"
    "tb_tablePath t = tp" "tb_compression t = comp" "attached t" "fits64 (tb_nextVersion t)"
    using inv0 poised_facts(6) [OF assms(1)] assms(1) by (simp_all add: poised_def attached_def)
  have fw: "fw_store ?fw = st" "fw_basePath ?fw = fragment_dir tp (tb_nextFragmentID t)"
    by (simp_all add: NewFragmentWriter_def)
  have "WriteBatch C (NewFragmentWriter (tb_store t) (tb_schema t) (tb_nextFragmentID t) (tb_tablePath t)
      (tb_compression t)) b w = (r, fw', w1)"
    using assms(6) t by simp
  from write_fragment_faults(1) [OF t(1) assms(2) this assms(3)]
  have one: "ok (calm w1)" "lasting t w ?t w1"
    by blast+
  then show "lasting t w ?t w1"
    by blast
  have same: "content w1 x = content w x" if "x \<notin> range (ckey (tb_nextFragmentID t))" for x
    using WriteColumns_faults [OF t(4) fw, of "rb_Columns b" r fw' w1] assms(6) that by (simp add: WriteBatch_def)
  have inv: "faulty_inv ?t w1"
    using assms(3,5) t(8,9) by (intro faulty_frame [OF t(1) one(2,1)]) (simp_all add: attached_def)
  have "canonical w1"
  proof (rule canonical_frame [OF t(2)])
    fix n assume "simple_name n"
    then show "content w1 (key (path_Join [path_Join [tp, ''_versions''], n])) =
        content w (key (path_Join [path_Join [tp, ''_versions''], n]))"
      using manifest_column by (intro same) blast
  qed
  moreover have "content w1 (mkey v) = content w (mkey v)" for v
    by (rule same) (simp add: image_iff)
  then have "versions w1 = {1..<tb_nextVersion t}"
    using t(3) by (simp add: versions_def)
  ultimately show "poised ?t w1 m0"
    using assms(1) one(2) inv unfolding poised_def lasting_def by simp
qed

lemma attempt_cases:
  assumes "table_attempt same C t w s calls r t' w'" and "poised t w m0"
  obtains (unwritten) b fw' e where "calls = 2 * length (rb_Columns b)" "batch_fits (tb_schema t) (rb_Columns b)"
      "WriteBatch C (NewFragmentWriter st (tb_schema t) (tb_nextFragmentID t) tp comp) b w = (Inl e, fw', w')"
      "r \<noteq> Inr ()" "t' = t" "poised t w' m0" "lasting t w t w'"
  | (evolving) mk where "calls = 0" "committing t w m0 s mk t w" "commit_manifest mk t w = (r, t', w')"
  | (inserting) b fw' w1 mk where "calls = 2 * length (rb_Columns b)" "batch_fits (tb_schema t) (rb_Columns b)"
      "WriteBatch C (NewFragmentWriter st (tb_schema t) (tb_nextFragmentID t) tp comp) b w = (Inr (), fw', w1)"
      "committing t w m0 s mk (t\<lparr>tb_nextFragmentID := tb_nextFragmentID t + 1\<rparr>) w1"
      "commit_manifest mk (t\<lparr>tb_nextFragmentID := tb_nextFragmentID t + 1\<rparr>) w1 = (r, t', w')"
  using assms(1)
proof cases
  case (attempt_add now f)
  have "Fields_ok (Fields s)"
    using poised_facts(5) [OF assms(2)] set_fld_ID_ok [OF attempt_add(5) fits32_wrap32] by (simp add: attempt_add(1) Fields_ok_iff)
  moreover have "evolve now s t w = (r, t', w')"
    using attempt_add by (simp add: AddColumn_def)
  ultimately obtain mk where "committing t w m0 s mk t w" "commit_manifest mk t w = (r, t', w')"
    by (rule evolve_commits [OF assms(2) attempt_add(4)])
  with attempt_add(2) show thesis
    by (rule evolving)
next
  case (attempt_drop now n)
  have "Fields_ok (Fields s)"
    using poised_facts(5) [OF assms(2)] by (auto simp: attempt_drop(1) Fields_ok_iff list_all_iff)
  moreover have "evolve now s t w = (r, t', w')"
    using attempt_drop by (simp add: DropColumn_def)
  ultimately obtain mk where "committing t w m0 s mk t w" "commit_manifest mk t w = (r, t', w')"
    by (rule evolve_commits [OF assms(2) attempt_drop(4)])
  with attempt_drop(2) show thesis
    by (rule evolving)
next
  case (attempt_insert now bs rf b)
  let ?fid = "tb_nextFragmentID t"
  let ?fw = "NewFragmentWriter st (tb_schema t) ?fid tp comp"
  note m0 = poised_facts [OF assms(2)]
  have t: "tb_store t = st" "tb_tablePath t = tp" "tb_compression t = comp"
    using m0(1) by (simp_all add: faulty_inv_def attached_def)
  have gm: "gm_ok (rb_Columns b)"
    using attempt_insert(8) by (simp add: batch_fits_def)
  obtain r1 fw' w1 where w1: "WriteBatch C ?fw b w = (r1, fw', w1)"
    by (metis prod_cases3)
  note part = poised_fragments [OF assms(2) gm _ _ attempt_insert(5) w1]
  show thesis
  proof (cases r1)
    case (Inl e)
    then have run: "t' = t" "w' = w1" "rf = Inl e"
      using attempt_insert w1 t by (simp_all add: BatchInsert_def Let_def)
    have "poised t w1 m0" "lasting t w t w1"
      using part [of 0] by simp_all
    then show thesis
      by (intro unwritten [OF attempt_insert(2,8)]) (use w1 Inl run attempt_insert(3) in simp_all)
  next
    case (Inr u)
    then have wb: "WriteBatch C ?fw b w = (Inr (), fw', w1)"
      using w1 by simp
    let ?t1 = "t\<lparr>tb_nextFragmentID := ?fid + 1\<rparr>" and ?f = "Finish fw'"
    let ?mk = "\<lambda>version. (NewManifest version (tb_schema t))\<lparr>man_Fragments := man_Fragments m0 @ [?f],
      man_MaxFragmentID := ?fid, man_Timestamp := now\<rparr>"
    have one: "poised ?t1 w1 m0" "lasting t w ?t1 w1"
      using part [of 1] by simp_all
    have range: "wrap32 (?fid + 1) = ?fid + 1" "fits32 ?fid" "fits64 now"
      using m0(7) attempt_insert(5) by (simp_all add: in_range_def fits32_def)
    have wb': "WriteBatch C (NewFragmentWriter (tb_store t) (tb_schema t) ?fid (tb_tablePath t) (tb_compression t)) b w =
        (Inr (), fw', w1)"
      using wb t by simp
    have f: "fr_ID ?f = ?fid" "fragment_present w1 ?f" "Fragment_ok ?f"
      using write_fragment_faults(2) [OF m0(1) gm wb'] attempt_insert(9)
        written_batch [OF m0(1) attempt_insert(5,8) _ wb] by (simp_all add: t(2))
    have "Manifest_ok (?mk (tb_nextVersion t))"
      using f(3) range(2,3) m0(4-6) by (simp add: Manifest_ok_def NewManifest_def map_ok_def)
    moreover have "committed ?t1 w1 m0"
      using one(1) by (simp add: poised_def)
    ultimately have "committing t w m0 s ?mk ?t1 w1"
      using one f(1,2) attempt_insert(1) by (simp add: committing_def committed_def NewManifest_def)
    moreover have "commit_manifest ?mk ?t1 w1 = (r, t', w')"
      using attempt_insert(3,4,6,7) wb' m0(2) range(1)
      by (auto simp: BatchInsert_def Let_def split: prod.splits sum.splits)
    ultimately show thesis
      by (rule inserting [OF attempt_insert(2,8) wb])
  qed
qed

lemma committing_outcome:
  assumes "committing t w m0 s mk t1 w1" and "commit_manifest mk t1 w1 = (r, t', w')"
    and "Manifest_Serialize (mk (tb_nextVersion t)) = Inr all"
  shows "faulty_inv t' w'" and "lasting t w t' w'"
    and "case content w' (mkey (tb_nextVersion t)) of
       None \<Rightarrow> r \<noteq> Inr () \<and> recovers t' m0 (calm w')
     | Some data \<Rightarrow>
         if data = all then recovers t' (mk (tb_nextVersion t)) (calm w')
         else r \<noteq> Inr () \<and> (\<exists>n. data = take n all) \<and> blocked t' (calm w')"
proof -
  have v: "tb_nextVersion t1 = tb_nextVersion t"
    using assms(1) by (simp add: committing_def)
  have c: "poised t1 w1 m0" "lasting t w t1 w1" "man_Version (mk (tb_nextVersion t1)) = tb_nextVersion t1"
    "Manifest_ok (mk (tb_nextVersion t1))"
    "list_all (\<lambda>f. fragment_present w1 f \<and> fr_ID f < tb_nextFragmentID t1) (man_Fragments (mk (tb_nextVersion t1)))"
    using assms(1) unfolding v by (simp_all add: committing_def)
  have "tb_nextVersion t1 < 2 ^ 63 - 1"
    using c(1) by (simp add: poised_def)
  then show "faulty_inv t' w'"
    using commit_faults [OF poised_facts(1) [OF c(1)] _ assms(2) c(3) c(4) c(5)] by blast
  note out = commit_outcome [OF c(1,3-5) assms(2), unfolded v, OF assms(3)]
  show "lasting t w t' w'"
    using lasting_trans [OF c(2)] out by blast
  show "case content w' (mkey (tb_nextVersion t)) of
       None \<Rightarrow> r \<noteq> Inr () \<and> recovers t' m0 (calm w')
     | Some data \<Rightarrow>
         if data = all then recovers t' (mk (tb_nextVersion t)) (calm w')
         else r \<noteq> Inr () \<and> (\<exists>n. data = take n all) \<and> blocked t' (calm w')"
    using out by blast
qed

lemma poised_recovers:
  assumes "poised t w m0"
  shows "recovers t m0 (calm w)" and "content w (mkey (tb_nextVersion t)) = None"
proof -
  let ?v = "tb_nextVersion t"
  note t = poised_facts [OF assms]
  have p: "canonical (calm w)" "versions (calm w) = {1..<?v}" "man_Version m0 = ?v - 1"
    "\<And>x. VM_Get (tb_versionMgr t) (?v - 1) = Some x \<Longrightarrow> x = m0"
    using assms by (simp_all add: poised_def canonical_def versions_def)
  have f: "ok (calm w)" "attached t" "1 < ?v"
    using t(1) by (simp_all add: faulty_inv_def)
  have "stored w (?v - 1) = Some m0"
    using t(3) p(3) by (simp add: committed_def)
  then obtain d where d: "content (calm w) (mkey (?v - 1)) = Some d" "DeserializeManifest d = Inr m0"
    by (auto simp: stored_def split: option.splits sum.splits)
  show "recovers t m0 (calm w)"
    by (rule latest_decides(1) [OF f(1) p(1) _ _ _ f(2) d(1,2)]) (use p t(6) f(3) in simp_all)
  have "?v \<notin> versions (calm w)"
    by (simp add: p(2))
  then show "content w (mkey ?v) = None"
    using t(6) by (simp add: versions_def)
qed

end

section \<open>The local file system\<close>

context local_history
begin

text \<open>A file operation that no fault strikes is the one of the calm disk.\<close>

lemma LocalFS_IoOk:
  "LocalFS_Write root p d (w\<lparr>plan := []\<rparr>) = (Inr (), w1) \<Longrightarrow> plan w1 = [] \<and>
     LocalFS_Write root p d (w\<lparr>plan := IoOk # fs\<rparr>) = (Inr (), w1\<lparr>plan := fs\<rparr>)"
  "LocalFS_Size root p (w\<lparr>plan := []\<rparr>) = (Inr n, w1) \<Longrightarrow> plan w1 = [] \<and>
     LocalFS_Size root p (w\<lparr>plan := IoOk # fs\<rparr>) = (Inr n, w1\<lparr>plan := fs\<rparr>)"
proof -
  have io: "next_io (w\<lparr>plan := []\<rparr>) = (IoOk, w\<lparr>plan := []\<rparr>)" "next_io (w\<lparr>plan := IoOk # fs\<rparr>) = (IoOk, w\<lparr>plan := fs\<rparr>)"
    by (simp_all add: next_io_def)
  show "plan w1 = [] \<and> LocalFS_Write root p d (w\<lparr>plan := IoOk # fs\<rparr>) = (Inr (), w1\<lparr>plan := fs\<rparr>)"
    if run: "LocalFS_Write root p d (w\<lparr>plan := []\<rparr>) = (Inr (), w1)"
  proof -
    let ?q = "butlast (resolve_path (cwd w) (LocalFS_resolve root p))"
    obtain u where u: "os_MkdirAll ?q w = Inr u"
      using run by (cases "os_MkdirAll ?q w") (simp_all add: LocalFS_Write_def io Let_def)
    then obtain u2 where "os_WriteFile (LocalFS_resolve root p) d u = Inr u2"
      using run by (cases "os_WriteFile (LocalFS_resolve root p) d u") (simp_all add: LocalFS_Write_def io Let_def)
    with u run show ?thesis
      by (auto simp: LocalFS_Write_def io Let_def)
  qed
  show "plan w1 = [] \<and> LocalFS_Size root p (w\<lparr>plan := IoOk # fs\<rparr>) = (Inr n, w1\<lparr>plan := fs\<rparr>)"
    if "LocalFS_Size root p (w\<lparr>plan := []\<rparr>) = (Inr n, w1)"
    using that by (auto simp: LocalFS_Size_def io split: sum.splits node.splits)
qed

lemma WriteColumn_IoOk:
  assumes "fw_store fw = LocalFS root" and "WriteColumn C fw i d (w\<lparr>plan := []\<rparr>) = (Inr (), fw', w1)"
  shows "fw_store fw' = LocalFS root \<and> plan w1 = [] \<and>
    WriteColumn C fw i d (w\<lparr>plan := IoOk # IoOk # fs\<rparr>) = (Inr (), fw', w1\<lparr>plan := fs\<rparr>)"
proof -
  obtain f page where f: "FieldByID (fw_schema fw) i = Some f" "MiniBlock_Encode C (fw_encoder fw) d (fld_Type f) = Inr page"
    using assms(2) by (auto simp: WriteColumn_def split: option.splits sum.splits)
  let ?p = "column_path (fw_basePath fw) i"
  obtain r1 u where u: "LocalFS_Write root ?p page (w\<lparr>plan := []\<rparr>) = (r1, u)"
    by fastforce
  then have r1: "r1 = Inr ()"
    using assms f by (cases r1) (simp_all add: WriteColumn_def)
  obtain r2 u2 where u2: "LocalFS_Size root ?p u = (r2, u2)"
    by fastforce
  then obtain n where n: "r2 = Inr n"
    using assms f u r1 by (cases r2) (simp_all add: WriteColumn_def)
  obtain rows where rows: "inferNumRows d f = Inr rows" "u2 = w1"
    using assms f u r1 u2 n by (cases "inferNumRows d f") (simp_all add: WriteColumn_def)
  note written = LocalFS_IoOk(1) [OF u [unfolded r1], of "IoOk # fs"]
  then have "u\<lparr>plan := []\<rparr> = u"
    by (cases u) simp
  then have "plan w1 = [] \<and> LocalFS_Size root ?p (u\<lparr>plan := IoOk # fs\<rparr>) = (Inr n, w1\<lparr>plan := fs\<rparr>)"
    using u2 n rows(2) by (intro LocalFS_IoOk(2)) simp
  then show ?thesis
    using assms f u r1 u2 n rows written by (auto simp: WriteColumn_def)
qed

lemma WriteColumns_IoOk:
  assumes "fw_store fw = LocalFS root" and "plan w = []" and "WriteColumns C fw cols w = (Inr (), fw', w1)"
  shows "WriteColumns C fw cols (w\<lparr>plan := replicate (2 * length cols) IoOk @ fs\<rparr>) = (Inr (), fw', w1\<lparr>plan := fs\<rparr>)"
  using assms
proof (induction cols arbitrary: fw w)
  case (Cons x cols)
  obtain i d where x: "x = (i, d)"
    by (cases x)
  have w: "w\<lparr>plan := []\<rparr> = w"
    using Cons.prems(2) by (cases w) simp
  obtain r2 fw2 w2 where c: "WriteColumn C fw i d w = (r2, fw2, w2)"
    by (metis prod_cases3)
  then have r2: "r2 = Inr ()" "WriteColumns C fw2 cols w2 = (Inr (), fw', w1)"
    using Cons.prems(3) by (cases r2; simp add: x)+
  have "WriteColumn C fw i d (w\<lparr>plan := []\<rparr>) = (Inr (), fw2, w2)"
    using c r2(1) w by simp
  from WriteColumn_IoOk [OF Cons.prems(1) this, of "replicate (2 * length cols) IoOk @ fs"] Cons.IH [OF _ _ r2(2)]
  show ?case
    by (simp add: x)
qed simp

lemma WriteBatch_IoOk:
  assumes "fs_ready c (table_key c root tp) (w\<lparr>plan := []\<rparr>)" and "batch_fits s (rb_Columns b)"
    and "plan w = replicate (2 * length (rb_Columns b)) IoOk @ fs"
    and "WriteBatch C (NewFragmentWriter (LocalFS root) s fid tp comp) b w = (r, fw', w1)"
  shows "r = Inr () \<and> plan w1 = fs"
proof -
  let ?fw = "NewFragmentWriter (LocalFS root) s fid tp comp" and ?w = "w\<lparr>plan := []\<rparr>"
  obtain w2 fw2 where w2: "WriteBatch C ?fw b ?w = (Inr (), fw2, w2)"
    by (rule frag.WriteBatch_holds [OF assms(1,2)])
  have "w = ?w\<lparr>plan := replicate (2 * length (rb_Columns b)) IoOk @ fs\<rparr>"
    using assms(3) by (cases w) simp
  then have "WriteBatch C ?fw b w = (Inr (), fw2, w2\<lparr>plan := fs\<rparr>)"
    using WriteColumns_IoOk [of ?fw ?w "rb_Columns b" fw2 w2 fs] w2 by (simp add: WriteBatch_def NewFragmentWriter_def)
  with assms(4) show ?thesis
    by auto
qed

text \<open>A commit whose manifest is written when the plan says so.\<close>

lemma committing_torn:
  assumes "faults.committing t w m0 s mk t1 w1" and "commit_manifest mk t1 w1 = (r, t', w')" and "plan w1 = IoTorn n # fs"
    and "Manifest_Serialize (mk (tb_nextVersion t)) = Inr all"
  shows "r = Inl (StoErr ErrOS) \<and> plan w' = fs \<and> file_content w' (mkey (tb_nextVersion t)) = Some (take n all)"
proof -
  have v: "tb_nextVersion t1 = tb_nextVersion t" and c: "faults.poised t1 w1 m0"
    and mk: "man_Version (mk (tb_nextVersion t1)) = tb_nextVersion t1"
    using assms(1) by (simp_all add: faults.committing_def)
  have "tb_nextVersion t1 < 2 ^ 63 - 1"
    using c by (simp add: faults.poised_def)
  from torn_commit [OF faults.poised_facts(1) [OF c] this mk assms(3,2)] assms(4) show ?thesis
    by (simp add: v)
qed

lemma attempt_poised:
  assumes "table_reach same C c root tp comp t w" and "table_attempt same C t (w\<lparr>plan := p\<rparr>) s calls r t' w'"
    and "fst (LatestManifest t w) = Inr m0"
  shows "faults.poised t (w\<lparr>plan := p\<rparr>) m0" and "table_inv t ((w\<lparr>plan := p\<rparr>)\<lparr>plan := []\<rparr>)" and "w\<lparr>plan := []\<rparr> = w"
proof -
  have inv: "table_inv t w"
    by (rule reach_inv [OF assms(1)])
  then have "fs_ready c (table_key c root tp) w"
    by (simp add: table_inv_def)
  then show calm: "w\<lparr>plan := []\<rparr> = w"
    by (rule ready_calm)
  with inv show at: "table_inv t ((w\<lparr>plan := p\<rparr>)\<lparr>plan := []\<rparr>)"
    by simp
  have "tb_nextVersion t < 2 ^ 63 - 1"
    using assms(2) by cases (simp_all add: in_range_def)
  then obtain m where m: "faults.poised t (w\<lparr>plan := p\<rparr>) m"
    using faults.inv_poised [OF at] by blast
  then have "recovers t m w"
    using faults.poised_recovers(1) [OF m] calm by simp
  with m assms(3) show "faults.poised t (w\<lparr>plan := p\<rparr>) m0"
    by (simp add: recovers_def)
qed

lemma attempt_outcome:
  assumes "table_reach same C c root tp comp t w" and "table_attempt same C t (w\<lparr>plan := p\<rparr>) s calls r t' w'"
    and "fst (LatestManifest t w) = Inr m0"
  shows "\<exists>m all. Manifest_Serialize m = Inr all \<and> man_Version m = tb_nextVersion t \<and> man_Schema m = s \<and>
      (\<exists>new. man_Fragments m = man_Fragments m0 @ new) \<and>
      (case file_content w' (mkey (tb_nextVersion t)) of
         None \<Rightarrow> r \<noteq> Inr () \<and> recovers t' m0 (w'\<lparr>plan := []\<rparr>)
       | Some data \<Rightarrow>
           if data = all then recovers t' m (w'\<lparr>plan := []\<rparr>)
           else r \<noteq> Inr () \<and> (\<exists>n. data = take n all) \<and> blocked t' (w'\<lparr>plan := []\<rparr>)) \<and>
      (\<forall>n fs. p = replicate calls IoOk @ IoTorn n # fs \<longrightarrow> r = Inl (StoErr ErrOS) \<and> plan w' = fs \<and>
         file_content w' (mkey (tb_nextVersion t)) = Some (take n all))"
    and "faults.faulty_inv t' w' \<and> faults.lasting t (w\<lparr>plan := p\<rparr>) t' w'"
proof -
  let ?v = "tb_nextVersion t" and ?w = "w\<lparr>plan := p\<rparr>"
  note pre = attempt_poised [OF assms]
  have ready: "fs_ready c (table_key c root tp) (?w\<lparr>plan := []\<rparr>)"
    using pre(2) by (simp add: table_inv_def)
  have "(\<exists>m all. Manifest_Serialize m = Inr all \<and> man_Version m = ?v \<and> man_Schema m = s \<and>
      (\<exists>new. man_Fragments m = man_Fragments m0 @ new) \<and>
      (case file_content w' (mkey ?v) of
         None \<Rightarrow> r \<noteq> Inr () \<and> recovers t' m0 (w'\<lparr>plan := []\<rparr>)
       | Some data \<Rightarrow>
           if data = all then recovers t' m (w'\<lparr>plan := []\<rparr>)
           else r \<noteq> Inr () \<and> (\<exists>n. data = take n all) \<and> blocked t' (w'\<lparr>plan := []\<rparr>)) \<and>
      (\<forall>n fs. p = replicate calls IoOk @ IoTorn n # fs \<longrightarrow> r = Inl (StoErr ErrOS) \<and> plan w' = fs \<and>
         file_content w' (mkey ?v) = Some (take n all))) \<and>
    faults.faulty_inv t' w' \<and> faults.lasting t ?w t' w'"
  proof (cases rule: faults.attempt_cases [OF assms(2) pre(1)])
    case unwritten: (1 b fw' e)
    let ?m = "(NewManifest ?v s)\<lparr>man_Fragments := man_Fragments m0\<rparr>"
    note left = faults.poised_recovers [OF unwritten(6)]
    have "p \<noteq> replicate calls IoOk @ IoTorn n # fs" for n fs
      using WriteBatch_IoOk [OF ready unwritten(2) _ unwritten(3)] by (auto simp: unwritten(1))
    moreover have "Manifest_Serialize ?m = Inr (bytes_of_string (print_json (enc_Manifest ?m)))"
      by (simp add: Manifest_Serialize_def)
    moreover have "man_Version ?m = ?v" "man_Schema ?m = s" "man_Fragments ?m = man_Fragments m0 @ []"
      by (simp_all add: NewManifest_def)
    ultimately show ?thesis
      using left unwritten(4,5,7) faults.poised_facts(1) [OF unwritten(6)] by (auto intro!: exI [of _ ?m])
  next
    case evolving: (2 mk)
    obtain all where all: "Manifest_Serialize (mk ?v) = Inr all"
      by (simp add: Manifest_Serialize_def)
    note out = faults.committing_outcome [OF evolving(2,3) all]
    have "man_Version (mk ?v) = ?v \<and> man_Schema (mk ?v) = s \<and> (\<exists>new. man_Fragments (mk ?v) = man_Fragments m0 @ new)"
      using evolving(2) by (simp add: faults.committing_def)
    moreover have "r = Inl (StoErr ErrOS) \<and> plan w' = fs \<and> file_content w' (mkey ?v) = Some (take n all)"
      if "p = replicate calls IoOk @ IoTorn n # fs" for n fs
      using that evolving(1) by (intro committing_torn [OF evolving(2,3) _ all]) simp
    ultimately show ?thesis
      using all out by blast
  next
    case inserting: (3 b fw' w1 mk)
    obtain all where all: "Manifest_Serialize (mk ?v) = Inr all"
      by (simp add: Manifest_Serialize_def)
    note out = faults.committing_outcome [OF inserting(4,5) all]
    have "man_Version (mk ?v) = ?v \<and> man_Schema (mk ?v) = s \<and> (\<exists>new. man_Fragments (mk ?v) = man_Fragments m0 @ new)"
      using inserting(4) by (simp add: faults.committing_def)
    moreover have "r = Inl (StoErr ErrOS) \<and> plan w' = fs \<and> file_content w' (mkey ?v) = Some (take n all)"
      if "p = replicate calls IoOk @ IoTorn n # fs" for n fs
    proof (rule committing_torn [OF inserting(4,5) _ all])
      show "plan w1 = IoTorn n # fs"
        using WriteBatch_IoOk [OF ready inserting(2) _ inserting(3), of "IoTorn n # fs"] that inserting(1) by simp
    qed
    ultimately show ?thesis
      using all out by blast
  qed
  then show "\<exists>m all. Manifest_Serialize m = Inr all \<and> man_Version m = ?v \<and> man_Schema m = s \<and>
      (\<exists>new. man_Fragments m = man_Fragments m0 @ new) \<and>
      (case file_content w' (mkey ?v) of
         None \<Rightarrow> r \<noteq> Inr () \<and> recovers t' m0 (w'\<lparr>plan := []\<rparr>)
       | Some data \<Rightarrow>
           if data = all then recovers t' m (w'\<lparr>plan := []\<rparr>)
           else r \<noteq> Inr () \<and> (\<exists>n. data = take n all) \<and> blocked t' (w'\<lparr>plan := []\<rparr>)) \<and>
      (\<forall>n fs. p = replicate calls IoOk @ IoTorn n # fs \<longrightarrow> r = Inl (StoErr ErrOS) \<and> plan w' = fs \<and>
         file_content w' (mkey ?v) = Some (take n all))"
    and "faults.faulty_inv t' w' \<and> faults.lasting t ?w t' w'"
    by blast+
qed

lemma attempt_intact:
  assumes "table_reach same C c root tp comp t w" and "table_attempt same C t (w\<lparr>plan := p\<rparr>) s calls r t' w'"
    and "fst (LatestManifest t w) = Inr m0" and "fits64 v" and "fst (CheckoutVersion t v w) = Inr m"
  shows "fst (MS_Read ms v (w'\<lparr>plan := []\<rparr>)) = Inr m \<and>
    (\<forall>f \<in> set (man_Fragments m). \<forall>rd i. frd_store rd = LocalFS root \<longrightarrow>
       fst (ReadColumn D rd f i (w'\<lparr>plan := []\<rparr>)) = fst (ReadColumn D rd f i w))"
proof -
  note pre = attempt_poised [OF assms(1-3)]
  have "(table_try same C)\<^sup>*\<^sup>* (t, w\<lparr>plan := p\<rparr>) (t, w\<lparr>plan := p\<rparr>)"
    by simp
  from tries_faulty(2) [OF assms(1) this assms(4,5)]
  have com: "faults.committed t (w\<lparr>plan := p\<rparr>) m" and v: "man_Version m = v"
    by blast+
  note out = attempt_outcome(2) [OF assms(1-3)]
  show ?thesis
    using faults.committed_reads [OF faults.poised_facts(1) [OF pre(1)] conjunct1 [OF out] conjunct2 [OF out] com, of D]
    by (simp add: v pre(3))
qed

lemma reach_latest:
  assumes "table_reach same C c root tp comp t w" and "tb_nextVersion t < 2 ^ 63 - 1"
  shows "\<exists>m0. fst (LatestManifest t w) = Inr m0"
proof -
  have inv: "table_inv t w"
    by (rule reach_inv [OF assms(1)])
  then have "fs_ready c (table_key c root tp) w"
    by (simp add: table_inv_def)
  then have calm: "w\<lparr>plan := []\<rparr> = w"
    by (rule ready_calm)
  obtain m where "faults.poised t w m"
    using faults.inv_poised [of t w] inv calm assms(2) by metis
  then show ?thesis
    using faults.poised_recovers(1) calm by (fastforce simp: recovers_def)
qed

end

section \<open>Properties\<close>

text \<open>
  C27: an insert of fitting batches, or a schema change that is not refused, under any faults leaves the
  next manifest in one of three states: no file, then the call has failed and the table is opened with
  the version before; a complete file, then the table is opened with the new version even if the call
  has failed; or a proper prefix, then the call has failed and the table cannot be opened at all, nor
  its latest manifest be read. When the write of the manifest is the one that is cut short, after any
  number of bytes, exactly these bytes are its file. In every case the versions that could be checked
  out before are read as they were, with every column.
\<close>

theorem torn_commit_blocks_open:
  assumes "join_safe tp" and "codec_ok C cmp (effective_block_size (NewMiniBlockEncoder cmp))"
    and "table_reach same C c root tp cmp t w" and "table_attempt same C t (w\<lparr>plan := p\<rparr>) s calls r t' w'"
    and "fst (LatestManifest t w) = Inr m0"
    and "k = table_key c root tp @ [''_versions'', FormatInt (tb_nextVersion t) @ manifestExt]"
  shows "(\<exists>m all. Manifest_Serialize m = Inr all \<and> man_Version m = tb_nextVersion t \<and> man_Schema m = s \<and>
      (\<exists>new. man_Fragments m = man_Fragments m0 @ new) \<and>
      (case file_content w' k of
         None \<Rightarrow> r \<noteq> Inr () \<and> recovers t' m0 (w'\<lparr>plan := []\<rparr>)
       | Some data \<Rightarrow>
           if data = all then recovers t' m (w'\<lparr>plan := []\<rparr>)
           else r \<noteq> Inr () \<and> (\<exists>n. data = take n all) \<and> blocked t' (w'\<lparr>plan := []\<rparr>)) \<and>
      (\<forall>n fs. p = replicate calls IoOk @ IoTorn n # fs \<longrightarrow>
         r = Inl (StoErr ErrOS) \<and> plan w' = fs \<and> file_content w' k = Some (take n all))) \<and>
    (\<forall>v m. fits64 v \<and> fst (CheckoutVersion t v w) = Inr m \<longrightarrow>
      fst (MS_Read (local_ms root tp) v (w'\<lparr>plan := []\<rparr>)) = Inr m \<and>
      (\<forall>f \<in> set (man_Fragments m). \<forall>rd i. frd_store rd = LocalFS root \<longrightarrow>
         fst (ReadColumn D rd f i (w'\<lparr>plan := []\<rparr>)) = fst (ReadColumn D rd f i w)))"
proof -
  note hist = local_historyI [OF assms(1,2)]
  have k: "under_root c root (manifestPath (NewManifestStore (LocalFS root) (path_Join [tp, ''_versions''])) (tb_nextVersion t)) = k"
    using versions_file(1) [OF local_history.versions_path [OF hist], of "FormatInt (tb_nextVersion t) @ manifestExt"]
    by (simp add: manifestPath_def NewManifestStore_def assms(6))
  note out = local_history.attempt_outcome(1) [OF hist assms(3-5), unfolded k]
  note old = local_history.attempt_intact [OF hist assms(3-5), folded versions_dir_def, folded local_ms_def]
  show ?thesis
    using out old by blast
qed

lemma manifest_text_long:
  assumes "Manifest_Serialize m = Inr all"
  shows "take 3 all \<noteq> all"
proof -
  have "3 < length (print_json (enc_Manifest m))"
    by (simp add: enc_Manifest_def)
  moreover have "length all = length (print_json (enc_Manifest m))"
    using assms by (auto simp: Manifest_Serialize_def bytes_of_string_def)
  ultimately show ?thesis
    by (metis length_take min_less_iff_conj less_irrefl)
qed

theorem torn_commit_blocks_open_witness:
  "\<exists>t w r t' w'.
     AddColumn 7 t (Field 0 ''x'' TypeInt64 False 0 [] None) (w\<lparr>plan := [IoTorn 3]\<rparr>) = (r, t', w') \<and>
     r = Inl (StoErr ErrOS) \<and> blocked t' (w'\<lparr>plan := []\<rparr>) \<and>
     fst (MS_Read (local_ms ''/db'' ''t'') 1 (w'\<lparr>plan := []\<rparr>)) =
       Inr ((NewManifest 1 (NewSchema []))\<lparr>man_MaxFragmentID := 0, man_Timestamp := 0\<rparr>)"
proof -
  let ?f = "Field 0 ''x'' TypeInt64 False 0 [] None"
  let ?m = "(NewManifest 1 (NewSchema []))\<lparr>man_MaxFragmentID := 0, man_Timestamp := 0\<rparr>"
  obtain t w where t: "table_reach (\<lambda>_ _. True) no_codecs [] ''/db'' ''t'' CompressionNone t w"
    "tb_schema t = NewSchema []" "tb_nextVersion t = 2" "tb_nextFragmentID t = 0"
    "fst (CheckoutVersion t 1 w) = Inr ?m"
    using example_table [of "NewSchema []"] by (auto simp: NewSchema_def)
  obtain r t' w' where a: "AddColumn 7 t ?f (w\<lparr>plan := [IoTorn 3]\<rparr>) = (r, t', w')"
    by (metis prod_cases3)
  have range: "in_range t 7" "Field_ok ?f" "\<not> HasField (tb_schema t) (fld_Name ?f)"
    by (simp_all add: in_range_def t fits64_def NewSchema_def HasField_def FieldByName_def fits32_def DataType_ok_def
        DataType_of_code_def utf8_ok_ascii)
  note att = table_attempt.attempt_add [OF a range]
  obtain m0 where m0: "fst (LatestManifest t w) = Inr m0"
    using local_history.reach_latest [OF local_historyI [OF join_safe_t no_codecs_ok] t(1)] t(3) by auto
  note torn = torn_commit_blocks_open [where D = no_codecs, OF join_safe_t no_codecs_ok t(1) att m0 refl]
  then obtain m all where m: "Manifest_Serialize m = Inr all" "r = Inl (StoErr ErrOS)"
    "if take 3 all = all then recovers t' m (w'\<lparr>plan := []\<rparr>) else blocked t' (w'\<lparr>plan := []\<rparr>)"
    by (auto split: if_splits)
  then have "blocked t' (w'\<lparr>plan := []\<rparr>)"
    using manifest_text_long [OF m(1)] by simp
  have "fits64 1"
    by (simp add: fits64_def)
  then have "fst (MS_Read (local_ms ''/db'' ''t'') 1 (w'\<lparr>plan := []\<rparr>)) = Inr ?m"
    using torn t(5) by blast
  with \<open>blocked t' (w'\<lparr>plan := []\<rparr>)\<close> a m(2) show ?thesis
    by blast
qed

end
