(* ===== verification/ScanFilter.thy ===== *)
theory ScanFilter
  imports FragmentIO Distance
begin

text \<open>
  \<^verbatim>\<open>src/query/types.go\<close> and \<^verbatim>\<open>src/query/scan_filter.go\<close>: the conditions of a query and the rows
  of a manifest that meet them all.
\<close>

section \<open>Queries\<close>

datatype OpType = OpEQ | OpNE | OpLT | OpGT | OpLE | OpGE | OpIn | OpBetween | OpOther int

text \<open>The dynamic types the code tells apart, and slices of them, which \<open>reflect\<close> takes apart.\<close>

datatype scalar =
  SInt int | SInt32 "32 word" | SInt64 "64 word" | SFloat32 f32 | SFloat64 f64 | SString string | SOther

datatype cond_value = CScalar scalar | CSlice "scalar list"

record VectorQuery =
  vq_Vector :: "f32 list"
  vq_Column :: string
  vq_Metric :: DistanceMetric
  vq_NumPartitions :: int
  vq_NProbes :: int

record ScalarCondition =
  sc_Column :: string
  sc_Operator :: OpType
  sc_Value :: cond_value

record ScalarFilter =
  sf_Conditions :: "ScalarCondition list"

record Query =
  q_Vector :: "VectorQuery option"
  q_Filter :: "ScalarFilter option"
  q_Limit :: int
  q_Columns :: "string list"
  q_Timeout :: int

section \<open>One value and one condition\<close>

fun toFloat64 :: "scalar \<Rightarrow> f64 option" where
  "toFloat64 (SInt n) = Some (f64_of_int n)"
| "toFloat64 (SInt32 n) = Some (f64_of_int (sint n))"
| "toFloat64 (SInt64 n) = Some (f64_of_int (sint n))"
| "toFloat64 (SFloat32 x) = Some (f64_of_f32 x)"
| "toFloat64 (SFloat64 x) = Some x"
| "toFloat64 _ = None"

definition valuesEqual :: "scalar \<Rightarrow> scalar \<Rightarrow> bool" where
  "valuesEqual a b =
     (case toFloat64 a of
        Some af \<Rightarrow> (case toFloat64 b of Some bf \<Rightarrow> f64_eq af bf | None \<Rightarrow> False)
      | None \<Rightarrow> (case (a, b) of (SString s, SString t) \<Rightarrow> s = t | _ \<Rightarrow> False))"

definition compareNumeric :: "scalar \<Rightarrow> scalar \<Rightarrow> int option" where
  "compareNumeric a b =
     (case toFloat64 a of
        None \<Rightarrow> None
      | Some af \<Rightarrow>
          (case toFloat64 b of
             None \<Rightarrow> None
           | Some bf \<Rightarrow> Some (if f64_lt af bf then -1 else if f64_lt bf af then 1 else 0)))"

definition inSet :: "scalar \<Rightarrow> cond_value \<Rightarrow> bool" where
  "inSet v s = (case s of CScalar x \<Rightarrow> False | CSlice xs \<Rightarrow> list_ex (valuesEqual v) xs)"

definition betweenRange :: "scalar \<Rightarrow> cond_value \<Rightarrow> bool" where
  "betweenRange v r =
     (case r of
        CSlice [lo, hi] \<Rightarrow>
          (case (compareNumeric v lo, compareNumeric v hi) of
             (Some cLo, Some cHi) \<Rightarrow> cLo \<ge> 0 \<and> cHi \<le> 0
           | _ \<Rightarrow> False)
      | _ \<Rightarrow> False)"

text \<open>A slice as the right-hand side of a comparison is no number and no string.\<close>

definition as_scalar :: "cond_value \<Rightarrow> scalar" where
  "as_scalar v = (case v of CScalar x \<Rightarrow> x | CSlice xs \<Rightarrow> SOther)"

definition matchesCondition :: "scalar \<Rightarrow> ScalarCondition \<Rightarrow> bool" where
  "matchesCondition v cond =
     (let rhs = as_scalar (sc_Value cond); c = compareNumeric v rhs in
      case sc_Operator cond of
        OpEQ \<Rightarrow> valuesEqual v rhs
      | OpNE \<Rightarrow> \<not> valuesEqual v rhs
      | OpLT \<Rightarrow> (case c of Some n \<Rightarrow> n < 0 | None \<Rightarrow> False)
      | OpGT \<Rightarrow> (case c of Some n \<Rightarrow> n > 0 | None \<Rightarrow> False)
      | OpLE \<Rightarrow> (case c of Some n \<Rightarrow> n \<le> 0 | None \<Rightarrow> False)
      | OpGE \<Rightarrow> (case c of Some n \<Rightarrow> n \<ge> 0 | None \<Rightarrow> False)
      | OpIn \<Rightarrow> inSet v (sc_Value cond)
      | OpBetween \<Rightarrow> betweenRange v (sc_Value cond)
      | OpOther n \<Rightarrow> False)"

section \<open>A column\<close>

text \<open>The values of the columns a filter supports.\<close>

fun column_scalars :: "column \<Rightarrow> scalar list option" where
  "column_scalars (Int64s d) = Some (map SInt64 d)"
| "column_scalars (Int32s d) = Some (map SInt32 d)"
| "column_scalars (Float32s d) = Some (map SFloat32 d)"
| "column_scalars (Float64s d) = Some (map SFloat64 d)"
| "column_scalars (Strings d) = Some (map SString d)"
| "column_scalars _ = None"

definition evaluateColumn :: "column \<Rightarrow> ScalarCondition \<Rightarrow> int \<Rightarrow> bool list res" where
  "evaluateColumn data cond numRows =
     (if numRows < 0 then Inl (GoPanic MakeSlice)
      else case column_scalars data of
        None \<Rightarrow> Inl (QryErr ErrFilterColumnType)
      | Some d \<Rightarrow>
          let n = nat numRows in
          Inr (map (\<lambda>v. matchesCondition v cond) (take n d) @ replicate (n - length d) False))"

section \<open>The scan\<close>

record 'w ScanFilter =
  scan_reader :: "'w FragmentReader"
  scan_schema :: Schema

definition NewScanFilter :: "'w FragmentReader \<Rightarrow> Schema \<Rightarrow> 'w ScanFilter" where
  "NewScanFilter reader schema = \<lparr>scan_reader = reader, scan_schema = schema\<rparr>"

definition fragment_rows :: "Fragment \<Rightarrow> int" where
  "fragment_rows frag = (if fr_PhysicalRows frag > 0 then fr_PhysicalRows frag else fr_NumRows frag)"

text \<open>The loop over the conditions on one fragment.\<close>

fun scan_conditions ::
  "codecs \<Rightarrow> 'w ScanFilter \<Rightarrow> Fragment \<Rightarrow> int \<Rightarrow> ScalarCondition list \<Rightarrow> bool list \<Rightarrow> 'w \<Rightarrow>
     bool list res \<times> 'w" where
  "scan_conditions C s frag numRows [] matched w = (Inr matched, w)"
| "scan_conditions C s frag numRows (cond # conds) matched w =
     (case FieldByName (scan_schema s) (sc_Column cond) of
        None \<Rightarrow> (Inl (QryErr ErrColumnNotFound), w)
      | Some field \<Rightarrow>
          (case ReadColumn C (scan_reader s) frag (fld_ID field) w of
             (Inl e, w1) \<Rightarrow> (Inl e, w1)
           | (Inr data, w1) \<Rightarrow>
               (case evaluateColumn data cond numRows of
                  Inl e \<Rightarrow> (Inl e, w1)
                | Inr rowMatched \<Rightarrow>
                    scan_conditions C s frag numRows conds (map2 (\<and>) matched rowMatched) w1)))"

text \<open>The row numbers of the matches, from an offset.\<close>

definition matched_rows :: "int \<Rightarrow> bool list \<Rightarrow> int list" where
  "matched_rows off matched = [wrap64 (off + int i). (i, m) \<leftarrow> enumerate 0 matched, m]"

text \<open>The loop over the fragments; \<open>ctx\<close> tells whether the context has ended.\<close>

fun scan_fragments ::
  "codecs \<Rightarrow> ('w \<Rightarrow> bool) \<Rightarrow> 'w ScanFilter \<Rightarrow> ScalarCondition list \<Rightarrow> Fragment list \<Rightarrow> int \<Rightarrow> 'w \<Rightarrow>
     int list res \<times> 'w" where
  "scan_fragments C ctx s conds [] off w = (Inr [], w)"
| "scan_fragments C ctx s conds (frag # frags) off w =
     (if ctx w then (Inl (StoErr ErrCanceled), w)
      else
        let numRows = fragment_rows frag in
        if numRows < 0 then (Inl (GoPanic MakeSlice), w)
        else
          (case scan_conditions C s frag numRows conds (replicate (nat numRows) True) w of
             (Inl e, w1) \<Rightarrow> (Inl e, w1)
           | (Inr matched, w1) \<Rightarrow>
               (case scan_fragments C ctx s conds frags (wrap64 (off + numRows)) w1 of
                  (Inl e, w2) \<Rightarrow> (Inl e, w2)
                | (Inr ids, w2) \<Rightarrow> (Inr (matched_rows off matched @ ids), w2))))"

definition Filter ::
  "codecs \<Rightarrow> ('w \<Rightarrow> bool) \<Rightarrow> 'w ScanFilter \<Rightarrow> Manifest \<Rightarrow> ScalarFilter option \<Rightarrow> 'w \<Rightarrow> int list res \<times> 'w" where
  "Filter C ctx s manifest flt w =
     (case flt of
        None \<Rightarrow> (Inr [], w)
      | Some f \<Rightarrow>
          if sf_Conditions f = [] then (Inr [], w)
          else scan_fragments C ctx s (sf_Conditions f) (man_Fragments manifest) 0 w)"

section \<open>What a scan computes\<close>

text \<open>
  The rows of a list of fragments with their numbers; \<open>view\<close> gives the column that reading the field
  of a fragment returns.
\<close>

fun table_rows :: "int \<Rightarrow> Fragment list \<Rightarrow> (int \<times> Fragment \<times> nat) list" where
  "table_rows off [] = []"
| "table_rows off (f # fs) =
     map (\<lambda>i. (wrap64 (off + int i), f, i)) [0..<nat (fragment_rows f)] @
     table_rows (wrap64 (off + fragment_rows f)) fs"

definition readable ::
  "codecs \<Rightarrow> 'w FragmentReader \<Rightarrow> 'w \<Rightarrow> Fragment list \<Rightarrow> int \<Rightarrow> (Fragment \<Rightarrow> int \<Rightarrow> column) \<Rightarrow> bool" where
  "readable C r w frags i view \<longleftrightarrow> (\<forall>f \<in> set frags. ReadColumn C r f i w = (Inr (view f i), w))"

definition cond_holds :: "Schema \<Rightarrow> (Fragment \<Rightarrow> int \<Rightarrow> column) \<Rightarrow> Fragment \<Rightarrow> nat \<Rightarrow> ScalarCondition \<Rightarrow> bool" where
  "cond_holds schema view f i cond \<longleftrightarrow>
     (case FieldByName schema (sc_Column cond) of
        None \<Rightarrow> False
      | Some fld \<Rightarrow>
          (case column_scalars (view f (fld_ID fld)) of
             None \<Rightarrow> False
           | Some vs \<Rightarrow> i < length vs \<and> matchesCondition (vs ! i) cond))"

text \<open>A condition the scan can evaluate on the fragments.\<close>

definition scannable ::
  "codecs \<Rightarrow> 'w ScanFilter \<Rightarrow> 'w \<Rightarrow> Fragment list \<Rightarrow> (Fragment \<Rightarrow> int \<Rightarrow> column) \<Rightarrow> ScalarCondition \<Rightarrow> bool" where
  "scannable C s w frags view cond \<longleftrightarrow>
     (case FieldByName (scan_schema s) (sc_Column cond) of
        None \<Rightarrow> False
      | Some fld \<Rightarrow> readable C (scan_reader s) w frags (fld_ID fld) view \<and>
          (\<forall>f \<in> set frags. column_scalars (view f (fld_ID fld)) \<noteq> None))"

lemma evaluateColumn_spec:
  assumes "column_scalars data = Some vs" and "0 \<le> n"
  shows "evaluateColumn data cond n =
    Inr (map (\<lambda>i. i < length vs \<and> matchesCondition (vs ! i) cond) [0..<nat n])"
proof -
  have "map (\<lambda>v. matchesCondition v cond) (take (nat n) vs) @ replicate (nat n - length vs) False =
      map (\<lambda>i. i < length vs \<and> matchesCondition (vs ! i) cond) [0..<nat n]"
    by (rule nth_equalityI) (auto simp: nth_append)
  then show ?thesis
    using assms by (simp add: evaluateColumn_def Let_def)
qed

lemma scan_conditions_spec:
  assumes "0 \<le> fragment_rows f" and "f \<in> set frags" and "list_all (scannable C s w frags view) conds"
  shows "scan_conditions C s f (fragment_rows f) conds (map P [0..<nat (fragment_rows f)]) w =
    (Inr (map (\<lambda>i. P i \<and> list_all (cond_holds (scan_schema s) view f i) conds) [0..<nat (fragment_rows f)]), w)"
  using assms(3)
proof (induction conds arbitrary: P)
  case (Cons cond conds)
  obtain fld vs where fld: "FieldByName (scan_schema s) (sc_Column cond) = Some fld"
    "ReadColumn C (scan_reader s) f (fld_ID fld) w = (Inr (view f (fld_ID fld)), w)"
    "column_scalars (view f (fld_ID fld)) = Some vs"
    using Cons.prems assms(2) by (auto simp: scannable_def readable_def split: option.splits)
  have "map2 (\<and>) (map P [0..<n]) (map Q [0..<n]) = map (\<lambda>i. P i \<and> Q i) [0..<n]" for Q n
    by (rule nth_equalityI) simp_all
  then show ?case
    using Cons.IH [of "\<lambda>i. P i \<and> cond_holds (scan_schema s) view f i cond"] Cons.prems fld
      evaluateColumn_spec [OF fld(3) assms(1)] by (simp add: cond_holds_def)
qed simp

lemma matched_rows_map:
  "matched_rows off (map P [0..<n]) = map (\<lambda>i. wrap64 (off + int i)) (filter P [0..<n])"
proof -
  have "enumerate 0 (map P [0..<n]) = map (\<lambda>i. (i, P i)) [0..<n]"
    by (rule nth_equalityI) (simp_all add: nth_enumerate_eq)
  moreover have "concat (map (\<lambda>i. if P i then [g i] else []) xs) = map g (filter P xs)" for g :: "nat \<Rightarrow> int" and xs
    by (induction xs) simp_all
  ultimately show ?thesis
    by (simp add: matched_rows_def comp_def)
qed

lemma scan_fragments_spec:
  assumes "\<forall>f \<in> set frags. 0 \<le> fragment_rows f" and "list_all (scannable C s w all view) conds"
    and "set frags \<subseteq> set all" and "\<not> ctx w"
  shows "scan_fragments C ctx s conds frags off w =
    (Inr (map fst (filter (\<lambda>(_, f, i). list_all (cond_holds (scan_schema s) view f i) conds) (table_rows off frags))), w)"
  using assms(1,3)
proof (induction frags arbitrary: off)
  case (Cons f frags)
  have t: "replicate n True = map (\<lambda>i. True) [0..<n]" for n
    by (simp add: map_replicate_const)
  have c: "scan_conditions C s f (fragment_rows f) conds (map (\<lambda>i. True) [0..<nat (fragment_rows f)]) w =
      (Inr (map (\<lambda>i. True \<and> list_all (cond_holds (scan_schema s) view f i) conds) [0..<nat (fragment_rows f)]), w)"
    using Cons.prems by (intro scan_conditions_spec [OF _ _ assms(2)]) auto
  show ?case
    using Cons.IH [of "wrap64 (off + fragment_rows f)"] Cons.prems assms(4)
    by (simp add: Let_def t c matched_rows_map filter_map comp_def del: map_replicate_const)
qed simp

section \<open>Properties\<close>

text \<open>
  C25: \<open>Filter\<close> returns the numbers of exactly the rows that meet every condition, in ascending order
  of the fragments and of the rows in them; a row past the end of a column meets no condition. It
  holds for whatever columns the reader returns for the fields of the conditions.
\<close>

theorem Filter_correct:
  assumes "sf_Conditions flt \<noteq> []" and "\<not> ctx w"
    and "\<forall>f \<in> set (man_Fragments m). 0 \<le> fragment_rows f"
    and "list_all (scannable C s w (man_Fragments m) view) (sf_Conditions flt)"
  shows "Filter C ctx s m (Some flt) w =
    (Inr (map fst (filter (\<lambda>(_, f, i). list_all (cond_holds (scan_schema s) view f i) (sf_Conditions flt))
       (table_rows 0 (man_Fragments m)))), w)"
  using assms(1) scan_fragments_spec [where frags = "man_Fragments m" and ctx = ctx and w = w, OF assms(3,4) _ assms(2)] by (simp add: Filter_def)

lemma f64_small_ints: "f64_of_int 5 = 0x4014000000000000" "f64_of_int 3 = 0x4008000000000000"
  "f64_of_int 1 = 0x3FF0000000000000"
  by (simp_all add: f64_of_int_def int_fp_def f64_enc_def sign_bits_def encode_mag_def bitlen.simps
      fp_emin_def fp_inf_bits_def)

theorem Filter_correct_witness:
  "let schema = \<lparr>Fields = [Field 0 ''x'' TypeInt64 False 0 [] None]\<rparr>;
       r = NewFragmentReader (page_store (Int64s [1, 5]) TypeInt64) schema CompressionNone
   in Filter no_codecs (\<lambda>_. False) (NewScanFilter r schema)
        ((NewManifest 1 schema)\<lparr>man_Fragments := [page_fragment 0 2, page_fragment 1 2]\<rparr>)
        (Some \<lparr>sf_Conditions = [\<lparr>sc_Column = ''x'', sc_Operator = OpGT, sc_Value = CScalar (SInt 3)\<rparr>]\<rparr>) ()
      = (Inr [1, 3], ())"
proof -
  let ?schema = "\<lparr>Fields = [Field 0 ''x'' TypeInt64 False 0 [] None]\<rparr>"
  let ?r = "NewFragmentReader (page_store (Int64s [1, 5]) TypeInt64) ?schema CompressionNone"
  let ?s = "NewScanFilter ?r ?schema" and ?view = "\<lambda>f i. Int64s [1, 5]"
  let ?m = "(NewManifest 1 ?schema)\<lparr>man_Fragments := [page_fragment 0 2, page_fragment 1 2]\<rparr>"
  let ?cond = "\<lparr>sc_Column = ''x'', sc_Operator = OpGT, sc_Value = CScalar (SInt 3)\<rparr>"
  let ?flt = "\<lparr>sf_Conditions = [?cond]\<rparr>"
  have rd: "ReadColumn no_codecs ?r (page_fragment 0 2) 0 () = (Inr (Int64s [1, 5]), ())"
    "ReadColumn no_codecs ?r (page_fragment 1 2) 0 () = (Inr (Int64s [1, 5]), ())"
    by code_simp+
  have fr: "man_Fragments ?m = [page_fragment 0 2, page_fragment 1 2]"
    "fragment_rows (page_fragment 0 2) = 2" "fragment_rows (page_fragment 1 2) = 2"
    by (simp_all add: fragment_rows_def page_fragment_def NewFragment_def)
  have fld: "FieldByName ?schema ''x'' = Some (Field 0 ''x'' TypeInt64 False 0 [] None)"
    by (simp add: FieldByName_def)
  have scan: "list_all (scannable no_codecs ?s () (man_Fragments ?m) ?view) (sf_Conditions ?flt)"
    using rd fld by (simp add: scannable_def readable_def fr(1) NewScanFilter_def)
  have holds: "cond_holds ?schema ?view f i ?cond \<longleftrightarrow> i = 1" for f i
    using fld by (cases i; cases "i - 1")
      (simp_all add: cond_holds_def matchesCondition_def as_scalar_def compareNumeric_def
        f64_small_ints f64_lt_def f64_isnan_def f64_key_def fp_inf_bits_def)
  have rows: "table_rows 0 (man_Fragments ?m) =
      [(0, page_fragment 0 2, 0), (1, page_fragment 0 2, 1), (2, page_fragment 1 2, 0), (3, page_fragment 1 2, 1)]"
    by (simp add: fr fits64_def upt_rec)
  have "Filter no_codecs (\<lambda>_. False) ?s ?m (Some ?flt) () =
      (Inr (map fst (filter (\<lambda>(_, f, i). list_all (cond_holds (scan_schema ?s) ?view f i) (sf_Conditions ?flt))
         (table_rows 0 (man_Fragments ?m)))), ())"
    using scan fr by (intro Filter_correct) simp_all
  then show ?thesis
    unfolding rows by (simp add: Let_def holds NewScanFilter_def)
qed

end
