(* ===== verification/Search.thy ===== *)
theory Search
  imports ScanFilter
begin

text \<open>
  \<^verbatim>\<open>src/query/brute_force.go\<close>, \<^verbatim>\<open>src/query/hybrid_search.go\<close> and \<^verbatim>\<open>src/query/reranker.go\<close>: the
  full scan, its combination with scalar filters, and the merge of result lists.
\<close>

section \<open>Brute force\<close>

record 'w BruteForceSearch =
  bf_reader :: "'w FragmentReader"
  bf_schema :: Schema

definition NewBruteForceSearch :: "'w FragmentReader \<Rightarrow> Schema \<Rightarrow> 'w BruteForceSearch" where
  "NewBruteForceSearch reader schema = \<lparr>bf_reader = reader, bf_schema = schema\<rparr>"

definition vectorField :: "'w BruteForceSearch \<Rightarrow> string \<Rightarrow> Field res" where
  "vectorField b column =
     (case FieldByName (bf_schema b) column of
        None \<Rightarrow> Inl (QryErr ErrColumnNotFound)
      | Some field \<Rightarrow>
          if fld_Type field \<noteq> TypeFixedSizeList then Inl (QryErr ErrNotFixedSizeList)
          else if fld_Dimension field \<le> 0 then Inl (QryErr ErrBadDimension)
          else Inr field)"

text \<open>
  The loop over the rows \<open>i, i + 1, \<dots>\<close> of a fragment, \<open>n\<close> of them left. \<open>keep\<close> is the test on row
  numbers of \<open>filterFirst\<close>; \<open>Search\<close> keeps all rows. A row beyond the data ends the loop.
\<close>

fun scan_rows ::
  "f32 list \<Rightarrow> DistanceMetric \<Rightarrow> nat \<Rightarrow> f32 list \<Rightarrow> (int \<Rightarrow> bool) \<Rightarrow> int \<Rightarrow> nat \<Rightarrow> nat \<Rightarrow> SearchResult list res" where
  "scan_rows query metric dim vecData keep off i 0 = Inr []"
| "scan_rows query metric dim vecData keep off i (Suc n) =
     (let rowID = wrap64 (off + int i) in
      if \<not> keep rowID then scan_rows query metric dim vecData keep off (Suc i) n
      else if i * dim + dim > length vecData then Inr []
      else case Distance query (take dim (drop (i * dim) vecData)) metric of
        Inl e \<Rightarrow> Inl e
      | Inr dist \<Rightarrow>
          (case scan_rows query metric dim vecData keep off (Suc i) n of
             Inl e \<Rightarrow> Inl e
           | Inr rs \<Rightarrow> Inr (\<lparr>RowID = rowID, Score = dist\<rparr> # rs)))"

text \<open>The loop over the fragments, which \<open>Search\<close> and \<open>filterFirst\<close> share.\<close>

fun vector_scan ::
  "codecs \<Rightarrow> ('w \<Rightarrow> bool) \<Rightarrow> 'w BruteForceSearch \<Rightarrow> VectorQuery \<Rightarrow> Field \<Rightarrow> (int \<Rightarrow> bool) \<Rightarrow>
     Fragment list \<Rightarrow> int \<Rightarrow> 'w \<Rightarrow> SearchResult list res \<times> 'w" where
  "vector_scan C ctx b query field keep [] off w = (Inr [], w)"
| "vector_scan C ctx b query field keep (frag # frags) off w =
     (if ctx w then (Inl (StoErr ErrCanceled), w)
      else
        (case ReadColumn C (bf_reader b) frag (fld_ID field) w of
           (Inl e, w1) \<Rightarrow> (Inl e, w1)
         | (Inr data, w1) \<Rightarrow>
             (case data of
                Float32s vecData \<Rightarrow>
                  let numRows = fragment_rows frag in
                  (case scan_rows (vq_Vector query) (vq_Metric query) (nat (fld_Dimension field)) vecData keep off 0
                      (nat numRows) of
                     Inl e \<Rightarrow> (Inl e, w1)
                   | Inr rs \<Rightarrow>
                       (case vector_scan C ctx b query field keep frags (wrap64 (off + numRows)) w1 of
                          (Inl e, w2) \<Rightarrow> (Inl e, w2)
                        | (Inr rest, w2) \<Rightarrow> (Inr (rs @ rest), w2)))
              | _ \<Rightarrow> (Inl (QryErr ErrNotFloat32), w1))))"

definition BruteForce_Search ::
  "codecs \<Rightarrow> ('w \<Rightarrow> bool) \<Rightarrow> sorter \<Rightarrow> 'w BruteForceSearch \<Rightarrow> Manifest \<Rightarrow> VectorQuery \<Rightarrow> 'w \<Rightarrow>
     SearchResult list res \<times> 'w" where
  "BruteForce_Search C ctx srt b manifest query w =
     (case vectorField b (vq_Column query) of
        Inl e \<Rightarrow> (Inl e, w)
      | Inr field \<Rightarrow>
          if int (length (vq_Vector query)) \<noteq> fld_Dimension field then (Inl (QryErr ErrVectorLength), w)
          else
            (case vector_scan C ctx b query field (\<lambda>_. True) (man_Fragments manifest) 0 w of
               (Inl e, w1) \<Rightarrow> (Inl e, w1)
             | (Inr candidates, w1) \<Rightarrow> (Inr (sort_Slice srt score_less candidates), w1)))"

section \<open>Hybrid search\<close>

datatype SearchStrategy = StrategyFilterFirst | StrategySearchFirst | StrategyOther int

record 'w HybridSearch =
  hs_bruteForce :: "'w BruteForceSearch"
  hs_scanFilter :: "'w ScanFilter"

definition NewHybridSearch :: "'w BruteForceSearch \<Rightarrow> 'w ScanFilter \<Rightarrow> 'w HybridSearch" where
  "NewHybridSearch bf sf = \<lparr>hs_bruteForce = bf, hs_scanFilter = sf\<rparr>"

definition applyLimit :: "SearchResult list \<Rightarrow> int \<Rightarrow> SearchResult list" where
  "applyLimit results limit =
     (if limit > 0 \<and> limit < int (length results) then take (nat limit) results else results)"

definition filterFirst ::
  "codecs \<Rightarrow> ('w \<Rightarrow> bool) \<Rightarrow> sorter \<Rightarrow> 'w HybridSearch \<Rightarrow> Manifest \<Rightarrow> Query \<Rightarrow> VectorQuery \<Rightarrow> 'w \<Rightarrow>
     SearchResult list res \<times> 'w" where
  "filterFirst C ctx srt h manifest q v w =
     (case Filter C ctx (hs_scanFilter h) manifest (q_Filter q) w of
        (Inl e, w1) \<Rightarrow> (Inl e, w1)
      | (Inr rowIDs, w1) \<Rightarrow>
          if rowIDs = [] then (Inr [], w1)
          else
            (case vectorField (hs_bruteForce h) (vq_Column v) of
               Inl e \<Rightarrow> (Inl e, w1)
             | Inr field \<Rightarrow>
                 if int (length (vq_Vector v)) \<noteq> fld_Dimension field then (Inl (QryErr ErrVectorLength), w1)
                 else
                   (case vector_scan C ctx (hs_bruteForce h) v field (\<lambda>i. i \<in> set rowIDs)
                       (man_Fragments manifest) 0 w1 of
                      (Inl e, w2) \<Rightarrow> (Inl e, w2)
                    | (Inr candidates, w2) \<Rightarrow>
                        (Inr (applyLimit (sort_Slice srt score_less candidates) (q_Limit q)), w2))))"

definition searchFirst ::
  "codecs \<Rightarrow> ('w \<Rightarrow> bool) \<Rightarrow> sorter \<Rightarrow> 'w HybridSearch \<Rightarrow> Manifest \<Rightarrow> Query \<Rightarrow> VectorQuery \<Rightarrow> 'w \<Rightarrow>
     SearchResult list res \<times> 'w" where
  "searchFirst C ctx srt h manifest q v w =
     (case BruteForce_Search C ctx srt (hs_bruteForce h) manifest v w of
        (Inl e, w1) \<Rightarrow> (Inl e, w1)
      | (Inr results, w1) \<Rightarrow>
          (case Filter C ctx (hs_scanFilter h) manifest (q_Filter q) w1 of
             (Inl e, w2) \<Rightarrow> (Inl e, w2)
           | (Inr rowIDs, w2) \<Rightarrow>
               (Inr (applyLimit (filter (\<lambda>r. RowID r \<in> set rowIDs) results) (q_Limit q)), w2)))"

definition SearchWithStrategy ::
  "codecs \<Rightarrow> ('w \<Rightarrow> bool) \<Rightarrow> sorter \<Rightarrow> 'w HybridSearch \<Rightarrow> Manifest \<Rightarrow> Query \<Rightarrow> SearchStrategy \<Rightarrow> 'w \<Rightarrow>
     SearchResult list res \<times> 'w" where
  "SearchWithStrategy C ctx srt h manifest q strategy w =
     (case (q_Vector q, q_Filter q) of
        (Some v, None) \<Rightarrow>
          (case BruteForce_Search C ctx srt (hs_bruteForce h) manifest v w of
             (Inl e, w1) \<Rightarrow> (Inl e, w1)
           | (Inr results, w1) \<Rightarrow> (Inr (applyLimit results (q_Limit q)), w1))
      | (None, Some f) \<Rightarrow>
          (case Filter C ctx (hs_scanFilter h) manifest (Some f) w of
             (Inl e, w1) \<Rightarrow> (Inl e, w1)
           | (Inr rowIDs, w1) \<Rightarrow>
               (Inr (applyLimit (map (\<lambda>i. \<lparr>RowID = i, Score = 0\<rparr>) rowIDs) (q_Limit q)), w1))
      | (None, None) \<Rightarrow> (Inr [], w)
      | (Some v, Some f) \<Rightarrow>
          if strategy = StrategySearchFirst then searchFirst C ctx srt h manifest q v w
          else filterFirst C ctx srt h manifest q v w)"

definition HybridSearch_Search ::
  "codecs \<Rightarrow> ('w \<Rightarrow> bool) \<Rightarrow> sorter \<Rightarrow> 'w HybridSearch \<Rightarrow> Manifest \<Rightarrow> Query \<Rightarrow> 'w \<Rightarrow> SearchResult list res \<times> 'w" where
  "HybridSearch_Search C ctx srt h manifest q w = SearchWithStrategy C ctx srt h manifest q StrategyFilterFirst w"

section \<open>Merging\<close>

definition MergeTopK :: "sorter \<Rightarrow> SearchResult list list \<Rightarrow> int \<Rightarrow> SearchResult list" where
  "MergeTopK srt sources k =
     (let all = sort_Slice srt score_less (concat sources) in
      if k > 0 \<and> k < int (length all) then take (nat k) all else all)"

section \<open>What a scan computes\<close>

text \<open>The candidates of a scan: the rows with a whole vector, in order, and their distances.\<close>

definition row_vector :: "nat \<Rightarrow> column \<Rightarrow> nat \<Rightarrow> f32 list option" where
  "row_vector dim c i =
     (case c of Float32s v \<Rightarrow> if i * dim + dim \<le> length v then Some (take dim (drop (i * dim) v)) else None
      | _ \<Rightarrow> None)"

definition candidate ::
  "(Fragment \<Rightarrow> int \<Rightarrow> column) \<Rightarrow> Field \<Rightarrow> VectorQuery \<Rightarrow> int \<times> Fragment \<times> nat \<Rightarrow> SearchResult option" where
  "candidate view fld q row =
     (case row of (rowID, f, i) \<Rightarrow>
        (case row_vector (nat (fld_Dimension fld)) (view f (fld_ID fld)) i of
           None \<Rightarrow> None
         | Some v \<Rightarrow>
             (case Distance (vq_Vector q) v (vq_Metric q) of
                Inl e \<Rightarrow> None
              | Inr d \<Rightarrow> Some \<lparr>RowID = rowID, Score = d\<rparr>)))"

definition candidates ::
  "(Fragment \<Rightarrow> int \<Rightarrow> column) \<Rightarrow> Field \<Rightarrow> VectorQuery \<Rightarrow> Fragment list \<Rightarrow> SearchResult list" where
  "candidates view fld q frags = List.map_filter (candidate view fld q) (table_rows 0 frags)"

text \<open>The scan can read the vectors, and every whole vector has a distance.\<close>

definition searchable ::
  "codecs \<Rightarrow> 'w BruteForceSearch \<Rightarrow> 'w \<Rightarrow> Fragment list \<Rightarrow> (Fragment \<Rightarrow> int \<Rightarrow> column) \<Rightarrow> Field \<Rightarrow> VectorQuery \<Rightarrow> bool" where
  "searchable C b w frags view fld q \<longleftrightarrow>
     readable C (bf_reader b) w frags (fld_ID fld) view \<and>
     (\<forall>f \<in> set frags. \<exists>v. view f (fld_ID fld) = Float32s v \<and>
        (\<forall>i x. row_vector (nat (fld_Dimension fld)) (Float32s v) i = Some x \<longrightarrow>
           (\<exists>d. Distance (vq_Vector q) x (vq_Metric q) = Inr d)))"


lemma map_filter_none: "(\<And>x. x \<in> set xs \<Longrightarrow> f x = None) \<Longrightarrow> List.map_filter f xs = []"
  by (induction xs) (simp_all add: List.map_filter_simps)

lemma map_filter_append: "List.map_filter f (xs @ ys) = List.map_filter f xs @ List.map_filter f ys"
  by (simp add: List.map_filter_def)


lemma scan_rows_spec:
  assumes "view f (fld_ID fld) = Float32s vs"
    and "\<And>i x. row_vector (nat (fld_Dimension fld)) (Float32s vs) i = Some x \<Longrightarrow>
      \<exists>d. Distance (vq_Vector q) x (vq_Metric q) = Inr d"
  shows "scan_rows (vq_Vector q) (vq_Metric q) (nat (fld_Dimension fld)) vs keep off i n =
    Inr (List.map_filter (candidate view fld q)
      (filter (\<lambda>r. keep (fst r)) (map (\<lambda>j. (wrap64 (off + int j), f, j)) [i..<i + n])))"
proof (induction n arbitrary: i)
  case 0
  then show ?case by (simp add: List.map_filter_simps)
next
  case (Suc n)
  let ?dim = "nat (fld_Dimension fld)" and ?row = "\<lambda>j. (wrap64 (off + int j), f, j)"
  have range: "[i..<i + Suc n] = i # [Suc i..<Suc i + n]"
    by (simp add: upt_rec)
  show ?case
  proof (cases "keep (wrap64 (off + int i))")
    case False
    then show ?thesis
      using Suc [of "Suc i"] unfolding range by (simp add: Let_def)
  next
    case keep: True
    show ?thesis
    proof (cases "i * ?dim + ?dim > length vs")
      case True
      have "candidate view fld q (?row j) = None" if "i \<le> j" for j
      proof -
        have "i * ?dim \<le> j * ?dim"
          using that by (rule mult_le_mono1)
        with True have "\<not> j * ?dim + ?dim \<le> length vs"
          by linarith
        then show ?thesis
          using assms(1) by (simp add: candidate_def row_vector_def)
      qed
      then have "List.map_filter (candidate view fld q) (filter (\<lambda>r. keep (fst r)) (map ?row [i..<i + Suc n])) = []"
        by (intro map_filter_none) (auto simp del: upt_Suc)
      with True keep show ?thesis
        by (simp add: Let_def)
    next
      case False
      then have rv: "row_vector ?dim (Float32s vs) i = Some (take ?dim (drop (i * ?dim) vs))"
        by (simp add: row_vector_def)
      then obtain d where d: "Distance (vq_Vector q) (take ?dim (drop (i * ?dim) vs)) (vq_Metric q) = Inr d"
        using assms(2) by blast
      then have "candidate view fld q (?row i) = Some \<lparr>RowID = wrap64 (off + int i), Score = d\<rparr>"
        using assms(1) rv by (simp add: candidate_def)
      then show ?thesis
        using Suc [of "Suc i"] False keep d unfolding range by (simp add: Let_def List.map_filter_simps)
    qed
  qed
qed

lemma vector_scan_spec:
  assumes "searchable C b w all view fld q" and "set frags \<subseteq> set all" and "\<not> ctx w"
  shows "vector_scan C ctx b q fld keep frags off w =
    (Inr (List.map_filter (candidate view fld q) (filter (\<lambda>r. keep (fst r)) (table_rows off frags))), w)"
  using assms(2)
proof (induction frags arbitrary: off)
  case (Cons f frags)
  obtain vs where vs: "view f (fld_ID fld) = Float32s vs"
    "\<forall>i x. row_vector (nat (fld_Dimension fld)) (Float32s vs) i = Some x \<longrightarrow>
       (\<exists>d. Distance (vq_Vector q) x (vq_Metric q) = Inr d)"
    "ReadColumn C (bf_reader b) f (fld_ID fld) w = (Inr (Float32s vs), w)"
    using assms(1) Cons.prems unfolding searchable_def readable_def by force
  have "scan_rows (vq_Vector q) (vq_Metric q) (nat (fld_Dimension fld)) vs keep off 0 (nat (fragment_rows f)) =
      Inr (List.map_filter (candidate view fld q)
        (filter (\<lambda>r. keep (fst r)) (map (\<lambda>j. (wrap64 (off + int j), f, j)) [0..<0 + nat (fragment_rows f)])))"
    using vs(2) by (intro scan_rows_spec vs(1)) blast
  then show ?case
    using Cons.IH [of "wrap64 (off + fragment_rows f)"] Cons.prems vs(3) assms(3)
    by (simp add: Let_def map_filter_append)
qed (simp add: List.map_filter_simps)

lemma candidate_RowID: "candidate view fld q r = Some c \<Longrightarrow> RowID c = fst r"
  by (auto simp: candidate_def split: prod.splits option.splits sum.splits)

text \<open>Keeping rows before or after the distances are computed is the same.\<close>

lemma candidates_filter:
  "List.map_filter (candidate view fld q) (filter (\<lambda>r. P (fst r)) rows) =
     filter (\<lambda>c. P (RowID c)) (List.map_filter (candidate view fld q) rows)"
proof (induction rows)
  case (Cons r rows)
  then show ?case
    by (cases "candidate view fld q r") (auto simp: List.map_filter_simps dest: candidate_RowID)
qed (simp add: List.map_filter_simps)

section \<open>The best of several lists\<close>

text \<open>An element that is no better than \<open>k\<close> others does not enter the first \<open>k\<close>.\<close>

lemma take_insort:
  fixes b :: int
  shows "sorted zs \<Longrightarrow> k \<le> length (filter (\<lambda>z. z \<le> b) zs) \<Longrightarrow> take k (insort b zs) = take k zs"
proof (induction zs arbitrary: k)
  case (Cons z zs)
  show ?case
  proof (cases k)
    case (Suc j)
    show ?thesis
    proof (cases "b \<le> z")
      case False
      with Cons Suc show ?thesis by simp
    next
      case True
      have "filter (\<lambda>y. y \<le> b) (z # zs) \<noteq> []"
        using Cons.prems(2) Suc by auto
      then have "z \<le> b"
        using Cons.prems(1) by (auto simp: filter_empty_conv split: if_splits)
      with True have b: "b = z" by simp
      have "insort z zs = z # zs"
        using Cons.prems(1) by (simp add: insort_is_Cons)
      then have "take j (z # zs) = take j zs"
        using Cons.IH [of j] Cons.prems Suc b by simp
      with b Suc show ?thesis by simp
    qed
  qed simp
qed simp

lemma sort_append_Cons: "sort (xs @ y # ys) = insort y (sort (xs @ ys))" for y :: int
  by (intro properties_for_sort) (simp_all add: sorted_insort)

lemma take_sort_better:
  fixes as :: "int list"
  assumes "k \<le> length as" and "\<forall>a \<in> set as. \<forall>b \<in> set bs. a \<le> b"
  shows "take k (sort (as @ bs @ ys)) = take k (sort (as @ ys))"
  using assms(2)
proof (induction bs)
  case (Cons b bs)
  have "length as \<le> length (filter (\<lambda>z. z \<le> b) (sort (as @ bs @ ys)))"
  proof -
    have "filter (\<lambda>z. z \<le> b) as = as"
      using Cons.prems by (simp add: filter_id_conv)
    then have "size (filter_mset (\<lambda>z. z \<le> b) (mset as)) = length as"
      by (metis mset_filter size_mset)
    then have "length as \<le> size (filter_mset (\<lambda>z. z \<le> b) (mset (sort (as @ bs @ ys))))"
      by simp
    then show ?thesis
      by (metis mset_filter size_mset)
  qed
  then have "take k (insort b (sort (as @ bs @ ys))) = take k (sort (as @ bs @ ys))"
    using assms(1) by (intro take_insort) simp_all
  then show ?case
    using Cons by (simp add: sort_append_Cons)
qed simp

lemma take_sort_take:
  fixes xs :: "int list"
  shows "take k (sort (take k (sort xs) @ ys)) = take k (sort (xs @ ys))"
proof -
  have "sort (xs @ ys) = sort (take k (sort xs) @ drop k (sort xs) @ ys)"
  proof (rule properties_for_sort)
    have "mset (take k (sort xs) @ drop k (sort xs) @ ys) = mset (sort xs @ ys)"
      by (simp only: append_assoc [symmetric] append_take_drop_id)
    then show "mset (sort (take k (sort xs) @ drop k (sort xs) @ ys)) = mset (xs @ ys)"
      by simp
  qed simp
  moreover have "take k (sort (take k (sort xs) @ drop k (sort xs) @ ys)) = take k (sort (take k (sort xs) @ ys))"
  proof (cases "k \<le> length xs")
    case True
    have "sorted (take k (sort xs) @ drop k (sort xs))"
      by simp
    then have "\<forall>a \<in> set (take k (sort xs)). \<forall>b \<in> set (drop k (sort xs)). a \<le> b"
      unfolding sorted_append by blast
    then show ?thesis
      using True by (intro take_sort_better) simp_all
  qed simp
  ultimately show ?thesis
    by simp
qed

lemma take_sort_concat:
  fixes xss :: "int list list"
  shows "take k (sort (concat (map (\<lambda>xs. take k (sort xs)) xss) @ ys)) = take k (sort (concat xss @ ys))"
proof (induction xss arbitrary: ys)
  case (Cons xs xss)
  have swap: "sort (as @ bs @ cs) = sort (bs @ as @ cs)" for as bs cs :: "int list"
    by (intro properties_for_sort) simp_all
  have "take k (sort (take k (sort xs) @ concat (map (\<lambda>xs. take k (sort xs)) xss) @ ys)) =
      take k (sort (concat (map (\<lambda>xs. take k (sort xs)) xss) @ xs @ ys))"
    by (simp add: take_sort_take swap [of xs])
  also have "\<dots> = take k (sort (concat xss @ xs @ ys))"
    by (rule Cons.IH)
  finally show ?case
    by (simp add: swap [of xs])
qed simp

context go_sorter
begin

lemma MergeTopK_scores:
  assumes "no_nan (concat sources)" and "0 < k"
  shows "map score_key (MergeTopK srt sources k) = take (nat k) (sort (map score_key (concat sources)))"
  using sorted_scores [OF assms(1)] assms(2)
  by (auto simp: MergeTopK_def Let_def simp flip: take_map)

lemma filter_sorted_scores:
  assumes "no_nan rs"
  shows "map score_key (filter P (sort_Slice srt score_less rs)) = sort (map score_key (filter P rs))"
proof (rule properties_for_sort [symmetric])
  show "mset (map score_key (filter P (sort_Slice srt score_less rs))) = mset (map score_key (filter P rs))"
    by (simp add: mset_map mset_filter)
  have "sorted_wrt (\<lambda>x y. score_key x \<le> score_key y) (sort_Slice srt score_less rs)"
    using sorted_by_score [OF assms] by (simp add: sorted_map)
  then show "sorted (map score_key (filter P (sort_Slice srt score_less rs)))"
    by (simp add: sorted_map sorted_wrt_filter)
qed

end

lemma no_nan_filter: "no_nan rs \<Longrightarrow> no_nan (filter P rs)"
  by (simp add: no_nan_def)

lemma no_nan_concat: "no_nan (concat rss) \<longleftrightarrow> (\<forall>rs \<in> set rss. no_nan rs)"
  by (auto simp: no_nan_def)

lemma map_applyLimit: "map g (applyLimit rs l) = (if l > 0 \<and> l < int (length rs) then take (nat l) (map g rs) else map g rs)"
  by (simp add: applyLimit_def take_map)

lemma applyLimit_subset: "set (applyLimit rs l) \<subseteq> set rs"
  by (auto simp: applyLimit_def dest: in_set_takeD)

section \<open>Properties\<close>

text \<open>
  C19: the full scan returns every row that has a whole vector with its distance to the query, and
  nothing else, in ascending order of the scores when none is a NaN; for every sorting routine.
\<close>

theorem BruteForce_correct:
  assumes "sorter_ok srt" and "vectorField b (vq_Column q) = Inr fld"
    and "int (length (vq_Vector q)) = fld_Dimension fld"
    and "searchable C b w (man_Fragments m) view fld q" and "\<not> ctx w"
  shows "\<exists>rs. BruteForce_Search C ctx srt b m q w = (Inr rs, w) \<and>
    mset rs = mset (candidates view fld q (man_Fragments m)) \<and>
    (no_nan rs \<longrightarrow> sorted (map score_key rs))"
proof -
  have srt: "go_sorter srt"
    using assms(1) by (simp add: sorter_ok_iff)
  let ?cs = "candidates view fld q (man_Fragments m)"
  have "vector_scan C ctx b q fld (\<lambda>_. True) (man_Fragments m) 0 w = (Inr ?cs, w)"
    using vector_scan_spec [where ctx = ctx and w = w and keep = "\<lambda>_. True", OF assms(4) subset_refl assms(5)]
    by (simp add: candidates_def)
  then have "BruteForce_Search C ctx srt b m q w = (Inr (sort_Slice srt score_less ?cs), w)"
    using assms(2,3) by (simp add: BruteForce_Search_def)
  then show ?thesis
    using go_sorter.mset_sort_Slice [OF srt] go_sorter.sorted_by_score [OF srt] no_nan_mset by metis
qed

text \<open>
  C18: the two strategies of a hybrid search agree: filtering first and searching first return the same
  scores in the same order, only rows that match, and without a limit the same results, whenever
  every vector has a distance and no score is a NaN.
\<close>

theorem hybrid_strategies_agree:
  assumes "sorter_ok srt" and "vectorField (hs_bruteForce h) (vq_Column v) = Inr fld"
    and "int (length (vq_Vector v)) = fld_Dimension fld"
    and "searchable C (hs_bruteForce h) w (man_Fragments m) view fld v" and "\<not> ctx w"
    and "Filter C ctx (hs_scanFilter h) m (q_Filter q) w = (Inr ids, w)"
    and "no_nan (candidates view fld v (man_Fragments m))"
  shows "\<exists>rs rs'. filterFirst C ctx srt h m q v w = (Inr rs, w) \<and> searchFirst C ctx srt h m q v w = (Inr rs', w) \<and>
    map score_key rs = map score_key rs' \<and> (q_Limit q \<le> 0 \<longrightarrow> mset rs = mset rs') \<and>
    (\<forall>r \<in> set rs \<union> set rs'. RowID r \<in> set ids \<and> r \<in> set (candidates view fld v (man_Fragments m)))"
proof -
  have srt: "go_sorter srt"
    using assms(1) by (simp add: sorter_ok_iff)
  let ?cs = "candidates view fld v (man_Fragments m)" and ?P = "\<lambda>r. RowID r \<in> set ids"
  note scan = vector_scan_spec [where ctx = ctx and w = w, OF assms(4) subset_refl assms(5)]
  have all: "vector_scan C ctx (hs_bruteForce h) v fld (\<lambda>_. True) (man_Fragments m) 0 w = (Inr ?cs, w)"
    using scan [of "\<lambda>_. True"] by (simp add: candidates_def)
  have some: "vector_scan C ctx (hs_bruteForce h) v fld (\<lambda>i. i \<in> set ids) (man_Fragments m) 0 w = (Inr (filter ?P ?cs), w)"
    using scan [of "\<lambda>i. i \<in> set ids"] by (simp add: candidates_def candidates_filter [where P = "\<lambda>i. i \<in> set ids"])
  let ?rs = "applyLimit (sort_Slice srt score_less (filter ?P ?cs)) (q_Limit q)"
  let ?rs' = "applyLimit (filter ?P (sort_Slice srt score_less ?cs)) (q_Limit q)"
  have "sort_Slice srt score_less [] = []"
    using go_sorter.length_sort_Slice [OF srt, of score_less "[]"] by simp
  then have ff: "filterFirst C ctx srt h m q v w = (Inr ?rs, w)"
    using assms(2,3,6) some by (auto simp: filterFirst_def applyLimit_def)
  have sf: "searchFirst C ctx srt h m q v w = (Inr ?rs', w)"
    using assms(2,3,6) all by (simp add: searchFirst_def BruteForce_Search_def)
  have keys: "map score_key (sort_Slice srt score_less (filter ?P ?cs)) =
      map score_key (filter ?P (sort_Slice srt score_less ?cs))"
    using go_sorter.sorted_scores [OF srt no_nan_filter [OF assms(7)]]
      go_sorter.filter_sorted_scores [OF srt assms(7)] by simp
  have msets: "mset (sort_Slice srt score_less (filter ?P ?cs)) = mset (filter ?P (sort_Slice srt score_less ?cs))"
    by (simp only: mset_filter go_sorter.mset_sort_Slice [OF srt])
  have len: "length (sort_Slice srt score_less (filter ?P ?cs)) = length (filter ?P (sort_Slice srt score_less ?cs))"
    using arg_cong [OF keys, of length] by (simp only: length_map)
  have "map score_key ?rs = map score_key ?rs'"
    using keys len by (simp only: map_applyLimit)
  moreover have "q_Limit q \<le> 0 \<longrightarrow> mset ?rs = mset ?rs'"
    using msets by (simp add: applyLimit_def)
  moreover have "?P r \<and> r \<in> set ?cs" if "r \<in> set ?rs \<union> set ?rs'" for r
  proof -
    from that have "r \<in> set (sort_Slice srt score_less (filter ?P ?cs)) \<or> r \<in> set (filter ?P (sort_Slice srt score_less ?cs))"
      using applyLimit_subset by blast
    then show ?thesis
      by (auto simp: go_sorter.set_sort_Slice [OF srt])
  qed
  ultimately show ?thesis
    using ff sf by blast
qed

text \<open>
  \<open>MergeTopK\<close> returns the \<open>k\<close> best scores of all its sources, and it is enough to send it the \<open>k\<close>
  best of each: merging per-source top-\<open>k\<close> lists gives the same scores.
\<close>

theorem MergeTopK_distributes:
  assumes "sorter_ok srt" and "no_nan (concat sources)" and "0 < k"
  shows "map score_key (MergeTopK srt sources k) = take (nat k) (sort (map score_key (concat sources))) \<and>
    map score_key (MergeTopK srt (map (\<lambda>s. TopK srt s k) sources) k) = map score_key (MergeTopK srt sources k)"
proof -
  have srt: "go_sorter srt"
    using assms(1) by (simp add: sorter_ok_iff)
  have nan: "\<forall>s \<in> set sources. no_nan s"
    using assms(2) by (simp add: no_nan_concat)
  have "set (TopK srt s k) \<subseteq> set s" for s
    using go_sorter.TopK_subset [OF srt, of s k] by (metis mset_subset_eqD set_mset_mset subsetI)
  then have nan': "no_nan (concat (map (\<lambda>s. TopK srt s k) sources))"
    using nan unfolding no_nan_concat by (auto simp: no_nan_def)
  have "map score_key (concat (map (\<lambda>s. TopK srt s k) sources)) =
      concat (map (\<lambda>s. take (nat k) (sort s)) (map (map score_key) sources))"
    using nan by (auto simp: map_concat comp_def go_sorter.TopK_scores [OF srt] intro!: arg_cong [of _ _ concat])
  then show ?thesis
    using go_sorter.MergeTopK_scores [OF srt assms(2,3)] go_sorter.MergeTopK_scores [OF srt nan' assms(3)]
      take_sort_concat [of "nat k" "map (map score_key) sources" "[]"]
    by (simp add: map_concat)
qed

theorem MergeTopK_distributes_witness:
  "map score_key (MergeTopK insertion_sorter
     [[\<lparr>RowID = 4, Score = 2\<rparr>, \<lparr>RowID = 5, Score = 1\<rparr>], [\<lparr>RowID = 6, Score = 3\<rparr>]] 2) = [1, 2]"
proof -
  let ?rs = "[[\<lparr>RowID = 4, Score = 2\<rparr>, \<lparr>RowID = 5, Score = 1\<rparr>], [\<lparr>RowID = 6, Score = 3\<rparr>]]"
  have "no_nan (concat ?rs)"
    by (simp add: no_nan_def f64_isnan_def f64_dec_def decode_bits_def fp_inf_bits_def)
  from MergeTopK_distributes [OF sorter_ok_insertion this, of 2] show ?thesis
    by (simp add: score_key_def f64_key_def)
qed

text \<open>An example: two fragments of one row each, whose vector is at distance zero from the query.\<close>

definition example_schema :: Schema where
  "example_schema = \<lparr>Fields = [Field 0 ''v'' TypeFixedSizeList False 1 [] None]\<rparr>"

definition example_reader :: "unit FragmentReader" where
  "example_reader = NewFragmentReader (page_store (Float32s [0]) TypeFixedSizeList) example_schema CompressionNone"

definition example_query :: VectorQuery where
  "example_query = \<lparr>vq_Vector = [0], vq_Column = ''v'', vq_Metric = DistanceEuclidean, vq_NumPartitions = 0, vq_NProbes = 0\<rparr>"

lemma example_reads:
  "ReadColumn no_codecs example_reader (page_fragment 0 1) 0 () = (Inr (Float32s [0]), ())"
  "ReadColumn no_codecs example_reader (page_fragment 1 1) 0 () = (Inr (Float32s [0]), ())"
  by code_simp+

lemma example_distance: "Distance [0] [0] DistanceEuclidean = Inr 0"
  by (rule Distance_euclidean_self) (simp add: finite_vec_def f32_dec_def decode_bits_def)

lemma example_row: "row_vector (Suc 0) (Float32s [0]) i = (if i = 0 then Some [0] else None)"
  by (simp add: row_vector_def)

lemma example_field: "FieldByName example_schema ''v'' = Some (Field 0 ''v'' TypeFixedSizeList False 1 [] None)"
  by (simp add: example_schema_def FieldByName_def)

lemma example_searchable:
  "searchable no_codecs (NewBruteForceSearch example_reader example_schema) () [page_fragment 0 1, page_fragment 1 1]
     (\<lambda>f i. Float32s [0]) (Field 0 ''v'' TypeFixedSizeList False 1 [] None) example_query"
  using example_reads example_distance
  by (simp add: searchable_def readable_def NewBruteForceSearch_def example_row example_query_def)

lemma example_candidates:
  "candidates (\<lambda>f i. Float32s [0]) (Field 0 ''v'' TypeFixedSizeList False 1 [] None) example_query
     [page_fragment 0 1, page_fragment 1 1] = [\<lparr>RowID = 0, Score = 0\<rparr>, \<lparr>RowID = 1, Score = 0\<rparr>]"
proof -
  have "fragment_rows (page_fragment 0 1) = 1" "fragment_rows (page_fragment 1 1) = 1"
    by (simp_all add: fragment_rows_def page_fragment_def NewFragment_def)
  then show ?thesis
    by (simp add: candidates_def List.map_filter_simps candidate_def example_row example_distance example_query_def
        fits64_def)
qed

theorem BruteForce_correct_witness:
  "let r = BruteForce_Search no_codecs (\<lambda>_. False) insertion_sorter
       (NewBruteForceSearch example_reader example_schema)
       ((NewManifest 1 example_schema)\<lparr>man_Fragments := [page_fragment 0 1, page_fragment 1 1]\<rparr>) example_query ()
   in case fst r of Inl e \<Rightarrow> False | Inr rs \<Rightarrow> mset rs = {#\<lparr>RowID = 0, Score = 0\<rparr>, \<lparr>RowID = 1, Score = 0\<rparr>#}"
proof -
  let ?b = "NewBruteForceSearch example_reader example_schema"
  let ?m = "(NewManifest 1 example_schema)\<lparr>man_Fragments := [page_fragment 0 1, page_fragment 1 1]\<rparr>"
  let ?f = "Field 0 ''v'' TypeFixedSizeList False 1 [] None"
  have "vectorField ?b (vq_Column example_query) = Inr ?f" "int (length (vq_Vector example_query)) = fld_Dimension ?f"
    using example_field by (simp_all add: vectorField_def NewBruteForceSearch_def example_query_def)
  moreover have "searchable no_codecs ?b () (man_Fragments ?m) (\<lambda>f i. Float32s [0]) ?f example_query"
    using example_searchable by simp
  ultimately obtain rs where "BruteForce_Search no_codecs (\<lambda>_. False) insertion_sorter ?b ?m example_query () = (Inr rs, ())"
    "mset rs = mset (candidates (\<lambda>f i. Float32s [0]) ?f example_query (man_Fragments ?m))"
    using BruteForce_correct [OF sorter_ok_insertion, of ?b example_query ?f no_codecs "()" ?m "\<lambda>f i. Float32s [0]" "\<lambda>_. False"]
    by auto
  then show ?thesis
    using example_candidates by (simp add: Let_def)
qed

lemma example_filter:
  "Filter no_codecs (\<lambda>_. False) (NewScanFilter example_reader example_schema)
     ((NewManifest 1 example_schema)\<lparr>man_Fragments := [page_fragment 0 1, page_fragment 1 1]\<rparr>)
     (Some \<lparr>sf_Conditions = [\<lparr>sc_Column = ''v'', sc_Operator = OpEQ, sc_Value = CScalar (SInt 0)\<rparr>]\<rparr>) () =
   (Inr [0, 1], ())"
proof -
  let ?s = "NewScanFilter example_reader example_schema"
  let ?m = "(NewManifest 1 example_schema)\<lparr>man_Fragments := [page_fragment 0 1, page_fragment 1 1]\<rparr>"
  let ?cond = "\<lparr>sc_Column = ''v'', sc_Operator = OpEQ, sc_Value = CScalar (SInt 0)\<rparr>"
  have fr: "fragment_rows (page_fragment 0 1) = 1" "fragment_rows (page_fragment 1 1) = 1"
    by (simp_all add: fragment_rows_def page_fragment_def NewFragment_def)
  have sc: "list_all (scannable no_codecs ?s () (man_Fragments ?m) (\<lambda>f i. Float32s [0])) [?cond]"
    using example_reads example_field by (simp add: scannable_def readable_def NewScanFilter_def)
  have holds: "cond_holds example_schema (\<lambda>f i. Float32s [0]) f 0 ?cond" for f
    using example_field by (simp add: cond_holds_def matchesCondition_def as_scalar_def valuesEqual_def
        f64_of_f32_def f64_eq_def f64_isnan_def f64_key_def f32_dec_def decode_bits_def
        f64_of_int_def int_fp_def f64_enc_def sign_bits_def encode_mag_def bitlen.simps fp_emin_def fp_inf_bits_def)
  have rows: "table_rows 0 (man_Fragments ?m) = [(0, page_fragment 0 1, 0), (1, page_fragment 1 1, 0)]"
    by (simp add: fr fits64_def)
  have "scan_fragments no_codecs (\<lambda>_. False) ?s [?cond] (man_Fragments ?m) 0 () =
      (Inr (map fst (filter (\<lambda>(_, f, i). list_all (cond_holds (scan_schema ?s) (\<lambda>f i. Float32s [0]) f i) [?cond])
        (table_rows 0 (man_Fragments ?m)))), ())"
    by (rule scan_fragments_spec [OF _ sc]) (simp_all add: fr)
  also have "\<dots> = (Inr [0, 1], ())"
    unfolding rows by (simp add: holds NewScanFilter_def)
  finally show ?thesis
    by (simp only: Filter_def option.case ScanFilter.ScalarFilter.simps list.distinct if_False)
qed

theorem hybrid_strategies_agree_witness:
  "let h = NewHybridSearch (NewBruteForceSearch example_reader example_schema) (NewScanFilter example_reader example_schema);
       m = (NewManifest 1 example_schema)\<lparr>man_Fragments := [page_fragment 0 1, page_fragment 1 1]\<rparr>;
       flt = \<lparr>sf_Conditions = [\<lparr>sc_Column = ''v'', sc_Operator = OpEQ, sc_Value = CScalar (SInt 0)\<rparr>]\<rparr>;
       q = \<lparr>q_Vector = Some example_query, q_Filter = Some flt, q_Limit = 0, q_Columns = [], q_Timeout = 0\<rparr>;
       f = fst (filterFirst no_codecs (\<lambda>_. False) insertion_sorter h m q example_query ());
       s = fst (searchFirst no_codecs (\<lambda>_. False) insertion_sorter h m q example_query ())
   in case (f, s) of (Inr rs, Inr rs') \<Rightarrow> mset rs = mset rs' | _ \<Rightarrow> False"
proof -
  let ?b = "NewBruteForceSearch example_reader example_schema" and ?s = "NewScanFilter example_reader example_schema"
  let ?m = "(NewManifest 1 example_schema)\<lparr>man_Fragments := [page_fragment 0 1, page_fragment 1 1]\<rparr>"
  let ?flt = "\<lparr>sf_Conditions = [\<lparr>sc_Column = ''v'', sc_Operator = OpEQ, sc_Value = CScalar (SInt 0)\<rparr>]\<rparr>"
  let ?f = "Field 0 ''v'' TypeFixedSizeList False 1 [] None"
  let ?q = "\<lparr>q_Vector = Some example_query, q_Filter = Some ?flt, q_Limit = 0, q_Columns = [], q_Timeout = 0\<rparr>"
  let ?h = "NewHybridSearch ?b ?s"
  have "vectorField (hs_bruteForce ?h) (vq_Column example_query) = Inr ?f"
    "int (length (vq_Vector example_query)) = fld_Dimension ?f"
    using example_field by (simp_all add: vectorField_def NewHybridSearch_def NewBruteForceSearch_def example_query_def)
  moreover have "searchable no_codecs (hs_bruteForce ?h) () (man_Fragments ?m) (\<lambda>f i. Float32s [0]) ?f example_query"
    using example_searchable by (simp add: NewHybridSearch_def)
  moreover have "Filter no_codecs (\<lambda>_. False) (hs_scanFilter ?h) ?m (q_Filter ?q) () = (Inr [0, 1], ())"
    using example_filter by (simp add: NewHybridSearch_def)
  moreover have "no_nan (candidates (\<lambda>f i. Float32s [0]) ?f example_query (man_Fragments ?m))"
    using example_candidates by (simp add: no_nan_def f64_isnan_def fp_inf_bits_def)
  ultimately obtain rs rs' where "filterFirst no_codecs (\<lambda>_. False) insertion_sorter ?h ?m ?q example_query () = (Inr rs, ())"
    "searchFirst no_codecs (\<lambda>_. False) insertion_sorter ?h ?m ?q example_query () = (Inr rs', ())" "mset rs = mset rs'"
    using hybrid_strategies_agree [OF sorter_ok_insertion, where h = ?h and m = ?m and q = ?q and v = example_query
      and fld = ?f and C = no_codecs and ctx = "\<lambda>_. False" and w = "()" and view = "\<lambda>f i. Float32s [0]" and ids = "[0, 1]"]
    by auto
  then show ?thesis
    by (simp add: Let_def)
qed

end
