(* ===== verification/Comparisons.thy ===== *)
theory Comparisons
  imports ScanFilter
begin

text \<open>
  What a condition means on the values of a column. The code turns every number into a
  \<open>float64\<close>; the conversion keeps the order of the integers and is exact below \<open>2 ^ 53\<close>, so the
  conditions are those of the integers as long as one side is that small, and above it the only
  mistake is to take different numbers for equal.
\<close>

section \<open>Converting integers\<close>

definition mag :: "nat \<Rightarrow> nat" where
  "mag m = encode_mag 52 11 m 0"

definition mantissa :: "nat \<Rightarrow> nat" where
  "mantissa m = (if bitlen m \<le> 53 then m * 2 ^ (53 - bitlen m) else rne m (bitlen m - 53))"

lemma mag_eq:
  assumes "m \<noteq> 0"
  shows "mag m = min ((bitlen m + 1021) * 2 ^ 52 + mantissa m) (2047 * 2 ^ 52)"
proof -
  have b: "1 \<le> bitlen m"
    using bitlen_bounds [OF assms] by linarith
  then have q: "max (int (bitlen m) + 0 - int (52 + 1)) (fp_emin 52 11) = int (bitlen m) - 53"
    by (simp add: fp_emin_def)
  have "nat (int (bitlen m) - 53 - fp_emin 52 11) = bitlen m + 1021"
    using b by (simp add: fp_emin_def)
  moreover have "nat (0 - (int (bitlen m) - 53)) = 53 - bitlen m" "nat (int (bitlen m) - 53 - 0) = bitlen m - 53"
    by linarith+
  ultimately show ?thesis
    using assms by (simp add: mag_def encode_mag_def Let_def q mantissa_def fp_inf_bits_def)
qed

lemma mag_0 [simp]: "mag 0 = 0"
  by (simp add: mag_def encode_mag_def)

lemma rne_mono: "m \<le> n \<Longrightarrow> rne m k \<le> rne n k"
proof -
  assume le: "m \<le> n"
  have d: "m div 2 ^ k \<le> n div 2 ^ k"
    using le by (rule div_le_mono)
  show ?thesis
  proof (cases "m div 2 ^ k = n div 2 ^ k")
    case True
    then have "m mod 2 ^ k \<le> n mod 2 ^ k"
      using le by (metis add_le_cancel_left div_mult_mod_eq)
    with True show ?thesis
      by (auto simp: rne_def Let_def)
  next
    case False
    then have "m div 2 ^ k < n div 2 ^ k"
      using d by simp
    then show ?thesis
      by (auto simp: rne_def Let_def)
  qed
qed

lemma mantissa_bounds:
  assumes "m \<noteq> 0"
  shows "2 ^ 52 \<le> mantissa m \<and> mantissa m \<le> 2 ^ 53" and "m < 2 ^ 53 \<Longrightarrow> mantissa m < 2 ^ 53"
proof -
  let ?b = "bitlen m"
  have b: "2 ^ (?b - 1) \<le> m" "m < 2 ^ ?b" "0 < ?b"
    using bitlen_bounds [OF assms] by simp_all
  have small: "2 ^ 52 \<le> mantissa m \<and> mantissa m < 2 ^ 53" if "?b \<le> 53"
  proof -
    have "(2::nat) ^ (?b - 1) * 2 ^ (53 - ?b) = 2 ^ 52" "(2::nat) ^ ?b * 2 ^ (53 - ?b) = 2 ^ 53"
      using that b(3) by (simp_all flip: power_add)
    moreover have "2 ^ (?b - 1) * 2 ^ (53 - ?b) \<le> m * 2 ^ (53 - ?b)" "m * 2 ^ (53 - ?b) < 2 ^ ?b * 2 ^ (53 - ?b)"
      using b by simp_all
    ultimately show ?thesis
      using that by (simp add: mantissa_def)
  qed
  have big: "2 ^ 52 \<le> mantissa m \<and> mantissa m \<le> 2 ^ 53" if "\<not> ?b \<le> 53"
  proof -
    let ?k = "?b - 53"
    have "?b - 1 = 52 + ?k" "?b = 53 + ?k"
      using that by linarith+
    then have "(2::nat) ^ (?b - 1) = 2 ^ 52 * 2 ^ ?k" "(2::nat) ^ ?b = 2 ^ 53 * 2 ^ ?k"
      by (metis power_add)+
    then have "2 ^ 52 \<le> m div 2 ^ ?k" "m div 2 ^ ?k < 2 ^ 53"
      using b(1,2) by (simp_all add: less_eq_div_iff_mult_less_eq less_mult_imp_div_less)
    moreover have "m div 2 ^ ?k \<le> rne m ?k" "rne m ?k \<le> Suc (m div 2 ^ ?k)"
      by (auto simp: rne_def Let_def)
    ultimately show ?thesis
      using that by (simp add: mantissa_def)
  qed
  show "2 ^ 52 \<le> mantissa m \<and> mantissa m \<le> 2 ^ 53"
    using small big by (cases "?b \<le> 53") simp_all
  show "m < 2 ^ 53 \<Longrightarrow> mantissa m < 2 ^ 53"
    using small bitlen_le [of m 53] by simp
qed

lemma bitlen_mono: "m \<le> n \<Longrightarrow> bitlen m \<le> bitlen n"
  using bitlen_bounds [of n] bitlen_le [of m "bitlen n"] by (cases "n = 0") auto

lemma raw_mono:
  assumes "m \<noteq> 0" and "m < n"
  shows "(bitlen m + 1021) * 2 ^ 52 + mantissa m \<le> (bitlen n + 1021) * 2 ^ 52 + mantissa n"
    and "m < 2 ^ 53 \<Longrightarrow> (bitlen m + 1021) * 2 ^ 52 + mantissa m < (bitlen n + 1021) * 2 ^ 52 + mantissa n"
proof -
  have n: "n \<noteq> 0"
    using assms by simp
  note bm = mantissa_bounds [OF assms(1)] and bn = mantissa_bounds(1) [OF n]
  show "(bitlen m + 1021) * 2 ^ 52 + mantissa m \<le> (bitlen n + 1021) * 2 ^ 52 + mantissa n"
    and "m < 2 ^ 53 \<Longrightarrow> (bitlen m + 1021) * 2 ^ 52 + mantissa m < (bitlen n + 1021) * 2 ^ 52 + mantissa n"
  proof (atomize (full), cases "bitlen m = bitlen n")
    case True
    have "mantissa m \<le> mantissa n"
      using assms(2) rne_mono [of m n] True by (simp add: mantissa_def)
    moreover have "mantissa m < mantissa n" if "m < 2 ^ 53"
      using bitlen_le [OF that] True assms(2) by (simp add: mantissa_def)
    ultimately show "(bitlen m + 1021) * 2 ^ 52 + mantissa m \<le> (bitlen n + 1021) * 2 ^ 52 + mantissa n \<and>
      (m < 2 ^ 53 \<longrightarrow> (bitlen m + 1021) * 2 ^ 52 + mantissa m < (bitlen n + 1021) * 2 ^ 52 + mantissa n)"
      using True by simp
  next
    case False
    then have "Suc (bitlen m) \<le> bitlen n"
      using bitlen_mono [of m n] assms(2) by simp
    then have "(bitlen m + 1022) * 2 ^ 52 \<le> (bitlen n + 1021) * (2::nat) ^ 52"
      by simp
    then show "(bitlen m + 1021) * 2 ^ 52 + mantissa m \<le> (bitlen n + 1021) * 2 ^ 52 + mantissa n \<and>
      (m < 2 ^ 53 \<longrightarrow> (bitlen m + 1021) * 2 ^ 52 + mantissa m < (bitlen n + 1021) * 2 ^ 52 + mantissa n)"
      using bm bn by (auto simp: algebra_simps)
  qed
qed

lemma mag_mono: "m \<le> n \<Longrightarrow> mag m \<le> mag n"
  using raw_mono(1) [of m n] by (cases "m = 0"; cases "m = n") (auto simp: mag_eq)

lemma mag_less:
  assumes "m < n" and "m < 2 ^ 53"
  shows "mag m < mag n"
proof (cases "m = 0")
  case True
  then show ?thesis
    using assms(1) mag_eq [of n] by simp
next
  case False
  have "bitlen m \<le> 53" "mantissa m < 2 ^ 53"
    using bitlen_le [OF assms(2)] mantissa_bounds(2) [OF False assms(2)] .
  then have "(bitlen m + 1021) * 2 ^ 52 + mantissa m < 2047 * 2 ^ 52"
    by simp
  then show ?thesis
    using raw_mono(2) [OF False assms] False assms(1) by (simp add: mag_eq)
qed

lemma unat_f64_of_int: "unat (f64_of_int n) = (if n < 0 then 2 ^ 63 else 0) + mag (nat \<bar>n\<bar>)"
proof -
  have "unat (f64_enc x) = encode_bits 52 11 x" for x
    using b64.encode_bits_less [of x] by (simp add: f64_enc_def unat_of_nat)
  then show ?thesis
    by (simp add: f64_of_int_def int_fp_def sign_bits_def mag_def)
qed

lemma mag_inf: "mag m \<le> 0x7FF0000000000000" "mag m < 2 ^ 63"
  using b64.encode_mag_le [of m 0] by (simp_all add: mag_def fp_inf_bits_def)

lemma f64_of_int_not_nan [simp]: "\<not> f64_isnan (f64_of_int n)"
  using mag_inf by (simp add: f64_isnan_def unat_f64_of_int fp_inf_bits_def not_less)

lemma key_of_int: "f64_key (f64_of_int n) = (if n < 0 then - int (mag (nat \<bar>n\<bar>)) else int (mag (nat \<bar>n\<bar>)))"
  using mag_inf(2) by (simp add: f64_key_def unat_f64_of_int)

lemma key_mono: "x \<le> y \<Longrightarrow> f64_key (f64_of_int x) \<le> f64_key (f64_of_int y)"
  using mag_mono [of "nat \<bar>x\<bar>" "nat \<bar>y\<bar>"] mag_mono [of "nat \<bar>y\<bar>" "nat \<bar>x\<bar>"] by (auto simp: key_of_int)

lemma key_less:
  assumes "x < y" and "\<bar>x\<bar> < 2 ^ 53 \<or> \<bar>y\<bar> < 2 ^ 53"
  shows "f64_key (f64_of_int x) < f64_key (f64_of_int y)"
proof -
  consider "0 \<le> x" | "x < 0" "0 \<le> y" | "y < 0"
    by linarith
  then show ?thesis
  proof cases
    case 1
    then have "\<bar>x\<bar> < 2 ^ 53"
      using assms by linarith
    then show ?thesis
      using 1 mag_less [of "nat \<bar>x\<bar>" "nat \<bar>y\<bar>"] assms(1) by (simp add: key_of_int)
  next
    case 2
    then show ?thesis
      using mag_less [of 0 "nat \<bar>x\<bar>"] by (simp add: key_of_int)
  next
    case 3
    then have "\<bar>y\<bar> < 2 ^ 53"
      using assms by linarith
    then show ?thesis
      using 3 mag_less [of "nat \<bar>y\<bar>" "nat \<bar>x\<bar>"] assms(1) by (simp add: key_of_int)
  qed
qed

section \<open>Conditions on integers\<close>

fun int_value :: "scalar \<Rightarrow> int option" where
  "int_value (SInt n) = Some n"
| "int_value (SInt32 n) = Some (sint n)"
| "int_value (SInt64 n) = Some (sint n)"
| "int_value _ = None"

lemma toFloat64_int: "int_value s = Some n \<Longrightarrow> toFloat64 s = Some (f64_of_int n)"
  by (cases s) simp_all

definition exact :: "int \<Rightarrow> int \<Rightarrow> bool" where
  "exact x y \<longleftrightarrow> \<bar>x\<bar> < 2 ^ 53 \<or> \<bar>y\<bar> < 2 ^ 53"

lemma compare_ints:
  assumes "int_value v = Some x" and "int_value s = Some y"
  shows "valuesEqual v s = (f64_key (f64_of_int x) = f64_key (f64_of_int y))"
    and "compareNumeric v s = Some (sgn (f64_key (f64_of_int x) - f64_key (f64_of_int y)))"
  using toFloat64_int [OF assms(1)] toFloat64_int [OF assms(2)]
  by (auto simp: valuesEqual_def compareNumeric_def f64_eq_def f64_lt_def)

lemma key_exact:
  assumes "exact x y"
  shows "f64_key (f64_of_int x) = f64_key (f64_of_int y) \<longleftrightarrow> x = y"
    and "sgn (f64_key (f64_of_int x) - f64_key (f64_of_int y)) = sgn (x - y)"
proof -
  consider "x < y" | "x = y" | "y < x"
    by linarith
  then show "f64_key (f64_of_int x) = f64_key (f64_of_int y) \<longleftrightarrow> x = y"
    and "sgn (f64_key (f64_of_int x) - f64_key (f64_of_int y)) = sgn (x - y)"
    using key_less [of x y] key_less [of y x] assms by (cases; force simp: exact_def)+
qed

text \<open>The operators on two integers.\<close>

fun int_compares :: "OpType \<Rightarrow> int \<Rightarrow> int \<Rightarrow> bool" where
  "int_compares OpEQ x y = (x = y)"
| "int_compares OpNE x y = (x \<noteq> y)"
| "int_compares OpLT x y = (x < y)"
| "int_compares OpGT x y = (x > y)"
| "int_compares OpLE x y = (x \<le> y)"
| "int_compares OpGE x y = (x \<ge> y)"
| "int_compares _ x y = False"

lemma scalar_ints:
  assumes "int_value v = Some x" and "sc_Value cond = CScalar s" and "int_value s = Some y"
  shows "exact x y \<Longrightarrow> matchesCondition v cond = int_compares (sc_Operator cond) x y"
    and "x \<le> y \<Longrightarrow> (sc_Operator cond = OpLE \<longrightarrow> matchesCondition v cond) \<and>
      (sc_Operator cond = OpGT \<longrightarrow> \<not> matchesCondition v cond)"
    and "y \<le> x \<Longrightarrow> (sc_Operator cond = OpGE \<longrightarrow> matchesCondition v cond) \<and>
      (sc_Operator cond = OpLT \<longrightarrow> \<not> matchesCondition v cond)"
proof -
  note c = compare_ints [OF assms(1,3)]
  show "exact x y \<Longrightarrow> matchesCondition v cond = int_compares (sc_Operator cond) x y"
    using key_exact [of x y] assms(2)
    by (cases "sc_Operator cond") (auto simp: matchesCondition_def as_scalar_def c inSet_def betweenRange_def sgn_if)
  show "x \<le> y \<Longrightarrow> (sc_Operator cond = OpLE \<longrightarrow> matchesCondition v cond) \<and>
      (sc_Operator cond = OpGT \<longrightarrow> \<not> matchesCondition v cond)"
    using key_mono [of x y] assms(2) by (auto simp: matchesCondition_def as_scalar_def c sgn_if)
  show "y \<le> x \<Longrightarrow> (sc_Operator cond = OpGE \<longrightarrow> matchesCondition v cond) \<and>
      (sc_Operator cond = OpLT \<longrightarrow> \<not> matchesCondition v cond)"
    using key_mono [of y x] assms(2) by (auto simp: matchesCondition_def as_scalar_def c sgn_if)
qed

lemma slice_ints:
  assumes "int_value v = Some x" and "sc_Value cond = CSlice ss" and "map int_value ss = map Some ys"
    and "list_all (exact x) ys"
  shows "matchesCondition v cond =
    (case sc_Operator cond of OpNE \<Rightarrow> True | OpIn \<Rightarrow> x \<in> set ys
     | OpBetween \<Rightarrow> (\<exists>lo hi. ys = [lo, hi] \<and> lo \<le> x \<and> x \<le> hi) | _ \<Rightarrow> False)"
proof -
  have vx: "toFloat64 v = Some (f64_of_int x)" "\<And>s. v \<noteq> SString s"
    using toFloat64_int [OF assms(1)] assms(1) by auto
  have "list_ex (valuesEqual v) ss \<longleftrightarrow> x \<in> set ys"
    using assms(3,4)
  proof (induction ss arbitrary: ys)
    case (Cons s ss)
    then obtain y ys' where "ys = y # ys'" "int_value s = Some y" "map int_value ss = map Some ys'"
      by (cases ys) auto
    then show ?case
      using Cons compare_ints(1) [OF assms(1), of s y] key_exact(1) [of x y] by auto
  qed simp
  moreover have "betweenRange v (CSlice ss) \<longleftrightarrow> (\<exists>lo hi. ys = [lo, hi] \<and> lo \<le> x \<and> x \<le> hi)"
  proof (cases "\<exists>lo hi. ys = [lo, hi]")
    case True
    then obtain lo hi where ys: "ys = [lo, hi]"
      by blast
    then obtain l h where ss: "ss = [l, h]" "int_value l = Some lo" "int_value h = Some hi"
      using assms(3) by (auto simp: map_eq_Cons_conv)
    show ?thesis
      using compare_ints(2) [OF assms(1) ss(2)] compare_ints(2) [OF assms(1) ss(3)] assms(4)
        key_exact(2) [of x lo] key_exact(2) [of x hi]
      by (simp add: betweenRange_def ys ss(1) sgn_if)
  next
    case False
    have "length ss = length ys"
      using assms(3) by (metis length_map)
    then have "\<not> (\<exists>l h. ss = [l, h])"
      using False by (cases ys; cases "tl ys"; cases "tl (tl ys)") auto
    then show ?thesis
      using False by (auto simp: betweenRange_def split: list.splits)
  qed
  ultimately show ?thesis
    using vx assms(2)
    by (cases "sc_Operator cond") (auto simp: matchesCondition_def as_scalar_def valuesEqual_def compareNumeric_def inSet_def)
qed

text \<open>A number that is none, and texts.\<close>

lemma nan_matches:
  assumes "toFloat64 v = Some a" and "f64_isnan a" and "sc_Value cond = CScalar s" and "toFloat64 s \<noteq> None"
  shows "matchesCondition v cond \<longleftrightarrow> sc_Operator cond \<in> {OpNE, OpLE, OpGE}"
  using assms
  by (cases "sc_Operator cond")
    (auto simp: matchesCondition_def as_scalar_def valuesEqual_def compareNumeric_def inSet_def betweenRange_def
      f64_eq_def f64_lt_def)

lemma string_matches:
  "matchesCondition (SString a) cond \<longleftrightarrow>
     (case (sc_Operator cond, sc_Value cond) of
        (OpEQ, CScalar (SString b)) \<Rightarrow> a = b
      | (OpNE, CScalar (SString b)) \<Rightarrow> a \<noteq> b
      | (OpNE, _) \<Rightarrow> True
      | (OpIn, CSlice ss) \<Rightarrow> SString a \<in> set ss
      | _ \<Rightarrow> False)"
proof -
  have eq: "valuesEqual (SString a) s \<longleftrightarrow> s = SString a" for s
    by (cases s) (auto simp: valuesEqual_def)
  have cmp: "compareNumeric (SString a) s = None" for s
    by (simp add: compareNumeric_def)
  show ?thesis
    by (cases "sc_Operator cond"; cases "sc_Value cond")
      (auto simp: matchesCondition_def as_scalar_def inSet_def betweenRange_def eq cmp list_ex_iff
        split: scalar.splits list.splits)
qed

lemma first_collision:
  "valuesEqual (SInt64 9007199254740992) (SInt64 9007199254740993)"
proof -
  have "f64_of_int 9007199254740992 = 0x4340000000000000" "f64_of_int 9007199254740993 = 0x4340000000000000"
    by (simp_all add: f64_of_int_def int_fp_def f64_enc_def sign_bits_def encode_mag_def bitlen.simps
        fp_emin_def fp_inf_bits_def rne_def)
  then show ?thesis
    by (simp add: valuesEqual_def f64_eq_def f64_isnan_def fp_inf_bits_def)
qed

section \<open>Properties\<close>

text \<open>
  C40: conditions on integer columns of either width, against integers of any type, are the exact
  comparisons of the integers whenever one side is below \<open>2 ^ 53\<close> in magnitude, also for \<open>OpIn\<close> and the
  inclusive \<open>OpBetween\<close>; beyond that the order is never reversed, but different numbers may count as
  equal, and \<open>2 ^ 53\<close> and its successor do. A NaN differs from every number and is accepted by \<open>OpLE\<close>
  and \<open>OpGE\<close>. Strings are equal or not, and never ordered.
\<close>

theorem comparison_semantics:
  "(\<forall>x s y. int_value v = Some x \<and> sc_Value cond = CScalar s \<and> int_value s = Some y \<longrightarrow>
      (\<bar>x\<bar> < 2 ^ 53 \<or> \<bar>y\<bar> < 2 ^ 53 \<longrightarrow> matchesCondition v cond = int_compares (sc_Operator cond) x y) \<and>
      (x \<le> y \<longrightarrow> (sc_Operator cond = OpLE \<longrightarrow> matchesCondition v cond) \<and>
         (sc_Operator cond = OpGT \<longrightarrow> \<not> matchesCondition v cond)) \<and>
      (y \<le> x \<longrightarrow> (sc_Operator cond = OpGE \<longrightarrow> matchesCondition v cond) \<and>
         (sc_Operator cond = OpLT \<longrightarrow> \<not> matchesCondition v cond))) \<and>
   (\<forall>x ss ys. int_value v = Some x \<and> sc_Value cond = CSlice ss \<and> map int_value ss = map Some ys \<and>
      (\<forall>y \<in> set ys. \<bar>x\<bar> < 2 ^ 53 \<or> \<bar>y\<bar> < 2 ^ 53) \<longrightarrow>
      matchesCondition v cond =
        (case sc_Operator cond of OpNE \<Rightarrow> True | OpIn \<Rightarrow> x \<in> set ys
         | OpBetween \<Rightarrow> (\<exists>lo hi. ys = [lo, hi] \<and> lo \<le> x \<and> x \<le> hi) | _ \<Rightarrow> False)) \<and>
   (\<forall>a s. toFloat64 v = Some a \<and> f64_isnan a \<and> sc_Value cond = CScalar s \<and> toFloat64 s \<noteq> None \<longrightarrow>
      matchesCondition v cond = (sc_Operator cond \<in> {OpNE, OpLE, OpGE})) \<and>
   (\<forall>a. v = SString a \<longrightarrow>
      matchesCondition v cond =
        (case (sc_Operator cond, sc_Value cond) of
           (OpEQ, CScalar (SString b)) \<Rightarrow> a = b
         | (OpNE, CScalar (SString b)) \<Rightarrow> a \<noteq> b
         | (OpNE, _) \<Rightarrow> True
         | (OpIn, CSlice ss) \<Rightarrow> SString a \<in> set ss
         | _ \<Rightarrow> False)) \<and>
   valuesEqual (SInt64 9007199254740992) (SInt64 9007199254740993)"
proof (intro conjI allI impI)
  show "matchesCondition v cond = int_compares (sc_Operator cond) x y"
    if "int_value v = Some x \<and> sc_Value cond = CScalar s \<and> int_value s = Some y" "\<bar>x\<bar> < 2 ^ 53 \<or> \<bar>y\<bar> < 2 ^ 53" for x s y
    using scalar_ints(1) [of v x cond s y] that by (simp add: exact_def)
  show "matchesCondition v cond"
    if "int_value v = Some x \<and> sc_Value cond = CScalar s \<and> int_value s = Some y" "x \<le> y" "sc_Operator cond = OpLE" for x s y
    using scalar_ints(2) [of v x cond s y] that by simp
  show "\<not> matchesCondition v cond"
    if "int_value v = Some x \<and> sc_Value cond = CScalar s \<and> int_value s = Some y" "x \<le> y" "sc_Operator cond = OpGT" for x s y
    using scalar_ints(2) [of v x cond s y] that by simp
  show "matchesCondition v cond"
    if "int_value v = Some x \<and> sc_Value cond = CScalar s \<and> int_value s = Some y" "y \<le> x" "sc_Operator cond = OpGE" for x s y
    using scalar_ints(3) [of v x cond s y] that by simp
  show "\<not> matchesCondition v cond"
    if "int_value v = Some x \<and> sc_Value cond = CScalar s \<and> int_value s = Some y" "y \<le> x" "sc_Operator cond = OpLT" for x s y
    using scalar_ints(3) [of v x cond s y] that by simp
qed (use slice_ints [of v _ cond] nan_matches [of v _ cond] string_matches [of _ cond] first_collision
     in \<open>auto simp: list_all_iff exact_def\<close>)

theorem comparison_semantics_witness:
  "matchesCondition (SInt32 5)
     \<lparr>sc_Column = ''x'', sc_Operator = OpBetween, sc_Value = CSlice [SInt64 5, SInt 9007199254740993]\<rparr> \<and>
   \<not> matchesCondition (SInt64 9007199254740993)
     \<lparr>sc_Column = ''x'', sc_Operator = OpLT, sc_Value = CScalar (SInt 9007199254740992)\<rparr>"
proof -
  let ?b = "\<lparr>sc_Column = ''x'', sc_Operator = OpBetween, sc_Value = CSlice [SInt64 5, SInt 9007199254740993]\<rparr>"
  let ?c = "\<lparr>sc_Column = ''x'', sc_Operator = OpLT, sc_Value = CScalar (SInt 9007199254740992)\<rparr>"
  note slice = comparison_semantics [of "SInt32 5" ?b, THEN conjunct2, THEN conjunct1, rule_format,
      of 5 "[SInt64 5, SInt 9007199254740993]" "[5, 9007199254740993]"]
  note scalar = comparison_semantics [of "SInt64 9007199254740993" ?c, THEN conjunct1, rule_format,
      of 9007199254740993 "SInt 9007199254740992" 9007199254740992]
  show ?thesis
    using slice scalar by simp
qed

end
