(* ===== verification/FlatIndex.thy ===== *)
theory FlatIndex
  imports Distance Store
begin

text \<open>
  \<^verbatim>\<open>src/index/types.go\<close>, \<^verbatim>\<open>src/index/interface.go\<close> and \<^verbatim>\<open>src/index/flat.go\<close>: vector
  indexes and the one that compares the query with every vector. An index is saved as a JSON object;
  the text of its floats is not modelled, so \<open>Marshal\<close> and \<open>Unmarshal\<close> are a parameter here.
\<close>

record VectorRecord =
  vr_RowID :: int
  vr_Vector :: "f32 list"

datatype IndexType = IndexTypeIVFPQ | IndexTypeIVFFlat | IndexTypeHNSW | IndexTypeFlat | IndexTypeOther int

record IndexStats =
  ist_NumVectors :: int
  ist_NumPartitions :: int
  ist_BuildTimeMs :: int
  ist_IndexType :: IndexType

text \<open>The zero value of the statistics.\<close>

definition no_stats :: IndexStats where
  "no_stats = \<lparr>ist_NumVectors = 0, ist_NumPartitions = 0, ist_BuildTimeMs = 0, ist_IndexType = IndexTypeOther 0\<rparr>"

record 's json_codec =
  Marshal :: "'s \<Rightarrow> byte list res"
  Unmarshal :: "byte list \<Rightarrow> 's res"

section \<open>The flat index\<close>

record FlatIndex =
  fi_vectors :: "VectorRecord list"
  fi_metric :: DistanceMetric
  fi_stats :: IndexStats
  fi_dim :: int

definition NewFlatIndex :: "DistanceMetric \<Rightarrow> FlatIndex" where
  "NewFlatIndex metric = \<lparr>fi_vectors = [], fi_metric = metric, fi_stats = no_stats, fi_dim = 0\<rparr>"

definition Flat_Type :: "FlatIndex \<Rightarrow> IndexType" where
  "Flat_Type idx = IndexTypeFlat"

definition Flat_Stats :: "FlatIndex \<Rightarrow> IndexStats" where
  "Flat_Stats idx = fi_stats idx"

text \<open>The checks both indexes begin \<open>Build\<close> with; the dimension is that of the first vector.\<close>

definition check_vectors :: "bool \<Rightarrow> VectorRecord list \<Rightarrow> nat res" where
  "check_vectors cancelled vectors =
     (if cancelled then Inl (StoErr ErrCanceled)
      else case vectors of
        [] \<Rightarrow> Inl (IdxErr ErrBuildEmpty)
      | v # vs \<Rightarrow>
          let dim = length (vr_Vector v) in
          if dim = 0 then Inl (IdxErr ErrDimZero)
          else if list_ex (\<lambda>v. length (vr_Vector v) \<noteq> dim) vectors then Inl (IdxErr ErrDimMismatch)
          else Inr dim)"

definition Flat_Build :: "bool \<Rightarrow> VectorRecord list \<Rightarrow> FlatIndex \<Rightarrow> unit res \<times> FlatIndex" where
  "Flat_Build cancelled vectors idx =
     (case check_vectors cancelled vectors of
        Inl e \<Rightarrow> (Inl e, idx)
      | Inr dim \<Rightarrow>
          (Inr (), idx\<lparr>fi_vectors := vectors, fi_dim := int dim,
             fi_stats := no_stats\<lparr>ist_NumVectors := int (length vectors), ist_IndexType := IndexTypeFlat\<rparr>\<rparr>))"

fun score_all :: "f32 list \<Rightarrow> DistanceMetric \<Rightarrow> VectorRecord list \<Rightarrow> SearchResult list res" where
  "score_all query metric [] = Inr []"
| "score_all query metric (v # vs) =
     (case Distance query (vr_Vector v) metric of
        Inl e \<Rightarrow> Inl e
      | Inr d \<Rightarrow>
          (case score_all query metric vs of
             Inl e \<Rightarrow> Inl e
           | Inr rs \<Rightarrow> Inr (\<lparr>RowID = vr_RowID v, Score = d\<rparr> # rs)))"

definition Flat_Search ::
  "bool \<Rightarrow> sorter \<Rightarrow> FlatIndex \<Rightarrow> f32 list \<Rightarrow> int \<Rightarrow> DistanceMetric \<Rightarrow> SearchResult list res" where
  "Flat_Search cancelled srt idx query k metric =
     (if cancelled then Inl (StoErr ErrCanceled)
      else if fi_vectors idx = [] then Inl (IdxErr ErrNotBuilt)
      else if int (length query) \<noteq> fi_dim idx then Inl (IdxErr ErrDimMismatch)
      else if k \<le> 0 then Inr []
      else case score_all query metric (fi_vectors idx) of
        Inl e \<Rightarrow> Inl e
      | Inr results \<Rightarrow> Inr (TopK srt results k))"

record flatSnapshot =
  fs_Vectors :: "VectorRecord list"
  fs_Metric :: DistanceMetric
  fs_Dim :: int

definition Flat_Save ::
  "flatSnapshot json_codec \<Rightarrow> bool \<Rightarrow> 'w Store \<Rightarrow> string \<Rightarrow> FlatIndex \<Rightarrow> 'w \<Rightarrow> unit res \<times> 'w" where
  "Flat_Save J cancelled store path idx w =
     (if cancelled then (Inl (StoErr ErrCanceled), w)
      else
        let snap = \<lparr>fs_Vectors = fi_vectors idx, fs_Metric = fi_metric idx, fs_Dim = fi_dim idx\<rparr> in
        case Marshal J snap of
          Inl e \<Rightarrow> (Inl e, w)
        | Inr data \<Rightarrow> Store_Write store path data w)"

text \<open>Reading a snapshot, which both indexes do alike.\<close>

definition read_snapshot :: "'s json_codec \<Rightarrow> bool \<Rightarrow> 'w Store \<Rightarrow> string \<Rightarrow> 'w \<Rightarrow> 's res \<times> 'w" where
  "read_snapshot J cancelled store path w =
     (if cancelled then (Inl (StoErr ErrCanceled), w)
      else case Store_Size store path w of
        (Inl e, w1) \<Rightarrow> (Inl e, w1)
      | (Inr n, w1) \<Rightarrow>
          (case Store_Read store path 0 n w1 of
             (Inl e, w2) \<Rightarrow> (Inl e, w2)
           | (Inr data, w2) \<Rightarrow> (Unmarshal J data, w2)))"

definition Flat_Load ::
  "flatSnapshot json_codec \<Rightarrow> bool \<Rightarrow> 'w Store \<Rightarrow> string \<Rightarrow> FlatIndex \<Rightarrow> 'w \<Rightarrow> unit res \<times> FlatIndex \<times> 'w" where
  "Flat_Load J cancelled store path idx w =
     (case read_snapshot J cancelled store path w of
        (Inl e, w1) \<Rightarrow> (Inl e, idx, w1)
      | (Inr snap, w1) \<Rightarrow>
          (Inr (), idx\<lparr>fi_vectors := fs_Vectors snap, fi_metric := fs_Metric snap, fi_dim := fs_Dim snap,
             fi_stats := no_stats\<lparr>ist_NumVectors := int (length (fs_Vectors snap)), ist_IndexType := IndexTypeFlat\<rparr>\<rparr>, w1))"

section \<open>What a search computes\<close>

text \<open>The results a search selects from: the vectors with their distances, in any order.\<close>

definition scored :: "f32 list \<Rightarrow> DistanceMetric \<Rightarrow> VectorRecord \<Rightarrow> SearchResult" where
  "scored query metric v =
     \<lparr>RowID = vr_RowID v, Score = (case Distance query (vr_Vector v) metric of Inl e \<Rightarrow> 0 | Inr d \<Rightarrow> d)\<rparr>"

lemma score_all_Inr:
  "score_all query metric vs = Inr rs \<longleftrightarrow>
     (\<forall>v \<in> set vs. \<exists>d. Distance query (vr_Vector v) metric = Inr d) \<and> rs = map (scored query metric) vs"
proof (induction vs arbitrary: rs)
  case (Cons v vs)
  show ?case
  proof (cases "score_all query metric vs")
    case (Inl e)
    then have "\<not> (\<forall>v \<in> set vs. \<exists>d. Distance query (vr_Vector v) metric = Inr d)"
      using Cons [of "map (scored query metric) vs"] by simp
    with Inl show ?thesis
      by (auto split: sum.splits)
  next
    case (Inr ss)
    with Cons [of ss] show ?thesis
      by (auto simp: scored_def split: sum.splits)
  qed
qed auto

lemma check_vectors_Inr:
  "check_vectors cancelled vs = Inr dim \<longleftrightarrow>
     \<not> cancelled \<and> vs \<noteq> [] \<and> 0 < dim \<and> (\<forall>v \<in> set vs. length (vr_Vector v) = dim)"
  by (cases vs) (auto simp: check_vectors_def Let_def list_ex_iff)

lemma Flat_Build_cases:
  "Flat_Build cancelled vs idx = (r, idx') \<Longrightarrow>
     (case r of Inl e \<Rightarrow> idx' = idx
      | Inr _ \<Rightarrow> fi_vectors idx' = vs \<and> vs \<noteq> [] \<and> fi_dim idx' = int (length (vr_Vector (hd vs))) \<and>
          fi_metric idx' = fi_metric idx)"
  by (auto simp: Flat_Build_def check_vectors_Inr split: sum.splits)

section \<open>The contract of an index\<close>

text \<open>Adding elements to a list can only lower each position of its sorted version.\<close>

lemma insort_nth_le: "sorted ys \<Longrightarrow> i < length ys \<Longrightarrow> insort x ys ! i \<le> ys ! i"
  for ys :: "int list"
proof (induction ys arbitrary: i)
  case (Cons y ys)
  show ?case
  proof (cases "x \<le> y")
    case True
    then show ?thesis
      using Cons.prems by (cases i) (auto simp: nth_Cons' intro: sorted_nth_mono)
  next
    case False
    then show ?thesis
      using Cons by (cases i) auto
  qed
qed simp

lemma sort_append_nth_le: "i < length ys \<Longrightarrow> sort (zs @ ys) ! i \<le> sort ys ! i" for ys :: "int list"
proof (induction zs)
  case (Cons z zs)
  have "sort (z # zs @ ys) ! i \<le> sort (zs @ ys) ! i"
    using Cons.prems by (simp add: insort_nth_le)
  with Cons show ?case
    by simp
qed simp

lemma sort_nth_le_subset:
  fixes xs ys :: "int list"
  assumes "mset ys \<subseteq># mset xs" and "i < length ys"
  shows "sort xs ! i \<le> sort ys ! i"
proof -
  obtain zs where "mset xs = mset (zs @ ys)"
    using assms(1) by (metis ex_mset mset_append subset_mset.diff_add)
  then have "sort xs = sort (zs @ ys)"
    by (metis properties_for_sort mset_sort sorted_sort)
  with sort_append_nth_le [OF assms(2), of zs] show ?thesis
    by simp
qed

text \<open>
  The interface \<open>Index\<close> of \<^verbatim>\<open>src/index/interface.go\<close>: what every implementation owes. \<open>ready\<close>
  is the invariant \<open>Build\<close> establishes, \<open>vectors\<close> what is indexed; the bound is the range of the
  \<open>int32\<close> positions an implementation may keep.
\<close>

locale vector_index =
  fixes build :: "bool \<Rightarrow> VectorRecord list \<Rightarrow> 'i \<Rightarrow> unit res \<times> 'i"
    and search :: "bool \<Rightarrow> sorter \<Rightarrow> 'i \<Rightarrow> f32 list \<Rightarrow> int \<Rightarrow> DistanceMetric \<Rightarrow> SearchResult list res"
    and vectors :: "'i \<Rightarrow> VectorRecord list"
    and ready :: "'i \<Rightarrow> bool"
  assumes build_error: "build c vs i = (Inl e, i') \<Longrightarrow> i' = i"
    and build_done: "length vs \<le> 2 ^ 31 \<Longrightarrow> build c vs i = (Inr (), i') \<Longrightarrow> ready i' \<and> vectors i' = vs"
    and search_selects: "go_sorter srt \<Longrightarrow> ready i \<Longrightarrow> search c srt i q k m = Inr rs \<Longrightarrow>
      \<exists>found. rs = TopK srt found k \<and> mset found \<subseteq># mset (map (scored q m) (vectors i))"
begin

lemma search_real:
  assumes "go_sorter srt" and "ready i" and "search c srt i q k m = Inr rs"
  shows "mset rs \<subseteq># mset (map (scored q m) (vectors i)) \<and> length rs \<le> nat k"
proof -
  obtain found where f: "rs = TopK srt found k" "mset found \<subseteq># mset (map (scored q m) (vectors i))"
    using search_selects [OF assms] by blast
  have "mset rs \<subseteq># mset found"
    using go_sorter.TopK_subset [OF assms(1)] f(1) by simp
  then have "mset rs \<subseteq># mset (map (scored q m) (vectors i))"
    using f(2) by (rule subset_mset.order_trans)
  then show ?thesis
    using go_sorter.length_TopK [OF assms(1), of found k] f(1) by simp
qed

text \<open>An index may miss neighbours, but its \<open>j\<close>-th answer is never better than the true one.\<close>

lemma search_no_better:
  assumes "go_sorter srt" and "ready i" and "search c srt i q k m = Inr rs"
    and "no_nan (map (scored q m) (vectors i))" and "j < length rs"
  shows "sort (map (score_key \<circ> scored q m) (vectors i)) ! j \<le> score_key (rs ! j)"
proof -
  let ?all = "map (scored q m) (vectors i)"
  obtain found where f: "rs = TopK srt found k" "mset found \<subseteq># mset ?all"
    using search_selects [OF assms(1-3)] by blast
  have "no_nan found"
    using assms(4) set_mset_mono [OF f(2)] unfolding no_nan_def by (auto simp: subset_iff)
  then have keys: "map score_key rs = take (nat k) (sort (map score_key found))"
    using go_sorter.TopK_scores [OF assms(1)] f(1) by simp
  have len: "length rs = min (nat k) (length found)"
    using go_sorter.length_TopK [OF assms(1)] f(1) by simp
  have "score_key (rs ! j) = map score_key rs ! j"
    using assms(5) by simp
  also have "\<dots> = sort (map score_key found) ! j"
    using assms(5) len by (simp add: keys)
  finally have "score_key (rs ! j) = sort (map score_key found) ! j" .
  moreover have "mset (map score_key found) \<subseteq># mset (map score_key ?all)"
    using image_mset_subseteq_mono [OF f(2)] unfolding mset_map .
  ultimately show ?thesis
    using sort_nth_le_subset [of "map score_key found" "map score_key ?all" j] assms(5) len
    by (simp add: comp_def)
qed

end

definition Flat_ready :: "FlatIndex \<Rightarrow> bool" where
  "Flat_ready idx \<longleftrightarrow> fi_vectors idx \<noteq> [] \<and> (\<forall>v \<in> set (fi_vectors idx). int (length (vr_Vector v)) = fi_dim idx)"

lemma Flat_Search_Inr:
  "Flat_Search cancelled srt idx query k metric = Inr rs \<Longrightarrow>
     k \<le> 0 \<and> rs = [] \<or> 0 < k \<and> rs = TopK srt (map (scored query metric) (fi_vectors idx)) k"
  by (auto simp: Flat_Search_def score_all_Inr split: if_splits sum.splits)

lemma TopK_none: "go_sorter srt \<Longrightarrow> k \<le> 0 \<Longrightarrow> TopK srt rs k = []"
  by (simp add: go_sorter.TopK_eq)

interpretation flat: vector_index Flat_Build Flat_Search fi_vectors Flat_ready
proof
  fix c vs i e i'
  show "Flat_Build c vs i = (Inl e, i') \<Longrightarrow> i' = i"
    by (drule Flat_Build_cases) simp
next
  fix c vs i i'
  show "Flat_Build c vs i = (Inr (), i') \<Longrightarrow> Flat_ready i' \<and> fi_vectors i' = vs"
    by (auto simp: Flat_Build_def Flat_ready_def check_vectors_Inr split: sum.splits)
next
  fix srt i c q k m rs
  assume srt: "go_sorter srt" and "Flat_Search c srt i q k m = Inr rs"
  then have "rs = TopK srt (map (scored q m) (fi_vectors i)) k"
    using Flat_Search_Inr [of c srt i q k m rs] TopK_none [OF srt] by auto
  then show "\<exists>found. rs = TopK srt found k \<and> mset found \<subseteq># mset (map (scored q m) (fi_vectors i))"
    by blast
qed

end
