(* ===== verification/IVFFlat.thy ===== *)
theory IVFFlat
  imports FlatIndex
begin

text \<open>
  \<^verbatim>\<open>src/index/ivf_flat.go\<close>: the inverted-file index. \<open>IVF_Build\<close> clusters the vectors by
  k-means and keeps, per cluster, the positions of its vectors; \<open>IVF_Search\<close> scans the partitions of
  the centroids nearest to the query.

  The draws of \<open>math/rand\<close> are a stream \<open>rnd\<close>: the \<open>j\<close>-th call \<open>rand.Intn(n)\<close> returns
  \<open>rnd j mod n\<close>. The loops run over lists whose lengths are those of the slices; an index out of range
  is a panic where the code can produce one.
\<close>

record IVFFlatIndex =
  iv_centroids :: "f32 list list"
  iv_partitions :: "int list list"
  iv_vectors :: "VectorRecord list"
  iv_numPartitions :: int
  iv_metric :: DistanceMetric
  iv_stats :: IndexStats
  iv_dim :: int
  iv_NProbes :: int

definition NewIVFFlatIndex :: "int \<Rightarrow> DistanceMetric \<Rightarrow> IVFFlatIndex" where
  "NewIVFFlatIndex numPartitions metric =
     \<lparr>iv_centroids = [], iv_partitions = [], iv_vectors = [],
      iv_numPartitions = (if numPartitions < 1 then 1 else numPartitions),
      iv_metric = metric, iv_stats = no_stats, iv_dim = 0, iv_NProbes = 0\<rparr>"

definition IVF_Type :: "IVFFlatIndex \<Rightarrow> IndexType" where
  "IVF_Type idx = IndexTypeIVFFlat"

definition IVF_Stats :: "IVFFlatIndex \<Rightarrow> IndexStats" where
  "IVF_Stats idx = iv_stats idx"

section \<open>Clustering\<close>

definition max_float64 :: f64 where
  "max_float64 = 0x7FEFFFFFFFFFFFFF"

text \<open>The inner loop of \<open>assignVectors\<close>, over the centroids from position \<open>ci\<close> on.\<close>

fun nearest :: "f32 list \<Rightarrow> DistanceMetric \<Rightarrow> nat \<Rightarrow> f32 list list \<Rightarrow> nat \<Rightarrow> f64 \<Rightarrow> nat res" where
  "nearest v metric ci [] bestC bestD = Inr bestC"
| "nearest v metric ci (c # cs) bestC bestD =
     (case Distance v c metric of
        Inl e \<Rightarrow> Inl e
      | Inr d \<Rightarrow>
          if f64_lt d bestD then nearest v metric (Suc ci) cs ci d
          else nearest v metric (Suc ci) cs bestC bestD)"

fun assignVectors :: "VectorRecord list \<Rightarrow> f32 list list \<Rightarrow> DistanceMetric \<Rightarrow> nat list res" where
  "assignVectors [] centroids metric = Inr []"
| "assignVectors (v # vs) centroids metric =
     (case nearest (vr_Vector v) metric 0 centroids 0 max_float64 of
        Inl e \<Rightarrow> Inl e
      | Inr c \<Rightarrow>
          (case assignVectors vs centroids metric of
             Inl e \<Rightarrow> Inl e
           | Inr as \<Rightarrow> Inr (c # as)))"

text \<open>The initial centroids, spread over the data; \<open>si\<close> is \<open>(i * n) / k\<close> in \<open>int\<close>.\<close>

definition spread_index :: "nat \<Rightarrow> nat \<Rightarrow> nat \<Rightarrow> int" where
  "spread_index n k i = (let p = wrap64 (int i * int n) in sgn p * (\<bar>p\<bar> div int k))"

definition initial_centroids :: "VectorRecord list \<Rightarrow> nat \<Rightarrow> f32 list list res" where
  "initial_centroids vectors k =
     (let sis = map (spread_index (length vectors) k) [0..<k] in
      if list_all (\<lambda>si. 0 \<le> si \<and> si < int (length vectors)) sis
      then Inr (map (\<lambda>si. vr_Vector (vectors ! nat si)) sis)
      else Inl (GoPanic IndexOutOfRange))"

text \<open>The sums and counts of the clusters; the vectors have as many components as each sum.\<close>

fun sum_clusters ::
  "(VectorRecord \<times> nat) list \<Rightarrow> f32 list list \<Rightarrow> int list \<Rightarrow> (f32 list list \<times> int list) res" where
  "sum_clusters [] newCentroids counts = Inr (newCentroids, counts)"
| "sum_clusters ((v, c) # rest) newCentroids counts =
     (if c < length newCentroids \<and> c < length counts
      then sum_clusters rest (newCentroids[c := map2 f32_add (newCentroids ! c) (vr_Vector v)])
             (counts[c := counts ! c + 1])
      else Inl (GoPanic IndexOutOfRange))"

text \<open>
  The loop that moves the centroids, over the triples of new sum, count and old centroid. It returns
  the centroids, the distance moved and the number of draws made so far.
\<close>

fun move_centroids ::
  "VectorRecord list \<Rightarrow> (nat \<Rightarrow> nat) \<Rightarrow> (f32 list \<times> int \<times> f32 list) list \<Rightarrow> nat \<Rightarrow> f64 \<Rightarrow>
   f32 list list \<times> f64 \<times> nat" where
  "move_centroids vectors rnd [] j moved = ([], moved, j)"
| "move_centroids vectors rnd ((newC, cnt, old) # rest) j moved =
     (if cnt = 0 then
        let c = vr_Vector (vectors ! (rnd j mod length vectors));
            (cs, moved', j') = move_centroids vectors rnd rest (Suc j) moved
        in (c # cs, moved', j')
      else
        let c = map (\<lambda>x. f32_div x (f32_of_int cnt)) newC;
            moved1 = (case Distance old c DistanceEuclidean of Inl _ \<Rightarrow> moved | Inr md \<Rightarrow> f64_add moved md);
            (cs, moved', j') = move_centroids vectors rnd rest j moved1
        in (c # cs, moved', j'))"

definition maxIters :: nat where
  "maxIters = 25"

text \<open>The \<open>float64\<close> nearest to \<open>1e-6\<close>.\<close>

definition convThreshold :: f64 where
  "convThreshold = 0x3EB0C6F7A0B5ED8D"

text \<open>The first argument is the number of rounds left.\<close>

fun kmeans ::
  "nat \<Rightarrow> VectorRecord list \<Rightarrow> nat \<Rightarrow> DistanceMetric \<Rightarrow> (nat \<Rightarrow> nat) \<Rightarrow> f32 list list \<Rightarrow> nat \<Rightarrow>
   f32 list list res" where
  "kmeans 0 vectors dim metric rnd centroids j = Inr centroids"
| "kmeans (Suc iters) vectors dim metric rnd centroids j =
     (case assignVectors vectors centroids metric of
        Inl e \<Rightarrow> Inl e
      | Inr assignments \<Rightarrow>
          let k = length centroids in
          case sum_clusters (zip vectors assignments) (replicate k (replicate dim 0)) (replicate k 0) of
            Inl e \<Rightarrow> Inl e
          | Inr (newCentroids, counts) \<Rightarrow>
              let (cs, moved, j') =
                    move_centroids vectors rnd (zip newCentroids (zip counts centroids)) j 0 in
              if f64_lt moved convThreshold then Inr cs
              else kmeans iters vectors dim metric rnd cs j')"

text \<open>The loop that fills the partitions, from position \<open>vi\<close> on.\<close>

fun build_partitions :: "nat \<Rightarrow> nat list \<Rightarrow> int list list \<Rightarrow> int list list res" where
  "build_partitions vi [] partitions = Inr partitions"
| "build_partitions vi (c # as) partitions =
     (if c < length partitions
      then build_partitions (Suc vi) as (partitions[c := partitions ! c @ [wrap32 (int vi)]])
      else Inl (GoPanic IndexOutOfRange))"

definition cluster ::
  "(nat \<Rightarrow> nat) \<Rightarrow> VectorRecord list \<Rightarrow> nat \<Rightarrow> int \<Rightarrow> DistanceMetric \<Rightarrow> (f32 list list \<times> int list list) res" where
  "cluster rnd vectors dim k metric =
     (if k < 0 then Inl (GoPanic MakeSlice)
      else case initial_centroids vectors (nat k) of
        Inl e \<Rightarrow> Inl e
      | Inr centroids0 \<Rightarrow>
          (case kmeans maxIters vectors dim metric rnd centroids0 0 of
             Inl e \<Rightarrow> Inl e
           | Inr centroids \<Rightarrow>
               (case assignVectors vectors centroids metric of
                  Inl e \<Rightarrow> Inl e
                | Inr assignments \<Rightarrow>
                    (case build_partitions 0 assignments (replicate (nat k) []) of
                       Inl e \<Rightarrow> Inl e
                     | Inr partitions \<Rightarrow> Inr (centroids, partitions)))))"

definition IVF_Build ::
  "(nat \<Rightarrow> nat) \<Rightarrow> bool \<Rightarrow> VectorRecord list \<Rightarrow> IVFFlatIndex \<Rightarrow> unit res \<times> IVFFlatIndex" where
  "IVF_Build rnd cancelled vectors idx =
     (case check_vectors cancelled vectors of
        Inl e \<Rightarrow> (Inl e, idx)
      | Inr dim \<Rightarrow>
          let n = int (length vectors);
              k = (if iv_numPartitions idx > n then n else iv_numPartitions idx)
          in case cluster rnd vectors dim k (iv_metric idx) of
               Inl e \<Rightarrow> (Inl e, idx)
             | Inr (centroids, partitions) \<Rightarrow>
                 (Inr (), idx\<lparr>iv_centroids := centroids, iv_partitions := partitions,
                    iv_vectors := vectors, iv_numPartitions := k, iv_dim := int dim,
                    iv_stats := no_stats\<lparr>ist_NumVectors := n, ist_NumPartitions := k,
                      ist_IndexType := IndexTypeIVFFlat\<rparr>\<rparr>))"

section \<open>Search\<close>

definition probe_count :: "IVFFlatIndex \<Rightarrow> int" where
  "probe_count idx =
     (let nProbes = (if iv_NProbes idx \<le> 0
                     then (if iv_numPartitions idx > 10 then 10 else iv_numPartitions idx)
                     else iv_NProbes idx)
      in if nProbes > iv_numPartitions idx then iv_numPartitions idx else nProbes)"

text \<open>\<open>cdist\<close> from position \<open>i\<close> on; entries no centroid writes keep their zero value.\<close>

fun rank_centroids ::
  "f32 list \<Rightarrow> DistanceMetric \<Rightarrow> nat \<Rightarrow> f32 list list \<Rightarrow> (nat \<times> f64) list \<Rightarrow> (nat \<times> f64) list res" where
  "rank_centroids query metric i [] cdist = Inr cdist"
| "rank_centroids query metric i (c # cs) cdist =
     (case Distance query c metric of
        Inl e \<Rightarrow> Inl e
      | Inr d \<Rightarrow>
          if i < length cdist then rank_centroids query metric (Suc i) cs (cdist[i := (i, d)])
          else Inl (GoPanic IndexOutOfRange))"

fun scan_partition ::
  "VectorRecord list \<Rightarrow> f32 list \<Rightarrow> DistanceMetric \<Rightarrow> int list \<Rightarrow> SearchResult list res" where
  "scan_partition vectors query metric [] = Inr []"
| "scan_partition vectors query metric (vi # vis) =
     (if 0 \<le> vi \<and> vi < int (length vectors) then
        let v = vectors ! nat vi in
        case Distance query (vr_Vector v) metric of
          Inl e \<Rightarrow> Inl e
        | Inr d \<Rightarrow>
            (case scan_partition vectors query metric vis of
               Inl e \<Rightarrow> Inl e
             | Inr rs \<Rightarrow> Inr (\<lparr>RowID = vr_RowID v, Score = d\<rparr> # rs))
      else Inl (GoPanic IndexOutOfRange))"

fun scan_partitions :: "IVFFlatIndex \<Rightarrow> f32 list \<Rightarrow> DistanceMetric \<Rightarrow> nat list \<Rightarrow> SearchResult list res" where
  "scan_partitions idx query metric [] = Inr []"
| "scan_partitions idx query metric (ci # cis) =
     (if ci < length (iv_partitions idx) then
        case scan_partition (iv_vectors idx) query metric (iv_partitions idx ! ci) of
          Inl e \<Rightarrow> Inl e
        | Inr rs \<Rightarrow>
            (case scan_partitions idx query metric cis of
               Inl e \<Rightarrow> Inl e
             | Inr ss \<Rightarrow> Inr (rs @ ss))
      else Inl (GoPanic IndexOutOfRange))"

definition IVF_Search ::
  "bool \<Rightarrow> sorter \<Rightarrow> IVFFlatIndex \<Rightarrow> f32 list \<Rightarrow> int \<Rightarrow> DistanceMetric \<Rightarrow> SearchResult list res" where
  "IVF_Search cancelled srt idx query k metric =
     (if cancelled then Inl (StoErr ErrCanceled)
      else if iv_vectors idx = [] then Inl (IdxErr ErrNotBuilt)
      else if int (length query) \<noteq> iv_dim idx then Inl (IdxErr ErrDimMismatch)
      else if k \<le> 0 then Inr []
      else if iv_numPartitions idx < 0 then Inl (GoPanic MakeSlice)
      else case rank_centroids query metric 0 (iv_centroids idx)
                  (replicate (nat (iv_numPartitions idx)) (0, 0)) of
        Inl e \<Rightarrow> Inl e
      | Inr cdist \<Rightarrow>
          let ranked = sort_Slice srt (\<lambda>a b. f64_lt (snd a) (snd b)) cdist in
          case scan_partitions idx query metric (map fst (take (nat (probe_count idx)) ranked)) of
            Inl e \<Rightarrow> Inl e
          | Inr results \<Rightarrow> Inr (TopK srt results k))"

section \<open>Persistence\<close>

record ivfFlatSnapshot =
  ivs_Centroids :: "f32 list list"
  ivs_Partitions :: "int list list"
  ivs_Vectors :: "VectorRecord list"
  ivs_NumPartitions :: int
  ivs_Metric :: DistanceMetric
  ivs_Dim :: int
  ivs_NProbes :: int

definition IVF_snapshot :: "IVFFlatIndex \<Rightarrow> ivfFlatSnapshot" where
  "IVF_snapshot idx =
     \<lparr>ivs_Centroids = iv_centroids idx, ivs_Partitions = iv_partitions idx, ivs_Vectors = iv_vectors idx,
      ivs_NumPartitions = iv_numPartitions idx, ivs_Metric = iv_metric idx, ivs_Dim = iv_dim idx,
      ivs_NProbes = iv_NProbes idx\<rparr>"

definition IVF_Save ::
  "ivfFlatSnapshot json_codec \<Rightarrow> bool \<Rightarrow> 'w Store \<Rightarrow> string \<Rightarrow> IVFFlatIndex \<Rightarrow> 'w \<Rightarrow> unit res \<times> 'w" where
  "IVF_Save J cancelled store path idx w =
     (if cancelled then (Inl (StoErr ErrCanceled), w)
      else case Marshal J (IVF_snapshot idx) of
        Inl e \<Rightarrow> (Inl e, w)
      | Inr data \<Rightarrow> Store_Write store path data w)"

definition IVF_Load ::
  "ivfFlatSnapshot json_codec \<Rightarrow> bool \<Rightarrow> 'w Store \<Rightarrow> string \<Rightarrow> IVFFlatIndex \<Rightarrow> 'w \<Rightarrow>
   unit res \<times> IVFFlatIndex \<times> 'w" where
  "IVF_Load J cancelled store path idx w =
     (case read_snapshot J cancelled store path w of
        (Inl e, w1) \<Rightarrow> (Inl e, idx, w1)
      | (Inr snap, w1) \<Rightarrow>
          (Inr (), idx\<lparr>iv_centroids := ivs_Centroids snap, iv_partitions := ivs_Partitions snap,
             iv_vectors := ivs_Vectors snap, iv_numPartitions := ivs_NumPartitions snap,
             iv_metric := ivs_Metric snap, iv_dim := ivs_Dim snap, iv_NProbes := ivs_NProbes snap,
             iv_stats := no_stats\<lparr>ist_NumVectors := int (length (ivs_Vectors snap)),
               ist_NumPartitions := ivs_NumPartitions snap, ist_IndexType := IndexTypeIVFFlat\<rparr>\<rparr>, w1))"

section \<open>Assigning vectors to centroids\<close>

text \<open>The distance where it is defined; the loops that succeed met no error.\<close>

definition dist_to :: "f32 list \<Rightarrow> DistanceMetric \<Rightarrow> f32 list \<Rightarrow> f64" where
  "dist_to v metric c = (case Distance v c metric of Inl e \<Rightarrow> 0 | Inr d \<Rightarrow> d)"

text \<open>
  \<open>c\<close> is the centroid the code picks: the first of the nearest ones, or the first of all when no
  distance is a number below \<open>math.MaxFloat64\<close>.
\<close>

definition chosen_centroid :: "f32 list \<Rightarrow> DistanceMetric \<Rightarrow> f32 list list \<Rightarrow> nat \<Rightarrow> bool" where
  "chosen_centroid v metric cs c \<longleftrightarrow> c < length cs \<and>
     (let d = (\<lambda>i. dist_to v metric (cs ! i)) in
      if f64_lt (d c) max_float64
      then (\<forall>i<length cs. \<not> f64_lt (d i) (d c)) \<and> (\<forall>i<c. f64_isnan (d i) \<or> f64_lt (d c) (d i))
      else c = 0 \<and> (\<forall>i<length cs. \<not> f64_lt (d i) max_float64))"

lemma f64_lt_trans: "f64_lt a b \<Longrightarrow> f64_lt b c \<Longrightarrow> f64_lt a c"
  by (auto simp: f64_lt_def)

lemma f64_lt_asym: "f64_lt a b \<Longrightarrow> \<not> f64_lt b a"
  by (auto simp: f64_lt_def)

lemma f64_lt_or: "f64_lt a b \<Longrightarrow> \<not> f64_lt c b \<Longrightarrow> f64_isnan c \<or> f64_lt a c"
  by (auto simp: f64_lt_def)

lemma nearest_spec:
  "nearest v metric ci cs bestC bestD = Inr c \<Longrightarrow>
     c = bestC \<and> (\<forall>i<length cs. \<not> f64_lt (dist_to v metric (cs ! i)) bestD) \<or>
     (\<exists>n<length cs. c = ci + n \<and> f64_lt (dist_to v metric (cs ! n)) bestD \<and>
        (\<forall>i<length cs. \<not> f64_lt (dist_to v metric (cs ! i)) (dist_to v metric (cs ! n))) \<and>
        (\<forall>i<n. f64_isnan (dist_to v metric (cs ! i)) \<or>
           f64_lt (dist_to v metric (cs ! n)) (dist_to v metric (cs ! i))))"
proof (induction cs arbitrary: ci bestC bestD)
  case (Cons x cs)
  let ?d = "\<lambda>i. dist_to v metric (cs ! i)" and ?dx = "dist_to v metric x"
  obtain d where d: "Distance v x metric = Inr d"
    using Cons.prems by (auto split: sum.splits)
  then have d0: "?dx = d"
    by (simp add: dist_to_def)
  show ?case
  proof (cases "f64_lt d bestD")
    case True
    then have "nearest v metric (Suc ci) cs ci d = Inr c"
      using Cons.prems d by simp
    from Cons.IH [OF this] show ?thesis
    proof (elim disjE exE conjE)
      assume "c = ci" and "\<forall>i<length cs. \<not> f64_lt (?d i) d"
      then show ?thesis
        using True d0 by (intro disjI2 exI [of _ 0]) (auto simp: nth_Cons' f64_lt_def)
    next
      fix n
      assume n: "n < length cs" "c = Suc ci + n" "f64_lt (?d n) d"
        and "\<forall>i<length cs. \<not> f64_lt (?d i) (?d n)" "\<forall>i<n. f64_isnan (?d i) \<or> f64_lt (?d n) (?d i)"
      then show ?thesis
        using True d0 f64_lt_trans [OF n(3) True] f64_lt_asym [OF n(3)]
        by (intro disjI2 exI [of _ "Suc n"]) (auto simp: nth_Cons' less_Suc_eq_0_disj)
    qed
  next
    case False
    then have "nearest v metric (Suc ci) cs bestC bestD = Inr c"
      using Cons.prems d by simp
    from Cons.IH [OF this] show ?thesis
    proof (elim disjE exE conjE)
      assume "c = bestC" and "\<forall>i<length cs. \<not> f64_lt (?d i) bestD"
      then show ?thesis
        using False d0 by (auto simp: nth_Cons')
    next
      fix n
      assume n: "n < length cs" "c = Suc ci + n" "f64_lt (?d n) bestD"
        and "\<forall>i<length cs. \<not> f64_lt (?d i) (?d n)" "\<forall>i<n. f64_isnan (?d i) \<or> f64_lt (?d n) (?d i)"
      moreover have "\<not> f64_lt d (?d n)"
        using False f64_lt_trans [of d "?d n" bestD] n(3) by blast
      ultimately show ?thesis
        using d0 f64_lt_or [OF n(3) False]
        by (intro disjI2 exI [of _ "Suc n"]) (auto simp: nth_Cons' less_Suc_eq_0_disj)
    qed
  qed
qed simp

lemma nearest_chosen:
  "cs \<noteq> [] \<Longrightarrow> nearest v metric 0 cs 0 max_float64 = Inr c \<Longrightarrow> chosen_centroid v metric cs c"
  by (drule nearest_spec) (auto simp: chosen_centroid_def Let_def)

lemma assignVectors_chosen:
  "cs \<noteq> [] \<Longrightarrow> assignVectors vs cs metric = Inr as \<Longrightarrow>
     list_all2 (\<lambda>v c. chosen_centroid (vr_Vector v) metric cs c) vs as"
  by (induction vs arbitrary: as) (auto simp: nearest_chosen split: sum.splits)

lemma chosen_unique:
  "chosen_centroid v metric cs c \<Longrightarrow> chosen_centroid v metric cs c' \<Longrightarrow> c = c'"
  by (auto simp: chosen_centroid_def Let_def f64_lt_def split: if_splits) (metis linorder_neqE_nat)+

section \<open>The partitions\<close>

definition members :: "nat list \<Rightarrow> nat \<Rightarrow> nat list" where
  "members as c = filter (\<lambda>i. as ! i = c) [0..<length as]"

lemma members_snoc: "members (as @ [a]) c = members as c @ (if a = c then [length as] else [])"
  by (auto simp: members_def nth_append intro!: filter_cong)

lemma build_partitions_length: "build_partitions vi as ps = Inr ps' \<Longrightarrow> length ps' = length ps"
  by (induction vi as ps rule: build_partitions.induct) (auto split: if_splits)

lemma build_partitions_append:
  "build_partitions vi (as @ bs) ps =
     (case build_partitions vi as ps of
        Inl e \<Rightarrow> Inl e
      | Inr ps' \<Rightarrow> build_partitions (vi + length as) bs ps')"
  by (induction vi as ps rule: build_partitions.induct) (auto split: sum.splits)

lemma build_partitions_members:
  "(\<forall>c \<in> set as. c < k) \<Longrightarrow> build_partitions 0 as (replicate k []) =
     Inr (map (\<lambda>c. map (\<lambda>i. wrap32 (int i)) (members as c)) [0..<k])"
proof (induction as rule: rev_induct)
  case (snoc a as)
  then show ?case
    by (auto simp: build_partitions_append members_snoc intro!: nth_equalityI simp: nth_list_update)
next
  case Nil
  show ?case
    by (auto simp: members_def intro!: nth_equalityI)
qed

lemma build_partitions_in_range:
  "build_partitions vi as ps = Inr ps' \<Longrightarrow> \<forall>c \<in> set as. c < length ps"
  by (induction vi as ps rule: build_partitions.induct) (auto split: if_splits)

lemma mset_concat_map: "mset (concat (map f xs)) = sum_mset (image_mset (mset \<circ> f) (mset xs))"
  by (induction xs) auto

lemma mset_upt_Suc: "mset [0..<Suc k] = add_mset k (mset [0..<k])"
  by simp

lemma mset_filter_classes:
  "mset (concat (map (\<lambda>c. filter (\<lambda>i. f i = c) xs) [0..<k])) = mset (filter (\<lambda>i. f i < k) xs)"
proof (induction k)
  case (Suc k)
  have "mset (filter (\<lambda>i. f i < Suc k) xs) = mset (filter (\<lambda>i. f i < k) xs) + mset (filter (\<lambda>i. f i = k) xs)"
    by (induction xs) (auto simp: less_Suc_eq)
  with Suc show ?case
    by simp
qed simp

lemma mset_members:
  assumes "\<forall>c \<in> set as. c < k"
  shows "mset (concat (map (members as) [0..<k])) = mset [0..<length as]"
proof -
  have "filter (\<lambda>i. as ! i < k) [0..<length as] = [0..<length as]"
    using assms by (auto simp: filter_id_conv)
  then show ?thesis
    using mset_filter_classes [of "\<lambda>i. as ! i" "[0..<length as]" k] by (simp add: members_def [abs_def])
qed

section \<open>The invariant of a built index\<close>

definition IVF_ready :: "IVFFlatIndex \<Rightarrow> bool" where
  "IVF_ready idx \<longleftrightarrow>
     iv_vectors idx \<noteq> [] \<and> iv_centroids idx \<noteq> [] \<and>
     iv_numPartitions idx = int (length (iv_centroids idx)) \<and>
     length (iv_partitions idx) = length (iv_centroids idx) \<and>
     (\<forall>v \<in> set (iv_vectors idx). int (length (vr_Vector v)) = iv_dim idx) \<and>
     (\<forall>c \<in> set (iv_centroids idx). int (length c) = iv_dim idx) \<and>
     mset (concat (iv_partitions idx)) = mset (map int [0..<length (iv_vectors idx)]) \<and>
     (\<forall>c<length (iv_centroids idx). \<forall>i<length (iv_vectors idx).
        int i \<in> set (iv_partitions idx ! c) \<longleftrightarrow>
        chosen_centroid (vr_Vector (iv_vectors idx ! i)) (iv_metric idx) (iv_centroids idx) c)"

text \<open>The centroids keep their number and dimension.\<close>

definition dims :: "nat \<Rightarrow> f32 list list \<Rightarrow> bool" where
  "dims n cs \<longleftrightarrow> (\<forall>c \<in> set cs. length c = n)"

lemma sum_clusters_dims:
  "sum_clusters vas ns counts = Inr (ns', counts') \<Longrightarrow> (\<forall>(v, c) \<in> set vas. length (vr_Vector v) = n) \<Longrightarrow>
     dims n ns \<Longrightarrow> dims n ns' \<and> length ns' = length ns \<and> length counts' = length counts"
proof (induction vas ns counts rule: sum_clusters.induct)
  case (2 v c rest ns counts)
  have c: "c < length ns" "c < length counts"
    using "2.prems"(1) by (auto split: if_splits)
  have "dims n (ns[c := map2 f32_add (ns ! c) (vr_Vector v)])"
    using "2.prems" c unfolding dims_def by (auto dest!: set_update_subset_insert [THEN subsetD])
  with 2 c show ?case
    by simp
qed simp

lemma move_centroids_dims:
  "move_centroids vs rnd trs j moved = (cs, moved', j') \<Longrightarrow> vs \<noteq> [] \<Longrightarrow>
     (\<forall>v \<in> set vs. length (vr_Vector v) = n) \<Longrightarrow> (\<forall>t \<in> set trs. length (fst t) = n) \<Longrightarrow>
     dims n cs \<and> length cs = length trs"
proof (induction vs rnd trs j moved arbitrary: cs moved' j' rule: move_centroids.induct)
  case (2 vs rnd newC cnt old rest j moved)
  have r: "rnd j mod length vs < length vs"
    using "2.prems"(2) by simp
  show ?case
  proof (cases "cnt = 0")
    case True
    obtain cs1 m1 j1 where rec: "move_centroids vs rnd rest (Suc j) moved = (cs1, m1, j1)"
      by (metis prod_cases3)
    have "dims n cs1 \<and> length cs1 = length rest"
      using "2.IH"(1) [OF True refl rec] "2.prems" by simp
    then show ?thesis
      using "2.prems" True rec r by (auto simp: dims_def)
  next
    case False
    obtain m0 where m0: "(case Distance old (map (\<lambda>x. f32_div x (f32_of_int cnt)) newC) DistanceEuclidean of
        Inl _ \<Rightarrow> moved | Inr md \<Rightarrow> f64_add moved md) = m0"
      by blast
    obtain cs1 m1 j1 where rec: "move_centroids vs rnd rest j m0 = (cs1, m1, j1)"
      by (metis prod_cases3)
    have "dims n cs1 \<and> length cs1 = length rest"
      using "2.IH"(2) [OF False refl m0 [symmetric] rec] "2.prems" by simp
    then show ?thesis
      using "2.prems" False rec m0 by (auto simp: dims_def)
  qed
qed (simp add: dims_def)

lemma kmeans_dims:
  "kmeans iters vs dim metric rnd cs j = Inr cs' \<Longrightarrow> vs \<noteq> [] \<Longrightarrow>
     (\<forall>v \<in> set vs. length (vr_Vector v) = dim) \<Longrightarrow> dims dim cs \<Longrightarrow> dims dim cs' \<and> length cs' = length cs"
proof (induction iters arbitrary: cs j)
  case (Suc iters)
  obtain as where as: "assignVectors vs cs metric = Inr as"
    using Suc.prems(1) by (auto split: sum.splits)
  obtain ns counts where ns: "sum_clusters (zip vs as) (replicate (length cs) (replicate dim 0))
      (replicate (length cs) 0) = Inr (ns, counts)"
    using Suc.prems(1) as by (auto simp: Let_def split: sum.splits)
  have d: "dims dim ns \<and> length ns = length cs \<and> length counts = length cs"
    using sum_clusters_dims [OF ns, of dim] Suc.prems(3) by (auto simp: dims_def dest: set_zip_leftD)
  obtain cs1 m j1 where mv: "move_centroids vs rnd (zip ns (zip counts cs)) j 0 = (cs1, m, j1)"
    by (metis prod_cases3)
  have "\<forall>t \<in> set (zip ns (zip counts cs)). length (fst t) = dim"
    using d by (auto simp: dims_def dest: set_zip_leftD)
  from move_centroids_dims [OF mv Suc.prems(2,3) this] have "dims dim cs1 \<and> length cs1 = length cs"
    using d by simp
  moreover have "cs' = cs1 \<or> kmeans iters vs dim metric rnd cs1 j1 = Inr cs'"
    using Suc.prems(1) as ns mv by (auto simp: Let_def split: if_splits)
  ultimately show ?case
    using Suc.IH [of cs1 j1] Suc.prems(2,3) by auto
qed simp

lemma initial_centroids_dims:
  assumes "initial_centroids vs k = Inr cs" and "\<forall>v \<in> set vs. length (vr_Vector v) = dim"
  shows "dims dim cs \<and> length cs = k"
proof -
  let ?si = "spread_index (length vs) k"
  have si: "\<forall>i<k. 0 \<le> ?si i \<and> ?si i < int (length vs)" and cs: "cs = map (\<lambda>i. vr_Vector (vs ! nat (?si i))) [0..<k]"
    using assms(1) by (auto simp: initial_centroids_def Let_def list_all_iff split: if_splits)
  have "vs ! nat (?si i) \<in> set vs" if "i < k" for i
    using si that by (intro nth_mem) (metis nat_less_iff)
  then show ?thesis
    using assms(2) cs by (auto simp: dims_def)
qed

lemma assignVectors_length: "assignVectors vs cs metric = Inr as \<Longrightarrow> length as = length vs"
  by (induction vs arbitrary: as) (auto split: sum.splits)

lemma cluster_Inr:
  assumes "cluster rnd vs dim (int k) metric = Inr (cs, ps)" and "vs \<noteq> []"
    and "\<forall>v \<in> set vs. length (vr_Vector v) = dim"
  obtains as where "assignVectors vs cs metric = Inr as" "dims dim cs" "length cs = k"
    "\<forall>c \<in> set as. c < k" "ps = map (\<lambda>c. map (\<lambda>i. wrap32 (int i)) (members as c)) [0..<k]"
proof -
  obtain cs0 as where cs0: "initial_centroids vs k = Inr cs0"
    and km: "kmeans maxIters vs dim metric rnd cs0 0 = Inr cs"
    and as: "assignVectors vs cs metric = Inr as"
    and ps: "build_partitions 0 as (replicate k []) = Inr ps"
    using assms(1) by (auto simp: cluster_def split: if_splits sum.splits)
  have "dims dim cs \<and> length cs = k"
    using initial_centroids_dims [OF cs0 assms(3)] kmeans_dims [OF km assms(2,3)] by simp
  moreover have "\<forall>c \<in> set as. c < k"
    using build_partitions_in_range [OF ps] by simp
  ultimately show thesis
    using that [OF as] ps build_partitions_members [of as k] by simp
qed

text \<open>The invariant holds after every successful \<open>Build\<close>.\<close>

lemma IVF_Build_ready:
  assumes "length vs \<le> 2 ^ 31" and "IVF_Build rnd cancelled vs idx = (Inr (), idx')"
  shows "IVF_ready idx' \<and> iv_vectors idx' = vs \<and> iv_metric idx' = iv_metric idx \<and>
    iv_numPartitions idx' = min (iv_numPartitions idx) (int (length vs)) \<and> iv_NProbes idx' = iv_NProbes idx"
proof -
  let ?k = "min (iv_numPartitions idx) (int (length vs))"
  obtain dim cs ps where dim: "check_vectors cancelled vs = Inr dim"
    and cl: "cluster rnd vs dim ?k (iv_metric idx) = Inr (cs, ps)"
    and idx': "iv_centroids idx' = cs" "iv_partitions idx' = ps" "iv_vectors idx' = vs"
      "iv_numPartitions idx' = ?k" "iv_dim idx' = int dim" "iv_metric idx' = iv_metric idx"
      "iv_NProbes idx' = iv_NProbes idx"
    using assms(2) by (auto simp: IVF_Build_def Let_def min_def split: sum.splits if_splits)
  have vs: "vs \<noteq> []" "\<forall>v \<in> set vs. length (vr_Vector v) = dim"
    using dim by (simp_all add: check_vectors_Inr)
  have "?k \<ge> 0"
    using cl by (auto simp: cluster_def split: if_splits)
  then obtain k where k: "?k = int k"
    using nonneg_int_cases by blast
  obtain as where as: "assignVectors vs cs (iv_metric idx) = Inr as" "dims dim cs" "length cs = k"
    "\<forall>c \<in> set as. c < k" "ps = map (\<lambda>c. map (\<lambda>i. wrap32 (int i)) (members as c)) [0..<k]"
    using cluster_Inr [OF cl [unfolded k] vs] .
  have len: "length as = length vs"
    by (rule assignVectors_length [OF as(1)])
  then have "as \<noteq> []"
    using vs(1) by auto
  then have "k \<noteq> 0"
    using as(4) by (metis hd_in_set not_less0)
  then have cs: "cs \<noteq> []"
    using as(3) by auto
  have wr: "wrap32 (int i) = int i" if "i < length vs" for i
    using that assms(1) by (simp add: fits32_def)
  have ps: "ps ! c = map int (members as c)" if "c < k" for c
    using that wr len by (auto simp: as(5) members_def)
  have chosen: "list_all2 (\<lambda>v c. chosen_centroid (vr_Vector v) (iv_metric idx) cs c) vs as"
    by (rule assignVectors_chosen [OF cs as(1)])
  have "ps = map (map int) (map (members as) [0..<k])"
    using wr len by (auto simp: as(5) members_def)
  then have "mset (concat ps) = mset (map int (concat (map (members as) [0..<k])))"
    by (simp only: map_concat)
  also have "\<dots> = mset (map int [0..<length vs])"
    using mset_members [OF as(4)] len by (metis mset_map)
  finally have conc: "mset (concat ps) = mset (map int [0..<length vs])" .
  have "int i \<in> set (ps ! c) \<longleftrightarrow> chosen_centroid (vr_Vector (vs ! i)) (iv_metric idx) cs c"
    if "c < k" "i < length vs" for c i
  proof -
    have "chosen_centroid (vr_Vector (vs ! i)) (iv_metric idx) cs (as ! i)"
      using chosen that(2) by (simp add: list_all2_conv_all_nth)
    then show ?thesis
      using ps [OF that(1)] that(2) len chosen_unique by (auto simp: members_def)
  qed
  then show ?thesis
    using vs as(2,3,5) cs conc idx' k by (simp add: IVF_ready_def dims_def)
qed

lemma IVF_Build_fail: "IVF_Build rnd cancelled vs idx = (Inl e, idx') \<Longrightarrow> idx' = idx"
  by (auto simp: IVF_Build_def Let_def split: sum.splits)

section \<open>What a search scans\<close>

lemma rank_centroids_Inr:
  "rank_centroids query metric i cs cdist = Inr r \<Longrightarrow> i + length cs \<le> length cdist \<Longrightarrow>
     length r = length cdist \<and>
     (\<forall>j<length cdist. r ! j =
        (if i \<le> j \<and> j < i + length cs then (j, dist_to query metric (cs ! (j - i))) else cdist ! j))"
proof (induction query metric i cs cdist rule: rank_centroids.induct)
  case (2 query metric i c cs cdist)
  obtain d where d: "Distance query c metric = Inr d"
    using "2.prems"(1) by (auto split: sum.splits)
  have i: "i < length cdist"
    using "2.prems"(2) by simp
  have "rank_centroids query metric (Suc i) cs (cdist[i := (i, d)]) = Inr r"
    using "2.prems"(1) d i by simp
  from "2.IH" [OF d i this] "2.prems"(2) show ?case
    using d by (auto simp: nth_list_update dist_to_def nth_Cons' Suc_le_eq)
qed auto

lemma rank_centroids_all:
  assumes "rank_centroids query metric 0 cs (replicate (length cs) (0, 0)) = Inr r"
  shows "r = map (\<lambda>c. (c, dist_to query metric (cs ! c))) [0..<length cs]"
  using rank_centroids_Inr [OF assms] by (auto intro!: nth_equalityI)

definition hit :: "IVFFlatIndex \<Rightarrow> f32 list \<Rightarrow> DistanceMetric \<Rightarrow> int \<Rightarrow> SearchResult" where
  "hit idx query metric vi = scored query metric (iv_vectors idx ! nat vi)"

lemma scan_partition_Inr:
  "scan_partition (iv_vectors idx) query metric vis = Inr rs \<Longrightarrow> rs = map (hit idx query metric) vis"
  by (induction vis arbitrary: rs)
     (auto simp: hit_def scored_def Let_def split: if_splits sum.splits)

lemma scan_partitions_Inr:
  "scan_partitions idx query metric cis = Inr rs \<Longrightarrow>
     rs = concat (map (\<lambda>c. map (hit idx query metric) (iv_partitions idx ! c)) cis)"
  by (induction cis arbitrary: rs) (auto simp: scan_partition_Inr split: if_splits sum.splits)

text \<open>The partitions a search of a built index scans, in the order of their centroids' distance.\<close>

definition ranked :: "sorter \<Rightarrow> IVFFlatIndex \<Rightarrow> f32 list \<Rightarrow> DistanceMetric \<Rightarrow> (nat \<times> f64) list" where
  "ranked srt idx query metric = sort_Slice srt (\<lambda>a b. f64_lt (snd a) (snd b))
     (map (\<lambda>c. (c, dist_to query metric (iv_centroids idx ! c))) [0..<length (iv_centroids idx)])"

definition probes :: "sorter \<Rightarrow> IVFFlatIndex \<Rightarrow> f32 list \<Rightarrow> DistanceMetric \<Rightarrow> nat list" where
  "probes srt idx query metric = map fst (take (nat (probe_count idx)) (ranked srt idx query metric))"

definition probed_hits :: "sorter \<Rightarrow> IVFFlatIndex \<Rightarrow> f32 list \<Rightarrow> DistanceMetric \<Rightarrow> SearchResult list" where
  "probed_hits srt idx query metric =
     concat (map (\<lambda>c. map (hit idx query metric) (iv_partitions idx ! c)) (probes srt idx query metric))"

lemma IVF_Search_Inr:
  assumes "IVF_ready idx" and "IVF_Search cancelled srt idx query k metric = Inr rs"
  shows "k \<le> 0 \<and> rs = [] \<or> 0 < k \<and> rs = TopK srt (probed_hits srt idx query metric) k"
proof (cases "k \<le> 0")
  case False
  let ?cs = "iv_centroids idx"
  have n: "iv_numPartitions idx = int (length ?cs)"
    using assms(1) by (simp add: IVF_ready_def)
  obtain cdist found where c: "rank_centroids query metric 0 ?cs (replicate (length ?cs) (0, 0)) = Inr cdist"
    and f: "scan_partitions idx query metric (map fst (take (nat (probe_count idx))
        (sort_Slice srt (\<lambda>a b. f64_lt (snd a) (snd b)) cdist))) = Inr found"
    and rs: "rs = TopK srt found k"
    using assms(2) False n by (auto simp: IVF_Search_def Let_def split: if_splits sum.splits)
  show ?thesis
    using rs False scan_partitions_Inr [OF f] rank_centroids_all [OF c]
    by (simp add: probed_hits_def probes_def ranked_def)
qed (use assms(2) in \<open>auto simp: IVF_Search_def split: if_splits\<close>)

lemma all_hits:
  assumes "IVF_ready idx"
  shows "mset (concat (map (\<lambda>c. map (hit idx query metric) (iv_partitions idx ! c))
           [0..<length (iv_centroids idx)])) = mset (map (scored query metric) (iv_vectors idx))"
proof -
  let ?g = "hit idx query metric"
  have "concat (map (\<lambda>c. map ?g (iv_partitions idx ! c)) [0..<length (iv_centroids idx)]) =
      map ?g (concat (map (\<lambda>c. iv_partitions idx ! c) [0..<length (iv_partitions idx)]))"
    using assms by (simp add: IVF_ready_def map_concat comp_def)
  also have "\<dots> = map ?g (concat (iv_partitions idx))"
    by (simp add: map_nth)
  finally have "mset (concat (map (\<lambda>c. map ?g (iv_partitions idx ! c)) [0..<length (iv_centroids idx)])) =
      image_mset ?g (mset (map int [0..<length (iv_vectors idx)]))"
    using assms by (simp add: IVF_ready_def)
  also have "\<dots> = mset (map ?g (map int [0..<length (iv_vectors idx)]))"
    by (simp only: mset_map)
  also have "map ?g (map int [0..<length (iv_vectors idx)]) = map (scored query metric) (iv_vectors idx)"
    by (auto simp: hit_def intro!: nth_equalityI)
  finally show ?thesis .
qed

context go_sorter
begin

lemma ranked_all: "mset (map fst (ranked srt idx query metric)) = mset [0..<length (iv_centroids idx)]"
proof -
  have "mset (map fst (ranked srt idx query metric)) = image_mset fst (mset (ranked srt idx query metric))"
    by (rule mset_map)
  also have "\<dots> = mset (map fst (map (\<lambda>c. (c, dist_to query metric (iv_centroids idx ! c)))
      [0..<length (iv_centroids idx)]))"
    unfolding ranked_def mset_sort_Slice by (rule mset_map [symmetric])
  finally show ?thesis
    by (simp add: comp_def)
qed

lemma length_ranked: "length (ranked srt idx query metric) = length (iv_centroids idx)"
  by (simp add: ranked_def)

lemma in_ranked:
  "x \<in> set (ranked srt idx query metric) \<Longrightarrow>
     fst x < length (iv_centroids idx) \<and> snd x = dist_to query metric (iv_centroids idx ! fst x)"
  by (auto simp: ranked_def)

lemma probed_hits_subset:
  assumes "IVF_ready idx"
  shows "mset (probed_hits srt idx query metric) \<subseteq># mset (map (scored query metric) (iv_vectors idx))"
proof -
  let ?f = "\<lambda>c. map (hit idx query metric) (iv_partitions idx ! c)"
  let ?R = "map fst (ranked srt idx query metric)" and ?p = "nat (probe_count idx)"
  have "mset (concat (map ?f ?R)) = mset (concat (map ?f [0..<length (iv_centroids idx)]))"
    unfolding mset_concat_map ranked_all ..
  also have "\<dots> = mset (map (scored query metric) (iv_vectors idx))"
    by (rule all_hits [OF assms])
  finally have all: "mset (concat (map ?f ?R)) = mset (map (scored query metric) (iv_vectors idx))" .
  have "concat (map ?f ?R) = concat (map ?f (take ?p ?R)) @ concat (map ?f (drop ?p ?R))"
    by (metis append_take_drop_id concat_append map_append)
  then have "mset (concat (map ?f (take ?p ?R))) \<subseteq># mset (concat (map ?f ?R))"
    by (metis mset_append mset_subset_eq_add_left)
  then show ?thesis
    using all by (simp add: probed_hits_def probes_def take_map)
qed

lemma probed_all:
  assumes "IVF_ready idx" and "iv_numPartitions idx \<le> probe_count idx"
  shows "mset (probed_hits srt idx query metric) = mset (map (scored query metric) (iv_vectors idx))"
proof -
  let ?f = "\<lambda>c. map (hit idx query metric) (iv_partitions idx ! c)"
  let ?R = "map fst (ranked srt idx query metric)"
  have "length ?R = length (iv_centroids idx)"
    by (simp add: length_ranked)
  then have "probes srt idx query metric = ?R"
    using assms by (simp add: probes_def IVF_ready_def)
  then have "mset (probed_hits srt idx query metric) = mset (concat (map ?f [0..<length (iv_centroids idx)]))"
    unfolding probed_hits_def mset_concat_map by (simp only: ranked_all)
  with all_hits [OF assms(1)] show ?thesis
    by simp
qed

text \<open>The scanned partitions are those of the nearest centroids.\<close>

lemma probes_nearest:
  assumes "\<forall>c \<in> set (iv_centroids idx). \<not> f64_isnan (dist_to query metric c)"
  shows "distinct (probes srt idx query metric) \<and>
    set (probes srt idx query metric) \<subseteq> {..<length (iv_centroids idx)} \<and>
    length (probes srt idx query metric) = min (nat (probe_count idx)) (length (iv_centroids idx)) \<and>
    (\<forall>c \<in> set (probes srt idx query metric). \<forall>c'<length (iv_centroids idx).
       c' \<notin> set (probes srt idx query metric) \<longrightarrow>
       \<not> f64_lt (dist_to query metric (iv_centroids idx ! c')) (dist_to query metric (iv_centroids idx ! c)))"
proof -
  let ?K = "length (iv_centroids idx)" and ?p = "nat (probe_count idx)"
  let ?d = "\<lambda>c. dist_to query metric (iv_centroids idx ! c)"
  let ?R = "ranked srt idx query metric"
  have nn: "\<not> f64_isnan (?d c)" if "c < ?K" for c
    using assms that by simp
  have pr: "probes srt idx query metric = take ?p (map fst ?R)"
    by (simp add: probes_def take_map)
  have dist: "distinct (map fst ?R)"
    using ranked_all [of idx query metric] by (metis distinct_upt mset_eq_imp_distinct_iff)
  have set: "set (map fst ?R) = {..<?K}"
    using ranked_all [of idx query metric] by (metis atLeast0LessThan atLeast_upt set_mset_mset)
  have "sorted (map (f64_key \<circ> snd) ?R)"
    unfolding ranked_def by (rule sorted_sort_Slice) (auto simp: f64_lt_def nn)
  then have "sorted (map f64_key (map snd (take ?p ?R @ drop ?p ?R)))"
    by (simp add: comp_def)
  then have le: "f64_key (snd x) \<le> f64_key (snd y)" if "x \<in> set (take ?p ?R)" "y \<in> set (drop ?p ?R)" for x y
    unfolding map_append sorted_append using that by auto
  have "\<not> f64_lt (?d c') (?d c)"
    if c: "c \<in> set (take ?p (map fst ?R))" and c': "c' < ?K" "c' \<notin> set (take ?p (map fst ?R))" for c c'
  proof -
    have "c' \<in> set (map fst ?R)"
      using set c'(1) by blast
    then have "c' \<in> set (drop ?p (map fst ?R))"
      using c'(2) by (metis UnE append_take_drop_id set_append)
    then obtain x y where "x \<in> set (take ?p ?R)" "c = fst x" "y \<in> set (drop ?p ?R)" "c' = fst y"
      using c by (auto simp: take_map drop_map)
    moreover have "x \<in> set ?R" "y \<in> set ?R"
      using calculation by (auto dest: in_set_takeD in_set_dropD)
    ultimately show ?thesis
      using le [of x y] in_ranked [of x] in_ranked [of y] by (auto simp: f64_lt_def)
  qed
  then show ?thesis
    unfolding pr using dist set length_ranked by (auto simp: min.commute dest!: in_set_takeD)
qed

end

section \<open>Success and failure\<close>

text \<open>The errors of \<open>Distance\<close> on vectors of one length: none for two of the metrics.\<close>

definition dist_err :: "DistanceMetric \<Rightarrow> goerr \<Rightarrow> bool" where
  "dist_err metric e \<longleftrightarrow>
     metric = DistanceCosine \<and> e = DistErr ErrZeroNorm \<or>
     (\<exists>n. metric = DistanceOther n \<and> e = DistErr (ErrUnknownMetric n))"

lemma Distance_err: "Distance a b metric = Inl e \<Longrightarrow> length a = length b \<Longrightarrow> dist_err metric e"
  by (auto simp: Distance_def dist_err_def Let_def split: DistanceMetric.splits if_splits prod.splits)

lemma nearest_err:
  "nearest v metric ci cs bestC bestD = Inl e \<Longrightarrow> dims (length v) cs \<Longrightarrow> dist_err metric e"
  by (induction v metric ci cs bestC bestD rule: nearest.induct)
     (auto simp: dims_def Distance_err split: sum.splits if_splits)

lemma assignVectors_err:
  "assignVectors vs cs metric = Inl e \<Longrightarrow> dims n cs \<Longrightarrow> \<forall>v \<in> set vs. length (vr_Vector v) = n \<Longrightarrow>
     dist_err metric e"
  by (induction vs) (auto dest: nearest_err split: sum.splits)

lemma assignVectors_range:
  assumes "cs \<noteq> []" and "assignVectors vs cs metric = Inr as"
  shows "\<forall>c \<in> set as. c < length cs"
  using assignVectors_chosen [OF assms] by (auto simp: list_all2_conv_all_nth in_set_conv_nth chosen_centroid_def)

lemma sum_clusters_total:
  "\<forall>(v, c) \<in> set vas. c < length ns \<and> c < length counts \<Longrightarrow> \<exists>r. sum_clusters vas ns counts = Inr r"
  by (induction vas ns counts rule: sum_clusters.induct) auto

lemma kmeans_err:
  "kmeans iters vs dim metric rnd cs j = Inl e \<Longrightarrow> vs \<noteq> [] \<Longrightarrow> cs \<noteq> [] \<Longrightarrow>
     \<forall>v \<in> set vs. length (vr_Vector v) = dim \<Longrightarrow> dims dim cs \<Longrightarrow> dist_err metric e"
proof (induction iters arbitrary: cs j)
  case (Suc iters)
  show ?case
  proof (cases "assignVectors vs cs metric")
    case (Inl e')
    then show ?thesis
      using Suc.prems(1) assignVectors_err [OF Inl Suc.prems(5,4)] by simp
  next
    case (Inr as)
    let ?k = "length cs"
    have "\<forall>(v, c) \<in> set (zip vs as). c < ?k"
      using assignVectors_range [OF Suc.prems(3) Inr] by (auto dest: set_zip_rightD)
    then obtain ns counts where ns: "sum_clusters (zip vs as) (replicate ?k (replicate dim 0)) (replicate ?k 0)
        = Inr (ns, counts)"
      using sum_clusters_total [of "zip vs as" "replicate ?k (replicate dim 0)" "replicate ?k 0"] by auto
    obtain cs1 m j1 where mv: "move_centroids vs rnd (zip ns (zip counts cs)) j 0 = (cs1, m, j1)"
      by (metis prod_cases3)
    have "kmeans (Suc 0) vs dim metric rnd cs j = Inr cs1"
      using Inr ns mv by (simp add: Let_def)
    then have "dims dim cs1 \<and> length cs1 = ?k"
      using kmeans_dims Suc.prems(2,4,5) by blast
    moreover from this have "cs1 \<noteq> []"
      using Suc.prems(3) by auto
    moreover have "kmeans iters vs dim metric rnd cs1 j1 = Inl e"
      using Suc.prems(1) Inr ns mv by (auto simp: Let_def split: if_splits)
    ultimately show ?thesis
      using Suc.IH Suc.prems(2,4) by blast
  qed
qed simp

lemma spread_index_range:
  assumes "i < k" and "k \<le> n" and "n \<le> 2 ^ 31"
  shows "0 \<le> spread_index n k i \<and> spread_index n k i < int n"
proof -
  have "i * n \<le> 2 ^ 31 * 2 ^ 31"
    using assms by (intro mult_le_mono) simp_all
  then have "fits64 (int i * int n)"
    by (simp add: fits64_def flip: of_nat_mult)
  moreover have "i * n div k < n"
    using assms by (simp add: div_less_iff_less_mult mult.commute)
  ultimately show ?thesis
    by (cases "i * n = 0") (auto simp: spread_index_def sgn_if simp flip: of_nat_mult zdiv_int)
qed

lemma initial_centroids_total:
  "k \<le> length vs \<Longrightarrow> length vs \<le> 2 ^ 31 \<Longrightarrow> \<exists>cs. initial_centroids vs k = Inr cs"
  using spread_index_range [of _ k "length vs"] by (auto simp: initial_centroids_def Let_def list_all_iff)

lemma build_partitions_total:
  "\<forall>c \<in> set as. c < length ps \<Longrightarrow> \<exists>ps'. build_partitions vi as ps = Inr ps'"
  by (induction vi as ps rule: build_partitions.induct) auto

lemma cluster_err:
  assumes "cluster rnd vs dim (int k) metric = Inl e" and "0 < k" and "k \<le> length vs"
    and "length vs \<le> 2 ^ 31" and "\<forall>v \<in> set vs. length (vr_Vector v) = dim"
  shows "dist_err metric e"
proof -
  obtain cs0 where cs0: "initial_centroids vs k = Inr cs0"
    using initial_centroids_total assms(3,4) by blast
  have d0: "dims dim cs0" "cs0 \<noteq> []" and vs: "vs \<noteq> []"
    using initial_centroids_dims [OF cs0 assms(5)] assms(2,3) by auto
  show ?thesis
  proof (cases "kmeans maxIters vs dim metric rnd cs0 0")
    case (Inl e')
    then show ?thesis
      using kmeans_err [OF Inl vs d0(2) assms(5) d0(1)] assms(1) cs0 by (simp add: cluster_def)
  next
    case (Inr cs)
    have d: "dims dim cs" "cs \<noteq> []" "length cs = k"
      using kmeans_dims [OF Inr vs assms(5) d0(1)] initial_centroids_dims [OF cs0 assms(5)] assms(2) by auto
    show ?thesis
    proof (cases "assignVectors vs cs metric")
      case (Inl e')
      then show ?thesis
        using assignVectors_err [OF Inl d(1) assms(5)] assms(1) cs0 Inr by (simp add: cluster_def)
    next
      case as: (Inr as)
      obtain ps where "build_partitions 0 as (replicate k []) = Inr ps"
        using build_partitions_total [of as "replicate k []" 0] assignVectors_range [OF d(2) as] d(3) by auto
      then show ?thesis
        using assms(1) cs0 Inr as by (simp add: cluster_def)
    qed
  qed
qed

lemma IVF_Build_err:
  assumes "IVF_Build rnd cancelled vs idx = (Inl e, idx')" and "check_vectors cancelled vs = Inr dim"
    and "1 \<le> iv_numPartitions idx" and "length vs \<le> 2 ^ 31"
  shows "dist_err (iv_metric idx) e"
proof -
  have vs: "vs \<noteq> []" "\<forall>v \<in> set vs. length (vr_Vector v) = dim"
    using assms(2) by (simp_all add: check_vectors_Inr)
  let ?k = "if iv_numPartitions idx > int (length vs) then int (length vs) else iv_numPartitions idx"
  obtain k where k: "?k = int k" "0 < k" "k \<le> length vs"
  proof
    show "?k = int (nat ?k)" "0 < nat ?k" "nat ?k \<le> length vs"
      using assms(3) vs(1) by auto
  qed
  have "cluster rnd vs dim (int k) (iv_metric idx) = Inl e"
    using assms(1,2) k(1) by (auto simp: IVF_Build_def Let_def split: sum.splits if_splits)
  then show ?thesis
    by (rule cluster_err [OF _ k(2,3) assms(4) vs(2)])
qed

lemma rank_centroids_err:
  "rank_centroids query metric i cs cdist = Inl e \<Longrightarrow> i + length cs \<le> length cdist \<Longrightarrow>
     dims (length query) cs \<Longrightarrow> dist_err metric e"
  by (induction query metric i cs cdist rule: rank_centroids.induct)
     (auto simp: dims_def Distance_err split: sum.splits)

lemma scan_partition_err:
  "scan_partition vectors query metric vis = Inl e \<Longrightarrow>
     \<forall>v \<in> set vectors. length (vr_Vector v) = length query \<Longrightarrow>
     \<forall>vi \<in> set vis. 0 \<le> vi \<and> vi < int (length vectors) \<Longrightarrow> dist_err metric e"
proof (induction vis)
  case (Cons vi vis)
  have "vectors ! nat vi \<in> set vectors"
    using Cons.prems(3) by (intro nth_mem) (simp add: nat_less_iff)
  with Cons show ?case
    by (auto simp: Distance_err Let_def split: sum.splits)
qed simp

lemma scan_partitions_err:
  "scan_partitions idx query metric cis = Inl e \<Longrightarrow>
     \<forall>v \<in> set (iv_vectors idx). length (vr_Vector v) = length query \<Longrightarrow>
     \<forall>c \<in> set cis. c < length (iv_partitions idx) \<Longrightarrow>
     \<forall>ps \<in> set (iv_partitions idx). \<forall>vi \<in> set ps. 0 \<le> vi \<and> vi < int (length (iv_vectors idx)) \<Longrightarrow>
     dist_err metric e"
  by (induction cis) (auto dest: scan_partition_err [rotated 2] split: sum.splits)

lemma ready_positions:
  assumes "IVF_ready idx" and "ps \<in> set (iv_partitions idx)" and "vi \<in> set ps"
  shows "0 \<le> vi \<and> vi < int (length (iv_vectors idx))"
proof -
  have "set (concat (iv_partitions idx)) = set (map int [0..<length (iv_vectors idx)])"
    using assms(1) unfolding IVF_ready_def by (metis set_mset_mset)
  moreover have "vi \<in> set (concat (iv_partitions idx))"
    using assms(2,3) by auto
  ultimately have "vi \<in> int ` {0..<length (iv_vectors idx)}"
    by simp
  then show ?thesis
    by auto
qed

text \<open>A built index answers every query of its dimension.\<close>

context go_sorter
begin

lemma IVF_Search_err:
  assumes "IVF_ready idx" and "IVF_Search False srt idx query k metric = Inl e"
    and "int (length query) = iv_dim idx"
  shows "dist_err metric e"
proof -
  let ?cs = "iv_centroids idx"
  have n: "iv_numPartitions idx = int (length ?cs)" "iv_vectors idx \<noteq> []"
      "length (iv_partitions idx) = length ?cs"
    and d: "dims (length query) ?cs" "\<forall>v \<in> set (iv_vectors idx). length (vr_Vector v) = length query"
    using assms(1,3) by (auto simp: IVF_ready_def dims_def)
  show ?thesis
  proof (cases "rank_centroids query metric 0 ?cs (replicate (length ?cs) (0, 0))")
    case (Inl e')
    then have "e' = e"
      using assms(2,3) n by (auto simp: IVF_Search_def split: if_splits)
    then show ?thesis
      using rank_centroids_err [OF Inl _ d(1)] by simp
  next
    case (Inr cdist)
    have r: "sort_Slice srt (\<lambda>a b. f64_lt (snd a) (snd b)) cdist = ranked srt idx query metric"
      using rank_centroids_all [OF Inr] by (simp add: ranked_def)
    have "scan_partitions idx query metric (probes srt idx query metric) = Inl e"
      using assms(2,3) n Inr r
      by (auto simp: IVF_Search_def Let_def probes_def split: if_splits sum.splits)
    then show ?thesis
      by (rule scan_partitions_err [OF _ d(2)])
        (use ready_positions [OF assms(1)] n(3) in
          \<open>auto simp: probes_def dest!: in_set_takeD in_ranked\<close>)
  qed
qed

end

interpretation ivf: vector_index "IVF_Build rnd" IVF_Search iv_vectors IVF_ready for rnd
proof
  fix c vs i e i'
  show "IVF_Build rnd c vs i = (Inl e, i') \<Longrightarrow> i' = i"
    by (rule IVF_Build_fail)
next
  fix c vs i i'
  show "length vs \<le> 2 ^ 31 \<Longrightarrow> IVF_Build rnd c vs i = (Inr (), i') \<Longrightarrow> IVF_ready i' \<and> iv_vectors i' = vs"
    using IVF_Build_ready [of vs rnd c i i'] by simp
next
  fix srt i c q k m rs
  assume srt: "go_sorter srt" and i: "IVF_ready i" and "IVF_Search c srt i q k m = Inr rs"
  then have "rs = TopK srt (probed_hits srt i q m) k"
    using IVF_Search_Inr [of i c srt q k m rs] TopK_none [OF srt] by auto
  then show "\<exists>found. rs = TopK srt found k \<and> mset found \<subseteq># mset (map (scored q m) (iv_vectors i))"
    using go_sorter.probed_hits_subset [OF srt i] by blast
qed

section \<open>An example\<close>

lemma finite_zero: "finite_vec [0]"
  by (simp add: finite_vec_def f32_dec_def decode_bits_def)

lemma Distance_zero [simp]: "Distance [0] [0] DistanceEuclidean = Inr 0"
  by (rule Distance_euclidean_self [OF finite_zero])

lemma f64_zero_below [simp]: "f64_lt 0 max_float64" "f64_lt 0 convThreshold" "\<not> f64_isnan 0"
  by (simp_all add: f64_lt_def f64_isnan_def f64_key_def max_float64_def convThreshold_def fp_inf_bits_def
      f64_dec_def decode_bits_def)

lemma f32_zero_ops [simp]: "f32_add 0 0 = 0" "f32_div 0 (f32_of_int 1) = 0"
  by (simp_all add: f32_add_def f32_div_def f32_of_int_def f32_dec_def f32_enc_def decode_bits_def int_fp_def
      fp_emin_def fp_add_fin_def fp_div_fin_def sign_bits_def encode_mag_def bitlen.simps fp_inf_bits_def rne_def
      signed_mant_def Let_def)

abbreviation one_vector :: "VectorRecord list" where
  "one_vector \<equiv> [\<lparr>vr_RowID = 3, vr_Vector = [0]\<rparr>]"

lemma one_vector_short: "length one_vector \<le> 2 ^ 31"
  by simp

definition one_index :: IVFFlatIndex where
  "one_index = \<lparr>iv_centroids = [[0]], iv_partitions = [[0]], iv_vectors = one_vector, iv_numPartitions = 1,
     iv_metric = DistanceEuclidean, iv_stats = \<lparr>ist_NumVectors = 1, ist_NumPartitions = 1, ist_BuildTimeMs = 0,
       ist_IndexType = IndexTypeIVFFlat\<rparr>, iv_dim = 1, iv_NProbes = 0\<rparr>"

lemma one_index_built:
  "IVF_Build (\<lambda>j. j) False one_vector (NewIVFFlatIndex 4 DistanceEuclidean) = (Inr (), one_index)"
  by (simp add: IVF_Build_def check_vectors_def Let_def NewIVFFlatIndex_def cluster_def initial_centroids_def
      spread_index_def maxIters_def numeral_eq_Suc one_index_def no_stats_def
      wrap64_def wrap32_def)

lemma one_index_search:
  "IVF_Search False insertion_sorter one_index [0] 1 DistanceEuclidean = Inr [\<lparr>RowID = 3, Score = 0\<rparr>]"
  by (simp add: IVF_Search_def one_index_def Let_def probe_count_def sort_Slice_def insertion_sorter_def TopK_def)

section \<open>Properties\<close>

text \<open>
  C21: after a successful \<open>Build\<close> the partitions hold every vector position exactly once, and a
  position lies in the partition of the centroid the code chooses for its vector: the first of the
  nearest ones. The number of partitions is the smaller of the one asked for and the number of vectors.
\<close>

theorem ivf_partitions:
  assumes "length vs \<le> 2 ^ 31" and "IVF_Build rnd cancelled vs idx = (Inr (), idx')"
  shows "iv_vectors idx' = vs \<and>
    iv_numPartitions idx' = min (iv_numPartitions idx) (int (length vs)) \<and>
    length (iv_centroids idx') = nat (iv_numPartitions idx') \<and>
    length (iv_partitions idx') = nat (iv_numPartitions idx') \<and>
    mset (concat (iv_partitions idx')) = mset (map int [0..<length vs]) \<and>
    (\<forall>c<length (iv_centroids idx'). \<forall>i<length vs.
       int i \<in> set (iv_partitions idx' ! c) \<longleftrightarrow>
       chosen_centroid (vr_Vector (vs ! i)) (iv_metric idx) (iv_centroids idx') c)"
  using IVF_Build_ready [OF assms] by (auto simp: IVF_ready_def)

theorem ivf_partitions_witness:
  "mset (concat (iv_partitions one_index)) = {#0#} \<and> chosen_centroid [0] DistanceEuclidean [[0]] 0"
  using ivf_partitions [OF _ one_index_built] by (simp add: one_index_def NewIVFFlatIndex_def)

text \<open>
  C22: \<open>Build\<close> and \<open>Search\<close> return. With at least one partition asked for, \<open>Build\<close> fails only on
  the inputs it refuses and, with the cosine metric or an unknown one, on the error of \<open>Distance\<close>; it
  never panics, for any draws of the random generator; a failed \<open>Build\<close> leaves the index as it was; and
  after a successful one no query of the right dimension makes \<open>Search\<close> panic.
\<close>

theorem ivf_build_returns:
  assumes "length vs \<le> 2 ^ 31" and "1 \<le> iv_numPartitions idx"
    and "IVF_Build rnd False vs idx = (r, idx')"
  shows "case r of
      Inl e \<Rightarrow> idx' = idx \<and>
        (vs = [] \<and> e = IdxErr ErrBuildEmpty \<or>
         vs \<noteq> [] \<and> vr_Vector (hd vs) = [] \<and> e = IdxErr ErrDimZero \<or>
         (\<exists>v \<in> set vs. length (vr_Vector v) \<noteq> length (vr_Vector (hd vs))) \<and> e = IdxErr ErrDimMismatch \<or>
         iv_metric idx = DistanceCosine \<and> e = DistErr ErrZeroNorm \<or>
         (\<exists>n. iv_metric idx = DistanceOther n \<and> e = DistErr (ErrUnknownMetric n)))
    | Inr _ \<Rightarrow> \<forall>srt query k metric e. sorter_ok srt \<longrightarrow> length query = length (vr_Vector (hd vs)) \<longrightarrow>
        IVF_Search False srt idx' query k metric = Inl e \<longrightarrow>
          metric = DistanceCosine \<and> e = DistErr ErrZeroNorm \<or>
          (\<exists>n. metric = DistanceOther n \<and> e = DistErr (ErrUnknownMetric n))"
proof (cases r)
  case (Inl e)
  show ?thesis
  proof (cases "check_vectors False vs")
    case c: (Inl e')
    then have "e' = e"
      using assms(3) Inl by (simp add: IVF_Build_def)
    then show ?thesis
      using c Inl IVF_Build_fail assms(3)
      by (cases vs) (auto simp: check_vectors_def Let_def list_ex_iff split: if_splits)
  next
    case (Inr dim)
    then show ?thesis
      using IVF_Build_err [OF _ Inr assms(2,1)] IVF_Build_fail assms(3) Inl by (auto simp: dist_err_def)
  qed
next
  case (Inr u)
  then have ready: "IVF_ready idx'" "iv_vectors idx' = vs" "vs \<noteq> []"
    using IVF_Build_ready [OF assms(1), of rnd False idx idx'] assms(3) by (auto simp: IVF_ready_def)
  then have "int (length (vr_Vector (hd vs))) = iv_dim idx'"
    by (auto simp: IVF_ready_def)
  with ready(1) Inr show ?thesis
    using go_sorter.IVF_Search_err by (auto simp: sorter_ok_iff dist_err_def)
qed

theorem ivf_build_returns_witness:
  "IVF_Build (\<lambda>j. j) False [] (NewIVFFlatIndex 4 DistanceEuclidean) =
     (Inl (IdxErr ErrBuildEmpty), NewIVFFlatIndex 4 DistanceEuclidean) \<and>
   (\<forall>e. IVF_Search False insertion_sorter one_index [1] 1 DistanceEuclidean \<noteq> Inl e)"
proof -
  have "IVF_Build (\<lambda>j. j) False [] (NewIVFFlatIndex 4 DistanceEuclidean) =
      (Inl (IdxErr ErrBuildEmpty), NewIVFFlatIndex 4 DistanceEuclidean)"
    by (simp add: IVF_Build_def check_vectors_def)
  moreover have "\<forall>srt query k metric e. sorter_ok srt \<longrightarrow> length query = 1 \<longrightarrow>
      IVF_Search False srt one_index query k metric = Inl e \<longrightarrow>
        metric = DistanceCosine \<and> e = DistErr ErrZeroNorm \<or>
        (\<exists>n. metric = DistanceOther n \<and> e = DistErr (ErrUnknownMetric n))"
    using ivf_build_returns [OF _ _ one_index_built] by (simp add: NewIVFFlatIndex_def)
  then have "\<forall>e. IVF_Search False insertion_sorter one_index [1] 1 DistanceEuclidean \<noteq> Inl e"
    by (elim allE [where x = insertion_sorter] allE [where x = "[1]"] allE [where x = 1]
        allE [where x = DistanceEuclidean]) (simp add: sorter_ok_insertion)
  ultimately show ?thesis
    by blast
qed

text \<open>
  C23: a search scans the partitions of the \<open>probe_count\<close> centroids nearest to the query, when none of
  their distances is a NaN, and returns the \<open>k\<close> best of the vectors in them. That number is \<open>NProbes\<close>, or
  10 where it is not set, and at most the number of partitions.
\<close>

theorem ivf_search_probes:
  assumes "length vs \<le> 2 ^ 31" and "IVF_Build rnd False vs idx = (Inr (), idx')" and "sorter_ok srt"
    and "IVF_Search False srt idx' query k metric = Inr rs" and "0 < k"
    and "\<forall>c \<in> set (iv_centroids idx'). \<not> f64_isnan (dist_to query metric c)"
  shows "\<exists>cs. distinct cs \<and> set cs \<subseteq> {..<length (iv_centroids idx')} \<and>
      length cs = nat (probe_count idx') \<and>
      (\<forall>c \<in> set cs. \<forall>c'<length (iv_centroids idx'). c' \<notin> set cs \<longrightarrow>
         \<not> f64_lt (dist_to query metric (iv_centroids idx' ! c')) (dist_to query metric (iv_centroids idx' ! c))) \<and>
      rs = TopK srt (concat (map (\<lambda>c. map (\<lambda>vi. scored query metric (vs ! nat vi)) (iv_partitions idx' ! c)) cs)) k"
proof -
  have srt: "go_sorter srt"
    using assms(3) by (simp add: sorter_ok_iff)
  have ready: "IVF_ready idx'" "iv_vectors idx' = vs"
    using IVF_Build_ready [OF assms(1,2)] by simp_all
  then have "nat (probe_count idx') \<le> length (iv_centroids idx')"
    by (auto simp: probe_count_def Let_def IVF_ready_def)
  moreover have "rs = TopK srt (probed_hits srt idx' query metric) k"
    using IVF_Search_Inr [OF ready(1) assms(4)] assms(5) by simp
  ultimately show ?thesis
    using go_sorter.probes_nearest [OF srt assms(6)] ready(2)
    by (intro exI [of _ "probes srt idx' query metric"]) (simp add: probed_hits_def hit_def [abs_def])
qed

theorem ivf_search_probes_witness:
  "\<exists>cs. length cs = 1 \<and> [\<lparr>RowID = 3, Score = 0\<rparr>] = TopK insertion_sorter
     (concat (map (\<lambda>c. map (\<lambda>vi. scored [0] DistanceEuclidean (one_vector ! nat vi)) (iv_partitions one_index ! c)) cs)) 1"
proof -
  have "\<forall>c \<in> set (iv_centroids one_index). \<not> f64_isnan (dist_to [0] DistanceEuclidean c)" "probe_count one_index = 1"
    by (simp_all add: one_index_def dist_to_def probe_count_def)
  then show ?thesis
    using ivf_search_probes [OF _ one_index_built sorter_ok_insertion one_index_search] by auto
qed

text \<open>
  C20: against the exhaustive index built from the same vectors, when no score is a NaN (a NaN has no place
  in the order): an answer of the inverted-file index is
  a vector with its true distance, its \<open>j\<close>-th score is never better than the \<open>j\<close>-th exact one, and when
  every partition is probed the scores are exactly the exhaustive ones.
\<close>

theorem ivf_against_flat:
  assumes "length vs \<le> 2 ^ 31" and "IVF_Build rnd False vs idx = (Inr (), idx')"
    and "Flat_Build False vs fl = (Inr (), fl')" and "sorter_ok srt" and "no_nan (map (scored query metric) vs)"
    and "IVF_Search False srt idx' query k metric = Inr rs"
    and "Flat_Search False srt fl' query k metric = Inr ss"
  shows "mset rs \<subseteq># mset (map (scored query metric) vs) \<and> length rs \<le> length ss \<and>
    (\<forall>j<length rs. score_key (ss ! j) \<le> score_key (rs ! j)) \<and>
    (iv_numPartitions idx' \<le> probe_count idx' \<longrightarrow> map score_key rs = map score_key ss)"
proof -
  have srt: "go_sorter srt"
    using assms(4) by (simp add: sorter_ok_iff)
  let ?all = "map (scored query metric) vs"
  have iv: "IVF_ready idx'" "iv_vectors idx' = vs"
    using ivf.build_done [OF assms(1,2)] by simp_all
  have fl: "Flat_ready fl'" "fi_vectors fl' = vs"
    using flat.build_done [OF assms(1,3)] by simp_all
  have ss: "ss = TopK srt ?all k"
    using Flat_Search_Inr [OF assms(7)] TopK_none [OF srt] fl(2) by auto
  have rs: "rs = TopK srt (probed_hits srt idx' query metric) k"
    using IVF_Search_Inr [OF iv(1) assms(6)] TopK_none [OF srt] by auto
  have keys: "map score_key ss = take (nat k) (sort (map score_key ?all))"
    unfolding ss by (rule go_sorter.TopK_scores [OF srt assms(5)])
  have sub: "mset rs \<subseteq># mset ?all" "length rs \<le> nat k"
    using ivf.search_real [OF srt iv(1) assms(6)] iv(2) by simp_all
  then have "length rs \<le> length vs"
    using size_mset_mono [OF sub(1)] by simp
  then have len: "length rs \<le> length ss"
    using sub(2) ss go_sorter.length_TopK [OF srt, of ?all k] by simp
  have "score_key (ss ! j) \<le> score_key (rs ! j)" if "j < length rs" for j
  proof -
    have j: "j < length ss" "j < nat k"
      using that len sub(2) by simp_all
    have "score_key (ss ! j) = map score_key ss ! j"
      using j(1) by simp
    also have "\<dots> = sort (map score_key ?all) ! j"
      using j(2) by (simp add: keys)
    also have "\<dots> \<le> score_key (rs ! j)"
      using ivf.search_no_better [OF srt iv(1) assms(6) _ that] assms(5) iv(2) by (simp add: comp_def)
    finally show ?thesis .
  qed
  moreover have "map score_key rs = map score_key ss" if "iv_numPartitions idx' \<le> probe_count idx'"
  proof -
    have m: "mset (probed_hits srt idx' query metric) = mset ?all"
      using go_sorter.probed_all [OF srt iv(1) that] iv(2) by simp
    then have nn: "no_nan (probed_hits srt idx' query metric)"
      using assms(5) no_nan_mset by blast
    have "mset (map score_key (probed_hits srt idx' query metric)) = mset (map score_key ?all)"
      using m by (simp only: mset_map)
    then have "sort (map score_key (probed_hits srt idx' query metric)) = sort (map score_key ?all)"
      by (metis properties_for_sort mset_sort sorted_sort)
    then show ?thesis
      using go_sorter.TopK_scores [OF srt nn] keys rs by simp
  qed
  ultimately show ?thesis
    using sub(1) len by blast
qed

theorem ivf_against_flat_witness:
  "\<exists>fl ss. Flat_Build False one_vector (NewFlatIndex DistanceEuclidean) = (Inr (), fl) \<and>
     Flat_Search False insertion_sorter fl [0] 1 DistanceEuclidean = Inr ss \<and>
     map score_key ss = [0]"
proof -
  obtain fl where fl: "Flat_Build False one_vector (NewFlatIndex DistanceEuclidean) = (Inr (), fl)"
      "fi_vectors fl = one_vector" "fi_dim fl = 1"
    by (simp add: Flat_Build_def check_vectors_def)
  then obtain ss where s: "Flat_Search False insertion_sorter fl [0] 1 DistanceEuclidean = Inr ss"
    by (simp add: Flat_Search_def)
  have "no_nan (map (scored [0] DistanceEuclidean) one_vector)"
    by (simp add: no_nan_def scored_def)
  from ivf_against_flat [OF one_vector_short one_index_built fl(1) sorter_ok_insertion this one_index_search s]
  have "iv_numPartitions one_index \<le> probe_count one_index \<longrightarrow>
      map score_key [\<lparr>RowID = 3, Score = 0\<rparr>] = map score_key ss"
    by blast
  moreover have "iv_numPartitions one_index \<le> probe_count one_index"
    by (simp add: probe_count_def one_index_def)
  moreover have "score_key \<lparr>RowID = 3, Score = 0\<rparr> = 0"
    by (simp add: score_key_def f64_key_def)
  ultimately show ?thesis
    using fl(1) s by (metis list.map(1,2))
qed

end
