(* ===== verification/IndexStore.thy ===== *)
theory IndexStore
  imports IVFFlat LocalTable
begin

text \<open>
  Saving and loading both indexes on the local file system, at any path: \<open>Save\<close> writes one file,
  \<open>Load\<close> asks for its size and reads it whole. \<open>json_faithful\<close> is what the code relies on of
  \<open>encoding/json\<close> for the snapshot types: unmarshalling what was marshalled gives it back. Floats
  are printed with the digits that identify them, and NaN and infinities are refused by \<open>Marshal\<close>.
\<close>

definition json_faithful :: "'s json_codec \<Rightarrow> bool" where
  "json_faithful J \<longleftrightarrow> (\<forall>s d. Marshal J s = Inr d \<longrightarrow> Unmarshal J d = Inr s)"

lemma LocalFS_read_whole:
  assumes "fs_good c w" and "plan w = []" and "LocalFS_resolve root p \<noteq> ''''"
    and "file_content w (under_root c root p) = Some d"
  shows "read_snapshot J False (LocalFS root) p w = (Unmarshal J d, w)"
proof -
  have "node_at w (under_root c root p) = Some (File d)"
    using assms(4) by (auto simp: file_content_def split: option.splits node.splits)
  then have "os_Stat (LocalFS_resolve root p) w = Inr (File d)"
    using os_Stat_node_at [of w "LocalFS_resolve root p" "File d"] assms(1,3)
    by (simp add: fs_good_def resolve_full)
  then show ?thesis
    using assms(2) by (simp add: read_snapshot_def LocalFS_Size_def LocalFS_Read_def next_io_def)
qed

lemma LocalFS_Write_path:
  "LocalFS_Write root p d w = (Inr (), w') \<Longrightarrow> LocalFS_resolve root p \<noteq> ''''"
  by (auto simp: LocalFS_Write_def Let_def dest: os_WriteFile_node_at(4)
      split: prod.splits sum.splits io.splits if_splits)

text \<open>Whatever happens to other files after a successful write, the file reads back whole.\<close>

lemma write_then_read:
  assumes "fs_good c w" and "Store_Write (LocalFS root) p d w = (Inr (), w1)"
    and "fs_good c w2" and "plan w2 = []"
    and "file_content w2 (under_root c root p) = file_content w1 (under_root c root p)"
  shows "read_snapshot J False (LocalFS root) p w2 = (Unmarshal J d, w2)"
proof -
  have "file_content w2 (under_root c root p) = Some d"
    using lfs_frame.write_done [OF assms(1,2)] assms(5) by simp
  moreover have "LocalFS_resolve root p \<noteq> ''''"
    using assms(2) LocalFS_Write_path by simp
  ultimately show ?thesis
    using LocalFS_read_whole [OF assms(3,4)] by blast
qed

lemma IVF_Search_snapshot:
  assumes "IVF_snapshot i = IVF_snapshot j"
  shows "IVF_Search c srt i q k m = IVF_Search c srt j q k m" and "IVF_ready i \<longleftrightarrow> IVF_ready j"
proof -
  have f: "iv_centroids i = iv_centroids j" "iv_partitions i = iv_partitions j" "iv_vectors i = iv_vectors j"
    "iv_numPartitions i = iv_numPartitions j" "iv_metric i = iv_metric j" "iv_dim i = iv_dim j"
    "iv_NProbes i = iv_NProbes j"
    using assms by (simp_all add: IVF_snapshot_def)
  have scan: "scan_partitions i q m cs = scan_partitions j q m cs" for cs
    by (induction cs) (auto simp: f split: sum.splits)
  have count: "probe_count i = probe_count j"
    by (simp add: probe_count_def f Let_def)
  show "IVF_Search c srt i q k m = IVF_Search c srt j q k m"
    unfolding IVF_Search_def f scan count ..
  show "IVF_ready i \<longleftrightarrow> IVF_ready j"
    by (simp add: IVF_ready_def f)
qed

section \<open>Properties\<close>

text \<open>
  C24: an inverted-file index that \<open>Save\<close> stored without error is the one \<open>Load\<close> restores, into any
  index value and after any operations on other files: the same state, invariant and answers.
\<close>

theorem ivf_save_load:
  assumes "json_faithful J" and "fs_good c w"
    and "IVF_Save J False (LocalFS root) path idx w = (Inr (), w1)"
    and "fs_good c w2" and "plan w2 = []"
    and "file_content w2 (under_root c root path) = file_content w1 (under_root c root path)"
  shows "\<exists>idx'. IVF_Load J False (LocalFS root) path other w2 = (Inr (), idx', w2) \<and>
    IVF_snapshot idx' = IVF_snapshot idx \<and> (IVF_ready idx \<longrightarrow> IVF_ready idx') \<and>
    (\<forall>cancelled srt q k m. IVF_Search cancelled srt idx' q k m = IVF_Search cancelled srt idx q k m)"
proof -
  obtain d where d: "Marshal J (IVF_snapshot idx) = Inr d" "Store_Write (LocalFS root) path d w = (Inr (), w1)"
    using assms(3) by (auto simp: IVF_Save_def split: sum.splits)
  have "read_snapshot J False (LocalFS root) path w2 = (Inr (IVF_snapshot idx), w2)"
    using write_then_read [OF assms(2) d(2) assms(4-6), of J] d(1) assms(1) by (simp add: json_faithful_def)
  then obtain idx' where l: "IVF_Load J False (LocalFS root) path other w2 = (Inr (), idx', w2)"
    and s: "IVF_snapshot idx' = IVF_snapshot idx"
    by (simp add: IVF_Load_def IVF_snapshot_def)
  show ?thesis
    using l s IVF_Search_snapshot [OF s] by blast
qed

text \<open>
  The same for the flat index; its statistics after \<open>Load\<close> are those \<open>Build\<close> computed.
\<close>

theorem flat_save_load:
  assumes "json_faithful J" and "fs_good c w" and "Flat_Build False vs idx0 = (Inr (), idx)"
    and "Flat_Save J False (LocalFS root) path idx w = (Inr (), w1)"
    and "fs_good c w2" and "plan w2 = []"
    and "file_content w2 (under_root c root path) = file_content w1 (under_root c root path)"
  shows "Flat_Load J False (LocalFS root) path other w2 = (Inr (), idx, w2)"
proof -
  let ?s = "\<lparr>fs_Vectors = fi_vectors idx, fs_Metric = fi_metric idx, fs_Dim = fi_dim idx\<rparr>"
  obtain d where d: "Marshal J ?s = Inr d" "Store_Write (LocalFS root) path d w = (Inr (), w1)"
    using assms(4) by (auto simp: Flat_Save_def Let_def split: sum.splits)
  have "read_snapshot J False (LocalFS root) path w2 = (Inr ?s, w2)"
    using write_then_read [OF assms(2) d(2) assms(5-7), of J] d(1) assms(1) by (simp add: json_faithful_def)
  moreover have "fi_stats idx = no_stats\<lparr>ist_NumVectors := int (length (fi_vectors idx)), ist_IndexType := IndexTypeFlat\<rparr>"
    using assms(3) by (auto simp: Flat_Build_def split: sum.splits)
  ultimately show ?thesis
    by (simp add: Flat_Load_def)
qed

section \<open>An example\<close>

text \<open>A codec that knows one value.\<close>

definition codec_for :: "'s \<Rightarrow> 's json_codec" where
  "codec_for x = \<lparr>Marshal = (\<lambda>s. if s = x then Inr [7] else Inl (TblErr ErrJson)), Unmarshal = (\<lambda>d. Inr x)\<rparr>"

lemma json_faithful_codec_for: "json_faithful (codec_for x)"
  by (simp add: json_faithful_def codec_for_def)

definition saved_world :: world where
  "saved_world = snd (LocalFS_Write ''/db'' ''i/x'' [7] empty_world)"

lemma saved_world: "LocalFS_Write ''/db'' ''i/x'' [7] empty_world = (Inr (), saved_world)" "plan saved_world = []"
  by code_simp+

lemma empty_world_good: "fs_good [] empty_world"
  using empty_world_ready [of "[]"] by (simp add: fs_ready_def)

lemma saved_world_good: "fs_good [] saved_world"
  using lfs_frame.write_frame [OF empty_world_good, of "''/db''" "''i/x''"] saved_world(1) by simp

theorem ivf_save_load_witness:
  "\<exists>idx'. IVF_Load (codec_for (IVF_snapshot one_index)) False (LocalFS ''/db'') ''i/x''
      (NewIVFFlatIndex 1 DistanceCosine) saved_world = (Inr (), idx', saved_world) \<and>
    IVF_Search False insertion_sorter idx' [0] 1 DistanceEuclidean = Inr [\<lparr>RowID = 3, Score = 0\<rparr>]"
proof -
  let ?J = "codec_for (IVF_snapshot one_index)"
  have "IVF_Save ?J False (LocalFS ''/db'') ''i/x'' one_index empty_world = (Inr (), saved_world)"
    by (simp add: IVF_Save_def codec_for_def saved_world(1))
  from ivf_save_load [OF json_faithful_codec_for empty_world_good this saved_world_good saved_world(2) refl]
  show ?thesis
    using one_index_search by metis
qed

theorem flat_save_load_witness:
  "\<exists>idx. Flat_Build False one_vector (NewFlatIndex DistanceEuclidean) = (Inr (), idx) \<and>
    Flat_Load (codec_for \<lparr>fs_Vectors = one_vector, fs_Metric = DistanceEuclidean, fs_Dim = 1\<rparr>) False
      (LocalFS ''/db'') ''i/x'' (NewFlatIndex DistanceCosine) saved_world = (Inr (), idx, saved_world)"
proof -
  let ?J = "codec_for \<lparr>fs_Vectors = one_vector, fs_Metric = DistanceEuclidean, fs_Dim = 1\<rparr>"
  obtain idx where b: "Flat_Build False one_vector (NewFlatIndex DistanceEuclidean) = (Inr (), idx)"
    "fi_vectors idx = one_vector" "fi_metric idx = DistanceEuclidean" "fi_dim idx = 1"
    by (simp add: Flat_Build_def check_vectors_def NewFlatIndex_def)
  have "Flat_Save ?J False (LocalFS ''/db'') ''i/x'' idx empty_world = (Inr (), saved_world)"
    by (simp add: Flat_Save_def codec_for_def saved_world(1) b)
  from flat_save_load [OF json_faithful_codec_for empty_world_good b(1) this saved_world_good saved_world(2) refl]
  show ?thesis
    using b(1) by blast
qed

end
