(* ===== verification/Configuration.thy ===== *)
theory Configuration
  imports GoJsonPrefix ManifestRoundtrip LocalFS
begin

text \<open>
  \<^verbatim>\<open>src/config/config.go\<close>: the configuration of a database, its JSON file and the store it
  selects. The file is read and written by package \<open>os\<close> directly, not through a store; these calls
  fail as the tree makes them fail, and as the plan of faults does: a call fails without effect, or a
  write is cut short after the file has been truncated. They take no context, so a cancellation does
  nothing to them. Unmarshalling goes into the default configuration, so a key the
  file does not mention keeps its default, at every depth.

  A path is resolved without looking at the tree, so \<^verbatim>\<open>x/../y\<close> is \<^verbatim>\<open>y\<close> whether or not \<^verbatim>\<open>x\<close> exists.
\<close>

section \<open>Types\<close>

type_synonym BackendType = string

definition BackendLocal :: BackendType where
  "BackendLocal = ''local''"

definition BackendFUSE :: BackendType where
  "BackendFUSE = ''fuse''"

definition BackendS3 :: BackendType where
  "BackendS3 = ''s3''"

record LocalConfig =
  lc_Root :: string

record S3Config =
  s3_Endpoint :: string
  s3_Bucket :: string
  s3_Region :: string
  s3_AccessKeyID :: string
  s3_SecretAccessKey :: string

record FUSEConfig =
  fuse_MountPoint :: string

record StorageConfig =
  sc_Backend :: BackendType
  sc_Local :: LocalConfig
  sc_S3 :: S3Config
  sc_FUSE :: FUSEConfig
  sc_BufferPoolSize :: int

record Config =
  cfg_Path :: string
  cfg_Storage :: StorageConfig

definition DefaultConfig :: Config where
  "DefaultConfig =
     \<lparr>cfg_Path = ''./golancedb_data'',
      cfg_Storage =
        \<lparr>sc_Backend = BackendLocal, sc_Local = \<lparr>lc_Root = ''''\<rparr>,
         sc_S3 = \<lparr>s3_Endpoint = '''', s3_Bucket = '''', s3_Region = '''', s3_AccessKeyID = '''',
           s3_SecretAccessKey = ''''\<rparr>,
         sc_FUSE = \<lparr>fuse_MountPoint = ''''\<rparr>, sc_BufferPoolSize = 0\<rparr>\<rparr>"

section \<open>JSON\<close>

definition enc_Config :: "Config \<Rightarrow> json" where
  "enc_Config c =
     (let s = cfg_Storage c; s3 = sc_S3 s in
      JObj [(''path'', JStr (cfg_Path c)),
        (''storage'', JObj
          [(''backend'', JStr (sc_Backend s)),
           (''local'', JObj [(''root'', JStr (lc_Root (sc_Local s)))]),
           (''s3'', JObj
             [(''endpoint'', JStr (s3_Endpoint s3)), (''bucket'', JStr (s3_Bucket s3)),
              (''region'', JStr (s3_Region s3)), (''access_key_id'', JStr (s3_AccessKeyID s3)),
              (''secret_access_key'', JStr (s3_SecretAccessKey s3))]),
           (''fuse'', JObj [(''mount_point'', JStr (fuse_MountPoint (sc_FUSE s)))]),
           (''buffer_pool_size'', enc_int (sc_BufferPoolSize s))])])"

text \<open>A struct is unmarshalled into the value already there; \<open>null\<close> leaves it alone.\<close>

definition dec_into :: "(string \<Rightarrow> json \<Rightarrow> 'a \<Rightarrow> 'a option) \<Rightarrow> json \<Rightarrow> 'a \<Rightarrow> 'a option" where
  "dec_into put j cur = (if j = JNull then Some cur else dec_struct put cur j)"

definition set_LocalConfig_member :: "string \<Rightarrow> json \<Rightarrow> LocalConfig \<Rightarrow> LocalConfig option" where
  "set_LocalConfig_member k j c =
     (if key_is k ''root'' then map_option (\<lambda>x. c\<lparr>lc_Root := x\<rparr>) (dec_string j (lc_Root c)) else Some c)"

definition set_S3Config_member :: "string \<Rightarrow> json \<Rightarrow> S3Config \<Rightarrow> S3Config option" where
  "set_S3Config_member k j c =
     (if key_is k ''endpoint'' then map_option (\<lambda>x. c\<lparr>s3_Endpoint := x\<rparr>) (dec_string j (s3_Endpoint c))
      else if key_is k ''bucket'' then map_option (\<lambda>x. c\<lparr>s3_Bucket := x\<rparr>) (dec_string j (s3_Bucket c))
      else if key_is k ''region'' then map_option (\<lambda>x. c\<lparr>s3_Region := x\<rparr>) (dec_string j (s3_Region c))
      else if key_is k ''access_key_id'' then
        map_option (\<lambda>x. c\<lparr>s3_AccessKeyID := x\<rparr>) (dec_string j (s3_AccessKeyID c))
      else if key_is k ''secret_access_key'' then
        map_option (\<lambda>x. c\<lparr>s3_SecretAccessKey := x\<rparr>) (dec_string j (s3_SecretAccessKey c))
      else Some c)"

definition set_FUSEConfig_member :: "string \<Rightarrow> json \<Rightarrow> FUSEConfig \<Rightarrow> FUSEConfig option" where
  "set_FUSEConfig_member k j c =
     (if key_is k ''mount_point''
      then map_option (\<lambda>x. c\<lparr>fuse_MountPoint := x\<rparr>) (dec_string j (fuse_MountPoint c)) else Some c)"

definition set_StorageConfig_member :: "string \<Rightarrow> json \<Rightarrow> StorageConfig \<Rightarrow> StorageConfig option" where
  "set_StorageConfig_member k j c =
     (if key_is k ''backend'' then map_option (\<lambda>x. c\<lparr>sc_Backend := x\<rparr>) (dec_string j (sc_Backend c))
      else if key_is k ''local'' then
        map_option (\<lambda>x. c\<lparr>sc_Local := x\<rparr>) (dec_into set_LocalConfig_member j (sc_Local c))
      else if key_is k ''s3'' then
        map_option (\<lambda>x. c\<lparr>sc_S3 := x\<rparr>) (dec_into set_S3Config_member j (sc_S3 c))
      else if key_is k ''fuse'' then
        map_option (\<lambda>x. c\<lparr>sc_FUSE := x\<rparr>) (dec_into set_FUSEConfig_member j (sc_FUSE c))
      else if key_is k ''buffer_pool_size'' then
        map_option (\<lambda>x. c\<lparr>sc_BufferPoolSize := x\<rparr>) (dec_int fits64 j (sc_BufferPoolSize c))
      else Some c)"

definition set_Config_member :: "string \<Rightarrow> json \<Rightarrow> Config \<Rightarrow> Config option" where
  "set_Config_member k j c =
     (if key_is k ''path'' then map_option (\<lambda>x. c\<lparr>cfg_Path := x\<rparr>) (dec_string j (cfg_Path c))
      else if key_is k ''storage'' then
        map_option (\<lambda>x. c\<lparr>cfg_Storage := x\<rparr>) (dec_into set_StorageConfig_member j (cfg_Storage c))
      else Some c)"

section \<open>Files\<close>

definition ends_slash :: "string \<Rightarrow> bool" where
  "ends_slash s \<longleftrightarrow> s \<noteq> '''' \<and> last s = CHR ''/''"

definition io_fails :: "io \<Rightarrow> bool" where
  "io_fails ev \<longleftrightarrow> (case ev of IoOk \<Rightarrow> False | IoCancel \<Rightarrow> False | _ \<Rightarrow> True)"

definition os_ReadFile :: "string \<Rightarrow> world \<Rightarrow> (storage_error + byte list) \<times> world" where
  "os_ReadFile path w0 =
     (let (ev, w) = next_io w0 in
      (case os_Stat path w of
         Inl e \<Rightarrow> Inl e
       | Inr Dir \<Rightarrow> Inl ErrIsDir
       | Inr (File d) \<Rightarrow> if ends_slash path \<or> io_fails ev then Inl ErrOS else Inr d, w))"

definition make_dirs :: "string \<Rightarrow> world \<Rightarrow> (storage_error + unit) \<times> world" where
  "make_dirs dir w0 =
     (let (ev, w) = next_io w0 in
      if io_fails ev then (Inl ErrOS, w)
      else case os_MkdirAll (resolve_path (cwd w) dir) w of Inl e \<Rightarrow> (Inl e, w) | Inr w1 \<Rightarrow> (Inr (), w1))"

text \<open>Opening for writing truncates the file; the write itself may stop after part of the data.\<close>

definition put_file :: "string \<Rightarrow> byte list \<Rightarrow> world \<Rightarrow> (storage_error + unit) \<times> world" where
  "put_file path data w0 =
     (let (ev, w) = next_io w0 in
      if ends_slash path then (Inl ErrIsDir, w)
      else if ev = IoFail then (Inl ErrOS, w)
      else case os_WriteFile path (case ev of IoTorn n \<Rightarrow> take n data | _ \<Rightarrow> data) w of
        Inl e \<Rightarrow> (Inl e, w)
      | Inr w1 \<Rightarrow> (if io_fails ev then Inl ErrOS else Inr (), w1))"

text \<open>\<open>filepath.Dir\<close>: what precedes the last separator, cleaned.\<close>

definition path_Dir :: "string \<Rightarrow> string" where
  "path_Dir s = path_Clean (rev (dropWhile (\<lambda>c. c \<noteq> CHR ''/'') (rev s)))"

definition Load :: "string \<Rightarrow> world \<Rightarrow> Config res \<times> world" where
  "Load path w =
     (case os_ReadFile path w of
        (Inl e, w1) \<Rightarrow> (if e = ErrNotExist then Inr DefaultConfig else Inl (CfgErr (ErrConfigRead e)), w1)
      | (Inr data, w1) \<Rightarrow>
          (case parse_json (string_of_bytes data) of
             None \<Rightarrow> Inl (CfgErr ErrConfigParse)
           | Some j \<Rightarrow>
               (case dec_into set_Config_member j DefaultConfig of
                  None \<Rightarrow> Inl (CfgErr ErrConfigParse)
                | Some cfg \<Rightarrow> Inr cfg), w1))"

definition Save :: "Config \<Rightarrow> string \<Rightarrow> world \<Rightarrow> unit res \<times> world" where
  "Save c path w =
     (let dir = path_Dir path in
      case (if dir \<noteq> ''.'' then make_dirs dir w else (Inr (), w)) of
        (Inl e, w1) \<Rightarrow> (Inl (CfgErr (ErrConfigDir e)), w1)
      | (Inr _, w1) \<Rightarrow>
          let data = bytes_of_string (indent_json 0 (enc_Config c)) in
          (case put_file path data w1 of
             (Inl e, w2) \<Rightarrow> (Inl (CfgErr (ErrConfigWrite e)), w2)
           | (Inr _, w2) \<Rightarrow> (Inr (), w2)))"

section \<open>The store of a configuration\<close>

definition NewStore :: "Config \<Rightarrow> world Store res" where
  "NewStore c =
     (let s = cfg_Storage c in
      if sc_Backend s = BackendLocal \<or> sc_Backend s = '''' then Inr (LocalFS (lc_Root (sc_Local s)))
      else if sc_Backend s = BackendFUSE then
        (if fuse_MountPoint (sc_FUSE s) = '''' then Inl (CfgErr ErrFUSEMountPoint)
         else Inr (LocalFS (fuse_MountPoint (sc_FUSE s))))
      else if sc_Backend s = BackendS3 then
        (if s3_Bucket (sc_S3 s) = '''' then Inl (CfgErr ErrS3Bucket)
         else if s3_Region (sc_S3 s) = '''' then Inl (CfgErr ErrS3Region)
         else Inl (CfgErr ErrS3NotImplemented))
      else Inl (CfgErr (ErrUnknownBackend (sc_Backend s))))"

definition Validate :: "Config \<Rightarrow> unit res" where
  "Validate c =
     (let s = cfg_Storage c in
      if cfg_Path c = '''' then Inl (CfgErr ErrPathRequired)
      else if sc_Backend s = BackendLocal \<or> sc_Backend s = '''' then Inr ()
      else if sc_Backend s = BackendFUSE then
        (if fuse_MountPoint (sc_FUSE s) = '''' then Inl (CfgErr ErrFUSEMountPoint) else Inr ())
      else if sc_Backend s = BackendS3 then
        (if s3_Bucket (sc_S3 s) = '''' then Inl (CfgErr ErrS3Bucket)
         else if s3_Region (sc_S3 s) = '''' then Inl (CfgErr ErrS3Region)
         else Inr ())
      else Inl (CfgErr (ErrUnknownBackend (sc_Backend s))))"

section \<open>Reading back what was saved\<close>

text \<open>What JSON carries faithfully: valid UTF-8 and a 64-bit size.\<close>

definition Config_ok :: "Config \<Rightarrow> bool" where
  "Config_ok c \<longleftrightarrow>
     (let s = cfg_Storage c; s3 = sc_S3 s in
      utf8_ok (cfg_Path c) \<and> utf8_ok (sc_Backend s) \<and> utf8_ok (lc_Root (sc_Local s)) \<and>
      utf8_ok (s3_Endpoint s3) \<and> utf8_ok (s3_Bucket s3) \<and> utf8_ok (s3_Region s3) \<and>
      utf8_ok (s3_AccessKeyID s3) \<and> utf8_ok (s3_SecretAccessKey s3) \<and>
      utf8_ok (fuse_MountPoint (sc_FUSE s)) \<and> fits64 (sc_BufferPoolSize s))"

lemma lower_other [simp]: "lower CHR ''_'' = CHR ''_''" "lower CHR ''3'' = CHR ''3''"
  by code_simp+

lemma json_ok_enc_Config: "Config_ok c \<Longrightarrow> json_ok (enc_Config c)"
  by (simp add: enc_Config_def Config_ok_def Let_def utf8_ok_ascii)

lemma dec_enc_Config:
  assumes "Config_ok c"
  shows "dec_into set_Config_member (enc_Config c) cur = Some c"
  using assms
  by (simp add: dec_into_def enc_Config_def Let_def dec_struct_def set_Config_member_def key_is_def
      set_StorageConfig_member_def set_LocalConfig_member_def set_S3Config_member_def
      set_FUSEConfig_member_def Config_ok_def)

definition config_text :: "Config \<Rightarrow> byte list" where
  "config_text c = bytes_of_string (indent_json 0 (enc_Config c))"

lemma make_dirs_keeps:
  assumes "make_dirs dir w = (r, w')"
  shows "file_content w' = file_content w" "cwd w' = cwd w" "fs_ok w \<Longrightarrow> fs_ok w'" "plan w = [] \<Longrightarrow> plan w' = []"
proof -
  obtain ev w0 where ev: "next_io w = (ev, w0)"
    by fastforce
  note keeps = next_io_keeps [OF ev] file_content_nodes fs_ok_nodes
  have p: "plan w = [] \<Longrightarrow> plan w0 = []"
    using ev by (auto simp: next_io_def)
  consider "w' = w0" | "os_MkdirAll (resolve_path (cwd w0) dir) w0 = Inr w'"
    using assms ev by (auto simp: make_dirs_def split: if_splits sum.splits)
  then show "file_content w' = file_content w" "cwd w' = cwd w" "fs_ok w \<Longrightarrow> fs_ok w'" "plan w = [] \<Longrightarrow> plan w' = []"
    using keeps(1,2) keeps(4) [of w0 w] keeps(5) [of w0 w] p os_MkdirAll_keeps [of _ w0 w'] os_MkdirAll_ok [of w0 _ w']
    by (cases, auto)+
qed

lemma put_file_cases:
  assumes "fs_ok w" and "put_file path d w = (r, w')"
  obtains (none) e where "r = Inl e" "file_content w' = file_content w"
  | (torn) e n where "r = Inl e" "plan w \<noteq> []" "fs_ok w'" "cwd w' = cwd w" "\<not> ends_slash path" "path \<noteq> ''''"
      "node_at w' (resolve_path (cwd w) path) = Some (File (take n d))"
      "file_content w' = (file_content w)(resolve_path (cwd w) path := Some (take n d))"
  | (written) "r = Inr ()" "fs_ok w'" "cwd w' = cwd w" "\<not> ends_slash path" "path \<noteq> ''''"
      "node_at w' (resolve_path (cwd w) path) = Some (File d)"
      "file_content w' = (file_content w)(resolve_path (cwd w) path := Some d)"
proof -
  obtain ev w0 where ev: "next_io w = (ev, w0)"
    by fastforce
  have w0: "fs_ok w0" "cwd w0 = cwd w" "file_content w0 = file_content w"
    using next_io_keeps [OF ev] fs_ok_nodes [of w0 w] file_content_nodes [of w0 w] assms(1) by simp_all
  let ?d = "case ev of IoTorn n \<Rightarrow> take n d | _ \<Rightarrow> d"
  show thesis
  proof (cases "ends_slash path \<or> ev = IoFail \<or> (\<exists>e. os_WriteFile path ?d w0 = Inl e)")
    case True
    then have "(\<exists>e. r = Inl e) \<and> w' = w0"
      using assms(2) ev by (auto simp: put_file_def split: if_splits)
    with w0(3) none show thesis
      by auto
  next
    case False
    then obtain w1 where w1: "os_WriteFile path ?d w0 = Inr w1"
      by (cases "os_WriteFile path ?d w0") auto
    note at = os_WriteFile_node_at [OF w1]
    have w': "w' = w1" "r = (if io_fails ev then Inl ErrOS else Inr ())"
      using False w1 assms(2) ev by (simp_all add: put_file_def)
    have ok: "fs_ok w1" "file_content w1 = (file_content w)(resolve_path (cwd w) path := Some ?d)"
      using os_WriteFile_ok [OF w0(1) w1] content_upd(1) [OF at(1)] w0(2,3) by simp_all
    show thesis
    proof (cases ev)
      case (IoTorn n)
      then have "plan w \<noteq> []"
        using ev by (auto simp: next_io_def)
      with IoTorn show thesis
        using torn [of ErrOS n] w' ok at False w0(2) by (simp add: io_fails_def)
    qed (use written w' ok at False w0(2) in \<open>auto simp: io_fails_def\<close>)
  qed
qed

lemma Save_cases:
  assumes "fs_ok w" and "Save c path w = (r, w')"
  obtains (none) e where "r = Inl e" "file_content w' = file_content w"
  | (torn) e n where "r = Inl e" "plan w \<noteq> []" "fs_ok w'" "cwd w' = cwd w" "\<not> ends_slash path" "path \<noteq> ''''"
      "node_at w' (resolve_path (cwd w) path) = Some (File (take n (config_text c)))"
      "file_content w' = (file_content w)(resolve_path (cwd w) path := Some (take n (config_text c)))"
  | (written) "r = Inr ()" "fs_ok w'" "cwd w' = cwd w" "\<not> ends_slash path" "path \<noteq> ''''"
      "node_at w' (resolve_path (cwd w) path) = Some (File (config_text c))"
      "file_content w' = (file_content w)(resolve_path (cwd w) path := Some (config_text c))"
proof -
  obtain r1 w1 where mk: "(if path_Dir path \<noteq> ''.'' then make_dirs (path_Dir path) w else (Inr (), w)) = (r1, w1)"
    by fastforce
  have k: "file_content w1 = file_content w" "cwd w1 = cwd w" "fs_ok w1" "plan w = [] \<Longrightarrow> plan w1 = []"
    using mk make_dirs_keeps [of "path_Dir path" w r1 w1] assms(1) by (auto split: if_splits)
  show thesis
  proof (cases r1)
    case (Inl e)
    then show thesis
      using assms(2) mk k none by (auto simp: Save_def Let_def)
  next
    case (Inr u)
    obtain r2 where p: "put_file path (config_text c) w1 = (r2, w')"
      and r: "r = (case r2 of Inl e \<Rightarrow> Inl (CfgErr (ErrConfigWrite e)) | Inr _ \<Rightarrow> Inr ())"
      using assms(2) mk Inr by (auto simp: Save_def Let_def config_text_def split: prod.splits sum.splits)
    from k(3) p show thesis
    proof (cases rule: put_file_cases)
      case none': none
      then show thesis
        using none r k(1) by simp
    next
      case torn': (torn e n)
      then show thesis
        using torn [of _ n] r k by auto
    next
      case written
      then show thesis
        using that(3) r k by simp
    qed
  qed
qed

text \<open>Loading what a file holds, whole or cut short.\<close>

lemma Load_file:
  assumes "fs_ok w" and "Config_ok c" and "\<not> ends_slash path" and "path \<noteq> ''''"
    and "node_at w (resolve_path (cwd w) path) = Some (File (take n (config_text c)))"
  shows "fst (Load path (w\<lparr>plan := []\<rparr>)) =
    (if n < length (config_text c) then Inl (CfgErr ErrConfigParse) else Inr c)"
proof -
  have io: "next_io (w\<lparr>plan := []\<rparr>) = (IoOk, w\<lparr>plan := []\<rparr>)"
    by (simp add: next_io_def)
  have "os_Stat path (w\<lparr>plan := []\<rparr>) = os_Stat path w"
    by (simp add: os_Stat_def Let_def node_at_def is_file_def [abs_def])
  also have "\<dots> = Inr (File (take n (config_text c)))"
    by (rule os_Stat_node_at [OF assms(1,5,4)])
  finally have read: "os_ReadFile path (w\<lparr>plan := []\<rparr>) = (Inr (take n (config_text c)), w\<lparr>plan := []\<rparr>)"
    using assms(3) by (simp add: os_ReadFile_def io io_fails_def)
  have ok: "json_ok (enc_Config c)"
    by (rule json_ok_enc_Config [OF assms(2)])
  have bytes: "string_of_bytes (take n (config_text c)) = take n (indent_json 0 (enc_Config c))"
    by (simp add: config_text_def string_of_bytes_def bytes_of_string_def take_map comp_def)
  have size: "length (config_text c) = length (indent_json 0 (enc_Config c))"
    by (simp add: config_text_def)
  show ?thesis
  proof (cases "n < length (config_text c)")
    case True
    moreover obtain ms where "enc_Config c = JObj ms"
      by (simp add: enc_Config_def Let_def)
    ultimately have "parse_json (take n (indent_json 0 (enc_Config c))) = None"
      using indent_json_prefix [of ms n] ok size by simp
    with True show ?thesis
      by (simp add: Load_def read bytes)
  next
    case False
    then have "take n (indent_json 0 (enc_Config c)) = indent_json 0 (enc_Config c)"
      using size by simp
    with False show ?thesis
      using parse_indent_json [OF ok] dec_enc_Config [OF assms(2)]
      by (simp add: Load_def read bytes) (simp add: config_text_def)
  qed
qed

section \<open>Properties\<close>

text \<open>
  C33: a configuration that \<open>Save\<close> wrote without error is read back by \<open>Load\<close>, the secrets and the
  64-bit size included, and no other file changed. A \<open>Save\<close> that fails either changes no file, as it
  does whenever no fault of the disk is to blame, or leaves the first bytes of the new text in its
  file and changes no other: then \<open>Load\<close> refuses the file unless all of the text is there, so it never
  returns a mixture of the old and the new configuration, but the old one is lost. \<open>Load\<close> of a file
  that does not exist is the default configuration.
\<close>

theorem config_save_load:
  assumes "fs_ok w" and "Config_ok c" and "Save c path w = (r, w')"
  shows "(case r of
      Inr _ \<Rightarrow> fst (Load path (w'\<lparr>plan := []\<rparr>)) = Inr c \<and>
        (\<forall>k. k \<noteq> resolve_path (cwd w) path \<longrightarrow> file_content w' k = file_content w k)
    | Inl e \<Rightarrow> file_content w' = file_content w \<or>
        plan w \<noteq> [] \<and>
        (\<exists>n. file_content w' = (file_content w)(resolve_path (cwd w) path := Some (take n (config_text c))) \<and>
           fst (Load path (w'\<lparr>plan := []\<rparr>)) =
             (if n < length (config_text c) then Inl (CfgErr ErrConfigParse) else Inr c))) \<and>
    (os_Stat path w = Inl ErrNotExist \<longrightarrow> fst (Load path w) = Inr DefaultConfig)"
proof (rule conjI)
  show "case r of
      Inr _ \<Rightarrow> fst (Load path (w'\<lparr>plan := []\<rparr>)) = Inr c \<and>
        (\<forall>k. k \<noteq> resolve_path (cwd w) path \<longrightarrow> file_content w' k = file_content w k)
    | Inl e \<Rightarrow> file_content w' = file_content w \<or>
        plan w \<noteq> [] \<and>
        (\<exists>n. file_content w' = (file_content w)(resolve_path (cwd w) path := Some (take n (config_text c))) \<and>
           fst (Load path (w'\<lparr>plan := []\<rparr>)) =
             (if n < length (config_text c) then Inl (CfgErr ErrConfigParse) else Inr c))"
    using assms(1,3)
  proof (cases rule: Save_cases)
    case (torn e n)
    then show ?thesis
      using Load_file [of w' c path n] assms(2) by auto
  next
    case written
    then show ?thesis
      using Load_file [of w' c path "length (config_text c)"] assms(2) by simp
  qed simp
  have "os_Stat path w1 = os_Stat path w" if "next_io w = (ev, w1)" for ev w1
    using next_io_keeps [OF that] by (simp add: os_Stat_def Let_def node_at_def is_file_def [abs_def])
  then show "os_Stat path w = Inl ErrNotExist \<longrightarrow> fst (Load path w) = Inr DefaultConfig"
    by (auto simp: Load_def os_ReadFile_def split: prod.splits)
qed

text \<open>
  \<open>NewStore\<close> and \<open>Validate\<close> agree. A valid configuration yields the file system store rooted
  where it says, unless it names the S3 backend, which is refused as not implemented; an invalid
  one with a path is refused by both for the same reason; and the default configuration is valid.
\<close>

theorem NewStore_Validate:
  "(case Validate c of
      Inr _ \<Rightarrow>
        (if sc_Backend (cfg_Storage c) = BackendS3 then NewStore c = Inl (CfgErr ErrS3NotImplemented)
         else \<exists>root. NewStore c = Inr (LocalFS root) \<and>
           root = (if sc_Backend (cfg_Storage c) = BackendFUSE then fuse_MountPoint (sc_FUSE (cfg_Storage c))
                   else lc_Root (sc_Local (cfg_Storage c))))
    | Inl e \<Rightarrow> e = CfgErr ErrPathRequired \<and> cfg_Path c = '''' \<or> NewStore c = Inl e) \<and>
   Validate DefaultConfig = Inr () \<and> NewStore DefaultConfig = Inr (LocalFS '''')"
  by (simp add: Validate_def NewStore_def Let_def BackendLocal_def BackendFUSE_def BackendS3_def
      DefaultConfig_def)

section \<open>A witness\<close>

definition s3_config :: Config where
  "s3_config = DefaultConfig\<lparr>cfg_Storage := (cfg_Storage DefaultConfig)\<lparr>sc_Backend := BackendS3,
     sc_S3 := \<lparr>s3_Endpoint = '''', s3_Bucket = ''b'', s3_Region = ''eu'', s3_AccessKeyID = ''<k>'',
       s3_SecretAccessKey = ''x''\<rparr>, sc_BufferPoolSize := 4096\<rparr>\<rparr>"

theorem config_save_load_witness:
  "\<exists>w'. Save s3_config ''etc/db.json'' \<lparr>nodes = [], cwd = [''home''], dir_size = 0, plan = []\<rparr> = (Inr (), w') \<and>
     fst (Load ''etc/db.json'' (w'\<lparr>plan := []\<rparr>)) = Inr s3_config \<and>
     fst (Load ''etc/db.json'' \<lparr>nodes = [], cwd = [''home''], dir_size = 0, plan = []\<rparr>) = Inr DefaultConfig"
proof -
  let ?w = "\<lparr>nodes = [], cwd = [''home''], dir_size = 0, plan = []\<rparr>"
  have w: "fs_ok ?w"
    by (simp add: fs_ok_def gm_ok_def)
  have c: "Config_ok s3_config"
    by (simp add: s3_config_def DefaultConfig_def Config_ok_def utf8_ok_ascii BackendS3_def fits64_def)
  obtain r w' where s: "Save s3_config ''etc/db.json'' ?w = (r, w')"
    by (metis surj_pair)
  let ?w1 = "\<lparr>nodes = [([''home''], Dir), ([''home'', ''etc''], Dir)], cwd = [''home''], dir_size = 0, plan = []\<rparr>"
  have "os_MkdirAll [''home'', ''etc''] ?w = Inr ?w1" "path_Dir ''etc/db.json'' = ''etc''"
    "resolve_path [''home''] ''etc'' = [''home'', ''etc'']"
    "resolve_path [''home''] ''etc/db.json'' = [''home'', ''etc'', ''db.json'']" "\<not> ends_slash ''etc/db.json''"
    by code_simp+
  moreover obtain w2 where
    "os_WriteFile ''etc/db.json'' (bytes_of_string (indent_json 0 (enc_Config s3_config))) ?w1 = Inr w2"
    using calculation(4)
    by (simp add: os_WriteFile_def Let_def node_at_def is_file_def ancestors_def upt_rec)
  ultimately have r: "r = Inr ()"
    using s by (auto simp: Save_def Let_def make_dirs_def put_file_def next_io_def io_fails_def split: sum.splits)
  have "os_Stat ''etc/db.json'' ?w = Inl ErrNotExist"
    by code_simp
  with config_save_load [OF w c s] s r show ?thesis
    by simp
qed

end
