(* ===== verification/ApiErrors.thy ===== *)
theory ApiErrors
  imports EncodeTypes GoStrconv
begin

text \<open>
  \<^verbatim>\<open>src/api/errors.go\<close> and \<open>wrapStorageErr\<close> of \<^verbatim>\<open>src/api/table.go\<close>: the structured error
  \<open>*Error\<close> is the constructor \<open>ApiErr\<close> with its code, operation, message and cause. Errors wrapped
  with \<^verbatim>\<open>%w\<close> are the wrapped ones here, so \<open>errors.As\<close> has to look at the head only. A message is
  its format with the arguments; the quoting of \<^verbatim>\<open>%q\<close> is left to a parameter where text matters.
\<close>

section \<open>Codes\<close>

fun ErrorCode_String :: "ErrorCode \<Rightarrow> string" where
  "ErrorCode_String ErrInternal = ''internal''"
| "ErrorCode_String ErrNotFound = ''not_found''"
| "ErrorCode_String ErrConflict = ''conflict''"
| "ErrorCode_String ErrInvalidArg = ''invalid_argument''"
| "ErrorCode_String ErrStorage = ''storage_error''"
| "ErrorCode_String ErrClosed = ''closed''"
| "ErrorCode_String (ErrCodeOther n) = ''unknown('' @ FormatInt n @ '')''"

section \<open>Errors\<close>

text \<open>\<open>Error()\<close> and \<open>UserMessage()\<close>, over the texts of a message and of a cause.\<close>

definition Error_text :: "(api_message \<Rightarrow> string) \<Rightarrow> (goerr \<Rightarrow> string) \<Rightarrow>
    ErrorCode \<Rightarrow> string \<Rightarrow> api_message \<Rightarrow> goerr option \<Rightarrow> string" where
  "Error_text msg_text err_text code op msg cause =
     op @ '': '' @ msg_text msg @ '' [code='' @ ErrorCode_String code @ '']'' @
       (case cause of None \<Rightarrow> '''' | Some err \<Rightarrow> '' (cause: '' @ err_text err @ '')'')"

definition UserMessage :: "(api_message \<Rightarrow> string) \<Rightarrow> ErrorCode \<Rightarrow> api_message \<Rightarrow> string" where
  "UserMessage msg_text code msg =
     (case code of
        ErrNotFound \<Rightarrow> msg_text msg @
          '': the requested resource was not found. Please verify the table or column name.''
      | ErrConflict \<Rightarrow> ''the operation encountered a version conflict. Please retry.''
      | ErrInvalidArg \<Rightarrow> ''invalid argument: '' @ msg_text msg
      | ErrStorage \<Rightarrow>
          ''a storage error occurred. Please check that the data directory is accessible and has sufficient space.''
      | ErrClosed \<Rightarrow> ''the database or table is closed. Please reconnect.''
      | _ \<Rightarrow> ''an unexpected error occurred. Please check the logs for details.'')"

definition api_error :: "ErrorCode \<Rightarrow> string \<Rightarrow> api_message \<Rightarrow> goerr option \<Rightarrow> goerr" where
  "api_error code op msg cause = ApiErr code op msg cause"

fun Unwrap :: "goerr \<Rightarrow> goerr option" where
  "Unwrap (ApiErr code op msg cause) = cause"
| "Unwrap err = None"

text \<open>\<open>errors.As(err, &apiErr)\<close>: the code of the first \<open>*Error\<close> in the chain.\<close>

definition as_api :: "goerr option \<Rightarrow> ErrorCode option" where
  "as_api err = (case err of Some (ApiErr code op msg cause) \<Rightarrow> Some code | _ \<Rightarrow> None)"

definition IsCode :: "goerr option \<Rightarrow> ErrorCode \<Rightarrow> bool" where
  "IsCode err code = (case as_api err of Some c \<Rightarrow> c = code | None \<Rightarrow> False)"

definition IsStorageError :: "goerr option \<Rightarrow> bool" where
  "IsStorageError err = (case as_api err of Some c \<Rightarrow> c = ErrStorage | None \<Rightarrow> False)"

definition ErrDBClosed :: goerr where
  "ErrDBClosed = ApiErr ErrClosed ''database'' MsgDatabaseClosed None"

definition ErrTableClosed :: goerr where
  "ErrTableClosed = ApiErr ErrClosed ''table'' MsgTableClosed None"

definition ErrTableNotFound :: goerr where
  "ErrTableNotFound = ApiErr ErrNotFound ''database'' MsgNoTable None"

definition ErrWriterStopped :: goerr where
  "ErrWriterStopped = ApiErr ErrInternal ''table'' MsgWriterNotRunning None"

text \<open>An \<open>*Error\<close> is kept, a panic is not an error, anything else becomes a storage error.\<close>

definition wrapStorageErr :: "goerr \<Rightarrow> string \<Rightarrow> string \<Rightarrow> goerr" where
  "wrapStorageErr err op tableName =
     (case err of
        ApiErr code op' msg cause \<Rightarrow> err
      | GoPanic p \<Rightarrow> err
      | _ \<Rightarrow> api_error ErrStorage op (MsgStorageFailed tableName) (Some err))"

lemma wrapStorageErr_cases:
  "wrapStorageErr err op name = (if as_api (Some err) \<noteq> None \<or> (\<exists>p. err = GoPanic p) then err
     else ApiErr ErrStorage op (MsgStorageFailed name) (Some err))"
  by (cases err) (simp_all add: wrapStorageErr_def as_api_def api_error_def)

text \<open>What a caller of the api can rely on: the error is an \<open>*Error\<close>, or the program panicked.\<close>

definition structured :: "goerr \<Rightarrow> bool" where
  "structured err \<longleftrightarrow> as_api (Some err) \<noteq> None \<or> (\<exists>p. err = GoPanic p)"

lemma structured_wrap [simp]: "structured (wrapStorageErr err op name)"
  by (simp add: structured_def wrapStorageErr_cases as_api_def)

lemma structured_simps [simp]:
  "structured (ApiErr code op msg cause)" "structured ErrDBClosed" "structured ErrTableClosed"
  "structured ErrWriterStopped" "structured (api_error code op msg cause)"
  by (simp_all add: structured_def as_api_def ErrDBClosed_def ErrTableClosed_def ErrWriterStopped_def api_error_def)

end
