(* ===== verification/ApiQuery.thy ===== *)
theory ApiQuery
  imports ScanFilter
begin

text \<open>
  \<^verbatim>\<open>src/api/query.go\<close>: the builders of queries. The methods mutate the builder they are called on
  and return it, and \<open>NewQuery\<close> keeps the pointer of the vector query it is given, so builders and
  vector queries are objects of a store addressed by position; a built query reads its vector part
  when it is used. The conditions of a filter are copied out by \<open>Build\<close>.
\<close>

type_synonym addr = nat

record query_obj =
  qo_Vector :: "addr option"
  qo_Filter :: "ScalarFilter option"
  qo_Limit :: int
  qo_Columns :: "string list"

record builders =
  bd_queries :: "query_obj list"
  bd_vectors :: "VectorQuery list"
  bd_filters :: "ScalarCondition list list"

section \<open>Vector queries\<close>

definition Vector :: "f32 list \<Rightarrow> builders \<Rightarrow> addr \<times> builders" where
  "Vector vec h =
     (length (bd_vectors h), h\<lparr>bd_vectors := bd_vectors h @
        [\<lparr>vq_Vector = vec, vq_Column = '''', vq_Metric = DistanceCosine, vq_NumPartitions = 0, vq_NProbes = 0\<rparr>]\<rparr>)"

definition on_vector :: "(VectorQuery \<Rightarrow> VectorQuery) \<Rightarrow> addr \<Rightarrow> builders \<Rightarrow> addr \<times> builders" where
  "on_vector f v h = (v, h\<lparr>bd_vectors := (bd_vectors h)[v := f (bd_vectors h ! v)]\<rparr>)"

definition VQ_Column :: "string \<Rightarrow> addr \<Rightarrow> builders \<Rightarrow> addr \<times> builders" where
  "VQ_Column name = on_vector (\<lambda>q. q\<lparr>vq_Column := name\<rparr>)"

definition VQ_Metric :: "DistanceMetric \<Rightarrow> addr \<Rightarrow> builders \<Rightarrow> addr \<times> builders" where
  "VQ_Metric m = on_vector (\<lambda>q. q\<lparr>vq_Metric := m\<rparr>)"

definition VQ_NProbes :: "int \<Rightarrow> addr \<Rightarrow> builders \<Rightarrow> addr \<times> builders" where
  "VQ_NProbes n = on_vector (\<lambda>q. q\<lparr>vq_NProbes := n\<rparr>)"

text \<open>\<open>Build\<close> returns the pointer.\<close>

definition VQ_Build :: "addr \<Rightarrow> addr" where
  "VQ_Build v = v"

section \<open>Filters\<close>

definition new_FilterBuilder :: "builders \<Rightarrow> addr \<times> builders" where
  "new_FilterBuilder h = (length (bd_filters h), h\<lparr>bd_filters := bd_filters h @ [[]]\<rparr>)"

definition FB_add :: "OpType \<Rightarrow> string \<Rightarrow> cond_value \<Rightarrow> addr \<Rightarrow> builders \<Rightarrow> addr \<times> builders" where
  "FB_add op column value fb h =
     (fb, h\<lparr>bd_filters := (bd_filters h)[fb := bd_filters h ! fb @
        [\<lparr>sc_Column = column, sc_Operator = op, sc_Value = value\<rparr>]]\<rparr>)"

definition FB_EQ :: "string \<Rightarrow> cond_value \<Rightarrow> addr \<Rightarrow> builders \<Rightarrow> addr \<times> builders" where
  "FB_EQ = FB_add OpEQ"

definition FB_NE :: "string \<Rightarrow> cond_value \<Rightarrow> addr \<Rightarrow> builders \<Rightarrow> addr \<times> builders" where
  "FB_NE = FB_add OpNE"

definition FB_LT :: "string \<Rightarrow> cond_value \<Rightarrow> addr \<Rightarrow> builders \<Rightarrow> addr \<times> builders" where
  "FB_LT = FB_add OpLT"

definition FB_GT :: "string \<Rightarrow> cond_value \<Rightarrow> addr \<Rightarrow> builders \<Rightarrow> addr \<times> builders" where
  "FB_GT = FB_add OpGT"

definition FB_LE :: "string \<Rightarrow> cond_value \<Rightarrow> addr \<Rightarrow> builders \<Rightarrow> addr \<times> builders" where
  "FB_LE = FB_add OpLE"

definition FB_GE :: "string \<Rightarrow> cond_value \<Rightarrow> addr \<Rightarrow> builders \<Rightarrow> addr \<times> builders" where
  "FB_GE = FB_add OpGE"

definition FB_In :: "string \<Rightarrow> cond_value \<Rightarrow> addr \<Rightarrow> builders \<Rightarrow> addr \<times> builders" where
  "FB_In = FB_add OpIn"

text \<open>The functions of the same names start a builder with one condition.\<close>

definition new_filter :: "OpType \<Rightarrow> string \<Rightarrow> cond_value \<Rightarrow> builders \<Rightarrow> addr \<times> builders" where
  "new_filter op column value h = (let (fb, h1) = new_FilterBuilder h in FB_add op column value fb h1)"

definition api_EQ :: "string \<Rightarrow> cond_value \<Rightarrow> builders \<Rightarrow> addr \<times> builders" where
  "api_EQ = new_filter OpEQ"

definition api_NE :: "string \<Rightarrow> cond_value \<Rightarrow> builders \<Rightarrow> addr \<times> builders" where
  "api_NE = new_filter OpNE"

definition api_LT :: "string \<Rightarrow> cond_value \<Rightarrow> builders \<Rightarrow> addr \<times> builders" where
  "api_LT = new_filter OpLT"

definition api_GT :: "string \<Rightarrow> cond_value \<Rightarrow> builders \<Rightarrow> addr \<times> builders" where
  "api_GT = new_filter OpGT"

definition api_LE :: "string \<Rightarrow> cond_value \<Rightarrow> builders \<Rightarrow> addr \<times> builders" where
  "api_LE = new_filter OpLE"

definition api_GE :: "string \<Rightarrow> cond_value \<Rightarrow> builders \<Rightarrow> addr \<times> builders" where
  "api_GE = new_filter OpGE"

definition api_In :: "string \<Rightarrow> cond_value \<Rightarrow> builders \<Rightarrow> addr \<times> builders" where
  "api_In = new_filter OpIn"

definition FB_Build :: "addr \<Rightarrow> builders \<Rightarrow> ScalarFilter" where
  "FB_Build fb h = \<lparr>sf_Conditions = bd_filters h ! fb\<rparr>"

section \<open>Queries\<close>

definition NewQuery :: "addr option \<Rightarrow> builders \<Rightarrow> addr \<times> builders" where
  "NewQuery vq h =
     (length (bd_queries h), h\<lparr>bd_queries := bd_queries h @
        [\<lparr>qo_Vector = vq, qo_Filter = None, qo_Limit = 0, qo_Columns = []\<rparr>]\<rparr>)"

definition on_query :: "(query_obj \<Rightarrow> query_obj) \<Rightarrow> addr \<Rightarrow> builders \<Rightarrow> addr \<times> builders" where
  "on_query f q h = (q, h\<lparr>bd_queries := (bd_queries h)[q := f (bd_queries h ! q)]\<rparr>)"

definition QB_TopK :: "int \<Rightarrow> addr \<Rightarrow> builders \<Rightarrow> addr \<times> builders" where
  "QB_TopK n = on_query (\<lambda>q. q\<lparr>qo_Limit := n\<rparr>)"

definition QB_Filter :: "addr \<Rightarrow> addr \<Rightarrow> builders \<Rightarrow> addr \<times> builders" where
  "QB_Filter fb q h = on_query (\<lambda>q. q\<lparr>qo_Filter := Some (FB_Build fb h)\<rparr>) q h"

definition QB_Select :: "string list \<Rightarrow> addr \<Rightarrow> builders \<Rightarrow> addr \<times> builders" where
  "QB_Select columns = on_query (\<lambda>q. q\<lparr>qo_Columns := qo_Columns q @ columns\<rparr>)"

text \<open>\<open>Build\<close> returns the address of the query inside the builder; \<open>deref\<close> is its value when used.\<close>

definition QB_Build :: "addr \<Rightarrow> addr" where
  "QB_Build q = q"

definition deref :: "builders \<Rightarrow> addr \<Rightarrow> Query" where
  "deref h q =
     (let ob = bd_queries h ! q in
      \<lparr>q_Vector = map_option (\<lambda>v. bd_vectors h ! v) (qo_Vector ob), q_Filter = qo_Filter ob,
       q_Limit = qo_Limit ob, q_Columns = qo_Columns ob, q_Timeout = 0\<rparr>)"

section \<open>Properties\<close>

text \<open>A filter builder collects the conditions in the order they are added.\<close>

fun add_all :: "(OpType \<times> string \<times> cond_value) list \<Rightarrow> addr \<Rightarrow> builders \<Rightarrow> builders" where
  "add_all [] fb h = h"
| "add_all ((op, column, value) # cs) fb h = add_all cs fb (snd (FB_add op column value fb h))"

definition conditions :: "(OpType \<times> string \<times> cond_value) list \<Rightarrow> ScalarCondition list" where
  "conditions = map (\<lambda>(op, column, value). \<lparr>sc_Column = column, sc_Operator = op, sc_Value = value\<rparr>)"

lemma add_all_filters:
  "fb < length (bd_filters h) \<Longrightarrow>
     add_all cs fb h = h\<lparr>bd_filters := (bd_filters h)[fb := bd_filters h ! fb @ conditions cs]\<rparr>"
proof (induction cs arbitrary: h)
  case (Cons c cs)
  obtain op column val where c: "c = (op, column, val)"
    by (cases c)
  show ?case
    using Cons by (simp add: c FB_add_def conditions_def)
qed (simp add: conditions_def)

text \<open>
  A query built from a vector query, a filter started by \<open>new_filter\<close> and extended by further
  conditions, a limit and columns is exactly those parts, with the conditions in the order they were
  given. The vector part is shared: a later change of the vector builder changes the built query,
  while a condition added to the filter builder later does not.
\<close>

theorem query_builder:
  assumes "v < length (bd_vectors h)"
    and "new_filter op column value h = (fb, h0)"
    and "NewQuery (Some v) (add_all cs fb h0) = (q, h1)"
    and "h2 = snd (QB_Select columns q (snd (QB_Filter fb q (snd (QB_TopK n q h1)))))"
  shows "deref h2 (QB_Build q) =
      \<lparr>q_Vector = Some (bd_vectors h ! v), q_Filter = Some \<lparr>sf_Conditions = conditions ((op, column, value) # cs)\<rparr>,
       q_Limit = n, q_Columns = columns, q_Timeout = 0\<rparr> \<and>
    (\<forall>name. deref (snd (VQ_Column name v h2)) (QB_Build q) =
       (deref h2 (QB_Build q))\<lparr>q_Vector := Some ((bd_vectors h ! v)\<lparr>vq_Column := name\<rparr>)\<rparr>) \<and>
    (\<forall>op' column' value'. deref (snd (FB_add op' column' value' fb h2)) (QB_Build q) = deref h2 (QB_Build q))"
proof -
  have fb: "fb = length (bd_filters h)"
      "h0 = h\<lparr>bd_filters := bd_filters h @ [conditions [(op, column, value)]]\<rparr>"
    using assms(2) by (auto simp: new_filter_def new_FilterBuilder_def FB_add_def conditions_def)
  then have "add_all cs fb h0 = h\<lparr>bd_filters := bd_filters h @ [conditions ((op, column, value) # cs)]\<rparr>"
    by (simp add: add_all_filters conditions_def)
  then show ?thesis
    using assms(1,3,4) fb(1)
    by (auto simp: NewQuery_def QB_TopK_def QB_Filter_def QB_Select_def on_query_def FB_Build_def deref_def
        Let_def QB_Build_def VQ_Column_def on_vector_def FB_add_def)
qed

theorem query_builder_witness:
  "\<exists>q h2. q_Filter (deref h2 q) = Some \<lparr>sf_Conditions =
     [\<lparr>sc_Column = ''c'', sc_Operator = OpEQ, sc_Value = CScalar (SString ''x'')\<rparr>,
      \<lparr>sc_Column = ''n'', sc_Operator = OpGT, sc_Value = CScalar (SInt 3)\<rparr>]\<rparr> \<and> q_Limit (deref h2 q) = 10"
proof -
  let ?h = "snd (Vector [1] \<lparr>bd_queries = [], bd_vectors = [], bd_filters = []\<rparr>)"
  let ?cs = "[(OpGT, ''n'', CScalar (SInt 3))]"
  obtain fb h0 where f: "new_filter OpEQ ''c'' (CScalar (SString ''x'')) ?h = (fb, h0)"
    by (metis surj_pair)
  obtain q h1 where q: "NewQuery (Some 0) (add_all ?cs fb h0) = (q, h1)"
    by (metis surj_pair)
  have "0 < length (bd_vectors ?h)"
    by (simp add: Vector_def)
  from query_builder [OF this f q refl, of "[]" 10] show ?thesis
    by (intro exI [of _ q] exI [of _ "snd (QB_Select [] q (snd (QB_Filter fb q (snd (QB_TopK 10 q h1)))))"])
      (simp add: conditions_def QB_Build_def)
qed

end
