(* ===== verification/ApiTable.thy ===== *)
theory ApiTable
  imports ApiErrors ApiQuery Search AsyncCalls
begin

text \<open>
  \<^verbatim>\<open>src/api/table.go\<close>: the table a user holds, which wraps the table of the storage layer with its
  search and its asynchronous writer. Each call is one step; the log is left out here, and
  \<open>LogOperation\<close> is the function it runs (\<open>ApiLogger\<close> shows that this is what it does). The time of day, the draws of \<open>select\<close> and the arms the
  writer's goroutine takes during a blocking call are arguments. A query is passed by value: what
  \<open>deref\<close> of \<open>ApiQuery\<close> reads when the search starts.
\<close>

record 'w ApiTable =
  at_name :: string
  at_table :: "'w Table"
  at_store :: "'w Store"
  at_dbPath :: string
  at_search :: "'w HybridSearch"
  at_writer :: "'w AsyncWriter option"
  at_closed :: bool
  at_writerOn :: bool

section \<open>Construction\<close>

definition search_of :: "'w Store \<Rightarrow> 'w Table \<Rightarrow> 'w HybridSearch" where
  "search_of store tbl =
     (let schema = tb_schema tbl; reader = NewFragmentReader store schema CompressionZstd in
      NewHybridSearch (NewBruteForceSearch reader schema) (NewScanFilter reader schema))"

definition refreshSearch :: "'w ApiTable \<Rightarrow> 'w ApiTable" where
  "refreshSearch t = t\<lparr>at_search := search_of (at_store t) (at_table t)\<rparr>"

definition wrapTable :: "'w Table \<Rightarrow> 'w Store \<Rightarrow> string \<Rightarrow> string \<Rightarrow> 'w ApiTable" where
  "wrapTable tbl store name tableDir =
     \<lparr>at_name = name, at_table = tbl, at_store = store, at_dbPath = tableDir,
      at_search = search_of store tbl, at_writer = None, at_closed = False, at_writerOn = False\<rparr>"

definition newTable ::
  "int \<Rightarrow> string \<Rightarrow> 'w Store \<Rightarrow> string \<Rightarrow> Schema \<Rightarrow> 'w \<Rightarrow> 'w ApiTable res \<times> 'w" where
  "newTable now path store name schema w =
     (let tableDir = path_Join [path, name] in
      case Create now name tableDir schema store CompressionZstd w of
        (Inl err, w1) \<Rightarrow> (Inl (wrapStorageErr err ''table.Create'' name), w1)
      | (Inr tbl, w1) \<Rightarrow> (Inr (wrapTable tbl store name tableDir), w1))"

definition openTable :: "string \<Rightarrow> 'w Store \<Rightarrow> string \<Rightarrow> 'w \<Rightarrow> 'w ApiTable res \<times> 'w" where
  "openTable path store name w =
     (let tableDir = path_Join [path, name] in
      case OpenTable name tableDir store CompressionZstd w of
        (Inl err, w1) \<Rightarrow> (Inl (wrapStorageErr err ''table.Open'' name), w1)
      | (Inr tbl, w1) \<Rightarrow> (Inr (wrapTable tbl store name tableDir), w1))"

section \<open>Reading and writing\<close>

definition Api_Name :: "'w ApiTable \<Rightarrow> string" where
  "Api_Name t = at_name t"

definition Api_Schema :: "'w ApiTable \<Rightarrow> Schema" where
  "Api_Schema t = Table_Schema (at_table t)"

definition Api_ManifestStore :: "'w ApiTable \<Rightarrow> 'w ManifestStore" where
  "Api_ManifestStore t = Table_ManifestStore (at_table t)"

definition Api_NumRows :: "'w ApiTable \<Rightarrow> 'w \<Rightarrow> int res \<times> 'w" where
  "Api_NumRows t w =
     (if at_closed t then (Inl ErrTableClosed, w)
      else case LatestManifest (at_table t) w of
        (Inl err, w1) \<Rightarrow> (Inl (wrapStorageErr err ''table.NumRows'' (at_name t)), w1)
      | (Inr m, w1) \<Rightarrow> (Inr (foldl (\<lambda>total f. wrap64 (total + fr_NumRows f)) 0 (man_Fragments m)), w1))"

text \<open>\<open>Insert\<close> and \<open>BatchInsert\<close> differ in the name of the operation.\<close>

definition insert_batches ::
  "string \<Rightarrow> (RecordBatch \<Rightarrow> RecordBatch \<Rightarrow> bool) \<Rightarrow> codecs \<Rightarrow> int \<Rightarrow> 'w ApiTable \<Rightarrow> RecordBatch list \<Rightarrow> 'w \<Rightarrow>
     unit res \<times> 'w ApiTable \<times> 'w" where
  "insert_batches op same C now t batches w =
     (if at_closed t then (Inl ErrTableClosed, t, w)
      else case BatchInsert same C now (at_table t) batches w of
        (Inl err, tb, w1) \<Rightarrow> (Inl (wrapStorageErr err op (at_name t)), t\<lparr>at_table := tb\<rparr>, w1)
      | (Inr frag, tb, w1) \<Rightarrow> (Inr (), t\<lparr>at_table := tb\<rparr>, w1))"

definition Api_Insert ::
  "(RecordBatch \<Rightarrow> RecordBatch \<Rightarrow> bool) \<Rightarrow> codecs \<Rightarrow> int \<Rightarrow> 'w ApiTable \<Rightarrow> RecordBatch \<Rightarrow> 'w \<Rightarrow>
     unit res \<times> 'w ApiTable \<times> 'w" where
  "Api_Insert same C now t batch w = insert_batches ''table.Insert'' same C now t [batch] w"

definition Api_BatchInsert ::
  "(RecordBatch \<Rightarrow> RecordBatch \<Rightarrow> bool) \<Rightarrow> codecs \<Rightarrow> int \<Rightarrow> 'w ApiTable \<Rightarrow> RecordBatch list \<Rightarrow> 'w \<Rightarrow>
     unit res \<times> 'w ApiTable \<times> 'w" where
  "Api_BatchInsert same C now t batches w = insert_batches ''table.BatchInsert'' same C now t batches w"

definition Api_Search ::
  "codecs \<Rightarrow> ('w \<Rightarrow> bool) \<Rightarrow> sorter \<Rightarrow> 'w ApiTable \<Rightarrow> Query \<Rightarrow> 'w \<Rightarrow> SearchResult list res \<times> 'w" where
  "Api_Search C ctx srt t q w =
     (if at_closed t then (Inl ErrTableClosed, w)
      else case LatestManifest (at_table t) w of
        (Inl err, w1) \<Rightarrow> (Inl (wrapStorageErr err ''table.Search.LatestManifest'' (at_name t)), w1)
      | (Inr m, w1) \<Rightarrow>
          (case HybridSearch_Search C ctx srt (at_search t) m q w1 of
             (Inl err, w2) \<Rightarrow> (Inl (wrapStorageErr err ''table.Search'' (at_name t)), w2)
           | (Inr results, w2) \<Rightarrow> (Inr results, w2)))"

definition Api_AddColumn :: "int \<Rightarrow> 'w ApiTable \<Rightarrow> Field \<Rightarrow> 'w \<Rightarrow> unit res \<times> 'w ApiTable \<times> 'w" where
  "Api_AddColumn now t field w =
     (if at_closed t then (Inl ErrTableClosed, t, w)
      else case AddColumn now (at_table t) field w of
        (Inl err, tb, w1) \<Rightarrow> (Inl (wrapStorageErr err ''table.AddColumn'' (at_name t)), t\<lparr>at_table := tb\<rparr>, w1)
      | (Inr _, tb, w1) \<Rightarrow> (Inr (), refreshSearch (t\<lparr>at_table := tb\<rparr>), w1))"

definition Api_DropColumn :: "int \<Rightarrow> 'w ApiTable \<Rightarrow> string \<Rightarrow> 'w \<Rightarrow> unit res \<times> 'w ApiTable \<times> 'w" where
  "Api_DropColumn now t columnName w =
     (if at_closed t then (Inl ErrTableClosed, t, w)
      else case DropColumn now (at_table t) columnName w of
        (Inl err, tb, w1) \<Rightarrow> (Inl (wrapStorageErr err ''table.DropColumn'' (at_name t)), t\<lparr>at_table := tb\<rparr>, w1)
      | (Inr _, tb, w1) \<Rightarrow> (Inr (), refreshSearch (t\<lparr>at_table := tb\<rparr>), w1))"

section \<open>The asynchronous writer\<close>

definition Api_StartAsyncWriter :: "'w ApiTable \<Rightarrow> int \<Rightarrow> int \<Rightarrow> 'w \<Rightarrow> unit res \<times> 'w ApiTable \<times> 'w" where
  "Api_StartAsyncWriter t maxBatchSize flushInterval w =
     (if at_closed t then (Inl ErrTableClosed, t, w)
      else if at_writerOn t then (Inr (), t, w)
      else
        let writer = NewAsyncWriter (at_store t) (tb_manifestStore (at_table t)) (tb_schema (at_table t))
              (at_dbPath t) CompressionZstd maxBatchSize flushInterval
        in case AW_Start writer w of
             (Inl err, a, w1) \<Rightarrow>
               (Inl (wrapStorageErr err ''table.StartAsyncWriter'' (at_name t)), t\<lparr>at_writer := Some a\<rparr>, w1)
           | (Inr _, a, w1) \<Rightarrow> (Inr (), t\<lparr>at_writer := Some a, at_writerOn := True\<rparr>, w1))"

definition Api_InsertAsync :: "bool \<Rightarrow> nat \<Rightarrow> 'w ApiTable \<Rightarrow> RecordBatch \<Rightarrow> unit res \<times> 'w ApiTable" where
  "Api_InsertAsync cancelled pick t batch =
     (if at_closed t then (Inl ErrTableClosed, t)
      else if \<not> at_writerOn t then (Inl ErrWriterStopped, t)
      else case at_writer t of
        None \<Rightarrow> (Inl (GoPanic NilDeref), t)
      | Some a \<Rightarrow>
          (case AW_Write cancelled pick batch a of (r, a1) \<Rightarrow> (r, t\<lparr>at_writer := Some a1\<rparr>)))"

text \<open>None: the call waits for ever.\<close>

definition Api_Flush ::
  "codecs \<Rightarrow> run_arm list \<Rightarrow> nat \<Rightarrow> 'w ApiTable \<Rightarrow> 'w \<Rightarrow> (unit res \<times> 'w ApiTable \<times> 'w) option" where
  "Api_Flush C arms pick t w =
     (if at_closed t then Some (Inl ErrTableClosed, t, w)
      else if \<not> at_writerOn t then Some (Inr (), t, w)
      else case at_writer t of
        None \<Rightarrow> Some (Inl (GoPanic NilDeref), t, w)
      | Some a \<Rightarrow>
          map_option (\<lambda>(r, a1, w1). (r, t\<lparr>at_writer := Some a1\<rparr>, w1)) (AW_Flush C arms pick a w))"

definition Api_Close :: "codecs \<Rightarrow> run_arm list \<Rightarrow> 'w ApiTable \<Rightarrow> 'w \<Rightarrow> unit res \<times> 'w ApiTable \<times> 'w" where
  "Api_Close C arms t w =
     (if at_closed t then (Inr (), t, w)
      else
        let t1 = t\<lparr>at_closed := True\<rparr> in
        if at_writerOn t1 then
          (case at_writer t1 of
             None \<Rightarrow> (Inr (), t1, w)
           | Some a \<Rightarrow>
               (case AW_Close C arms a w of (r, a1, w1) \<Rightarrow> (r, t1\<lparr>at_writer := Some a1\<rparr>, w1)))
        else (Inr (), t1, w))"

end
