(* ===== verification/ApiLogger.thy ===== *)
theory ApiLogger
  imports ApiTable
begin

text \<open>
  \<^verbatim>\<open>src/api/logger.go\<close> and the operations of \<^verbatim>\<open>src/api/table.go\<close> that run through it, with
  what they log: \<open>Insert\<close>, \<open>BatchInsert\<close> and \<open>Search\<close>. \<open>ApiTable\<close> leaves the log out; here it is
  threaded through, and the two are shown to agree.

  Package \<open>log/slog\<close> is standard library: a logger is a handler with the attributes attached so far,
  and a handler keeps the records at or above its level. The log is the list of the records kept, each
  with the handler that wrote it. Texts of messages are a parameter, as in \<open>ApiErrors\<close>; an attribute
  that is the text of an error keeps the error, and the elapsed time is an argument.
\<close>

section \<open>Loggers\<close>

abbreviation (input) "LevelDebug \<equiv> - 4 :: int"
abbreviation (input) "LevelInfo \<equiv> 0 :: int"
abbreviation (input) "LevelWarn \<equiv> 4 :: int"
abbreviation (input) "LevelError \<equiv> 8 :: int"

datatype log_value = LogString string | LogInt int | LogDuration int | LogError goerr

type_synonym log_attrs = "(string \<times> log_value) list"

text \<open>The writer of a text handler is named by a number; the JSON handler writes to \<open>os.Stderr\<close>.\<close>

datatype handler = JSONHandler int | TextHandler nat int

fun handler_level :: "handler \<Rightarrow> int" where
  "handler_level (JSONHandler level) = level"
| "handler_level (TextHandler writer level) = level"

record Logger =
  lg_handler :: handler
  lg_attrs :: log_attrs

record log_record =
  lr_level :: int
  lr_msg :: string
  lr_attrs :: log_attrs

type_synonym log = "(handler \<times> log_record) list"

definition NewLogger :: Logger where
  "NewLogger = \<lparr>lg_handler = JSONHandler LevelInfo, lg_attrs = []\<rparr>"

definition NewTextLogger :: "nat \<Rightarrow> int \<Rightarrow> Logger" where
  "NewTextLogger writer level = \<lparr>lg_handler = TextHandler writer level, lg_attrs = []\<rparr>"

definition logger_With :: "log_attrs \<Rightarrow> Logger \<Rightarrow> Logger" where
  "logger_With attrs l = l\<lparr>lg_attrs := lg_attrs l @ attrs\<rparr>"

definition WithOp :: "string \<Rightarrow> Logger \<Rightarrow> Logger" where
  "WithOp op l = logger_With [(''op'', LogString op)] l"

definition WithTable :: "string \<Rightarrow> Logger \<Rightarrow> Logger" where
  "WithTable tbl l = logger_With [(''table'', LogString tbl)] l"

text \<open>\<open>DebugContext\<close>, \<open>InfoContext\<close> and \<open>WarnContext\<close> are \<open>log_at\<close> at their levels.\<close>

definition log_at :: "int \<Rightarrow> Logger \<Rightarrow> string \<Rightarrow> log_attrs \<Rightarrow> log \<Rightarrow> log" where
  "log_at level l msg attrs g =
     (if handler_level (lg_handler l) \<le> level
      then g @ [(lg_handler l, \<lparr>lr_level = level, lr_msg = msg, lr_attrs = lg_attrs l @ attrs\<rparr>)]
      else g)"

text \<open>
  The function an operation runs, on a state \<open>'s\<close> and the log. A panic leaves \<open>LogOperation\<close> with
  nothing more logged.
\<close>

definition LogOperation ::
  "(api_message \<Rightarrow> string) \<Rightarrow> int \<Rightarrow> Logger \<Rightarrow> string \<Rightarrow> ('s \<Rightarrow> log \<Rightarrow> unit res \<times> 's \<times> log) \<Rightarrow> 's \<Rightarrow> log \<Rightarrow>
     unit res \<times> 's \<times> log" where
  "LogOperation msg_text elapsed l op fn s g =
     (let g1 = log_at LevelDebug l ''operation started'' [(''op'', LogString op)] g;
          (r, s1, g2) = fn s g1
      in case r of
           Inr _ \<Rightarrow>
             (Inr (), s1, log_at LevelInfo l ''operation succeeded''
                [(''op'', LogString op), (''duration'', LogDuration elapsed)] g2)
         | Inl err \<Rightarrow>
             if (\<exists>p. err = GoPanic p) then (Inl err, s1, g2)
             else
               let g3 = log_at LevelWarn l ''operation failed''
                     [(''op'', LogString op), (''duration'', LogDuration elapsed), (''error'', LogError err)] g2;
                   g4 = (case err of
                       ApiErr code eop msg cause \<Rightarrow>
                         log_at LevelWarn l ''user-facing message''
                           [(''message'', LogString (UserMessage msg_text code msg))] g3
                     | _ \<Rightarrow> g3)
               in (Inl err, s1, g4))"

text \<open>The package-level logger is a state of its own; \<open>None\<close> is the nil pointer.\<close>

definition defaultLogger :: Logger where
  "defaultLogger = NewLogger"

definition SetLogger :: "Logger option \<Rightarrow> Logger \<Rightarrow> Logger" where
  "SetLogger l default_logger = (case l of None \<Rightarrow> default_logger | Some l' \<Rightarrow> l')"

definition L :: "Logger \<Rightarrow> Logger" where
  "L default_logger = default_logger"

section \<open>The operations of a table with their log\<close>

definition wrapStorageErr_logged :: "Logger \<Rightarrow> goerr \<Rightarrow> string \<Rightarrow> string \<Rightarrow> log \<Rightarrow> goerr \<times> log" where
  "wrapStorageErr_logged default_logger err op tableName g =
     (case err of
        ApiErr code op' msg cause \<Rightarrow> (err, g)
      | GoPanic p \<Rightarrow> (err, g)
      | _ \<Rightarrow>
          (api_error ErrStorage op (MsgStorageFailed tableName) (Some err),
           log_at LevelWarn (WithTable tableName (L default_logger)) ''storage operation failed''
             [(''op'', LogString op), (''error'', LogError err)] g))"

text \<open>
  The closure of \<open>Insert\<close> and of \<open>BatchInsert\<close>, on the table and the disk: they differ in the name of
  the operation and in what they log at the end. \<open>logger\<close> is the table's, \<open>dflt\<close> the package's.
\<close>

definition insert_closure ::
  "Logger \<Rightarrow> Logger \<Rightarrow> string \<Rightarrow> string \<Rightarrow> (Fragment \<Rightarrow> log_attrs) \<Rightarrow> (RecordBatch \<Rightarrow> RecordBatch \<Rightarrow> bool) \<Rightarrow> codecs \<Rightarrow>
     int \<Rightarrow> RecordBatch list \<Rightarrow> 'w ApiTable \<times> 'w \<Rightarrow> log \<Rightarrow> unit res \<times> ('w ApiTable \<times> 'w) \<times> log" where
  "insert_closure dflt logger op completed attrs same C now batches s g =
     (case s of (t, w) \<Rightarrow>
        (case BatchInsert same C now (at_table t) batches w of
           (Inl err, tb, w1) \<Rightarrow>
             (case wrapStorageErr_logged dflt err op (at_name t) g of
                (err1, g1) \<Rightarrow> (Inl err1, (t\<lparr>at_table := tb\<rparr>, w1), g1))
         | (Inr frag, tb, w1) \<Rightarrow>
             (Inr (), (t\<lparr>at_table := tb\<rparr>, w1), log_at LevelDebug logger completed (attrs frag) g)))"

definition Insert_logged ::
  "(api_message \<Rightarrow> string) \<Rightarrow> int \<Rightarrow> Logger \<Rightarrow> Logger \<Rightarrow> (RecordBatch \<Rightarrow> RecordBatch \<Rightarrow> bool) \<Rightarrow> codecs \<Rightarrow> int \<Rightarrow>
     'w ApiTable \<Rightarrow> RecordBatch \<Rightarrow> 'w \<Rightarrow> log \<Rightarrow> unit res \<times> ('w ApiTable \<times> 'w) \<times> log" where
  "Insert_logged msg_text elapsed dflt logger same C now t batch w g =
     (if at_closed t then (Inl ErrTableClosed, (t, w), g)
      else LogOperation msg_text elapsed logger ''table.Insert''
        (insert_closure dflt logger ''table.Insert'' ''insert completed''
           (\<lambda>frag. [(''fragment_id'', LogInt (fr_ID frag)), (''num_rows'', LogInt (rb_NumRows batch)),
              (''columns'', LogInt (int (length (rb_Columns batch))))])
           same C now [batch]) (t, w) g)"

definition BatchInsert_logged ::
  "(api_message \<Rightarrow> string) \<Rightarrow> int \<Rightarrow> Logger \<Rightarrow> Logger \<Rightarrow> (RecordBatch \<Rightarrow> RecordBatch \<Rightarrow> bool) \<Rightarrow> codecs \<Rightarrow> int \<Rightarrow>
     'w ApiTable \<Rightarrow> RecordBatch list \<Rightarrow> 'w \<Rightarrow> log \<Rightarrow> unit res \<times> ('w ApiTable \<times> 'w) \<times> log" where
  "BatchInsert_logged msg_text elapsed dflt logger same C now t batches w g =
     (if at_closed t then (Inl ErrTableClosed, (t, w), g)
      else
        let totalRows = foldl (\<lambda>total b. wrap64 (total + rb_NumRows b)) 0 batches in
        LogOperation msg_text elapsed logger ''table.BatchInsert''
          (insert_closure dflt logger ''table.BatchInsert'' ''batch insert completed''
             (\<lambda>frag. [(''fragment_id'', LogInt (fr_ID frag)), (''num_rows'', LogInt totalRows),
                (''num_batches'', LogInt (int (length batches)))])
             same C now batches) (t, w) g)"

text \<open>The closure of \<open>Search\<close>, on its variable \<open>results\<close> and the disk.\<close>

definition search_closure ::
  "Logger \<Rightarrow> codecs \<Rightarrow> ('w \<Rightarrow> bool) \<Rightarrow> sorter \<Rightarrow> 'w ApiTable \<Rightarrow> Query \<Rightarrow> SearchResult list \<times> 'w \<Rightarrow> log \<Rightarrow>
     unit res \<times> (SearchResult list \<times> 'w) \<times> log" where
  "search_closure dflt C ctx srt t q s g =
     (case s of (results, w) \<Rightarrow>
        (case LatestManifest (at_table t) w of
           (Inl err, w1) \<Rightarrow>
             (case wrapStorageErr_logged dflt err ''table.Search.LatestManifest'' (at_name t) g of
                (err1, g1) \<Rightarrow> (Inl err1, (results, w1), g1))
         | (Inr m, w1) \<Rightarrow>
             (case HybridSearch_Search C ctx srt (at_search t) m q w1 of
                (Inl err, w2) \<Rightarrow>
                  (case wrapStorageErr_logged dflt err ''table.Search'' (at_name t) g of
                     (err1, g1) \<Rightarrow> (Inl err1, ([], w2), g1))
              | (Inr found, w2) \<Rightarrow> (Inr (), (found, w2), g))))"

definition Search_logged ::
  "(api_message \<Rightarrow> string) \<Rightarrow> int \<Rightarrow> Logger \<Rightarrow> Logger \<Rightarrow> codecs \<Rightarrow> ('w \<Rightarrow> bool) \<Rightarrow> sorter \<Rightarrow>
     'w ApiTable \<Rightarrow> Query \<Rightarrow> 'w \<Rightarrow> log \<Rightarrow> SearchResult list res \<times> 'w \<times> log" where
  "Search_logged msg_text elapsed dflt logger C ctx srt t q w g =
     (if at_closed t then (Inl ErrTableClosed, w, g)
      else
        let (r, (results, w1), g1) =
              LogOperation msg_text elapsed logger ''table.Search'' (search_closure dflt C ctx srt t q) ([], w) g
        in (case r of Inl err \<Rightarrow> (Inl err, w1, g1) | Inr _ \<Rightarrow> (Inr results, w1, g1)))"

section \<open>What an operation logs\<close>

text \<open>The records that one call adds to the log.\<close>

definition log_recs :: "int \<Rightarrow> Logger \<Rightarrow> string \<Rightarrow> log_attrs \<Rightarrow> log" where
  "log_recs level l msg attrs = log_at level l msg attrs []"

definition wrap_recs :: "Logger \<Rightarrow> goerr \<Rightarrow> string \<Rightarrow> string \<Rightarrow> log" where
  "wrap_recs d err op name = snd (wrapStorageErr_logged d err op name [])"

lemma log_at_recs: "log_at level l msg attrs g = g @ log_recs level l msg attrs"
  by (simp add: log_recs_def log_at_def)

lemma wrap_logged_recs:
  "wrapStorageErr_logged d err op name g = (wrapStorageErr err op name, g @ wrap_recs d err op name)"
  by (simp add: wrap_recs_def wrapStorageErr_logged_def wrapStorageErr_def log_at_recs split: goerr.split)

text \<open>The records a call ends with, by its result, as far as the handler keeps them.\<close>

definition closing_records ::
  "(api_message \<Rightarrow> string) \<Rightarrow> int \<Rightarrow> Logger \<Rightarrow> string \<Rightarrow> 'a res \<Rightarrow> log" where
  "closing_records msg_text elapsed l op r =
     map (\<lambda>(level, msg, attrs). (lg_handler l, \<lparr>lr_level = level, lr_msg = msg, lr_attrs = lg_attrs l @ attrs\<rparr>))
       (filter (\<lambda>(level, msg, attrs). handler_level (lg_handler l) \<le> level)
         (let about = [(''op'', LogString op), (''duration'', LogDuration elapsed)] in
          case r of
            Inr _ \<Rightarrow> [(LevelInfo, ''operation succeeded'', about)]
          | Inl (ApiErr code eop msg cause) \<Rightarrow>
              [(LevelWarn, ''operation failed'', about @ [(''error'', LogError (ApiErr code eop msg cause))]),
               (LevelWarn, ''user-facing message'', [(''message'', LogString (UserMessage msg_text code msg))])]
          | Inl err \<Rightarrow> []))"

text \<open>A call on a closed table is silent; any other appends to the log and ends with these records.\<close>

definition outcome_logged ::
  "(api_message \<Rightarrow> string) \<Rightarrow> int \<Rightarrow> Logger \<Rightarrow> string \<Rightarrow> bool \<Rightarrow> 'a res \<Rightarrow> log \<Rightarrow> log \<Rightarrow> bool" where
  "outcome_logged msg_text elapsed l op silent r g g' \<longleftrightarrow>
     (if silent then g' = g else \<exists>inner. g' = g @ inner @ closing_records msg_text elapsed l op r)"

lemma LogOperation_outcome:
  assumes "\<And>g1. fn s g1 = (r, s', g1 @ inner)" and "\<And>e. r = Inl e \<Longrightarrow> structured e"
  obtains g' where "LogOperation msg_text elapsed l op fn s g = (r, s', g')"
    "outcome_logged msg_text elapsed l op False r g g'"
proof -
  let ?start = "log_recs LevelDebug l ''operation started'' [(''op'', LogString op)]"
  have "LogOperation msg_text elapsed l op fn s g =
      (r, s', g @ (?start @ inner) @ closing_records msg_text elapsed l op r)"
  proof (cases r)
    case (Inl e)
    then show ?thesis
      using assms(2) [OF Inl] unfolding LogOperation_def log_at_recs assms(1) Let_def
      by (cases e) (simp_all add: closing_records_def log_recs_def [of LevelWarn] log_at_def structured_def as_api_def)
  next
    case (Inr u)
    then show ?thesis
      unfolding LogOperation_def log_at_recs assms(1) Let_def
      by (simp add: closing_records_def log_recs_def [of LevelInfo] log_at_def)
  qed
  then show thesis
    using that by (metis outcome_logged_def)
qed

text \<open>The closures do what the operations of \<open>ApiTable\<close> do and append at most one record.\<close>

lemma insert_closure_run:
  assumes "BatchInsert same C now (at_table t) batches w = (x, tb, w1)"
  shows "insert_closure dflt l op completed attrs same C now batches (t, w) g =
    (case x of Inl err \<Rightarrow> Inl (wrapStorageErr err op (at_name t)) | Inr _ \<Rightarrow> Inr (), (t\<lparr>at_table := tb\<rparr>, w1),
     g @ (case x of Inl err \<Rightarrow> wrap_recs dflt err op (at_name t) | Inr f \<Rightarrow> log_recs LevelDebug l completed (attrs f)))"
  by (cases x) (simp_all add: insert_closure_def assms wrap_logged_recs log_at_recs)

lemma insert_logged:
  assumes "\<not> at_closed t"
  shows "\<exists>r t' w' g'. LogOperation msg_text elapsed l op
      (insert_closure dflt l op completed attrs same C now batches) (t, w) g = (r, (t', w'), g') \<and>
    insert_batches op same C now t batches w = (r, t', w') \<and> outcome_logged msg_text elapsed l op False r g g'"
proof -
  obtain x tb w1 where x: "BatchInsert same C now (at_table t) batches w = (x, tb, w1)"
    by (metis prod_cases3)
  let ?r = "case x of Inl err \<Rightarrow> Inl (wrapStorageErr err op (at_name t)) | Inr _ \<Rightarrow> Inr ()"
  have err: "structured e" if "?r = Inl e" for e
    using that by (auto split: sum.splits)
  obtain g' where "LogOperation msg_text elapsed l op
      (insert_closure dflt l op completed attrs same C now batches) (t, w) g = (?r, (t\<lparr>at_table := tb\<rparr>, w1), g')"
    "outcome_logged msg_text elapsed l op False ?r g g'"
    by (rule LogOperation_outcome [where fn = "insert_closure dflt l op completed attrs same C now batches" and s = "(t, w)",
          OF insert_closure_run [OF x] err])
  moreover have "insert_batches op same C now t batches w = (?r, t\<lparr>at_table := tb\<rparr>, w1)"
    using assms by (simp add: insert_batches_def x split: sum.split)
  ultimately show ?thesis
    by blast
qed

lemma search_closure_run:
  "\<exists>r results w1 inner. (\<forall>g. search_closure dflt C ctx srt t q ([], w) g = (r, (results, w1), g @ inner)) \<and>
     (\<forall>e. r = Inl e \<longrightarrow> structured e) \<and>
     (\<not> at_closed t \<longrightarrow> Api_Search C ctx srt t q w = (case r of Inl e \<Rightarrow> Inl e | Inr _ \<Rightarrow> Inr results, w1))"
proof -
  obtain x w1 where x: "LatestManifest (at_table t) w = (x, w1)"
    by fastforce
  show ?thesis
  proof (cases x)
    case (Inl err)
    then show ?thesis
      by (simp add: search_closure_def Api_Search_def x wrap_logged_recs)
  next
    case (Inr m)
    obtain y w2 where y: "HybridSearch_Search C ctx srt (at_search t) m q w1 = (y, w2)"
      by fastforce
    show ?thesis
      by (cases y) (auto simp: search_closure_def Api_Search_def x Inr y wrap_logged_recs)
  qed
qed

lemma outcome_logged_result:
  "outcome_logged msg_text elapsed l op silent (case r of Inl e \<Rightarrow> Inl e | Inr _ \<Rightarrow> Inr x) g g' =
     outcome_logged msg_text elapsed l op silent r g g'"
  by (cases r) (simp_all add: outcome_logged_def closing_records_def)

lemma search_logged:
  assumes "\<not> at_closed t"
  shows "\<exists>r w' g'. Search_logged msg_text elapsed dflt l C ctx srt t q w g = (r, w', g') \<and>
    Api_Search C ctx srt t q w = (r, w') \<and> outcome_logged msg_text elapsed l ''table.Search'' False r g g'"
proof -
  obtain r results w1 inner where
    fn: "\<And>g. search_closure dflt C ctx srt t q ([], w) g = (r, (results, w1), g @ inner)"
    and err: "\<And>e. r = Inl e \<Longrightarrow> structured e"
    and api: "Api_Search C ctx srt t q w = (case r of Inl e \<Rightarrow> Inl e | Inr _ \<Rightarrow> Inr results, w1)"
    using search_closure_run [of dflt C ctx srt t q w] assms by metis
  obtain g' where g': "LogOperation msg_text elapsed l ''table.Search'' (search_closure dflt C ctx srt t q) ([], w) g =
      (r, (results, w1), g')" "outcome_logged msg_text elapsed l ''table.Search'' False r g g'"
    by (rule LogOperation_outcome [where fn = "search_closure dflt C ctx srt t q" and s = "([], w)", OF fn err])
  have "Search_logged msg_text elapsed dflt l C ctx srt t q w g =
      (case r of Inl e \<Rightarrow> Inl e | Inr _ \<Rightarrow> Inr results, w1, g')"
    using assms by (simp add: Search_logged_def g'(1) split: sum.split)
  then show ?thesis
    using api g'(2) by (simp add: outcome_logged_result)
qed

section \<open>Properties\<close>

text \<open>
  C17: logging does not interfere: \<open>Insert\<close>, \<open>BatchInsert\<close> and \<open>Search\<close> run through \<open>LogOperation\<close>
  return the same and leave the same table and disk as without it, for every logger and level. A call
  on a closed table logs nothing; any other only appends to the log, and as far as the level of the
  handler lets it, what it appends ends with the success of the operation, or with its error followed
  by the user-facing message of the error's code.
\<close>

theorem logging_transparent:
  "(\<exists>r t' w' g'. Insert_logged msg_text elapsed dflt l same C now t b w g = (r, (t', w'), g') \<and>
      Api_Insert same C now t b w = (r, t', w') \<and>
      outcome_logged msg_text elapsed l ''table.Insert'' (at_closed t) r g g') \<and>
   (\<exists>r t' w' g'. BatchInsert_logged msg_text elapsed dflt l same C now t bs w g = (r, (t', w'), g') \<and>
      Api_BatchInsert same C now t bs w = (r, t', w') \<and>
      outcome_logged msg_text elapsed l ''table.BatchInsert'' (at_closed t) r g g') \<and>
   (\<exists>r w' g'. Search_logged msg_text elapsed dflt l C ctx srt t q w g = (r, w', g') \<and>
      Api_Search C ctx srt t q w = (r, w') \<and>
      outcome_logged msg_text elapsed l ''table.Search'' (at_closed t) r g g')"
proof (cases "at_closed t")
  case True
  then show ?thesis
    by (simp add: Insert_logged_def BatchInsert_logged_def Search_logged_def Api_Insert_def Api_BatchInsert_def
        insert_batches_def Api_Search_def outcome_logged_def)
next
  case False
  then show ?thesis
    using insert_logged [OF False] search_logged [OF False]
    by (simp add: Insert_logged_def BatchInsert_logged_def Api_Insert_def Api_BatchInsert_def Let_def)
qed

end
