(* ===== verification/ApiDatabase.thy ===== *)
theory ApiDatabase
  imports ApiTable Configuration
begin

text \<open>
  \<^verbatim>\<open>src/api/connection.go\<close>: the database, its name map and its tables. A \<open>*Table\<close> is handed to the
  user and kept in the map, so tables are objects of \<open>db_heap\<close>, addressed by position; the map
  sends a name to the address of its table, or to None while the table on the disk is not opened.
  The map is an association list whose order stands for the order of Go's map. Every method holds
  the lock and is one step; package \<open>os\<close> is called directly where the code does so.
\<close>

record Database =
  db_path :: string
  db_store :: "world Store"
  db_tables :: "(string, addr option) gomap"
  db_heap :: "world ApiTable list"
  db_closed :: bool

definition new_Database :: "string \<Rightarrow> world Store \<Rightarrow> Database" where
  "new_Database path store =
     \<lparr>db_path = path, db_store = store, db_tables = [], db_heap = [], db_closed = False\<rparr>"

section \<open>Connecting\<close>

text \<open>\<open>filepath.Abs\<close>; \<open>os.Getwd\<close> does not fail here.\<close>

definition path_Abs :: "world \<Rightarrow> string \<Rightarrow> string" where
  "path_Abs w path =
     (if rooted path then path_Clean path else path_Join [CHR ''/'' # join_slash (cwd w), path])"

text \<open>The scan of the database directory: directories that contain \<^verbatim>\<open>_versions\<close>.\<close>

fun scan_entries :: "string \<Rightarrow> world \<Rightarrow> (string \<times> node) list \<Rightarrow> (string, addr option) gomap \<Rightarrow>
    (string, addr option) gomap" where
  "scan_entries path w [] tables = tables"
| "scan_entries path w ((name, n) # es) tables =
     scan_entries path w es
       (if n = Dir then
          (case os_Stat (path_Join [path, name, ''_versions'']) w of
             Inl err \<Rightarrow> tables
           | Inr _ \<Rightarrow> gm_put name None tables)
        else tables)"

definition Connect :: "string \<Rightarrow> world \<Rightarrow> Database res \<times> world" where
  "Connect path w =
     (let abs = path_Abs w path;
          made = (case os_Stat abs w of
              Inl err \<Rightarrow>
                if err = ErrNotExist then
                  (case os_MkdirAll (resolve_path (cwd w) abs) w of
                     Inl mkErr \<Rightarrow> Inl (api_error ErrStorage ''database.Connect'' (MsgCannotCreateDirectory abs)
                                       (Some (StoErr mkErr)))
                   | Inr w1 \<Rightarrow> Inr w1)
                else Inl (api_error ErrStorage ''database.Connect'' (MsgCannotAccess abs) (Some (StoErr err)))
            | Inr n \<Rightarrow>
                if n \<noteq> Dir then Inl (api_error ErrInvalidArg ''database.Connect'' (MsgNotDirectory abs) None)
                else Inr w)
      in case made of
           Inl err \<Rightarrow> (Inl err, w)
         | Inr w1 \<Rightarrow>
             let db = new_Database abs (LocalFS '''') in
             (case os_ReadDir abs w1 of
                Inl err \<Rightarrow> (Inr db, w1)
              | Inr entries \<Rightarrow> (Inr (db\<lparr>db_tables := scan_entries abs w1 entries []\<rparr>), w1)))"

text \<open>The same scan through the store, whose \<open>List\<close> returns the paths of the files.\<close>

fun scan_store :: "world Store \<Rightarrow> string \<Rightarrow> string list \<Rightarrow> (string, addr option) gomap \<Rightarrow> world \<Rightarrow>
    (string, addr option) gomap \<times> world" where
  "scan_store store path [] tables w = (tables, w)"
| "scan_store store path (entry # entries) tables w =
     (case Store_Exists store (path_Join [path, entry, ''_versions'']) w of
        (r, w1) \<Rightarrow> scan_store store path entries (if r = Inr True then gm_put entry None tables else tables) w1)"

definition ConnectWithConfig :: "Config \<Rightarrow> world \<Rightarrow> Database res \<times> world" where
  "ConnectWithConfig cfg w =
     (case Validate cfg of
        Inl err \<Rightarrow> (Inl (api_error ErrInvalidArg ''database.ConnectWithConfig'' MsgInvalidConfiguration (Some err)), w)
      | Inr _ \<Rightarrow>
          (case NewStore cfg of
             Inl err \<Rightarrow>
               (Inl (api_error ErrInvalidArg ''database.ConnectWithConfig'' MsgCannotCreateBackend (Some err)), w)
           | Inr store \<Rightarrow>
               let db = new_Database (cfg_Path cfg) store in
               (case Store_Exists store (cfg_Path cfg) w of
                  (Inr True, w1) \<Rightarrow>
                    (case Store_List store (cfg_Path cfg) w1 of
                       (Inl err, w2) \<Rightarrow> (Inr db, w2)
                     | (Inr entries, w2) \<Rightarrow>
                         (case scan_store store (cfg_Path cfg) entries [] w2 of
                            (tables, w3) \<Rightarrow> (Inr (db\<lparr>db_tables := tables\<rparr>), w3)))
                | (r, w1) \<Rightarrow> (Inr db, w1))))"

section \<open>Tables\<close>

text \<open>The loop of \<open>Close\<close> over the map; errors of the tables are only logged.\<close>

fun close_tables ::
  "codecs \<Rightarrow> (addr \<Rightarrow> run_arm list) \<Rightarrow> (string, addr option) gomap \<Rightarrow> world ApiTable list \<Rightarrow> world \<Rightarrow>
   world ApiTable list \<times> world" where
  "close_tables C arms [] heap w = (heap, w)"
| "close_tables C arms ((name, ref) # refs) heap w =
     (case ref of
        None \<Rightarrow> close_tables C arms refs heap w
      | Some a \<Rightarrow>
          (case Api_Close C (arms a) (heap ! a) w of
             (r, t, w1) \<Rightarrow> close_tables C arms refs (heap[a := t]) w1))"

definition DB_Close :: "codecs \<Rightarrow> (addr \<Rightarrow> run_arm list) \<Rightarrow> Database \<Rightarrow> world \<Rightarrow> unit res \<times> Database \<times> world" where
  "DB_Close C arms db w =
     (if db_closed db then (Inr (), db, w)
      else case close_tables C arms (db_tables db) (db_heap db) w of
        (heap, w1) \<Rightarrow> (Inr (), db\<lparr>db_closed := True, db_heap := heap, db_tables := []\<rparr>, w1))"

definition DB_CreateTable :: "int \<Rightarrow> Database \<Rightarrow> string \<Rightarrow> Schema \<Rightarrow> world \<Rightarrow> addr res \<times> Database \<times> world" where
  "DB_CreateTable now db name schema w =
     (if db_closed db then (Inl ErrDBClosed, db, w)
      else if map_of (db_tables db) name \<noteq> None then
        (Inl (api_error ErrConflict ''database.CreateTable'' (MsgTableExists name) None), db, w)
      else case newTable now (db_path db) (db_store db) name schema w of
        (Inl err, w1) \<Rightarrow> (Inl err, db, w1)
      | (Inr t, w1) \<Rightarrow>
          let a = length (db_heap db) in
          (Inr a, db\<lparr>db_heap := db_heap db @ [t], db_tables := gm_put name (Some a) (db_tables db)\<rparr>, w1))"

definition DB_OpenTable :: "Database \<Rightarrow> string \<Rightarrow> world \<Rightarrow> addr res \<times> Database \<times> world" where
  "DB_OpenTable db name w =
     (if db_closed db then (Inl ErrDBClosed, db, w)
      else case map_of (db_tables db) name of
        None \<Rightarrow> (Inl (api_error ErrNotFound ''database.OpenTable'' (MsgTableNotFound name) None), db, w)
      | Some (Some a) \<Rightarrow> (Inr a, db, w)
      | Some None \<Rightarrow>
          (case openTable (db_path db) (db_store db) name w of
             (Inl err, w1) \<Rightarrow> (Inl err, db, w1)
           | (Inr t, w1) \<Rightarrow>
               let a = length (db_heap db) in
               (Inr a, db\<lparr>db_heap := db_heap db @ [t], db_tables := gm_put name (Some a) (db_tables db)\<rparr>, w1)))"

text \<open>The directory is deleted through the store and, when that fails, with \<open>os.RemoveAll\<close>.\<close>

definition DB_DropTable ::
  "codecs \<Rightarrow> run_arm list \<Rightarrow> Database \<Rightarrow> string \<Rightarrow> world \<Rightarrow> unit res \<times> Database \<times> world" where
  "DB_DropTable C arms db name w =
     (if db_closed db then (Inl ErrDBClosed, db, w)
      else case map_of (db_tables db) name of
        None \<Rightarrow> (Inl (api_error ErrNotFound ''database.DropTable'' (MsgTableNotFound name) None), db, w)
      | Some ref \<Rightarrow>
          let (rc, db1, w1) = (case ref of
                None \<Rightarrow> (Inr (), db, w)
              | Some a \<Rightarrow>
                  (case Api_Close C arms (db_heap db ! a) w of
                     (r, t, w1) \<Rightarrow> (r, db\<lparr>db_heap := (db_heap db)[a := t]\<rparr>, w1)))
          in (case rc of
                Inl err \<Rightarrow> (Inl err, db1, w1)
              | Inr _ \<Rightarrow>
                  let tableDir = path_Join [db_path db1, name] in
                  (case Store_Delete (db_store db1) tableDir w1 of
                     (Inr _, w2) \<Rightarrow> (Inr (), db1\<lparr>db_tables := gm_del name (db_tables db1)\<rparr>, w2)
                   | (Inl err, w2) \<Rightarrow>
                       (case os_RemoveAll tableDir w2 of
                          Inl err2 \<Rightarrow>
                            (Inl (api_error ErrStorage ''database.DropTable'' (MsgCannotRemove tableDir) (Some err)),
                             db1, w2)
                        | Inr w3 \<Rightarrow> (Inr (), db1\<lparr>db_tables := gm_del name (db_tables db1)\<rparr>, w3)))))"

definition DB_ListTables :: "Database \<Rightarrow> string list res" where
  "DB_ListTables db = (if db_closed db then Inl ErrDBClosed else Inr (gm_keys (db_tables db)))"

definition DB_Path :: "Database \<Rightarrow> string" where
  "DB_Path db = db_path db"

definition DB_Store :: "Database \<Rightarrow> world Store" where
  "DB_Store db = db_store db"

end
