(* ===== verification/ApiHistory.thy ===== *)
theory ApiHistory
  imports ApiDatabase
begin

text \<open>
  Runs of the api: databases obtained from \<open>Connect\<close> or \<open>ConnectWithConfig\<close>, any calls on them and on
  the tables they handed out, in any order, and turns of the writers' goroutines between the calls.
\<close>

section \<open>Calls\<close>

datatype outcome = ONothing | ORows int | OHits "SearchResult list" | OTable addr | ONames "string list"

datatype tbl_call =
    TInsert RecordBatch | TBatchInsert "RecordBatch list" | TAddColumn Field | TDropColumn string
  | TStartAsyncWriter int int | TInsertAsync bool nat RecordBatch | TFlush "run_arm list" nat
  | TSearch "world \<Rightarrow> bool" sorter Query | TNumRows | TClose "run_arm list"

datatype db_call =
    DCreateTable string Schema | DOpenTable string | DDropTable "run_arm list" string
  | DListTables | DClose "addr \<Rightarrow> run_arm list"

definition quiet :: "unit res \<Rightarrow> outcome res" where
  "quiet r = map_sum id (\<lambda>_. ONothing) r"

text \<open>None: the call does not return.\<close>

definition tbl_do ::
  "(RecordBatch \<Rightarrow> RecordBatch \<Rightarrow> bool) \<Rightarrow> codecs \<Rightarrow> int \<Rightarrow> tbl_call \<Rightarrow> world ApiTable \<Rightarrow> world \<Rightarrow>
   (outcome res \<times> world ApiTable \<times> world) option" where
  "tbl_do same C now call t w =
     (case call of
        TInsert b \<Rightarrow> Some (case Api_Insert same C now t b w of (r, t', w') \<Rightarrow> (quiet r, t', w'))
      | TBatchInsert bs \<Rightarrow> Some (case Api_BatchInsert same C now t bs w of (r, t', w') \<Rightarrow> (quiet r, t', w'))
      | TAddColumn f \<Rightarrow> Some (case Api_AddColumn now t f w of (r, t', w') \<Rightarrow> (quiet r, t', w'))
      | TDropColumn n \<Rightarrow> Some (case Api_DropColumn now t n w of (r, t', w') \<Rightarrow> (quiet r, t', w'))
      | TStartAsyncWriter n i \<Rightarrow> Some (case Api_StartAsyncWriter t n i w of (r, t', w') \<Rightarrow> (quiet r, t', w'))
      | TInsertAsync cancelled pick b \<Rightarrow>
          Some (case Api_InsertAsync cancelled pick t b of (r, t') \<Rightarrow> (quiet r, t', w))
      | TFlush arms pick \<Rightarrow> map_option (\<lambda>(r, t', w'). (quiet r, t', w')) (Api_Flush C arms pick t w)
      | TSearch ctx srt q \<Rightarrow> Some (case Api_Search C ctx srt t q w of (r, w') \<Rightarrow> (map_sum id OHits r, t, w'))
      | TNumRows \<Rightarrow> Some (case Api_NumRows t w of (r, w') \<Rightarrow> (map_sum id ORows r, t, w'))
      | TClose arms \<Rightarrow> Some (case Api_Close C arms t w of (r, t', w') \<Rightarrow> (quiet r, t', w')))"

definition db_do :: "codecs \<Rightarrow> int \<Rightarrow> db_call \<Rightarrow> Database \<Rightarrow> world \<Rightarrow> outcome res \<times> Database \<times> world" where
  "db_do C now call db w =
     (case call of
        DCreateTable n s \<Rightarrow> (case DB_CreateTable now db n s w of (r, db', w') \<Rightarrow> (map_sum id OTable r, db', w'))
      | DOpenTable n \<Rightarrow> (case DB_OpenTable db n w of (r, db', w') \<Rightarrow> (map_sum id OTable r, db', w'))
      | DDropTable arms n \<Rightarrow> (case DB_DropTable C arms db n w of (r, db', w') \<Rightarrow> (quiet r, db', w'))
      | DListTables \<Rightarrow> (map_sum id ONames (DB_ListTables db), db, w)
      | DClose arms \<Rightarrow> (case DB_Close C arms db w of (r, db', w') \<Rightarrow> (quiet r, db', w')))"

text \<open>A turn of the goroutine of a table's writer between two calls.\<close>

definition tbl_turn :: "codecs \<Rightarrow> run_arm \<Rightarrow> world ApiTable \<Rightarrow> world \<Rightarrow> world ApiTable \<times> world" where
  "tbl_turn C arm t w =
     (case at_writer t of
        Some a \<Rightarrow>
          if aw_started a then (case run_arms C [arm] a w of (a1, w1) \<Rightarrow> (t\<lparr>at_writer := Some a1\<rparr>, w1)) else (t, w)
      | None \<Rightarrow> (t, w))"

definition put_table :: "addr \<Rightarrow> world ApiTable \<Rightarrow> Database \<Rightarrow> Database" where
  "put_table a t db = db\<lparr>db_heap := (db_heap db)[a := t]\<rparr>"

inductive api_step ::
  "(RecordBatch \<Rightarrow> RecordBatch \<Rightarrow> bool) \<Rightarrow> codecs \<Rightarrow> Database \<times> world \<Rightarrow> Database \<times> world \<Rightarrow> bool" for same C where
  call_db: "db_do C now call db w = (r, db', w') \<Longrightarrow> api_step same C (db, w) (db', w')"
| call_table: "a < length (db_heap db) \<Longrightarrow> tbl_do same C now call (db_heap db ! a) w = Some (r, t, w') \<Longrightarrow>
    api_step same C (db, w) (put_table a t db, w')"
| goroutine: "a < length (db_heap db) \<Longrightarrow> tbl_turn C arm (db_heap db ! a) w = (t, w') \<Longrightarrow>
    api_step same C (db, w) (put_table a t db, w')"
| elsewhere: "api_step same C (db, w) (db, w')"

inductive_cases api_stepE: "api_step same C (db, w) (db', w')"

text \<open>\<open>elsewhere\<close> is any change of the disk by others.\<close>

inductive api_reach ::
  "(RecordBatch \<Rightarrow> RecordBatch \<Rightarrow> bool) \<Rightarrow> codecs \<Rightarrow> Database \<Rightarrow> world \<Rightarrow> bool" for same C where
  reach_connect: "Connect path w = (Inr db, w') \<Longrightarrow> api_reach same C db w'"
| reach_config: "ConnectWithConfig cfg w = (Inr db, w') \<Longrightarrow> api_reach same C db w'"
| reach_step: "api_reach same C db w \<Longrightarrow> api_step same C (db, w) (db', w') \<Longrightarrow> api_reach same C db' w'"

section \<open>Well-formed states\<close>

text \<open>
  A table's writer has been started when it is on, and has ended when the table is closed; the search
  uses the current schema of the table.
\<close>

definition table_ok :: "string \<Rightarrow> world ApiTable \<Rightarrow> bool" where
  "table_ok path t \<longleftrightarrow>
     at_dbPath t = path_Join [path, at_name t] \<and> at_search t = search_of (at_store t) (at_table t) \<and>
     (at_writerOn t \<longrightarrow> (\<exists>a. at_writer t = Some a \<and> aw_started a \<and>
        aw_closed a = at_closed t \<and> (at_closed t \<longrightarrow> aw_done a))) \<and>
     (\<not> at_writerOn t \<longrightarrow> (\<forall>a. at_writer t = Some a \<longrightarrow> \<not> aw_started a))"

text \<open>
  Names are distinct, every address is that of a table of that name, a table that has not been closed
  is the one of its name, and a closed database knows no table.
\<close>

definition db_ok :: "Database \<Rightarrow> bool" where
  "db_ok db \<longleftrightarrow>
     gm_ok (db_tables db) \<and> (db_closed db \<longrightarrow> db_tables db = []) \<and>
     list_all (table_ok (db_path db)) (db_heap db) \<and>
     (\<forall>name a. map_of (db_tables db) name = Some (Some a) \<longrightarrow>
        a < length (db_heap db) \<and> at_name (db_heap db ! a) = name) \<and>
     (\<forall>a<length (db_heap db). at_closed (db_heap db ! a) \<or>
        map_of (db_tables db) (at_name (db_heap db ! a)) = Some (Some a))"

section \<open>Calls keep tables well formed\<close>

lemma commit_manifest_schema:
  "commit_manifest mk t w = (r, t', w') \<Longrightarrow>
     (case r of Inl e \<Rightarrow> tb_schema t' = tb_schema t | Inr _ \<Rightarrow> \<exists>v. tb_schema t' = man_Schema (mk v))"
  by (auto simp: commit_manifest_def Let_def split: prod.splits sum.splits)

lemma BatchInsert_schema: "BatchInsert same C now t bs w = (r, t', w') \<Longrightarrow> tb_schema t' = tb_schema t"
  by (auto simp: BatchInsert_def NewManifest_def Let_def
      dest!: commit_manifest_schema split: sum.splits option.splits prod.splits if_splits)

lemma evolve_schema_error: "evolve now s t w = (Inl e, t', w') \<Longrightarrow> tb_schema t' = tb_schema t"
  by (auto simp: evolve_def dest!: commit_manifest_schema split: option.splits)

lemma search_of_schema: "tb_schema tb = tb_schema tb' \<Longrightarrow> search_of store tb = search_of store tb'"
  by (simp add: search_of_def)

lemma table_ok_new: "table_ok path (wrapTable tbl store name (path_Join [path, name]))"
  by (simp add: table_ok_def wrapTable_def)

text \<open>Changing the inner table under an unchanged schema.\<close>

lemma table_ok_inner:
  "table_ok path t \<Longrightarrow> tb_schema tb = tb_schema (at_table t) \<Longrightarrow> table_ok path (t\<lparr>at_table := tb\<rparr>)"
  using search_of_schema [of tb "at_table t"] by (simp add: table_ok_def)

lemma table_ok_refresh: "table_ok path t \<Longrightarrow> table_ok path (refreshSearch (t\<lparr>at_table := tb\<rparr>))"
  by (simp add: table_ok_def refreshSearch_def)

lemma insert_batches_ok:
  assumes "insert_batches op same C now t bs w = (r, t', w')" and "table_ok path t"
  shows "table_ok path t' \<and> at_name t' = at_name t \<and> at_closed t' = at_closed t"
proof (cases "at_closed t")
  case False
  obtain rb tb w1 where b: "BatchInsert same C now (at_table t) bs w = (rb, tb, w1)"
    by (metis prod_cases3)
  then have "t' = t\<lparr>at_table := tb\<rparr>"
    using assms(1) False by (auto simp: insert_batches_def split: sum.splits)
  then show ?thesis
    using table_ok_inner [OF assms(2) BatchInsert_schema [OF b]] by simp
qed (use assms in \<open>simp add: insert_batches_def\<close>)

lemma Api_AddColumn_ok:
  assumes "Api_AddColumn now t f w = (r, t', w')" and "table_ok path t"
  shows "table_ok path t' \<and> at_name t' = at_name t \<and> at_closed t' = at_closed t"
proof (cases "at_closed t")
  case False
  obtain rb tb w1 where b: "AddColumn now (at_table t) f w = (rb, tb, w1)"
    by (metis prod_cases3)
  show ?thesis
  proof (cases rb)
    case (Inl e)
    then have "tb_schema tb = tb_schema (at_table t)"
      using b by (auto simp: AddColumn_def Let_def dest: evolve_schema_error split: if_splits)
    then show ?thesis
      using assms(1) False b Inl table_ok_inner [OF assms(2)] by (auto simp: Api_AddColumn_def)
  next
    case (Inr u)
    then show ?thesis
      using assms(1) False b table_ok_refresh [OF assms(2)] by (auto simp: Api_AddColumn_def refreshSearch_def)
  qed
qed (use assms in \<open>simp add: Api_AddColumn_def\<close>)

lemma Api_DropColumn_ok:
  assumes "Api_DropColumn now t n w = (r, t', w')" and "table_ok path t"
  shows "table_ok path t' \<and> at_name t' = at_name t \<and> at_closed t' = at_closed t"
proof (cases "at_closed t")
  case False
  obtain rb tb w1 where b: "DropColumn now (at_table t) n w = (rb, tb, w1)"
    by (metis prod_cases3)
  show ?thesis
  proof (cases rb)
    case (Inl e)
    then have "tb_schema tb = tb_schema (at_table t)"
      using b by (auto simp: DropColumn_def dest: evolve_schema_error split: if_splits)
    then show ?thesis
      using assms(1) False b Inl table_ok_inner [OF assms(2)] by (auto simp: Api_DropColumn_def)
  next
    case (Inr u)
    then show ?thesis
      using assms(1) False b table_ok_refresh [OF assms(2)] by (auto simp: Api_DropColumn_def refreshSearch_def)
  qed
qed (use assms in \<open>simp add: Api_DropColumn_def\<close>)

lemma Api_StartAsyncWriter_ok:
  assumes "Api_StartAsyncWriter t n i w = (r, t', w')" and "table_ok path t"
  shows "table_ok path t' \<and> at_name t' = at_name t \<and> at_closed t' = at_closed t"
proof (cases "at_closed t \<or> at_writerOn t")
  case False
  let ?a = "NewAsyncWriter (at_store t) (tb_manifestStore (at_table t)) (tb_schema (at_table t)) (at_dbPath t)
      CompressionZstd n i"
  obtain rs a w1 where a: "AW_Start ?a w = (rs, a, w1)"
    by (metis prod_cases3)
  have "aw_closed ?a = False" "aw_started ?a = False"
    by (simp_all add: NewAsyncWriter_def)
  then show ?thesis
    using AW_Start_flags [OF a] assms a False
    by (auto simp: Api_StartAsyncWriter_def Let_def table_ok_def split: sum.splits)
qed (use assms in \<open>auto simp: Api_StartAsyncWriter_def split: if_splits\<close>)

lemma Api_InsertAsync_ok:
  assumes "Api_InsertAsync cancelled pick t b = (r, t')" and "table_ok path t"
  shows "table_ok path t' \<and> at_name t' = at_name t \<and> at_closed t' = at_closed t"
proof (cases "at_closed t \<or> \<not> at_writerOn t")
  case False
  then obtain a where a: "at_writer t = Some a" "aw_started a" "\<not> aw_closed a"
    using assms(2) by (auto simp: table_ok_def)
  obtain rs a1 where w: "AW_Write cancelled pick b a = (rs, a1)"
    by fastforce
  have "t' = t\<lparr>at_writer := Some a1\<rparr>"
    using assms(1) False a(1) w by (simp add: Api_InsertAsync_def)
  then show ?thesis
    using AW_Write_flags [OF w] a False assms(2) by (simp add: table_ok_def same_flags_def)
qed (use assms in \<open>auto simp: Api_InsertAsync_def split: if_splits\<close>)

lemma Api_Flush_ok:
  assumes "Api_Flush C arms pick t w = Some (r, t', w')" and "table_ok path t"
  shows "table_ok path t' \<and> at_name t' = at_name t \<and> at_closed t' = at_closed t"
proof (cases "at_closed t \<or> \<not> at_writerOn t")
  case False
  then obtain a where a: "at_writer t = Some a" "aw_started a" "\<not> aw_closed a"
    using assms(2) by (auto simp: table_ok_def)
  obtain rs a1 w1 where f: "AW_Flush C arms pick a w = Some (rs, a1, w1)" "t' = t\<lparr>at_writer := Some a1\<rparr>"
    using assms(1) False a(1) by (auto simp: Api_Flush_def)
  then show ?thesis
    using AW_Flush_flags [OF f(1)] a False assms(2) by (simp add: table_ok_def same_flags_def)
qed (use assms in \<open>auto simp: Api_Flush_def split: if_splits\<close>)

lemma Api_Close_ok:
  assumes "Api_Close C arms t w = (r, t', w')" and "table_ok path t"
  shows "table_ok path t' \<and> at_name t' = at_name t \<and> at_closed t'"
proof (cases "at_closed t \<or> \<not> at_writerOn t")
  case False
  then obtain a where a: "at_writer t = Some a" "aw_started a"
    using assms(2) by (auto simp: table_ok_def)
  obtain rs a1 w1 where c: "AW_Close C arms a w = (rs, a1, w1)"
    by (metis prod_cases3)
  then have "t' = t\<lparr>at_closed := True, at_writer := Some a1\<rparr>"
    using assms(1) False a(1) by (simp add: Api_Close_def Let_def)
  then show ?thesis
    using AW_Close_flags [OF c a(2)] False assms(2) by (simp add: table_ok_def)
qed (use assms in \<open>auto simp: Api_Close_def table_ok_def Let_def split: if_splits\<close>)

lemma tbl_do_ok:
  assumes "tbl_do same C now call t w = Some (r, t', w')" and "table_ok path t"
  shows "table_ok path t' \<and> at_name t' = at_name t \<and> (at_closed t \<longrightarrow> at_closed t')"
proof (cases call)
  case (TInsert b)
  then show ?thesis
    using assms insert_batches_ok by (fastforce simp: tbl_do_def Api_Insert_def split: prod.splits)
next
  case (TBatchInsert bs)
  then show ?thesis
    using assms insert_batches_ok by (fastforce simp: tbl_do_def Api_BatchInsert_def split: prod.splits)
next
  case (TAddColumn f)
  then show ?thesis
    using assms Api_AddColumn_ok by (fastforce simp: tbl_do_def split: prod.splits)
next
  case (TDropColumn n)
  then show ?thesis
    using assms Api_DropColumn_ok by (fastforce simp: tbl_do_def split: prod.splits)
next
  case (TStartAsyncWriter n i)
  then show ?thesis
    using assms Api_StartAsyncWriter_ok by (fastforce simp: tbl_do_def split: prod.splits)
next
  case (TInsertAsync c p b)
  then show ?thesis
    using assms Api_InsertAsync_ok by (fastforce simp: tbl_do_def split: prod.splits)
next
  case (TFlush arms p)
  then show ?thesis
    using assms Api_Flush_ok by (fastforce simp: tbl_do_def)
next
  case (TClose arms)
  then show ?thesis
    using assms Api_Close_ok by (fastforce simp: tbl_do_def split: prod.splits)
qed (use assms in \<open>auto simp: tbl_do_def split: prod.splits\<close>)

lemma tbl_turn_ok:
  assumes "tbl_turn C arm t w = (t', w')" and "table_ok path t"
  shows "table_ok path t' \<and> at_name t' = at_name t \<and> at_closed t' = at_closed t"
proof (cases "\<exists>a. at_writer t = Some a \<and> aw_started a")
  case True
  then obtain a where a: "at_writer t = Some a" "aw_started a"
    by blast
  obtain a1 w1 where r: "run_arms C [arm] a w = (a1, w1)"
    by fastforce
  have "t' = t\<lparr>at_writer := Some a1\<rparr>"
    using assms(1) a r by (simp add: tbl_turn_def)
  moreover have "same_flags a1 a \<and> (aw_done a \<longrightarrow> a1 = a)"
    using run_arms_flags [OF r] by simp
  ultimately show ?thesis
    using a assms(2) by (auto simp: table_ok_def same_flags_def)
qed (use assms in \<open>auto simp: tbl_turn_def split: option.splits\<close>)

section \<open>Calls keep databases well formed\<close>

definition unopened :: "(string, addr option) gomap \<Rightarrow> bool" where
  "unopened tables \<longleftrightarrow> gm_ok tables \<and> (\<forall>k r. map_of tables k = Some r \<longrightarrow> r = None)"

lemma unopened_put [simp]: "unopened tables \<Longrightarrow> unopened (gm_put name None tables)"
  by (simp add: unopened_def)

lemma scan_entries_unopened: "unopened tables \<Longrightarrow> unopened (scan_entries path w es tables)"
  by (induction es arbitrary: tables) (auto split: sum.splits)

lemma scan_store_unopened: "scan_store store path es tables w = (tables', w') \<Longrightarrow> unopened tables \<Longrightarrow> unopened tables'"
  by (induction es arbitrary: tables w) (auto split: prod.splits if_splits)

lemma db_ok_new: "unopened tables \<Longrightarrow> db_ok ((new_Database path store)\<lparr>db_tables := tables\<rparr>)"
  by (auto simp: db_ok_def new_Database_def unopened_def)

lemma db_ok_empty: "db_ok (new_Database path store)"
  by (simp add: db_ok_def new_Database_def)

lemma Connect_ok: "Connect path w = (Inr db, w') \<Longrightarrow> db_ok db \<and> \<not> db_closed db"
  using db_ok_new [OF scan_entries_unopened] db_ok_empty
  by (auto simp: Connect_def Let_def unopened_def new_Database_def split: sum.splits)

lemma ConnectWithConfig_ok: "ConnectWithConfig cfg w = (Inr db, w') \<Longrightarrow> db_ok db \<and> \<not> db_closed db"
  using db_ok_new [OF scan_store_unopened] db_ok_empty
  by (fastforce simp: ConnectWithConfig_def Let_def unopened_def new_Database_def
      split: sum.splits prod.splits bool.splits)

lemma list_all_update: "list_all P xs \<Longrightarrow> (a < length xs \<Longrightarrow> P x) \<Longrightarrow> list_all P (xs[a := x])"
  by (cases "a < length xs") (auto simp: list_all_length nth_list_update)

text \<open>What the loop of \<open>Close\<close> does to the tables.\<close>

lemma close_tables_ok:
  "close_tables C arms refs heap w = (heap', w') \<Longrightarrow> list_all (table_ok path) heap \<Longrightarrow>
     list_all (table_ok path) heap' \<and> length heap' = length heap \<and>
     (\<forall>a<length heap. (at_closed (heap ! a) \<longrightarrow> at_closed (heap' ! a)) \<and>
        ((\<exists>name. (name, Some a) \<in> set refs) \<longrightarrow> at_closed (heap' ! a)))"
proof (induction C arms refs heap w rule: close_tables.induct)
  case (2 C arms name ref refs heap w)
  show ?case
  proof (cases ref)
    case None
    with 2 show ?thesis by auto
  next
    case (Some a)
    obtain r t w1 where c: "Api_Close C (arms a) (heap ! a) w = (r, t, w1)"
      by (metis prod_cases3)
    have t: "table_ok path t \<and> at_closed t" if "a < length heap"
    proof -
      have "table_ok path (heap ! a)"
        using "2.prems"(2) that by (simp add: list_all_length)
      from Api_Close_ok [OF c this] show ?thesis by simp
    qed
    have "list_all (table_ok path) (heap[a := t])"
      using "2.prems"(2) t by (intro list_all_update) simp_all
    moreover have "close_tables C arms refs (heap[a := t]) w1 = (heap', w')"
      using "2.prems"(1) Some c by simp
    ultimately have IH: "list_all (table_ok path) heap' \<and> length heap' = length heap \<and>
        (\<forall>b<length heap. (at_closed (heap[a := t] ! b) \<longrightarrow> at_closed (heap' ! b)) \<and>
          ((\<exists>name. (name, Some b) \<in> set refs) \<longrightarrow> at_closed (heap' ! b)))"
      using "2.IH"(2) [OF Some c [symmetric] refl] by simp
    have "at_closed (heap[a := t] ! b)" if "b < length heap" "at_closed (heap ! b) \<or> b = a" for b
      using that t by (cases "b = a") auto
    with IH Some show ?thesis
      by auto
  qed
qed simp

lemma newTable_Inr:
  "newTable now path store name schema w = (Inr t, w') \<Longrightarrow>
     table_ok path t \<and> at_name t = name \<and> \<not> at_closed t"
  using table_ok_new by (auto simp: newTable_def Let_def wrapTable_def split: prod.splits sum.splits)

lemma openTable_Inr:
  "openTable path store name w = (Inr t, w') \<Longrightarrow> table_ok path t \<and> at_name t = name \<and> \<not> at_closed t"
  using table_ok_new by (auto simp: openTable_def Let_def wrapTable_def split: prod.splits sum.splits)

text \<open>A new object under a name, an object changed in place, and a name removed.\<close>

lemma db_ok_add:
  assumes "db_ok db" and "table_ok (db_path db) t" and "at_name t = name" and "\<not> db_closed db"
    and "\<And>a. map_of (db_tables db) name \<noteq> Some (Some a)"
  shows "db_ok (db\<lparr>db_heap := db_heap db @ [t], db_tables := gm_put name (Some (length (db_heap db))) (db_tables db)\<rparr>)"
proof -
  let ?heap = "db_heap db @ [t]" and ?tables = "gm_put name (Some (length (db_heap db))) (db_tables db)"
  have old: "gm_ok (db_tables db)" "list_all (table_ok (db_path db)) (db_heap db)"
    "\<And>k a. map_of (db_tables db) k = Some (Some a) \<Longrightarrow> a < length (db_heap db) \<and> at_name (db_heap db ! a) = k"
    "\<And>a. a < length (db_heap db) \<Longrightarrow> at_closed (db_heap db ! a) \<or>
       map_of (db_tables db) (at_name (db_heap db ! a)) = Some (Some a)"
    using assms(1) by (simp_all add: db_ok_def)
  have "a < length ?heap \<and> at_name (?heap ! a) = k" if "map_of ?tables k = Some (Some a)" for k a
    using that old(3) [of k a] assms(3) by (cases "k = name") (simp_all add: nth_append)
  moreover have "at_closed (?heap ! a) \<or> map_of ?tables (at_name (?heap ! a)) = Some (Some a)"
    if "a < length ?heap" for a
    using that old(4) [of a] assms(3,5) by (cases "a < length (db_heap db)") (auto simp: nth_append)
  ultimately show ?thesis
    using old(1,2) assms(2,4) by (simp add: db_ok_def)
qed

lemma db_ok_put:
  assumes "db_ok db" and "table_ok (db_path db) t" and "at_name t = at_name (db_heap db ! a)"
    and "at_closed (db_heap db ! a) \<longrightarrow> at_closed t"
  shows "db_ok (put_table a t db)"
proof (cases "a < length (db_heap db)")
  case True
  have "list_all (table_ok (db_path db)) ((db_heap db)[a := t])"
    using assms(1,2) by (intro list_all_update) (simp_all add: db_ok_def)
  then show ?thesis
    using assms True by (auto simp: db_ok_def put_table_def nth_list_update)
qed (use assms in \<open>simp add: put_table_def list_update_beyond\<close>)

lemma gm_del_Nil [simp]: "gm_del k [] = []"
  by (simp add: gm_del_def)

lemma db_ok_del:
  assumes "db_ok db" and "\<And>a. map_of (db_tables db) name = Some (Some a) \<Longrightarrow> at_closed (db_heap db ! a)"
  shows "db_ok (db\<lparr>db_tables := gm_del name (db_tables db)\<rparr>)"
  using assms by (auto simp: db_ok_def)

lemma db_ok_table: "db_ok db \<Longrightarrow> a < length (db_heap db) \<Longrightarrow> table_ok (db_path db) (db_heap db ! a)"
  by (simp add: db_ok_def list_all_length)

lemma close_tables_names:
  "close_tables C arms refs heap w = (heap', w') \<Longrightarrow> list_all (table_ok path) heap \<Longrightarrow>
     map at_name heap' = map at_name heap"
proof (induction C arms refs heap w rule: close_tables.induct)
  case (2 C arms name ref refs heap w)
  show ?case
  proof (cases ref)
    case None
    with 2 show ?thesis by auto
  next
    case (Some a)
    obtain r t w1 where c: "Api_Close C (arms a) (heap ! a) w = (r, t, w1)"
      by (metis prod_cases3)
    have t: "table_ok path t \<and> at_name t = at_name (heap ! a)" if "a < length heap"
    proof -
      have "table_ok path (heap ! a)"
        using "2.prems"(2) that by (simp add: list_all_length)
      from Api_Close_ok [OF c this] show ?thesis by simp
    qed
    have "list_all (table_ok path) (heap[a := t])"
      using "2.prems"(2) t by (intro list_all_update) simp_all
    moreover have "close_tables C arms refs (heap[a := t]) w1 = (heap', w')"
      using "2.prems"(1) Some c by simp
    ultimately have "map at_name heap' = map at_name (heap[a := t])"
      using "2.IH"(2) [OF Some c [symmetric] refl] by simp
    also have "\<dots> = map at_name heap"
      using t by (cases "a < length heap") (simp_all add: map_update list_update_same_conv list_update_beyond)
    finally show ?thesis .
  qed
qed simp

text \<open>The state a call leaves, as the changes above.\<close>

lemma DB_Close_ok:
  assumes "DB_Close C arms db w = (r, db', w')" and "db_ok db"
  shows "db_ok db' \<and> db_closed db' \<and> length (db_heap db') = length (db_heap db) \<and>
    (\<forall>a<length (db_heap db). at_closed (db_heap db ! a) \<longrightarrow> at_closed (db_heap db' ! a)) \<and>
    (\<forall>name a. map_of (db_tables db) name = Some (Some a) \<longrightarrow> at_closed (db_heap db' ! a))"
proof (cases "db_closed db")
  case False
  obtain heap w1 where c: "close_tables C arms (db_tables db) (db_heap db) w = (heap, w1)"
    by fastforce
  have d: "db' = db\<lparr>db_closed := True, db_heap := heap, db_tables := []\<rparr>"
    using assms(1) False c by (simp add: DB_Close_def)
  have ok: "list_all (table_ok (db_path db)) (db_heap db)"
    using assms(2) by (simp add: db_ok_def)
  have k: "list_all (table_ok (db_path db)) heap" "length heap = length (db_heap db)"
    "\<And>a. a < length (db_heap db) \<Longrightarrow> at_closed (db_heap db ! a) \<Longrightarrow> at_closed (heap ! a)"
    "\<And>a name. a < length (db_heap db) \<Longrightarrow> (name, Some a) \<in> set (db_tables db) \<Longrightarrow> at_closed (heap ! a)"
    using close_tables_ok [OF c ok] by auto
  have "at_closed (heap ! a)" if "map_of (db_tables db) name = Some (Some a)" for name a
    using that assms(2) k(4) [OF _ map_of_SomeD [OF that]] by (simp add: db_ok_def)
  moreover have "at_closed (heap ! a)" if "a < length heap" for a
    using that k assms(2) calculation by (fastforce simp: db_ok_def)
  ultimately show ?thesis
    using k d by (simp add: db_ok_def)
qed (use assms in \<open>auto simp: DB_Close_def db_ok_def\<close>)

lemma DB_CreateTable_cases:
  assumes "DB_CreateTable now db name schema w = (r, db', w')" and "\<not> db_closed db"
  obtains "map_of (db_tables db) name \<noteq> None" "db' = db" "w' = w"
      "r = Inl (ApiErr ErrConflict ''database.CreateTable'' (MsgTableExists name) None)"
  | e where "map_of (db_tables db) name = None" "r = Inl e" "db' = db"
  | t where "map_of (db_tables db) name = None" "newTable now (db_path db) (db_store db) name schema w = (Inr t, w')"
      "r = Inr (length (db_heap db))"
      "db' = db\<lparr>db_heap := db_heap db @ [t], db_tables := gm_put name (Some (length (db_heap db))) (db_tables db)\<rparr>"
proof (cases "map_of (db_tables db) name = None")
  case True
  obtain ro w1 where n: "newTable now (db_path db) (db_store db) name schema w = (ro, w1)"
    by fastforce
  show thesis
  proof (cases ro)
    case (Inl e)
    show thesis
      by (rule that(2) [of e]) (use assms True n Inl in \<open>simp_all add: DB_CreateTable_def\<close>)
  next
    case (Inr t)
    show thesis
      by (rule that(3) [of t]) (use assms True n Inr in \<open>simp_all add: DB_CreateTable_def Let_def\<close>)
  qed
next
  case False
  show thesis
    by (rule that(1)) (use assms False in \<open>simp_all add: DB_CreateTable_def api_error_def\<close>)
qed

lemma DB_OpenTable_cases:
  assumes "DB_OpenTable db name w = (r, db', w')" and "\<not> db_closed db"
  obtains "map_of (db_tables db) name = None" "db' = db" "w' = w"
      "r = Inl (ApiErr ErrNotFound ''database.OpenTable'' (MsgTableNotFound name) None)"
  | a where "map_of (db_tables db) name = Some (Some a)" "r = Inr a" "db' = db" "w' = w"
  | e where "map_of (db_tables db) name = Some None" "r = Inl e" "db' = db"
  | t where "map_of (db_tables db) name = Some None" "openTable (db_path db) (db_store db) name w = (Inr t, w')"
      "r = Inr (length (db_heap db))"
      "db' = db\<lparr>db_heap := db_heap db @ [t], db_tables := gm_put name (Some (length (db_heap db))) (db_tables db)\<rparr>"
proof (cases "map_of (db_tables db) name")
  case None
  show thesis
    by (rule that(1)) (use assms None in \<open>simp_all add: DB_OpenTable_def api_error_def\<close>)
next
  case (Some ref)
  show thesis
  proof (cases ref)
    case None
    obtain ro w1 where o: "openTable (db_path db) (db_store db) name w = (ro, w1)"
      by fastforce
    show thesis
    proof (cases ro)
      case (Inl e)
      show thesis
        by (rule that(3) [of e]) (use assms Some None o Inl in \<open>simp_all add: DB_OpenTable_def\<close>)
    next
      case (Inr t)
      show thesis
        by (rule that(4) [of t]) (use assms Some None o Inr in \<open>simp_all add: DB_OpenTable_def Let_def\<close>)
    qed
  next
    case (Some a)
    show thesis
      by (rule that(2) [of a]) (use assms \<open>map_of (db_tables db) name = Some ref\<close> Some in
          \<open>simp_all add: DB_OpenTable_def\<close>)
  qed
qed

text \<open>\<open>DropTable\<close> closes the table if it is open; the name goes if the directory could be removed.\<close>

lemma DB_DropTable_cases:
  assumes "DB_DropTable C arms db name w = (r, db', w')" and "\<not> db_closed db"
  obtains "map_of (db_tables db) name = None" "db' = db" "w' = w"
      "r = Inl (ApiErr ErrNotFound ''database.DropTable'' (MsgTableNotFound name) None)"
  | ref db1 where "map_of (db_tables db) name = Some ref"
      "case ref of None \<Rightarrow> db1 = db
       | Some a \<Rightarrow> \<exists>rc t w1. Api_Close C arms (db_heap db ! a) w = (rc, t, w1) \<and> db1 = put_table a t db"
      "(\<exists>e. r = Inl e) \<and> db' = db1 \<or> r = Inr () \<and> db' = db1\<lparr>db_tables := gm_del name (db_tables db1)\<rparr>"
proof (cases "map_of (db_tables db) name")
  case None
  show thesis
    by (rule that(1)) (use assms None in \<open>simp_all add: DB_DropTable_def api_error_def\<close>)
next
  case (Some ref)
  show thesis
  proof (cases ref)
    case None
    then show thesis
      using assms Some that(2) [of ref db]
      by (auto simp: DB_DropTable_def Let_def split: prod.splits sum.splits)
  next
    case ref: (Some a)
    obtain rc t w1 where c: "Api_Close C arms (db_heap db ! a) w = (rc, t, w1)"
      by (metis prod_cases3)
    have "(\<exists>e. r = Inl e) \<and> db' = put_table a t db \<or>
        r = Inr () \<and> db' = (put_table a t db)\<lparr>db_tables := gm_del name (db_tables db)\<rparr>"
      using assms Some ref c
      by (auto simp: DB_DropTable_def Let_def put_table_def split: prod.splits sum.splits)
    then show thesis
      using that(2) [of ref "put_table a t db"] Some ref c by (auto simp: put_table_def)
  qed
qed

lemma db_do_ok:
  assumes "db_do C now call db w = (r, db', w')" and "db_ok db"
  shows "db_ok db'"
proof (cases "db_closed db")
  case True
  then show ?thesis
    using assms by (auto simp: db_do_def DB_CreateTable_def DB_OpenTable_def DB_DropTable_def DB_Close_def
        split: db_call.splits)
next
  case False
  show ?thesis
  proof (cases call)
    case (DCreateTable n s)
    obtain rc where "DB_CreateTable now db n s w = (rc, db', w')"
      using assms(1) DCreateTable by (auto simp: db_do_def split: prod.splits)
    then show ?thesis
      using False by (rule DB_CreateTable_cases) (use assms(2) False in \<open>auto dest!: newTable_Inr intro: db_ok_add\<close>)
  next
    case (DOpenTable n)
    obtain rc where "DB_OpenTable db n w = (rc, db', w')"
      using assms(1) DOpenTable by (auto simp: db_do_def split: prod.splits)
    then show ?thesis
      using False by (rule DB_OpenTable_cases) (use assms(2) False in \<open>auto dest!: openTable_Inr intro: db_ok_add\<close>)
  next
    case (DDropTable arms n)
    obtain rc where "DB_DropTable C arms db n w = (rc, db', w')"
      using assms(1) DDropTable by (auto simp: db_do_def split: prod.splits)
    then show ?thesis
      using False
    proof (rule DB_DropTable_cases)
      fix ref db1
      assume ref: "map_of (db_tables db) n = Some ref" and d: "case ref of None \<Rightarrow> db1 = db
          | Some a \<Rightarrow> \<exists>rc t w1. Api_Close C arms (db_heap db ! a) w = (rc, t, w1) \<and> db1 = put_table a t db"
        and r: "(\<exists>e. rc = Inl e) \<and> db' = db1 \<or> rc = Inr () \<and> db' = db1\<lparr>db_tables := gm_del n (db_tables db1)\<rparr>"
      have "db_ok db1 \<and> (\<forall>a. map_of (db_tables db1) n = Some (Some a) \<longrightarrow> at_closed (db_heap db1 ! a))"
      proof (cases ref)
        case (Some a)
        then have "a < length (db_heap db)"
          using ref assms(2) by (simp add: db_ok_def)
        moreover obtain rx t w1 where c: "Api_Close C arms (db_heap db ! a) w = (rx, t, w1)" "db1 = put_table a t db"
          using d Some by auto
        ultimately have "table_ok (db_path db) t \<and> at_name t = at_name (db_heap db ! a) \<and> at_closed t"
          using Api_Close_ok [OF c(1) db_ok_table [OF assms(2)]] by simp
        then show ?thesis
          using db_ok_put [OF assms(2)] c(2) \<open>a < length (db_heap db)\<close> ref Some by (auto simp: put_table_def)
      qed (use d assms(2) ref in simp)
      then show ?thesis
        using r db_ok_del by auto
    qed (use assms(2) in simp)
  next
    case (DClose arms)
    then show ?thesis
      using assms DB_Close_ok by (fastforce simp: db_do_def split: prod.splits)
  qed (use assms in \<open>simp add: db_do_def\<close>)
qed

lemma api_step_ok:
  assumes "api_step same C (db, w) (db', w')" and "db_ok db"
  shows "db_ok db'"
  using assms(1)
proof cases
  case (call_db now call r)
  then show ?thesis
    using db_do_ok assms(2) by blast
next
  case (call_table a now call r t)
  then show ?thesis
    using tbl_do_ok [OF _ db_ok_table [OF assms(2)]] db_ok_put [OF assms(2)] by blast
next
  case (goroutine a arm t)
  then show ?thesis
    using tbl_turn_ok [OF _ db_ok_table [OF assms(2)]] db_ok_put [OF assms(2)] by blast
qed (use assms(2) in simp)

lemma api_reach_ok: "api_reach same C db w \<Longrightarrow> db_ok db"
proof (induction rule: api_reach.induct)
  case (reach_connect path w db w')
  then show ?case using Connect_ok by blast
next
  case (reach_config cfg w db w')
  then show ?case using ConnectWithConfig_ok by blast
next
  case (reach_step db w db' w')
  then show ?case using api_step_ok by blast
qed

end
