(* ===== verification/ApiExample.thy ===== *)
theory ApiExample
  imports ApiHistory LocalHistory
begin

text \<open>
  Concrete databases for the examples: one that \<open>Connect\<close> finds on the disk, and one that is configured
  and gets a table through the api.
\<close>

section \<open>A database found on the disk\<close>

definition example_world :: world where
  "example_world =
     \<lparr>nodes = [([''home''], Dir), ([''home'', ''db''], Dir), ([''home'', ''db'', ''t''], Dir),
        ([''home'', ''db'', ''t'', ''_versions''], Dir)], cwd = [''home''], dir_size = 0, plan = []\<rparr>"

definition example_db :: Database where
  "example_db = (new_Database ''/home/db'' (LocalFS ''''))\<lparr>db_tables := [(''t'', None)]\<rparr>"

lemma example_connect: "Connect ''db'' example_world = (Inr example_db, example_world)"
proof -
  have "path_Abs example_world ''db'' = ''/home/db''"
    "os_Stat ''/home/db'' example_world = Inr Dir"
    "os_ReadDir ''/home/db'' example_world = Inr [(''t'', Dir)]"
    "scan_entries ''/home/db'' example_world [(''t'', Dir)] [] = [(''t'', None)]"
    by code_simp+
  then show ?thesis
    by (simp add: Connect_def example_db_def)
qed

lemma example_reach: "api_reach same C example_db example_world"
  by (rule reach_connect [OF example_connect])

section \<open>Creating a table\<close>

definition no_rows :: "world Table \<Rightarrow> world \<Rightarrow> bool" where
  "no_rows t w \<longleftrightarrow> (\<exists>m. LatestManifest t w = (Inr m, w) \<and> man_Fragments m = [])"

context local_history
begin

lemma create_reach:
  assumes "fresh_table c root tp w0" and "Fields_ok (Fields schema)" and "fits64 now"
  obtains tb w where "Create now name tp schema (LocalFS root) comp w0 = (Inr tb, w)"
    "table_reach same C c root tp comp tb w" "tb_schema tb = schema" "tb_nextVersion tb = 2" "tb_nextFragmentID tb = 0"
    "no_rows tb w"
proof -
  have ready: "fs_ready c (table_key c root tp) w0"
    using assms(1) by (simp add: fresh_table_def)
  obtain tb w where tb: "Create now name tp schema (LocalFS root) comp w0 = (Inr tb, w)"
    "tb_schema tb = schema" "tb_nextVersion tb = 2" "tb_nextFragmentID tb = 0" "table_inv tb w"
    "stored w 1 = Some ((NewManifest 1 schema)\<lparr>man_MaxFragmentID := 0, man_Timestamp := now\<rparr>)"
    by (rule Create_inv [OF ready fresh_versions [OF assms(1)] assms(2,3)])
  moreover have "table_reach same C c root tp comp tb w"
    using assms tb(1) unfolding table_reach_def by blast
  moreover have "no_rows tb w"
    using LatestManifest_inv [OF tb(5)] tb(3,6) by (auto simp: no_rows_def NewManifest_def)
  ultimately show thesis
    using that by blast
qed

end

lemma newTable_reach:
  assumes "join_safe (path_Join [path, name])"
    and "codec_ok C CompressionZstd (effective_block_size (NewMiniBlockEncoder CompressionZstd))"
    and "fresh_table c root (path_Join [path, name]) w0" and "Fields_ok (Fields schema)" and "fits64 now"
  obtains t w where "newTable now path (LocalFS root) name schema w0 = (Inr t, w)"
    "table_reach same C c root (path_Join [path, name]) CompressionZstd (at_table t) w"
    "at_store t = LocalFS root" "tb_schema (at_table t) = schema" "tb_nextVersion (at_table t) = 2"
    "tb_nextFragmentID (at_table t) = 0" "\<not> at_closed t"
    "at_search t = search_of (LocalFS root) (at_table t)" "no_rows (at_table t) w"
proof -
  obtain tb w where tb: "Create now name (path_Join [path, name]) schema (LocalFS root) CompressionZstd w0 = (Inr tb, w)"
    "table_reach same C c root (path_Join [path, name]) CompressionZstd tb w"
    "tb_schema tb = schema" "tb_nextVersion tb = 2" "tb_nextFragmentID tb = 0" "no_rows tb w"
    by (rule local_history.create_reach [OF local_historyI [OF assms(1,2)] assms(3-5)])
  then show thesis
    using that [of "wrapTable tb (LocalFS root) name (path_Join [path, name])" w] tb
    by (simp add: newTable_def wrapTable_def)
qed

definition example_config :: Config where
  "example_config = \<lparr>cfg_Path = ''d'', cfg_Storage = (cfg_Storage DefaultConfig)\<lparr>sc_Local := \<lparr>lc_Root = ''/db''\<rparr>\<rparr>\<rparr>"

lemma example_configured:
  "ConnectWithConfig example_config empty_world = (Inr (new_Database ''d'' (LocalFS ''/db'')), empty_world)"
proof -
  have "LocalFS_Exists ''/db'' ''d'' empty_world = (Inr False, empty_world)"
    by code_simp
  then show ?thesis
    by (simp add: ConnectWithConfig_def example_config_def DefaultConfig_def Validate_def NewStore_def
        BackendLocal_def)
qed

lemma example_path: "path_Join [''d'', ''t''] = ''d/t''" "join_safe ''d/t''" "paths_ok ''d/t''"
  by code_simp (simp add: join_safe_def rooted_def, rule paths_ok_ascii, code_simp)

text \<open>A reachable database with one open table that nothing has been written to.\<close>

lemma example_table_reach:
  assumes "Fields_ok (Fields schema)"
  obtains db w t where "api_reach same tag_codecs db w" "db_heap db = [t]"
    "table_reach same tag_codecs [] ''/db'' ''d/t'' CompressionZstd (at_table t) w"
    "at_store t = LocalFS ''/db''" "tb_schema (at_table t) = schema" "tb_nextVersion (at_table t) = 2"
    "tb_nextFragmentID (at_table t) = 0" "\<not> at_closed t"
    "at_search t = search_of (LocalFS ''/db'') (at_table t)" "no_rows (at_table t) w"
proof -
  let ?db = "new_Database ''d'' (LocalFS ''/db'')"
  have codec: "codec_ok tag_codecs CompressionZstd (effective_block_size (NewMiniBlockEncoder CompressionZstd))"
    by (rule codec_ok_tag_zstd) (simp add: effective_block_size_def NewMiniBlockEncoder_def defaultMiniBlockSize_def)
  obtain t w where t: "newTable 0 ''d'' (LocalFS ''/db'') ''t'' schema empty_world = (Inr t, w)"
    "table_reach same tag_codecs [] ''/db'' ''d/t'' CompressionZstd (at_table t) w"
    "at_store t = LocalFS ''/db''" "tb_schema (at_table t) = schema" "tb_nextVersion (at_table t) = 2"
    "tb_nextFragmentID (at_table t) = 0" "\<not> at_closed t"
    "at_search t = search_of (LocalFS ''/db'') (at_table t)" "no_rows (at_table t) w"
    using newTable_reach [OF _ codec empty_world_fresh assms, of "''d''" "''t''" 0 "''/db''"] example_path
    by (auto simp: fits64_def)
  let ?db1 = "?db\<lparr>db_heap := [t], db_tables := gm_put ''t'' (Some 0) []\<rparr>"
  have "db_do tag_codecs 0 (DCreateTable ''t'' schema) ?db empty_world = (Inr (OTable 0), ?db1, w)"
    by (simp add: db_do_def DB_CreateTable_def new_Database_def t(1))
  from reach_step [OF reach_config [OF example_configured] call_db [OF this]] show thesis
    by (rule that [of ?db1 w t]) (simp_all add: t)
qed

end
