(* ===== verification/ApiProperties.thy ===== *)
theory ApiProperties
  imports ApiExample
begin

text \<open>
  What the api promises: databases and tables stay well formed, a closed one refuses every call for
  good, the database refines a set of names, errors are structured and calls return.
\<close>

section \<open>Things that can be closed\<close>

text \<open>
  The contract the database and the table share: closing closes, and a closed object answers every
  call with the refusal of that call and does nothing.
\<close>

locale closable =
  fixes closed :: "'s \<Rightarrow> bool"
    and act :: "'c \<Rightarrow> 's \<Rightarrow> 'w \<Rightarrow> 'o \<Rightarrow> 's \<Rightarrow> 'w \<Rightarrow> bool"
    and closing :: "'c \<Rightarrow> bool"
    and refusal :: "'c \<Rightarrow> 'o"
  assumes closes: "closing c \<Longrightarrow> act c s w r s' w' \<Longrightarrow> closed s'"
    and refuses: "closed s \<Longrightarrow> act c s w r s' w' \<longleftrightarrow> r = refusal c \<and> s' = s \<and> w' = w"
begin

lemma stays_closed: "closed s \<Longrightarrow> act c s w r s' w' \<Longrightarrow> closed s'"
  by (simp add: refuses)

lemma refused_after_close:
  assumes "closing c" and "act c s w r s' w'"
  shows "act d s' u r' s'' u' \<longleftrightarrow> r' = refusal d \<and> s'' = s' \<and> u' = u"
  by (rule refuses [OF closes [OF assms]])

end

definition tbl_refusal :: "tbl_call \<Rightarrow> outcome res" where
  "tbl_refusal call = (case call of TClose arms \<Rightarrow> Inr ONothing | _ \<Rightarrow> Inl ErrTableClosed)"

definition db_refusal :: "db_call \<Rightarrow> outcome res" where
  "db_refusal call = (case call of DClose arms \<Rightarrow> Inr ONothing | _ \<Rightarrow> Inl ErrDBClosed)"

lemma tbl_do_closed: "at_closed t \<Longrightarrow> tbl_do same C now call t w = Some (tbl_refusal call, t, w)"
  by (cases call) (simp_all add: tbl_do_def tbl_refusal_def quiet_def Api_Insert_def Api_BatchInsert_def
      insert_batches_def Api_AddColumn_def Api_DropColumn_def Api_StartAsyncWriter_def Api_InsertAsync_def
      Api_Flush_def Api_Search_def Api_NumRows_def Api_Close_def)

lemma tbl_do_TClose: "tbl_do same C now (TClose arms) t w = Some (r, t', w') \<Longrightarrow> at_closed t'"
  by (auto simp: tbl_do_def Api_Close_def Let_def split: if_splits option.splits prod.splits)

lemma db_do_closed: "db_closed db \<Longrightarrow> db_do C now call db w = (db_refusal call, db, w)"
  by (cases call) (simp_all add: db_do_def db_refusal_def quiet_def DB_CreateTable_def DB_OpenTable_def
      DB_DropTable_def DB_ListTables_def DB_Close_def)

lemma db_do_DClose: "db_do C now (DClose arms) db w = (r, db', w') \<Longrightarrow> r = Inr ONothing \<and> db_closed db'"
  by (auto simp: db_do_def DB_Close_def quiet_def split: if_splits prod.splits)

interpretation tbl: closable at_closed
  "\<lambda>(now, call) t w r t' w'. tbl_do same C now call t w = Some (r, t', w')"
  "\<lambda>(now, call). \<exists>arms. call = TClose arms" "\<lambda>(now, call). tbl_refusal call"
  for same C
  by unfold_locales (auto simp: tbl_do_closed dest: tbl_do_TClose)

interpretation database: closable db_closed
  "\<lambda>(now, call) db w r db' w'. db_do C now call db w = (r, db', w')"
  "\<lambda>(now, call). \<exists>arms. call = DClose arms" "\<lambda>(now, call). db_refusal call"
  for C
  by unfold_locales (auto simp: db_do_closed dest: db_do_DClose)

section \<open>Closed for good\<close>

text \<open>A table, once closed, stays where it is in every step of the api.\<close>

definition keeps_closed :: "Database \<Rightarrow> Database \<Rightarrow> bool" where
  "keeps_closed db db' \<longleftrightarrow> (db_closed db \<longrightarrow> db_closed db') \<and> length (db_heap db) \<le> length (db_heap db') \<and>
     (\<forall>a<length (db_heap db). at_closed (db_heap db ! a) \<longrightarrow> at_closed (db_heap db' ! a))"

lemma keeps_closed_refl [simp]: "keeps_closed db db"
  by (simp add: keeps_closed_def)

lemma keeps_closed_trans: "keeps_closed db db' \<Longrightarrow> keeps_closed db' db'' \<Longrightarrow> keeps_closed db db''"
  by (auto simp: keeps_closed_def)

lemma keeps_closed_put:
  "(at_closed (db_heap db ! a) \<Longrightarrow> at_closed t) \<Longrightarrow> keeps_closed db (put_table a t db)"
proof -
  assume "at_closed (db_heap db ! a) \<Longrightarrow> at_closed t"
  then have "at_closed ((db_heap db)[a := t] ! b)" if "b < length (db_heap db)" "at_closed (db_heap db ! b)" for b
    using that by (cases "b = a") simp_all
  then show ?thesis
    by (simp add: keeps_closed_def put_table_def)
qed

lemma keeps_closed_add: "keeps_closed db (db\<lparr>db_heap := db_heap db @ [t]\<rparr>)"
  by (simp add: keeps_closed_def nth_append)

lemma keeps_closed_del [simp]: "keeps_closed db (db'\<lparr>db_tables := tables\<rparr>) \<longleftrightarrow> keeps_closed db db'"
  by (simp add: keeps_closed_def)

lemma db_do_keeps_closed:
  assumes "db_do C now call db w = (r, db', w')" and "db_ok db"
  shows "keeps_closed db db'"
proof (cases "db_closed db")
  case True
  then show ?thesis
    using assms(1) by (simp add: db_do_closed)
next
  case False
  show ?thesis
  proof (cases call)
    case (DCreateTable n s)
    obtain rc where "DB_CreateTable now db n s w = (rc, db', w')"
      using assms(1) DCreateTable by (auto simp: db_do_def split: prod.splits)
    then show ?thesis
      using False by (rule DB_CreateTable_cases) (simp_all add: keeps_closed_add)
  next
    case (DOpenTable n)
    obtain rc where "DB_OpenTable db n w = (rc, db', w')"
      using assms(1) DOpenTable by (auto simp: db_do_def split: prod.splits)
    then show ?thesis
      using False by (rule DB_OpenTable_cases) (simp_all add: keeps_closed_add)
  next
    case (DDropTable arms n)
    obtain rc where "DB_DropTable C arms db n w = (rc, db', w')"
      using assms(1) DDropTable by (auto simp: db_do_def split: prod.splits)
    then show ?thesis
      using False
    proof (rule DB_DropTable_cases)
      fix ref db1
      assume ref: "map_of (db_tables db) n = Some ref" and d: "case ref of None \<Rightarrow> db1 = db
          | Some a \<Rightarrow> \<exists>rc t w1. Api_Close C arms (db_heap db ! a) w = (rc, t, w1) \<and> db1 = put_table a t db"
        and r: "(\<exists>e. rc = Inl e) \<and> db' = db1 \<or> rc = Inr () \<and> db' = db1\<lparr>db_tables := gm_del n (db_tables db1)\<rparr>"
      have "keeps_closed db db1"
      proof (cases ref)
        case (Some a)
        then obtain rx t w1 where c: "Api_Close C arms (db_heap db ! a) w = (rx, t, w1)" "db1 = put_table a t db"
          using d by auto
        have "tbl_do (\<lambda>_ _. True) C 0 (TClose arms) (db_heap db ! a) w = Some (quiet rx, t, w1)"
          by (simp add: tbl_do_def c(1))
        from tbl_do_TClose [OF this] show ?thesis
          by (simp add: c(2) keeps_closed_put)
      qed (use d in simp)
      then show ?thesis
        using r by auto
    qed simp
  next
    case (DClose arms)
    then show ?thesis
      using assms DB_Close_ok by (fastforce simp: db_do_def keeps_closed_def split: prod.splits)
  qed (use assms in \<open>simp add: db_do_def\<close>)
qed

lemma api_step_keeps_closed:
  assumes "api_step same C (db, w) (db', w')" and "db_ok db"
  shows "keeps_closed db db'"
  using assms(1)
proof cases
  case (call_db now call r)
  then show ?thesis
    using db_do_keeps_closed assms(2) by blast
next
  case (call_table a now call r t)
  then show ?thesis
    using tbl_do_ok [OF _ db_ok_table [OF assms(2)]] keeps_closed_put by blast
next
  case (goroutine a arm t)
  then show ?thesis
    using tbl_turn_ok [OF _ db_ok_table [OF assms(2)]] keeps_closed_put by blast
qed simp

lemma api_steps_keep:
  assumes "(api_step same C)\<^sup>*\<^sup>* (db, w) (db', w')" and "api_reach same C db w"
  shows "keeps_closed db db' \<and> api_reach same C db' w'"
  using assms(1)
proof (induction rule: rtranclp_induct2)
  case refl
  then show ?case using assms(2) by simp
next
  case (step db1 w1 db2 w2)
  then show ?case
    using api_step_keeps_closed [OF step.hyps(2) api_reach_ok] keeps_closed_trans reach_step by blast
qed

section \<open>Well-formedness\<close>

text \<open>
  C12: in every state the calls and the goroutines can reach, in any order, the database is well
  formed: names are distinct; every open name stands for a table of that name; a table that has not
  been closed is the one its name stands for, so no open table is forgotten; a closed database knows
  no table. Every table searches with its current schema, and its writer runs exactly when the table
  says so: it is started, it is told to close exactly when the table is closed, and then its
  goroutine has ended.
\<close>

theorem api_well_formed:
  assumes "api_reach same C db w"
  shows "distinct (gm_keys (db_tables db)) \<and> (db_closed db \<longrightarrow> db_tables db = []) \<and>
    (\<forall>name a. map_of (db_tables db) name = Some (Some a) \<longrightarrow>
       a < length (db_heap db) \<and> at_name (db_heap db ! a) = name) \<and>
    (\<forall>a<length (db_heap db). at_closed (db_heap db ! a) \<or>
       map_of (db_tables db) (at_name (db_heap db ! a)) = Some (Some a)) \<and>
    (\<forall>t \<in> set (db_heap db). at_dbPath t = path_Join [db_path db, at_name t] \<and>
       at_search t = search_of (at_store t) (at_table t) \<and>
       (if at_writerOn t then
          \<exists>a. at_writer t = Some a \<and> aw_started a \<and> aw_closed a = at_closed t \<and> (at_closed t \<longrightarrow> aw_done a)
        else \<forall>a. at_writer t = Some a \<longrightarrow> \<not> aw_started a))"
proof -
  have ok: "db_ok db"
    by (rule api_reach_ok [OF assms])
  have "\<forall>t \<in> set (db_heap db). table_ok (db_path db) t"
    using ok by (simp add: db_ok_def list_all_iff)
  then show ?thesis
    using ok unfolding db_ok_def table_ok_def gm_ok_def by auto
qed

theorem api_well_formed_witness: "distinct (gm_keys (db_tables example_db))"
  using api_well_formed [OF example_reach] by blast

text \<open>
  C13: closing is for good: once a database or a table is closed it stays closed in everything that
  follows, every call on it is refused with the sentinel error (closing it again returns nil) and
  changes neither it nor the disk, and in a closed database every table that was ever handed out is
  closed too. Closing a database always succeeds.
\<close>

theorem closed_for_good:
  assumes "api_reach same C db w" and "(api_step same C)\<^sup>*\<^sup>* (db, w) (db', w')"
  shows "(db_closed db \<longrightarrow> db_closed db' \<and> (\<forall>t \<in> set (db_heap db'). at_closed t) \<and>
       (\<forall>now call u. db_do C now call db' u = (db_refusal call, db', u))) \<and>
    (\<forall>a<length (db_heap db). at_closed (db_heap db ! a) \<longrightarrow>
       a < length (db_heap db') \<and> at_closed (db_heap db' ! a) \<and>
       (\<forall>now call u. tbl_do same C now call (db_heap db' ! a) u = Some (tbl_refusal call, db_heap db' ! a, u))) \<and>
    (\<forall>now arms r db1 u u1. db_do C now (DClose arms) db' u = (r, db1, u1) \<longrightarrow>
       r = Inr ONothing \<and> (\<forall>now call v. db_do C now call db1 v = (db_refusal call, db1, v))) \<and>
    (\<forall>t now arms r t1 u u1. tbl_do same C now (TClose arms) t u = Some (r, t1, u1) \<longrightarrow>
       (\<forall>now call v. tbl_do same C now call t1 v = Some (tbl_refusal call, t1, v)))"
proof -
  have keep: "keeps_closed db db'" and ok: "db_ok db'"
    using api_steps_keep [OF assms(2,1)] api_reach_ok by blast+
  have "db_closed db' \<and> (\<forall>t \<in> set (db_heap db'). at_closed t) \<and>
      (\<forall>now call u. db_do C now call db' u = (db_refusal call, db', u))" if "db_closed db"
    using that keep ok by (auto simp: keeps_closed_def db_ok_def in_set_conv_nth db_do_closed)
  moreover have "a < length (db_heap db') \<and> at_closed (db_heap db' ! a) \<and>
      (\<forall>now call u. tbl_do same C now call (db_heap db' ! a) u = Some (tbl_refusal call, db_heap db' ! a, u))"
    if "a < length (db_heap db)" "at_closed (db_heap db ! a)" for a
    using that keep by (simp add: keeps_closed_def tbl_do_closed)
  moreover have "db_do C k call db1 v = (db_refusal call, db1, v)"
    if "db_do C now (DClose arms) db' u = (r, db1, u1)" for now arms r db1 u u1 k call v
    using database.refused_after_close [where c = "(now, DClose arms)" and d = "(k, call)"] that by simp
  moreover have "tbl_do same C k call t1 v = Some (tbl_refusal call, t1, v)"
    if "tbl_do same C now (TClose arms) t u = Some (r, t1, u1)" for now arms r t t1 u u1 k call v
    using tbl.refused_after_close [where c = "(now, TClose arms)" and d = "(k, call)"] that by simp
  moreover have "r = Inr ONothing" if "db_do C now (DClose arms) db' u = (r, db1, u1)" for now arms r db1 u u1
    using db_do_DClose [OF that] by simp
  ultimately show ?thesis
    by simp
qed

theorem closed_for_good_witness:
  "\<exists>db w. db_closed db \<and> db_tables db = [] \<and>
     (\<forall>u. db_do no_codecs 7 (DCreateTable ''t'' (NewSchema [])) db u = (Inl ErrDBClosed, db, u)) \<and>
     api_reach (\<lambda>_ _. True) no_codecs db w"
proof -
  obtain r db w where c: "db_do no_codecs 7 (DClose (\<lambda>_. [])) example_db example_world = (r, db, w)"
    by (metis prod_cases3)
  have reach: "api_reach (\<lambda>_ _. True) no_codecs db w"
    by (rule reach_step [OF example_reach call_db [OF c]])
  have "db_closed db" "db_tables db = []"
    using c by (auto simp: db_do_def DB_Close_def example_db_def new_Database_def)
  moreover have "(api_step (\<lambda>_ _. True) no_codecs)\<^sup>*\<^sup>* (db, w) (db, w)"
    by simp
  moreover have "\<forall>u. db_do no_codecs 7 (DCreateTable ''t'' (NewSchema [])) db u =
      (db_refusal (DCreateTable ''t'' (NewSchema [])), db, u)"
    using closed_for_good [OF reach calculation(3), THEN conjunct1] calculation(1) by simp
  ultimately show ?thesis
    using reach by (auto simp: db_refusal_def)
qed

section \<open>The names of a database\<close>

text \<open>The abstract database is the set of its names, or None once it is closed.\<close>

definition names_of :: "Database \<Rightarrow> string set option" where
  "names_of db = (if db_closed db then None else Some (set (gm_keys (db_tables db))))"

text \<open>What a call may answer and do to the names; an error not listed leaves them alone.\<close>

inductive names_step :: "string set option \<Rightarrow> db_call \<Rightarrow> outcome res \<Rightarrow> string set option \<Rightarrow> bool" where
  refused: "names_step None call (db_refusal call) None"
| closing: "names_step (Some N) (DClose arms) (Inr ONothing) None"
| listing: "distinct ns \<Longrightarrow> set ns = N \<Longrightarrow> names_step (Some N) DListTables (Inr (ONames ns)) (Some N)"
| conflict: "n \<in> N \<Longrightarrow> names_step (Some N) (DCreateTable n s)
    (Inl (ApiErr ErrConflict ''database.CreateTable'' (MsgTableExists n) None)) (Some N)"
| created: "n \<notin> N \<Longrightarrow> names_step (Some N) (DCreateTable n s) (Inr (OTable a)) (Some (insert n N))"
| not_created: "n \<notin> N \<Longrightarrow> names_step (Some N) (DCreateTable n s) (Inl e) (Some N)"
| no_table: "n \<notin> N \<Longrightarrow> names_step (Some N) (DOpenTable n)
    (Inl (ApiErr ErrNotFound ''database.OpenTable'' (MsgTableNotFound n) None)) (Some N)"
| opened: "n \<in> N \<Longrightarrow> names_step (Some N) (DOpenTable n) (Inr (OTable a)) (Some N)"
| not_opened: "n \<in> N \<Longrightarrow> names_step (Some N) (DOpenTable n) (Inl e) (Some N)"
| no_drop: "n \<notin> N \<Longrightarrow> names_step (Some N) (DDropTable arms n)
    (Inl (ApiErr ErrNotFound ''database.DropTable'' (MsgTableNotFound n) None)) (Some N)"
| dropped: "n \<in> N \<Longrightarrow> names_step (Some N) (DDropTable arms n) (Inr ONothing) (Some (N - {n}))"
| not_dropped: "n \<in> N \<Longrightarrow> names_step (Some N) (DDropTable arms n) (Inl e) (Some N)"

lemma gm_keys_Some: "map_of m k = Some v \<Longrightarrow> k \<in> set (gm_keys m)"
  using gm_get_key [of m k] by simp

lemma names_put_table [simp]: "names_of (put_table a t db) = names_of db"
  by (simp add: names_of_def put_table_def)

lemma db_do_names:
  assumes "db_do C now call db w = (r, db', w')" and "db_ok db"
  shows "names_step (names_of db) call r (names_of db')"
proof (cases "db_closed db")
  case True
  then show ?thesis
    using assms(1) by (auto simp: db_do_closed names_of_def intro: refused)
next
  case False
  then have N: "names_of db = Some (set (gm_keys (db_tables db)))"
    by (simp add: names_of_def)
  show ?thesis
  proof (cases call)
    case (DCreateTable n s)
    obtain rc where rc: "DB_CreateTable now db n s w = (rc, db', w')" "r = map_sum id OTable rc"
      using assms(1) DCreateTable by (auto simp: db_do_def split: prod.splits)
    from rc(1) False show ?thesis
      by (rule DB_CreateTable_cases)
        (use N False DCreateTable rc(2) in \<open>auto simp: names_of_def gm_get_None intro: names_step.intros gm_keys_Some\<close>)
  next
    case (DOpenTable n)
    obtain rc where rc: "DB_OpenTable db n w = (rc, db', w')" "r = map_sum id OTable rc"
      using assms(1) DOpenTable by (auto simp: db_do_def split: prod.splits)
    from rc(1) False show ?thesis
      by (rule DB_OpenTable_cases)
        (use N False DOpenTable rc(2) in
          \<open>auto simp: names_of_def gm_get_None insert_absorb gm_keys_Some intro: names_step.intros\<close>)
  next
    case (DDropTable arms n)
    obtain rc where rc: "DB_DropTable C arms db n w = (rc, db', w')" "r = quiet rc"
      using assms(1) DDropTable by (auto simp: db_do_def split: prod.splits)
    from rc(1) False show ?thesis
    proof (rule DB_DropTable_cases)
      assume "map_of (db_tables db) n = None" "db' = db"
        "rc = Inl (ApiErr ErrNotFound ''database.DropTable'' (MsgTableNotFound n) None)"
      then show ?thesis
        using N DDropTable rc(2) by (auto simp: gm_get_None quiet_def intro: no_drop)
    next
      fix ref db1
      assume ref: "map_of (db_tables db) n = Some ref" and d: "case ref of None \<Rightarrow> db1 = db
          | Some a \<Rightarrow> \<exists>rc t w1. Api_Close C arms (db_heap db ! a) w = (rc, t, w1) \<and> db1 = put_table a t db"
        and e: "(\<exists>e. rc = Inl e) \<and> db' = db1 \<or> rc = Inr () \<and> db' = db1\<lparr>db_tables := gm_del n (db_tables db1)\<rparr>"
      have "db_tables db1 = db_tables db \<and> db_closed db1 = db_closed db"
        using d by (auto simp: put_table_def split: option.splits)
      then show ?thesis
        using e N False DDropTable rc(2) gm_keys_Some [OF ref]
        by (auto simp: names_of_def quiet_def intro: names_step.intros)
    qed
  next
    case DListTables
    then show ?thesis
      using assms N False by (auto simp: db_do_def DB_ListTables_def db_ok_def gm_ok_def intro: listing)
  next
    case (DClose arms)
    then show ?thesis
      using assms(1) N db_do_DClose [of C now arms db w] by (auto simp: names_of_def intro: closing)
  qed
qed

text \<open>The table a call hands out is the one of its name from then on.\<close>

lemma db_do_handle:
  assumes "db_do C now call db w = (Inr (OTable a), db', w')"
  obtains n where "call = DOpenTable n \<or> (\<exists>s. call = DCreateTable n s)" "\<not> db_closed db'"
    "map_of (db_tables db') n = Some (Some a)"
proof -
  have live: "\<not> db_closed db"
    using assms db_do_closed [of db C now call w] by (auto simp: db_refusal_def split: db_call.splits)
  show thesis
  proof (cases call)
    case (DCreateTable n s)
    obtain rc where rc: "DB_CreateTable now db n s w = (rc, db', w')" "map_sum id OTable rc = Inr (OTable a)"
      using assms DCreateTable by (auto simp: db_do_def split: prod.splits)
    from rc(2) have "rc = Inr a"
      by (cases rc) simp_all
    with rc(1) have "DB_CreateTable now db n s w = (Inr a, db', w')"
      by simp
    then show thesis
      using live by (rule DB_CreateTable_cases) (use that DCreateTable live in auto)
  next
    case (DOpenTable n)
    obtain rc where rc: "DB_OpenTable db n w = (rc, db', w')" "map_sum id OTable rc = Inr (OTable a)"
      using assms DOpenTable by (auto simp: db_do_def split: prod.splits)
    from rc(2) have "rc = Inr a"
      by (cases rc) simp_all
    with rc(1) have "DB_OpenTable db n w = (Inr a, db', w')"
      by simp
    then show thesis
      using live by (rule DB_OpenTable_cases) (use that DOpenTable live in auto)
  next
    case (DDropTable arms n)
    obtain rc where "quiet rc = Inr (OTable a)"
      using assms DDropTable by (auto simp: db_do_def split: prod.splits)
    then show thesis
      by (cases rc) (simp_all add: quiet_def)
  next
    case (DClose arms)
    then show thesis
      using assms db_do_DClose by fastforce
  qed (use assms live in \<open>simp add: db_do_def DB_ListTables_def\<close>)
qed

text \<open>
  C11: the database refines a set of names: every call answers and changes the names as \<open>names_step\<close>
  allows (a closed database refuses; \<open>CreateTable\<close> refuses a name that exists and otherwise adds it
  or fails; \<open>OpenTable\<close> and \<open>DropTable\<close> refuse a name that does not exist; only a successful
  \<open>DropTable\<close> removes one; \<open>ListTables\<close> returns each name once), calls on tables and the goroutines
  do not touch the names, and a table handed out is a valid one of that name, which opening the name
  again returns without a look at the disk.
\<close>

theorem database_refines_names:
  assumes "api_reach same C db w" and "db_do C now call db w = (r, db', w')"
  shows "names_step (names_of db) call r (names_of db') \<and>
    (\<forall>a t. names_of (put_table a t db) = names_of db) \<and>
    (\<forall>a. r = Inr (OTable a) \<longrightarrow> a < length (db_heap db') \<and>
       (call = DOpenTable (at_name (db_heap db' ! a)) \<or> (\<exists>s. call = DCreateTable (at_name (db_heap db' ! a)) s)) \<and>
       (\<forall>later u. db_do C later (DOpenTable (at_name (db_heap db' ! a))) db' u = (r, db', u)))"
proof -
  have ok: "db_ok db" "db_ok db'"
    using api_reach_ok [OF assms(1)] api_reach_ok [OF reach_step [OF assms(1) call_db [OF assms(2)]]] by simp_all
  have "a < length (db_heap db') \<and>
       (call = DOpenTable (at_name (db_heap db' ! a)) \<or> (\<exists>s. call = DCreateTable (at_name (db_heap db' ! a)) s)) \<and>
       (\<forall>later u. db_do C later (DOpenTable (at_name (db_heap db' ! a))) db' u = (r, db', u))"
    if "r = Inr (OTable a)" for a
  proof -
    have d: "db_do C now call db w = (Inr (OTable a), db', w')"
      using assms(2) that by simp
    obtain n where n: "call = DOpenTable n \<or> (\<exists>s. call = DCreateTable n s)" "\<not> db_closed db'"
      "map_of (db_tables db') n = Some (Some a)"
      by (rule db_do_handle [OF d])
    then have "a < length (db_heap db')" "at_name (db_heap db' ! a) = n"
      using ok(2) by (simp_all add: db_ok_def)
    with n that show ?thesis
      by (auto simp: db_do_def DB_OpenTable_def)
  qed
  then show ?thesis
    using db_do_names [OF assms(2) ok(1)] by simp
qed

theorem database_refines_names_witness:
  "\<exists>db w. names_step (Some {''t''}) (DDropTable [] ''t'') (Inr ONothing) (names_of db) \<and> names_of db = Some {} \<and>
     api_reach (\<lambda>_ _. True) no_codecs db w"
proof -
  obtain r db w where d: "db_do no_codecs 7 (DDropTable [] ''t'') example_db example_world = (r, db, w)"
    by (metis prod_cases3)
  have del: "Store_Delete (LocalFS '''') ''/home/db/t'' example_world = (Inl (StoErr ErrNotEmpty), example_world)"
    by code_simp
  obtain w2 where rm: "os_RemoveAll ''/home/db/t'' example_world = Inr w2"
    by (rule that) code_simp
  have "path_Join [''/home/db'', ''t''] = ''/home/db/t''"
    by code_simp
  then have "r = Inr ONothing" "names_of db = Some {}"
    using d del rm
    by (auto simp: db_do_def DB_DropTable_def example_db_def new_Database_def quiet_def names_of_def gm_keys_def gm_del_def)
  moreover have "names_of example_db = Some {''t''}"
    by (simp add: names_of_def example_db_def new_Database_def gm_keys_def)
  ultimately have "names_step (Some {''t''}) (DDropTable [] ''t'') (Inr ONothing) (names_of db) \<and> names_of db = Some {}"
    using database_refines_names [OF example_reach d, THEN conjunct1] by simp
  with reach_step [OF example_reach call_db [OF d]] show ?thesis
    by blast
qed

section \<open>Errors and returns\<close>

lemma insert_batches_structured: "insert_batches op same C now t bs w = (Inl e, t', w') \<Longrightarrow> structured e"
  by (auto simp: insert_batches_def split: if_splits sum.splits prod.splits)

lemma Connect_structured: "Connect path w = (Inl e, w') \<Longrightarrow> structured e"
  by (auto simp: Connect_def Let_def split: if_splits sum.splits)

lemma ConnectWithConfig_structured: "ConnectWithConfig cfg w = (Inl e, w') \<Longrightarrow> structured e"
  by (auto simp: ConnectWithConfig_def Let_def split: sum.splits prod.splits bool.splits)

lemma newTable_structured: "newTable now path store name schema w = (Inl e, w') \<Longrightarrow> structured e"
  by (auto simp: newTable_def Let_def split: sum.splits prod.splits)

lemma openTable_structured: "openTable path store name w = (Inl e, w') \<Longrightarrow> structured e"
  by (auto simp: openTable_def Let_def split: sum.splits prod.splits)

lemma quiet_Inl [simp]: "quiet r = Inl e \<longleftrightarrow> r = Inl e"
  by (cases r) (simp_all add: quiet_def)

lemma map_sum_Inl [simp]: "map_sum id f r = Inl e \<longleftrightarrow> r = Inl e"
  by (cases r) simp_all

lemma tbl_do_structured:
  assumes "tbl_do same C now call t w = Some (Inl e, t', w')"
    and "\<nexists>cancelled pick b. call = TInsertAsync cancelled pick b" and "\<nexists>arms pick. call = TFlush arms pick"
    and "\<nexists>arms. call = TClose arms"
  shows "structured e"
proof (cases call)
  case (TInsert b)
  then show ?thesis
    using assms(1) insert_batches_structured by (fastforce simp: tbl_do_def Api_Insert_def split: prod.splits)
next
  case (TBatchInsert bs)
  then show ?thesis
    using assms(1) insert_batches_structured by (fastforce simp: tbl_do_def Api_BatchInsert_def split: prod.splits)
next
  case (TAddColumn f)
  then show ?thesis
    using assms(1) by (auto simp: tbl_do_def Api_AddColumn_def split: prod.splits sum.splits if_splits)
next
  case (TDropColumn n)
  then show ?thesis
    using assms(1) by (auto simp: tbl_do_def Api_DropColumn_def split: prod.splits sum.splits if_splits)
next
  case (TStartAsyncWriter n i)
  then show ?thesis
    using assms(1) by (auto simp: tbl_do_def Api_StartAsyncWriter_def Let_def split: prod.splits sum.splits if_splits)
next
  case (TSearch ctx srt q)
  then show ?thesis
    using assms(1) by (auto simp: tbl_do_def Api_Search_def split: prod.splits sum.splits if_splits)
next
  case TNumRows
  then show ?thesis
    using assms(1) by (auto simp: tbl_do_def Api_NumRows_def split: prod.splits sum.splits if_splits)
qed (use assms in auto)

lemma db_do_structured:
  assumes "db_do C now call db w = (Inl e, db', w')" and "\<nexists>arms n. call = DDropTable arms n"
  shows "structured e"
proof (cases call)
  case (DCreateTable n s)
  then show ?thesis
    using assms(1) newTable_structured
    by (fastforce simp: db_do_def DB_CreateTable_def Let_def split: prod.splits sum.splits if_splits)
next
  case (DOpenTable n)
  then show ?thesis
    using assms(1) openTable_structured
    by (fastforce simp: db_do_def DB_OpenTable_def Let_def split: prod.splits sum.splits if_splits option.splits)
next
  case DListTables
  then show ?thesis
    using assms(1) by (auto simp: db_do_def DB_ListTables_def split: if_splits)
next
  case (DClose arms)
  then show ?thesis
    using assms(1) db_do_DClose by fastforce
qed (use assms in auto)

text \<open>
  C15: every error of the api is an \<open>*Error\<close> (or the program panicked), whatever the layers below
  return, except for the calls that pass on an error of the asynchronous writer as it is:
  \<open>InsertAsync\<close>, \<open>Flush\<close> and the closing of a table, also inside \<open>DropTable\<close>.
\<close>

theorem structured_errors:
  "(Connect path w = (Inl e, w') \<longrightarrow> structured e) \<and>
   (ConnectWithConfig cfg w = (Inl e, w') \<longrightarrow> structured e) \<and>
   (db_do C now dcall db w = (Inl e, db', w') \<longrightarrow> structured e \<or>
     (\<exists>arms n a t w1. dcall = DDropTable arms n \<and> map_of (db_tables db) n = Some (Some a) \<and>
        Api_Close C arms (db_heap db ! a) w = (Inl e, t, w1))) \<and>
   (tbl_do same C now tcall t w = Some (Inl e, t', w') \<longrightarrow> structured e \<or>
     (\<exists>cancelled pick b. tcall = TInsertAsync cancelled pick b) \<or> (\<exists>arms pick. tcall = TFlush arms pick) \<or>
     (\<exists>arms. tcall = TClose arms))"
proof (intro conjI impI)
  assume d: "db_do C now dcall db w = (Inl e, db', w')"
  show "structured e \<or> (\<exists>arms n a t w1. dcall = DDropTable arms n \<and> map_of (db_tables db) n = Some (Some a) \<and>
        Api_Close C arms (db_heap db ! a) w = (Inl e, t, w1))"
  proof (cases "\<exists>arms n. dcall = DDropTable arms n")
    case True
    then obtain arms n where call: "dcall = DDropTable arms n"
      by blast
    then have "DB_DropTable C arms db n w = (Inl e, db', w')"
      using d by (auto simp: db_do_def split: prod.splits)
    then show ?thesis
      unfolding call
      by (auto simp: DB_DropTable_def Let_def split: if_splits option.splits prod.splits sum.splits)
  next
    case False
    with db_do_structured [OF d] show ?thesis
      by blast
  qed
next
  assume "tbl_do same C now tcall t w = Some (Inl e, t', w')"
  then show "structured e \<or>
     (\<exists>cancelled pick b. tcall = TInsertAsync cancelled pick b) \<or> (\<exists>arms pick. tcall = TFlush arms pick) \<or>
     (\<exists>arms. tcall = TClose arms)"
    using tbl_do_structured by metis
qed (rule Connect_structured ConnectWithConfig_structured, assumption)+

theorem structured_errors_witness:
  "structured ErrDBClosed \<and> DB_ListTables (example_db\<lparr>db_closed := True\<rparr>) = Inl ErrDBClosed"
proof -
  have "db_do no_codecs 0 DListTables (example_db\<lparr>db_closed := True\<rparr>) example_world =
      (Inl ErrDBClosed, example_db\<lparr>db_closed := True\<rparr>, example_world)"
    by (simp add: db_do_def DB_ListTables_def)
  then show ?thesis
    using structured_errors [THEN conjunct2, THEN conjunct2, THEN conjunct1] by (fastforce simp: DB_ListTables_def)
qed

lemma tbl_do_returns: "table_ok path t \<Longrightarrow> tbl_do same C now call t w \<noteq> None"
proof -
  assume ok: "table_ok path t"
  show ?thesis
  proof (cases "\<exists>arms pick. call = TFlush arms pick")
    case True
    then obtain arms pick where call: "call = TFlush arms pick"
      by blast
    have "AW_Flush C arms pick a w \<noteq> None" if "at_writerOn t" "at_writer t = Some a" for a
      using ok that by (intro AW_Flush_returns) (auto simp: table_ok_def)
    then show ?thesis
      unfolding call by (cases "at_writer t") (auto simp: tbl_do_def Api_Flush_def)
  next
    case False
    then show ?thesis
      by (cases call) (auto simp: tbl_do_def)
  qed
qed

text \<open>
  C14: every call on a table returns, in every state the program can reach and whatever the disk is
  like by then, also \<open>Flush\<close>, which waits for the writer's goroutine; the state it leaves is again a
  reachable one. When \<open>Close\<close> returns the goroutine has ended.
\<close>

theorem calls_return:
  assumes "api_reach same C db w" and "a < length (db_heap db)"
  shows "\<exists>r t u'. tbl_do same C now call (db_heap db ! a) u = Some (r, t, u') \<and>
    api_reach same C (put_table a t db) u' \<and>
    ((\<exists>arms. call = TClose arms) \<and> at_writerOn t \<longrightarrow>
      (\<exists>b. at_writer t = Some b \<and> aw_closed b \<and> aw_done b))"
proof -
  have ok: "table_ok (db_path db) (db_heap db ! a)"
    by (rule db_ok_table [OF api_reach_ok [OF assms(1)] assms(2)])
  obtain r t u' where c: "tbl_do same C now call (db_heap db ! a) u = Some (r, t, u')"
    using tbl_do_returns [OF ok] by (metis option.exhaust prod_cases3)
  have "api_reach same C (put_table a t db) u'"
    by (rule reach_step [OF reach_step [OF assms(1) elsewhere] call_table [OF assms(2) c]])
  moreover have "\<exists>b. at_writer t = Some b \<and> aw_closed b \<and> aw_done b"
    if "call = TClose arms" "at_writerOn t" for arms
    using tbl_do_ok [OF c ok] tbl_do_TClose [of same C now arms "db_heap db ! a" u r t u'] c that
    by (auto simp: table_ok_def)
  ultimately show ?thesis
    using c by blast
qed

theorem calls_return_witness:
  "\<exists>db w r t w'. api_reach (\<lambda>_ _. True) tag_codecs db w \<and> db_heap db \<noteq> [] \<and>
     tbl_do (\<lambda>_ _. True) tag_codecs 7 (TFlush [ArmTimer] 3) (db_heap db ! 0) w = Some (r, t, w')"
proof -
  obtain db w t0 where db: "api_reach (\<lambda>_ _. True) tag_codecs db w" "db_heap db = [t0]"
    by (rule example_table_reach [of "NewSchema []"]) (simp add: NewSchema_def, rule that)
  then have "0 < length (db_heap db)"
    by simp
  from calls_return [OF db(1) this, of 7 "TFlush [ArmTimer] 3" w] this db(1) show ?thesis
    unfolding length_greater_0_conv by blast
qed

end
