(* ===== verification/ApiSearch.thy ===== *)
theory ApiSearch
  imports ApiProperties LocalHistory
begin

text \<open>
  From the api down to the disk: what is inserted into a table is found by the next search.
\<close>

section \<open>Scans read only\<close>

text \<open>Reading a column leaves the world alone when no fault is planned.\<close>

lemma LocalFS_Read_world: "plan w = [] \<Longrightarrow> snd (LocalFS_Read root p off len w) = w"
  by (simp add: LocalFS_Read_def next_io_def split: sum.split node.split)

lemma ReadColumn_world:
  assumes "plan w = []" and "frd_store r = LocalFS root"
  shows "snd (ReadColumn C r f i w) = w"
proof (cases "FieldByID (frd_schema r) i")
  case (Some fld)
  show ?thesis
  proof (cases "findDataFile f i")
    case df: (Some df)
    obtain d w1 where rd: "LocalFS_Read root (df_Path df) 0 (df_FileSize df) w = (d, w1)"
      by fastforce
    then have "w1 = w"
      using LocalFS_Read_world [OF assms(1), of root "df_Path df" 0 "df_FileSize df"] by simp
    then show ?thesis
      using Some df rd assms(2) by (cases d) (simp_all add: ReadColumn_def)
  qed (use Some in \<open>simp add: ReadColumn_def\<close>)
qed (simp add: ReadColumn_def)

text \<open>A scan over the fragments of two manifests that read alike.\<close>

lemma vector_scan_cong:
  assumes "\<And>f. f \<in> set frags \<Longrightarrow> \<exists>x. ReadColumn C (bf_reader b) f (fld_ID fld) w = (x, w) \<and>
      ReadColumn C (bf_reader b) f (fld_ID fld) u = (x, u)"
    and "\<not> ctx w" and "\<not> ctx u"
  shows "\<exists>r. vector_scan C ctx b q fld keep frags off w = (r, w) \<and> vector_scan C ctx b q fld keep frags off u = (r, u)"
  using assms(1)
proof (induction frags arbitrary: off)
  case (Cons f frags)
  obtain x where x: "ReadColumn C (bf_reader b) f (fld_ID fld) w = (x, w)"
    "ReadColumn C (bf_reader b) f (fld_ID fld) u = (x, u)"
    using Cons.prems by force
  obtain r where "vector_scan C ctx b q fld keep frags (wrap64 (off + fragment_rows f)) w = (r, w)"
    "vector_scan C ctx b q fld keep frags (wrap64 (off + fragment_rows f)) u = (r, u)"
    using Cons.IH Cons.prems by fastforce
  then show ?case
    using x assms(2,3) by (auto simp: Let_def split: sum.split column.split)
qed simp

definition end_offset :: "Fragment list \<Rightarrow> int \<Rightarrow> int" where
  "end_offset frags off = foldl (\<lambda>total f. wrap64 (total + fragment_rows f)) off frags"

lemma vector_scan_append:
  "vector_scan C ctx b q fld keep (fs @ gs) off w =
     (case vector_scan C ctx b q fld keep fs off w of
        (Inl e, w1) \<Rightarrow> (Inl e, w1)
      | (Inr rs, w1) \<Rightarrow>
          (case vector_scan C ctx b q fld keep gs (end_offset fs off) w1 of
             (Inl e, w2) \<Rightarrow> (Inl e, w2)
           | (Inr rest, w2) \<Rightarrow> (Inr (rs @ rest), w2)))"
proof (induction fs arbitrary: off w)
  case Nil
  show ?case
    by (simp add: end_offset_def split: prod.split sum.split)
next
  case (Cons f fs)
  have e: "end_offset (f # fs) off = end_offset fs (wrap64 (off + fragment_rows f))"
    by (simp add: end_offset_def)
  let ?off = "wrap64 (off + fragment_rows f)"
  obtain x w1 where x: "ReadColumn C (bf_reader b) f (fld_ID fld) w = (x, w1)"
    by fastforce
  obtain y w2 where y: "vector_scan C ctx b q fld keep fs ?off w1 = (y, w2)"
    by fastforce
  obtain z w3 where z: "vector_scan C ctx b q fld keep gs (end_offset fs ?off) w2 = (z, w3)"
    by fastforce
  show ?case
  proof (cases "\<exists>vs. x = Inr (Float32s vs)")
    case True
    then obtain vs where vs: "x = Inr (Float32s vs)"
      by blast
    obtain r where r: "scan_rows (vq_Vector q) (vq_Metric q) (nat (fld_Dimension fld)) vs keep off 0
        (nat (fragment_rows f)) = r"
      by blast
    show ?thesis
      by (cases "ctx w"; cases r; cases y; cases z) (simp_all add: e x y z r vs Let_def Cons.IH)
  next
    case False
    then show ?thesis
      by (cases "ctx w"; cases x) (auto simp: x Let_def split: column.split)
  qed
qed

section \<open>The rows of a new fragment\<close>

lemma foldl_max_ge:
  "n \<le> foldl (\<lambda>m (i, d). max m (g i d)) n xs" "(i, d) \<in> set xs \<Longrightarrow> g i d \<le> foldl (\<lambda>m (i, d). max m (g i d)) n xs"
  for n :: int
proof (induction xs arbitrary: n)
  case (Cons x xs)
  obtain j e where x: "x = (j, e)"
    by fastforce
  {
    case 1
    show ?case
      using Cons.IH(1) [of "max n (g j e)"] by (simp add: x)
  next
    case 2
    then show ?case
      using Cons.IH [of "max n (g j e)"] by (auto simp: x)
  }
qed simp_all

text \<open>The rows of a fragment whose vector column has \<open>n\<close> whole vectors, each with its distance.\<close>

lemma scan_new_rows:
  fixes q :: VectorQuery
  assumes "n = length vs div nat (fld_Dimension fld)"
    and "0 < fld_Dimension fld" and "n \<le> nat (fragment_rows f)"
    and "\<forall>j<n. Distance (vq_Vector q) (take (nat (fld_Dimension fld)) (drop (j * nat (fld_Dimension fld)) vs))
        (vq_Metric q) = Inr (dist j)"
  shows "scan_rows (vq_Vector q) (vq_Metric q) (nat (fld_Dimension fld)) vs (\<lambda>_. True) off 0 (nat (fragment_rows f)) =
    Inr (map (\<lambda>j. \<lparr>RowID = wrap64 (off + int j), Score = dist j\<rparr>) [0..<n])"
proof -
  let ?dim = "nat (fld_Dimension fld)" and ?row = "\<lambda>j. (wrap64 (off + int j), f, j)"
  let ?m = "nat (fragment_rows f)" and ?view = "\<lambda>_ _. Float32s vs"
  have dim: "0 < ?dim"
    using assms(2) by simp
  have whole: "j * ?dim + ?dim \<le> length vs \<longleftrightarrow> j < n" for j
  proof -
    have "j * ?dim + ?dim \<le> length vs \<longleftrightarrow> Suc j * ?dim \<le> length vs"
      by (simp add: add.commute)
    also have "\<dots> \<longleftrightarrow> Suc j \<le> length vs div ?dim"
      using dim by (simp add: less_eq_div_iff_mult_less_eq)
    finally show ?thesis
      using assms(1) by (simp add: Suc_le_eq)
  qed
  have vec: "row_vector ?dim (Float32s vs) j = (if j < n then Some (take ?dim (drop (j * ?dim) vs)) else None)" for j
    by (simp add: row_vector_def whole)
  have dist: "\<exists>d. Distance (vq_Vector q) x (vq_Metric q) = Inr d" if "row_vector ?dim (Float32s vs) j = Some x" for j x
    using that assms(4) vec by (auto split: if_splits)
  have cand: "candidate ?view fld q (?row j) =
      (if j < n then Some \<lparr>RowID = wrap64 (off + int j), Score = dist j\<rparr> else None)" for j
    using assms(4) vec by (simp add: candidate_def)
  have split: "[0..<?m] = [0..<n] @ [n..<?m]"
    using assms(3) by (metis le0 upt_add_eq_append le_add_diff_inverse)
  have first: "List.map_filter (candidate ?view fld q) (map ?row [0..<n]) =
      map (\<lambda>j. \<lparr>RowID = wrap64 (off + int j), Score = dist j\<rparr>) [0..<n]"
    unfolding List.map_filter_def by (simp add: cand comp_def cong: map_cong filter_cong)
  have rest: "List.map_filter (candidate ?view fld q) (map ?row [n..<?m]) = []"
    by (rule map_filter_none) (auto simp: cand)
  have "scan_rows (vq_Vector q) (vq_Metric q) ?dim vs (\<lambda>_. True) off 0 ?m =
      Inr (List.map_filter (candidate ?view fld q) (map ?row [0..<?m]))"
    using scan_rows_spec [of ?view f fld vs q "\<lambda>_. True" off 0 ?m] dist by simp
  then show ?thesis
    by (simp add: split map_filter_append first rest)
qed

section \<open>The search of a table\<close>

definition table_scan :: "'w ApiTable \<Rightarrow> 'w BruteForceSearch" where
  "table_scan t = NewBruteForceSearch
     (NewFragmentReader (at_store t) (tb_schema (at_table t)) CompressionZstd) (tb_schema (at_table t))"

text \<open>A query without filter and limit whose vector has the dimension of the column.\<close>

definition plain_query :: "Schema \<Rightarrow> Query \<Rightarrow> VectorQuery \<Rightarrow> Field \<Rightarrow> bool" where
  "plain_query s q v fld \<longleftrightarrow>
     q_Vector q = Some v \<and> q_Filter q = None \<and> q_Limit q \<le> 0 \<and> FieldByName s (vq_Column v) = Some fld \<and>
     FieldByID s (fld_ID fld) = Some fld \<and> fld_Type fld = TypeFixedSizeList \<and> 0 < fld_Dimension fld \<and>
     int (length (vq_Vector v)) = fld_Dimension fld"

lemma Api_Search_plain:
  assumes "\<not> at_closed t" and "at_search t = search_of (at_store t) (at_table t)"
    and "LatestManifest (at_table t) w = (Inr m, w1)" and "plain_query (tb_schema (at_table t)) q v fld"
  shows "Api_Search C ctx srt t q w =
    (case vector_scan C ctx (table_scan t) v fld (\<lambda>_. True) (man_Fragments m) 0 w1 of
       (Inl e, w2) \<Rightarrow> (Inl (wrapStorageErr e ''table.Search'' (at_name t)), w2)
     | (Inr cs, w2) \<Rightarrow> (Inr (sort_Slice srt score_less cs), w2))"
proof -
  have "hs_bruteForce (at_search t) = table_scan t"
    by (simp add: assms(2) search_of_def NewHybridSearch_def table_scan_def Let_def)
  moreover have "vectorField (table_scan t) (vq_Column v) = Inr fld"
    using assms(4) by (simp add: plain_query_def vectorField_def table_scan_def NewBruteForceSearch_def)
  ultimately show ?thesis
    using assms by (simp add: plain_query_def Api_Search_def HybridSearch_Search_def SearchWithStrategy_def
        BruteForce_Search_def applyLimit_def split: prod.split sum.split)
qed

context local_history
begin

lemma fragment_read_kept:
  assumes "table_inv t w" and "(table_step same C)\<^sup>*\<^sup>* (t, w) (t', w')" and "LatestManifest t w = (Inr m, w)"
    and "f \<in> set (man_Fragments m)" and "frd_store r = LocalFS root"
  shows "\<exists>x. ReadColumn C r f i w = (x, w) \<and> ReadColumn C r f i w' = (x, w')"
proof -
  have "table_inv t' w'"
    using table_run_inv [OF assms(2)] assms(1) by simp
  then have "plan w = []" "plan w' = []"
    using assms(1) by (simp_all add: table_inv_def fs_ready_def)
  then have "snd (ReadColumn C r f i w) = w" "snd (ReadColumn C r f i w') = w'"
    using assms(5) by (simp_all add: ReadColumn_world)
  moreover have "fst (ReadColumn C r f i w') = fst (ReadColumn C r f i w)"
    by (rule latest_kept [OF assms])
  ultimately show ?thesis
    by (intro exI [of _ "fst (ReadColumn C r f i w)"]) (metis prod.collapse)
qed

end

context local_history
begin

lemma vector_rows_le:
  assumes "Column b i = Some (Float32s vs)" and "FieldByID s i = Some fld" and "fld_Type fld = TypeFixedSizeList"
    and "0 < fld_Dimension fld" and "fr_NumRows f = frag.batch_rows s (rb_Columns b) 0"
    and "fr_PhysicalRows f = fr_NumRows f"
  shows "length vs div nat (fld_Dimension fld) \<le> nat (fragment_rows f)"
proof -
  have "(i, Float32s vs) \<in> set (rb_Columns b)"
    using assms(1) by (simp add: Column_def map_of_SomeD)
  from foldl_max_ge(2) [OF this, of "\<lambda>i d. column_rows (the (FieldByID s i)) d" 0]
  have "column_rows fld (Float32s vs) \<le> fr_NumRows f"
    using assms(2,5) by (simp add: frag.batch_rows_def)
  moreover have "column_rows fld (Float32s vs) = int (length vs div nat (fld_Dimension fld))"
    using assms(3,4) by (simp add: column_rows_def inferNumRows_def zdiv_int)
  moreover have "fragment_rows f = fr_NumRows f"
    using assms(6) by (simp add: fragment_rows_def)
  ultimately show ?thesis
    by simp
qed

lemma insert_scan:
  fixes v :: VectorQuery
  assumes "table_inv t w" and "in_range t now" and "batch_fits (tb_schema t) (rb_Columns b)" and "paths_ok tp"
    and "BatchInsert same C now t [b] w = (r, t', w')"
    and "FieldByID (tb_schema t) (fld_ID fld) = Some fld" and "fld_Type fld = TypeFixedSizeList"
    and "0 < fld_Dimension fld" and "Column b (fld_ID fld) = Some (Float32s vs)"
    and "n = length vs div nat (fld_Dimension fld)"
    and "\<forall>j<n. Distance (vq_Vector v) (take (nat (fld_Dimension fld)) (drop (j * nat (fld_Dimension fld)) vs))
        (vq_Metric v) = Inr (dist j)"
    and "\<not> ctx w" and "\<not> ctx w'"
    and "LatestManifest t w = (Inr old, w)"
    and "bf_reader bf = NewFragmentReader (LocalFS root) (tb_schema t) comp"
    and "vector_scan C ctx bf v fld (\<lambda>_. True) (man_Fragments old) 0 w = (Inr cs, w0)"
  shows "\<exists>f m. r = Inr f \<and> LatestManifest t' w' = (Inr m, w') \<and> w0 = w \<and>
    vector_scan C ctx bf v fld (\<lambda>_. True) (man_Fragments m) 0 w' =
      (Inr (cs @ map (\<lambda>j. \<lparr>RowID = wrap64 (end_offset (man_Fragments old) 0 + int j), Score = dist j\<rparr>) [0..<n]), w')"
proof -
  obtain f m where ok_f: "Fragment_ok f"
    and f: "r = Inr f" "fr_NumRows f = frag.batch_rows (tb_schema t) (rb_Columns b) 0"
    "fr_PhysicalRows f = fr_NumRows f" "LatestManifest t' w' = (Inr m, w')"
    "man_Fragments m = man_Fragments old @ [f]"
    "fst (ReadColumn C (bf_reader bf) f (fld_ID fld) w') = Inr (Float32s vs)"
    using insert_reads [OF assms(1,2) _ _ assms(3,5,4)] assms(9,14,15) by (auto simp: insert_batch_def)
  have gm: "\<forall>x \<in> set [b]. gm_ok (rb_Columns x)"
    using assms(3) by (simp add: batch_fits_def)
  have step: "table_step same C (t, w) (t', w')"
    by (rule step_insert [OF assms(5,2) gm]) (simp add: f(1) ok_f)
  then have inv': "table_inv t' w'"
    using table_step_inv [OF step] assms(1) by simp
  have st: "frd_store (bf_reader bf) = LocalFS root"
    by (simp add: assms(15) NewFragmentReader_def)
  have kept: "\<exists>x. ReadColumn C (bf_reader bf) g (fld_ID fld) w = (x, w) \<and>
      ReadColumn C (bf_reader bf) g (fld_ID fld) w' = (x, w')" if "g \<in> set (man_Fragments old)" for g
    by (rule fragment_read_kept [OF assms(1) _ assms(14) that st]) (rule r_into_rtranclp, rule step)
  have old: "vector_scan C ctx bf v fld (\<lambda>_. True) (man_Fragments old) 0 w' = (Inr cs, w')" "w0 = w"
    using vector_scan_cong [where frags = "man_Fragments old" and C = C and b = bf and fld = fld and w = w and u = w'
        and q = v and keep = "\<lambda>_. True" and off = 0, OF kept assms(12,13)]
      assms(16) by auto
  have "plan w' = []"
    using inv' by (simp add: table_inv_def fs_ready_def)
  then have new: "ReadColumn C (bf_reader bf) f (fld_ID fld) w' = (Inr (Float32s vs), w')"
    using f(6) ReadColumn_world [OF _ st, of w' C f "fld_ID fld"] by (metis prod.collapse)
  have rows: "n \<le> nat (fragment_rows f)"
    using vector_rows_le [OF assms(9,6,7,8) f(2,3)] assms(10) by simp
  have "vector_scan C ctx bf v fld (\<lambda>_. True) [f] (end_offset (man_Fragments old) 0) w' =
      (Inr (map (\<lambda>j. \<lparr>RowID = wrap64 (end_offset (man_Fragments old) 0 + int j), Score = dist j\<rparr>) [0..<n]), w')"
    using new scan_new_rows [OF assms(10,8) rows assms(11)] assms(13) by (simp add: Let_def)
  then show ?thesis
    using f(1,4,5) old by (simp add: vector_scan_append)
qed

end

section \<open>Properties\<close>

text \<open>
  C5: what is inserted is found: when a vector search on a table returns \<open>rs\<close>, then after an insert of
  a batch whose columns fit the schema the same search returns, in ascending order of their scores,
  exactly \<open>rs\<close> and one result per vector of the batch, with the row number that follows the rows of
  the table and the distance of that vector to the query, through the encoder, the codec, the
  manifest and the file system. (Rows that are not numbers have no place in the order.)
\<close>

theorem insert_then_search:
  fixes v :: VectorQuery
  assumes "sorter_ok srt" and "join_safe tp" and "paths_ok tp"
    and "codec_ok C CompressionZstd (effective_block_size (NewMiniBlockEncoder CompressionZstd))"
    and "table_reach same C c root tp CompressionZstd (at_table t) w" and "in_range (at_table t) now"
    and "\<not> at_closed t" and "at_store t = LocalFS root" and "at_search t = search_of (at_store t) (at_table t)"
    and "batch_fits (tb_schema (at_table t)) (rb_Columns b)"
    and "plain_query (tb_schema (at_table t)) q v fld" and "Column b (fld_ID fld) = Some (Float32s vs)"
    and "n = length vs div nat (fld_Dimension fld)"
    and "\<forall>j<n. Distance (vq_Vector v) (take (nat (fld_Dimension fld)) (drop (j * nat (fld_Dimension fld)) vs))
        (vq_Metric v) = Inr (dist j)"
    and "\<not> ctx w" and "\<not> ctx w'"
    and "Api_Search C ctx srt t q w = (Inr rs, w0)" and "Api_Insert same C now t b w = (r, t', w')"
  shows "\<exists>old rs'. r = Inr () \<and> LatestManifest (at_table t) w = (Inr old, w) \<and>
    Api_Search C ctx srt t' q w' = (Inr rs', w') \<and>
    mset rs' = mset rs +
      mset (map (\<lambda>j. \<lparr>RowID = wrap64 (end_offset (man_Fragments old) 0 + int j), Score = dist j\<rparr>) [0..<n]) \<and>
    (no_nan rs' \<longrightarrow> sorted (map score_key rs'))"
proof -
  note sorter = assms(1) [unfolded sorter_ok_iff]
  note hist = local_historyI [OF assms(2,4)]
  note inv = local_history.reach_inv [OF hist assms(5)]
  obtain old where old: "LatestManifest (at_table t) w = (Inr old, w)"
    using local_history.latest_exists [OF hist inv] by blast
  obtain cs where cs: "vector_scan C ctx (table_scan t) v fld (\<lambda>_. True) (man_Fragments old) 0 w = (Inr cs, w0)"
    "rs = sort_Slice srt score_less cs"
    using assms(17) Api_Search_plain [OF assms(7,9) old assms(11), of C ctx srt]
    by (auto split: prod.splits sum.splits)
  obtain rb tb w1 where ins: "BatchInsert same C now (at_table t) [b] w = (rb, tb, w1)"
    by (metis prod_cases3)
  have w1: "w1 = w'" "t' = t\<lparr>at_table := tb\<rparr>" "r = (case rb of Inl e \<Rightarrow> Inl (wrapStorageErr e ''table.Insert'' (at_name t)) | Inr f \<Rightarrow> Inr ())"
    using assms(7,18) ins by (auto simp: Api_Insert_def insert_batches_def split: sum.splits)
  have fld: "FieldByID (tb_schema (at_table t)) (fld_ID fld) = Some fld" "fld_Type fld = TypeFixedSizeList"
    "0 < fld_Dimension fld"
    using assms(11) by (simp_all add: plain_query_def)
  have rd: "bf_reader (table_scan t) = NewFragmentReader (LocalFS root) (tb_schema (at_table t)) CompressionZstd"
    using assms(8) by (simp add: table_scan_def NewBruteForceSearch_def)
  obtain f m where f: "rb = Inr f" "LatestManifest tb w' = (Inr m, w')"
    "vector_scan C ctx (table_scan t) v fld (\<lambda>_. True) (man_Fragments m) 0 w' =
      (Inr (cs @ map (\<lambda>j. \<lparr>RowID = wrap64 (end_offset (man_Fragments old) 0 + int j), Score = dist j\<rparr>) [0..<n]), w')"
    using local_history.insert_scan [OF hist inv assms(6,10,3) ins [unfolded w1(1)] fld assms(12-16) old rd cs(1)]
    by blast
  have schema: "tb_schema tb = tb_schema (at_table t)"
    by (rule BatchInsert_schema [OF ins])
  then have scan: "table_scan t' = table_scan t"
    by (simp add: table_scan_def w1(2))
  let ?new = "map (\<lambda>j. \<lparr>RowID = wrap64 (end_offset (man_Fragments old) 0 + int j), Score = dist j\<rparr>) [0..<n]"
  let ?rs = "sort_Slice srt score_less (cs @ ?new)"
  have "Api_Search C ctx srt t' q w' = (Inr ?rs, w')"
    using Api_Search_plain [of t' w' m w' q v fld C ctx srt] assms(7,9,11) f(2,3) schema scan w1(2)
    by (simp add: search_of_def)
  moreover have perm: "mset ?rs = mset rs + mset ?new"
    by (simp only: cs(2) go_sorter.mset_sort_Slice [OF sorter] mset_append)
  moreover have "sorted (map score_key ?rs)" if "no_nan ?rs"
    using that by (intro go_sorter.sorted_by_score [OF sorter]) (simp only: no_nan_mset [OF go_sorter.mset_sort_Slice [OF sorter]])
  ultimately show ?thesis
    using old f(1) w1(3) by (intro exI [of _ old] exI [of _ ?rs]) simp
qed

text \<open>A vector inserted into a new table is found as row 0.\<close>

theorem insert_then_search_witness:
  "\<exists>t w t' w' q s. Api_Insert (\<lambda>_ _. True) tag_codecs 7 t
       (SetColumn 0 (Float32s [0x3f800000, 0]) (NewRecordBatch (tb_schema (at_table t)) 1)) (w :: world) = (Inr (), t', w') \<and>
     Api_Search tag_codecs (\<lambda>_. False) insertion_sorter t' q w' = (Inr [\<lparr>RowID = 0, Score = s\<rparr>], w')"
proof -
  let ?f = "Field 0 ''v'' TypeFixedSizeList False 2 [] None"
  let ?schema = "NewSchema [?f]"
  have schema: "Fields_ok (Fields ?schema)"
    by (simp add: NewSchema_def fits32_def DataType_ok_def DataType_of_code_def utf8_ok_ascii)
  obtain db w t where t: "api_reach (\<lambda>_ _. True) tag_codecs db w" "db_heap db = [t]"
    "table_reach (\<lambda>_ _. True) tag_codecs [] ''/db'' ''d/t'' CompressionZstd (at_table t) w"
    "at_store t = LocalFS ''/db''" "tb_schema (at_table t) = ?schema" "tb_nextVersion (at_table t) = 2"
    "tb_nextFragmentID (at_table t) = 0" "\<not> at_closed t"
    "at_search t = search_of (LocalFS ''/db'') (at_table t)" "no_rows (at_table t) w"
    by (rule example_table_reach [OF schema])
  let ?vs = "[0x3f800000, 0] :: f32 list"
  let ?v = "\<lparr>vq_Vector = ?vs, vq_Column = ''v'', vq_Metric = DistanceDotProduct, vq_NumPartitions = 0, vq_NProbes = 0\<rparr>"
  let ?q = "\<lparr>q_Vector = Some ?v, q_Filter = None, q_Limit = 0, q_Columns = [], q_Timeout = 0\<rparr>"
  let ?b = "SetColumn 0 (Float32s ?vs) (NewRecordBatch (tb_schema (at_table t)) 1)"
  let ?search = "Api_Search tag_codecs (\<lambda>_. False) insertion_sorter"
  have plain: "plain_query (tb_schema (at_table t)) ?q ?v ?f"
    by (simp add: plain_query_def t(5) NewSchema_def FieldByName_def FieldByID_def fits32_def)
  obtain old where old: "LatestManifest (at_table t) w = (Inr old, w)" "man_Fragments old = []"
    using t(10) by (auto simp: no_rows_def)
  have before: "?search t ?q w = (Inr [], w)"
    using Api_Search_plain [OF t(8) _ old(1) plain, of tag_codecs "\<lambda>_. False" insertion_sorter] t(4,9) old(2)
    by (simp add: sort_Slice_def insertion_sorter_def)
  obtain r t' w' where ins: "Api_Insert (\<lambda>_ _. True) tag_codecs 7 t ?b w = (r, t', w')"
    by (metis prod_cases3)
  have b: "rb_Columns ?b = [(0, Float32s ?vs)]"
    by (simp add: SetColumn_def NewRecordBatch_def gm_put_def)
  have "column_fits ?f (Float32s ?vs)"
    by (simp add: column_fits_def) code_simp
  then have fits: "batch_fits (tb_schema (at_table t)) (rb_Columns ?b)"
    unfolding b by (simp add: t(5) NewSchema_def FieldByID_def fits32_def batch_fits_def gm_ok_def gm_keys_def)
  obtain s where s: "Distance ?vs ?vs DistanceDotProduct = Inr s"
    by (simp add: Distance_def)
  have range: "in_range (at_table t) 7"
    by (simp add: in_range_def t(6,7) fits64_def)
  have codec: "codec_ok tag_codecs CompressionZstd (effective_block_size (NewMiniBlockEncoder CompressionZstd))"
    by (rule codec_ok_tag_zstd) (simp add: effective_block_size_def NewMiniBlockEncoder_def defaultMiniBlockSize_def)
  have dist: "\<forall>j<1. Distance (vq_Vector ?v) (take (nat (fld_Dimension ?f)) (drop (j * nat (fld_Dimension ?f)) ?vs))
      (vq_Metric ?v) = Inr ((\<lambda>_. s) j)"
    using s by simp
  have col: "Column ?b (fld_ID ?f) = Some (Float32s ?vs)"
    unfolding Column_def b by simp
  from insert_then_search [OF sorter_ok_insertion example_path(2,3) codec t(3) range t(8) t(4) _ fits plain col _ dist _ _
      before ins] t(4,9)
  obtain old' rs' where "r = Inr ()" "LatestManifest (at_table t) w = (Inr old', w)" "?search t' ?q w' = (Inr rs', w')"
    "mset rs' = {#\<lparr>RowID = wrap64 (end_offset (man_Fragments old') 0), Score = s\<rparr>#}"
    by auto
  then have "?search t' ?q w' = (Inr [\<lparr>RowID = 0, Score = s\<rparr>], w')" "r = Inr ()"
    using old by (simp_all add: end_offset_def fits64_def)
  with ins show ?thesis
    by blast
qed

end
