(* ===== verification/Quickstart.thy ===== *)
theory Quickstart
  imports ApiSearch
begin

text \<open>
  \<^verbatim>\<open>src/examples/quickstart/main.go\<close>: the program the README starts with, as the composition of the
  api calls it makes. A line it prints is a text or a hit with the text after it (the formatting of
  the numbers of a hit is left out); \<open>log.Fatalf\<close> ends the program without running the deferred
  \<open>Close\<close>. The clock is an argument, one reading per call.
\<close>

section \<open>The program\<close>

datatype printed = Text string | Hit SearchResult string

datatype ending = Done | Fatal string goerr

definition nl :: string where
  "nl = [CHR 0x0A]"

definition quickstart_schema :: Schema where
  "quickstart_schema = NewSchema
     [Field 0 ''id'' TypeInt64 False 0 [] None, Field 0 ''embedding'' TypeFixedSizeList False 4 [] None,
      Field 0 ''category'' TypeString True 0 [] None]"

definition document :: "int \<Rightarrow> RecordBatch" where
  "document i =
     (let batch0 = NewRecordBatch quickstart_schema 1;
          batch1 = SetColumn 0 (Int64s [word_of_int i]) batch0;
          batch2 = SetColumn 1 (Float32s [f32_of_int i, 0, 0, 0]) batch1;
          category = (if i mod 2 = 0 then ''art'' else ''science'')
      in SetColumn 2 (Strings [category]) batch2)"

definition row_numbers :: "int list" where
  "row_numbers = [0..9]"

text \<open>The loop over the documents; a failure carries the number of the row.\<close>

fun insert_documents ::
  "(RecordBatch \<Rightarrow> RecordBatch \<Rightarrow> bool) \<Rightarrow> codecs \<Rightarrow> (int \<Rightarrow> int) \<Rightarrow> int list \<Rightarrow> world ApiTable \<Rightarrow> world \<Rightarrow>
     (int \<times> goerr + unit) \<times> world ApiTable \<times> world" where
  "insert_documents same C clock [] t w = (Inr (), t, w)"
| "insert_documents same C clock (i # is) t w =
     (case Api_Insert same C (clock i) t (document i) w of
        (Inl err, t1, w1) \<Rightarrow> (Inl (i, err), t1, w1)
      | (Inr _, t1, w1) \<Rightarrow> insert_documents same C clock is t1 w1)"

definition nearest_query :: "builders \<Rightarrow> addr \<times> builders" where
  "nearest_query h =
     (let (v, h1) = Vector [f32_of_int 3, 0, 0, 0] h;
          (v, h2) = VQ_Column ''embedding'' v h1;
          (q, h3) = NewQuery (Some v) h2;
          (q, h4) = QB_TopK 3 q h3
      in (QB_Build q, h4))"

definition science_query :: "builders \<Rightarrow> addr \<times> builders" where
  "science_query h =
     (let (v, h1) = Vector [f32_of_int 3, 0, 0, 0] h;
          (v, h2) = VQ_Column ''embedding'' v h1;
          (q, h3) = NewQuery (Some v) h2;
          (fb, h4) = api_EQ ''category'' (CScalar (SString ''science'')) h3;
          (q, h5) = QB_Filter fb q h4;
          (q, h6) = QB_TopK 2 q h5
      in (QB_Build q, h6))"

definition tags_field :: Field where
  "tags_field = Field 0 ''tags'' TypeString True 0 [] None"

text \<open>Steps 6 and 7, and the deferred \<open>Close\<close>; \<open>a\<close> is where the database keeps the table.\<close>

definition quickstart_evolve ::
  "codecs \<Rightarrow> (addr \<Rightarrow> run_arm list) \<Rightarrow> int \<Rightarrow> printed list \<Rightarrow> Database \<Rightarrow> addr \<Rightarrow> world ApiTable \<Rightarrow> world \<Rightarrow>
     printed list \<times> ending \<times> world" where
  "quickstart_evolve C arms now out db a t w =
     (case Api_AddColumn now t tags_field w of
        (Inl err, t1, w1) \<Rightarrow> (out, Fatal ''AddColumn: '' err, w1)
      | (Inr _, t1, w1) \<Rightarrow>
          let added = Text (nl @ ''Added 'tags' column. Schema now has '' @
                FormatInt (int (NumFields (Api_Schema t1))) @ '' fields.'' @ nl);
              (r, w2) = Api_NumRows t1 w1;
              n = (case r of Inl err \<Rightarrow> 0 | Inr n \<Rightarrow> n);
              (rc, db1, w3) = DB_Close C arms (put_table a t1 db) w2
          in (out @ [added, Text (''Total documents: '' @ FormatInt n @ nl), Text (nl @ ''Done!'' @ nl)], Done, w3))"

text \<open>Steps 4 and 5.\<close>

definition quickstart_search ::
  "codecs \<Rightarrow> sorter \<Rightarrow> (addr \<Rightarrow> run_arm list) \<Rightarrow> int \<Rightarrow> Database \<Rightarrow> addr \<Rightarrow> world ApiTable \<Rightarrow> world \<Rightarrow>
     printed list \<times> ending \<times> world" where
  "quickstart_search C srt arms now db a t w =
     (let out = [Text (''Inserted 10 documents.'' @ nl),
            Text (nl @ ''--- Vector Search (top-3 nearest to [3,0,0,0]) ---'' @ nl)];
          (q, h) = nearest_query \<lparr>bd_queries = [], bd_vectors = [], bd_filters = []\<rparr>
      in case Api_Search C (\<lambda>_. False) srt t (deref h q) w of
           (Inl err, w1) \<Rightarrow> (out, Fatal ''Search: '' err, w1)
         | (Inr results, w1) \<Rightarrow>
             let out1 = out @ map (\<lambda>r. Hit r nl) results @
                   [Text (nl @ ''--- Hybrid Search (science only, top-2 nearest to [3,0,0,0]) ---'' @ nl)];
                 (q2, h2) = science_query h
             in (case Api_Search C (\<lambda>_. False) srt t (deref h2 q2) w1 of
                   (Inl err, w2) \<Rightarrow> (out1, Fatal ''HybridSearch: '' err, w2)
                 | (Inr results2, w2) \<Rightarrow>
                     quickstart_evolve C arms now
                       (out1 @ map (\<lambda>r. Hit r ('' (category=science)'' @ nl)) results2) db a t w2))"

definition quickstart ::
  "(RecordBatch \<Rightarrow> RecordBatch \<Rightarrow> bool) \<Rightarrow> codecs \<Rightarrow> sorter \<Rightarrow> (addr \<Rightarrow> run_arm list) \<Rightarrow> (int \<Rightarrow> int) \<Rightarrow> world \<Rightarrow>
     printed list \<times> ending \<times> world" where
  "quickstart same C srt arms clock w =
     (case Connect ''./golancedb_demo'' w of
        (Inl err, w1) \<Rightarrow> ([], Fatal ''Connect: '' err, w1)
      | (Inr db, w1) \<Rightarrow>
          (case DB_CreateTable (clock (- 1)) db ''documents'' quickstart_schema w1 of
             (Inl err, db1, w2) \<Rightarrow> ([], Fatal ''CreateTable: '' err, w2)
           | (Inr a, db1, w2) \<Rightarrow>
               (case insert_documents same C clock row_numbers (db_heap db1 ! a) w2 of
                  (Inl (i, err), t, w3) \<Rightarrow> ([], Fatal (''Insert row '' @ FormatInt i @ '': '') err, w3)
                | (Inr _, t, w3) \<Rightarrow> quickstart_search C srt arms (clock 10) db1 a t w3)))"

section \<open>Loading the documents\<close>

lemma quickstart_schema_simps:
  "Fields quickstart_schema = [Field 0 ''id'' TypeInt64 False 0 [] None,
     Field 1 ''embedding'' TypeFixedSizeList False 4 [] None, Field 2 ''category'' TypeString True 0 [] None]"
  by (simp add: quickstart_schema_def NewSchema_def fits32_def)

lemma quickstart_schema_ok: "Fields_ok (Fields quickstart_schema)"
  by (simp add: quickstart_schema_simps fits32_def DataType_ok_def DataType_of_code_def utf8_ok_ascii)

lemma document_columns:
  "rb_Columns (document i) = [(0, Int64s [word_of_int i]), (1, Float32s [f32_of_int i, 0, 0, 0]),
     (2, Strings [if i mod 2 = 0 then ''art'' else ''science''])]"
  by (simp add: document_def Let_def SetColumn_def NewRecordBatch_def gm_put_def)

lemma document_fits: "batch_fits quickstart_schema (rb_Columns (document i))"
  by (simp add: batch_fits_def document_columns quickstart_schema_simps FieldByID_def gm_ok_def gm_keys_def)
    (simp add: column_fits_def column_ok_def serializeStrings_def put_blob_def)

lemma BatchInsert_counters:
  "BatchInsert same C now t bs w = (Inr f, t', w') \<Longrightarrow>
     tb_nextVersion t' = wrap64 (tb_nextVersion t + 1) \<and> tb_nextFragmentID t' = wrap32 (tb_nextFragmentID t + 1)"
  by (auto simp: BatchInsert_def commit_manifest_def Let_def split: sum.splits option.splits prod.splits if_splits)

definition docs_path :: string where
  "docs_path = ''/home/golancedb_demo/documents''"

definition docs_reader :: "world FragmentReader" where
  "docs_reader = NewFragmentReader (LocalFS '''') quickstart_schema CompressionZstd"

text \<open>The fragment of one document, and a table that holds the documents from 0 to \<open>n\<close>.\<close>

definition holds_document :: "codecs \<Rightarrow> world \<Rightarrow> nat \<Rightarrow> Fragment \<Rightarrow> bool" where
  "holds_document C w i f \<longleftrightarrow>
     fr_NumRows f = 1 \<and> fr_PhysicalRows f = 1 \<and>
     fst (ReadColumn C docs_reader f 1 w) = Inr (Float32s [f32_of_int (int i), 0, 0, 0])"

definition loaded ::
  "(RecordBatch \<Rightarrow> RecordBatch \<Rightarrow> bool) \<Rightarrow> codecs \<Rightarrow> nat \<Rightarrow> world ApiTable \<Rightarrow> world \<Rightarrow> bool" where
  "loaded same C n t w \<longleftrightarrow>
     table_reach same C [''home''] '''' docs_path CompressionZstd (at_table t) w \<and>
     at_name t = ''documents'' \<and> \<not> at_closed t \<and> at_store t = LocalFS '''' \<and>
     at_search t = search_of (LocalFS '''') (at_table t) \<and> tb_schema (at_table t) = quickstart_schema \<and>
     tb_nextVersion (at_table t) = int n + 2 \<and> tb_nextFragmentID (at_table t) = int n \<and>
     (\<exists>m. LatestManifest (at_table t) w = (Inr m, w) \<and>
        list_all2 (holds_document C w) [0..<n] (man_Fragments m))"

lemma docs_path_ok: "join_safe docs_path" "paths_ok docs_path"
  by code_simp (rule paths_ok_ascii, code_simp)

context local_history
begin

lemma inv_no_faults: "table_inv t w \<Longrightarrow> plan w = []"
  by (simp add: table_inv_def fs_ready_def)

lemma latest_version:
  assumes "table_inv t w" and "LatestManifest t w = (Inr m, w)"
  shows "man_Version m = tb_nextVersion t - 1 \<and> man_Schema m = tb_schema t"
proof -
  obtain maxid where hist: "history_ok w (tb_nextVersion t) maxid (tb_nextFragmentID t)"
    using assms(1) by (auto simp: table_inv_def)
  have "tb_nextVersion t - 1 \<in> {1..<tb_nextVersion t}"
    using assms(1) by (simp add: table_inv_def)
  then have "\<exists>m'. stored w (tb_nextVersion t - 1) = Some m' \<and> man_Version m' = tb_nextVersion t - 1"
    using hist unfolding history_ok_def by blast
  moreover have m: "VM_Latest (tb_versionMgr t) = Some m" "stored w (tb_nextVersion t - 1) = Some m"
    using LatestManifest_inv [OF assms(1)] assms(2) by auto
  ultimately have "man_Version m = tb_nextVersion t - 1"
    by simp
  moreover have "man_Schema m = tb_schema t"
    using assms(1) m(1) by (auto simp: table_inv_def)
  ultimately show ?thesis
    by simp
qed

lemma insert_document:
  assumes "table_inv t w" and "in_range t now" and "paths_ok tp"
    and "tb_schema t = quickstart_schema" and "BatchInsert same C now t [document i] w = (r, t', w')"
  shows "\<exists>f old m. r = Inr f \<and> table_step same C (t, w) (t', w') \<and> fr_NumRows f = 1 \<and> fr_PhysicalRows f = 1 \<and>
    LatestManifest t w = (Inr old, w) \<and> LatestManifest t' w' = (Inr m, w') \<and>
    man_Fragments m = man_Fragments old @ [f] \<and>
    fst (ReadColumn C (NewFragmentReader (LocalFS root) quickstart_schema comp) f 1 w') =
      Inr (Float32s [f32_of_int i, 0, 0, 0])"
proof -
  have fits: "batch_fits (tb_schema t) (rb_Columns (document i))"
    by (simp add: assms(4) document_fits)
  then have gm: "\<forall>b \<in> set [document i]. gm_ok (rb_Columns b)"
    by (simp add: batch_fits_def)
  have rows: "frag.batch_rows (tb_schema t) (rb_Columns (document i)) 0 = 1"
    by (simp add: assms(4) frag.batch_rows_def document_columns FieldByID_def quickstart_schema_simps
        column_rows_def inferNumRows_def)
  obtain f old m where f: "r = Inr f" "Fragment_ok f" "fr_NumRows f = 1" "fr_PhysicalRows f = fr_NumRows f"
    "LatestManifest t w = (Inr old, w)" "LatestManifest t' w' = (Inr m, w')" "man_Fragments m = man_Fragments old @ [f]"
    "\<forall>i' d. Column (document i) i' = Some d \<longrightarrow>
       fst (ReadColumn C (NewFragmentReader (LocalFS root) (tb_schema t) comp) f i' w') = Inr d"
    using insert_reads [OF assms(1,2) _ _ fits assms(5,3)] rows by (auto simp: insert_batch_def)
  moreover have "table_step same C (t, w) (t', w')"
    using f(1,2) by (intro step_insert [OF assms(5,2) gm]) simp
  moreover have "Column (document i) 1 = Some (Float32s [f32_of_int i, 0, 0, 0])"
    by (simp add: Column_def document_columns)
  ultimately show ?thesis
    using assms(4) by auto
qed

end

section \<open>Every document is found on the disk\<close>

lemma Api_Insert_open:
  "\<not> at_closed t \<Longrightarrow> BatchInsert same C now (at_table t) [b] w = (Inr f, tb, w') \<Longrightarrow>
     Api_Insert same C now t b w = (Inr (), t\<lparr>at_table := tb\<rparr>, w')"
  by (simp add: Api_Insert_def insert_batches_def)

lemma holds_document_kept:
  assumes "holds_document C w i f" and "fst (ReadColumn C docs_reader f 1 w') = fst (ReadColumn C docs_reader f 1 w)"
  shows "holds_document C w' i f"
  using assms by (simp add: holds_document_def)

lemma docs_reader_store: "frd_store docs_reader = LocalFS ''''"
  by (simp add: docs_reader_def NewFragmentReader_def)

lemma loaded_insert:
  assumes "codec_ok C CompressionZstd (effective_block_size (NewMiniBlockEncoder CompressionZstd))"
    and "loaded same C n t w" and "fits64 now" and "n < 10"
  obtains t' w' where "Api_Insert same C now t (document (int n)) w = (Inr (), t', w')" "loaded same C (Suc n) t' w'"
proof -
  note hist = local_historyI [OF docs_path_ok(1) assms(1)]
  have t: "table_reach same C [''home''] '''' docs_path CompressionZstd (at_table t) w" "at_name t = ''documents''"
    "\<not> at_closed t" "at_store t = LocalFS ''''" "at_search t = search_of (LocalFS '''') (at_table t)"
    "tb_schema (at_table t) = quickstart_schema" "tb_nextVersion (at_table t) = int n + 2"
    "tb_nextFragmentID (at_table t) = int n"
    using assms(2) by (simp_all add: loaded_def)
  obtain m0 where m0: "LatestManifest (at_table t) w = (Inr m0, w)"
    "list_all2 (holds_document C w) [0..<n] (man_Fragments m0)"
    using assms(2) by (auto simp: loaded_def)
  note inv = local_history.reach_inv [OF hist t(1)]
  have range: "in_range (at_table t) now"
    using assms(3,4) t(7,8) by (simp add: in_range_def)
  obtain r tb w' where ins: "BatchInsert same C now (at_table t) [document (int n)] w = (r, tb, w')"
    by (metis prod_cases3)
  obtain f old m where f: "r = Inr f" "table_step same C (at_table t, w) (tb, w')" "fr_NumRows f = 1"
    "fr_PhysicalRows f = 1" "LatestManifest (at_table t) w = (Inr old, w)" "LatestManifest tb w' = (Inr m, w')"
    "man_Fragments m = man_Fragments old @ [f]"
    "fst (ReadColumn C (NewFragmentReader (LocalFS '''') quickstart_schema CompressionZstd) f 1 w') =
      Inr (Float32s [f32_of_int (int n), 0, 0, 0])"
    using local_history.insert_document [OF hist inv range docs_path_ok(2) t(6) ins] by blast
  have run: "(table_step same C)\<^sup>*\<^sup>* (at_table t, w) (tb, w')"
    using f(2) by blast
  have kept: "holds_document C w' i g" if "holds_document C w i g" "g \<in> set (man_Fragments m0)" for i g
    using holds_document_kept [OF that(1)]
      local_history.latest_kept [OF hist inv run m0(1) that(2) docs_reader_store] by blast
  have "list_all2 (holds_document C w') [0..<n] (man_Fragments m0)"
    using m0(2) kept by (auto simp: list_all2_conv_all_nth)
  moreover have "holds_document C w' n f"
    using f(3,4,8) by (simp add: holds_document_def docs_reader_def)
  moreover have "old = m0"
    using f(5) m0(1) by simp
  ultimately have frags: "list_all2 (holds_document C w') [0..<Suc n] (man_Fragments m)"
    using f(7) by (simp add: list_all2_appendI)
  have "tb_nextVersion tb = int n + 3" "tb_nextFragmentID tb = int n + 1"
    using BatchInsert_counters [OF ins [unfolded f(1)]] t(7,8) assms(4) by (simp_all add: fits64_def fits32_def)
  then have "loaded same C (Suc n) (t\<lparr>at_table := tb\<rparr>) w'"
    using t table_reach_step [OF t(1) run] BatchInsert_schema [OF ins] frags f(6) search_of_schema [of tb "at_table t"]
    by (simp add: loaded_def)
  then show thesis
    using that Api_Insert_open [OF t(3) ins [unfolded f(1)]] by blast
qed

lemma loaded_documents:
  assumes "codec_ok C CompressionZstd (effective_block_size (NewMiniBlockEncoder CompressionZstd))"
    and "\<And>i. fits64 (clock i)" and "n \<le> 10" and "loaded same C n t w"
  shows "\<exists>t' w'. insert_documents same C clock [int n..9] t w = (Inr (), t', w') \<and> loaded same C 10 t' w'"
  using assms(3,4)
proof (induction "10 - n" arbitrary: n t w)
  case 0
  then show ?case
    by simp
next
  case (Suc k)
  then have n: "n < 10" "k = 10 - Suc n"
    by simp_all
  obtain t1 w1 where ins: "Api_Insert same C (clock (int n)) t (document (int n)) w = (Inr (), t1, w1)"
    "loaded same C (Suc n) t1 w1"
    by (rule loaded_insert [OF assms(1) Suc.prems(2) assms(2) n(1)])
  have "[int n..9] = int n # [int (Suc n)..9]"
    using n(1) by (simp add: upto_rec1 add.commute)
  then show ?case
    using Suc.hyps(1) [OF n(2) _ ins(2)] n(1) ins(1) by simp
qed

section \<open>Running it\<close>

definition quickstart_world :: world where
  "quickstart_world = \<lparr>nodes = [([''home''], Dir)], cwd = [''home''], dir_size = 4096, plan = []\<rparr>"

definition connected_world :: world where
  "connected_world = quickstart_world\<lparr>nodes := [([''home''], Dir), ([''home'', ''golancedb_demo''], Dir)]\<rparr>"

lemma quickstart_connect:
  "Connect ''./golancedb_demo'' quickstart_world =
     (Inr (new_Database ''/home/golancedb_demo'' (LocalFS '''')), connected_world)"
proof -
  have "path_Abs quickstart_world ''./golancedb_demo'' = ''/home/golancedb_demo''"
    "os_Stat ''/home/golancedb_demo'' quickstart_world = Inl ErrNotExist"
    "os_MkdirAll (resolve_path (cwd quickstart_world) ''/home/golancedb_demo'') quickstart_world = Inr connected_world"
    "os_ReadDir ''/home/golancedb_demo'' connected_world = Inr []"
    by code_simp+
  then show ?thesis
    by (simp add: Connect_def new_Database_def)
qed

lemma docs_path_Join: "path_Join [''/home/golancedb_demo'', ''documents''] = docs_path"
  by code_simp

lemma connected_fresh: "fresh_table [''home''] '''' docs_path connected_world"
proof -
  have key: "table_key [''home''] '''' docs_path = [''home'', ''golancedb_demo'', ''documents'']"
    by code_simp
  have "fs_ready [''home''] [''home'', ''golancedb_demo'', ''documents''] connected_world"
    by code_simp
  then show ?thesis
    unfolding fresh_table_def key
    by (simp add: file_content_def node_at_def connected_world_def)
qed

lemma quickstart_create:
  assumes "codec_ok C CompressionZstd (effective_block_size (NewMiniBlockEncoder CompressionZstd))" and "fits64 now"
  obtains db t w where
    "DB_CreateTable now (new_Database ''/home/golancedb_demo'' (LocalFS '''')) ''documents'' quickstart_schema
       connected_world = (Inr 0, db, w)" "db_heap db = [t]" "loaded same C 0 t w"
proof -
  let ?db = "new_Database ''/home/golancedb_demo'' (LocalFS '''')"
  obtain t w where t: "newTable now ''/home/golancedb_demo'' (LocalFS '''') ''documents'' quickstart_schema connected_world
      = (Inr t, w)" "table_reach same C [''home''] '''' docs_path CompressionZstd (at_table t) w"
    "at_store t = LocalFS ''''" "tb_schema (at_table t) = quickstart_schema" "tb_nextVersion (at_table t) = 2"
    "tb_nextFragmentID (at_table t) = 0" "\<not> at_closed t"
    "at_search t = search_of (LocalFS '''') (at_table t)" "no_rows (at_table t) w"
    using newTable_reach [OF _ assms(1) _ quickstart_schema_ok assms(2),
        of "''/home/golancedb_demo''" "''documents''" "[''home'']" "''''" connected_world same]
      docs_path_ok(1) connected_fresh by (auto simp: docs_path_Join)
  have "loaded same C 0 t w"
    using t newTable_Inr [OF t(1)] by (auto simp: loaded_def no_rows_def)
  then show thesis
    using that [of "?db\<lparr>db_heap := [t], db_tables := gm_put ''documents'' (Some 0) []\<rparr>" w t] t(1)
    by (simp add: DB_CreateTable_def new_Database_def Let_def)
qed

text \<open>The first document is the zero vector, for which there is no cosine distance.\<close>

lemma float_zero: "f64_of_f32 0 = 0" "f32_of_int 0 = 0"
  by (simp_all add: f64_of_f32_def f32_dec_def f64_enc_def decode_bits_def encode_mag_def sign_bits_def
      f32_of_int_def f32_enc_def int_fp_def)

lemma cosine_loop_zero: "length a = n \<Longrightarrow> snd (snd (cosine_loop a (replicate n 0) dot normA 0)) = 0"
  by (induction n arbitrary: a dot normA) (auto simp: length_Suc_conv float_zero Let_def)

lemma cosine_zero_vector: "Distance a (replicate (length a) 0) DistanceCosine = Inl (DistErr ErrZeroNorm)"
proof -
  have "f64_eq 0 0"
    by (simp add: f64_eq_def f64_isnan_def)
  then show ?thesis
    using cosine_loop_zero [OF refl, of a 0 0] by (auto simp: Distance_def split: prod.split)
qed

lemma zero_document: "Distance [x, y, z, u] [f32_of_int 0, 0, 0, 0] DistanceCosine = Inl (DistErr ErrZeroNorm)"
  using cosine_zero_vector [of "[x, y, z, u]"] by (simp add: float_zero)

definition nearest :: Query where
  "nearest = \<lparr>q_Vector = Some \<lparr>vq_Vector = [f32_of_int 3, 0, 0, 0], vq_Column = ''embedding'',
       vq_Metric = DistanceCosine, vq_NumPartitions = 0, vq_NProbes = 0\<rparr>,
     q_Filter = None, q_Limit = 3, q_Columns = [], q_Timeout = 0\<rparr>"

lemma nearest_query_built:
  "nearest_query \<lparr>bd_queries = [], bd_vectors = [], bd_filters = []\<rparr> = (q, h) \<Longrightarrow> deref h q = nearest"
  by (auto simp: nearest_query_def nearest_def Vector_def VQ_Column_def on_vector_def NewQuery_def QB_TopK_def
      on_query_def QB_Build_def deref_def Let_def)

lemma loaded_search_fails:
  assumes "codec_ok C CompressionZstd (effective_block_size (NewMiniBlockEncoder CompressionZstd))"
    and "loaded same C n t w" and "0 < n"
  shows "Api_Search C (\<lambda>_. False) srt t nearest w =
    (Inl (ApiErr ErrStorage ''table.Search'' (MsgStorageFailed ''documents'') (Some (DistErr ErrZeroNorm))), w)"
proof -
  have t: "table_reach same C [''home''] '''' docs_path CompressionZstd (at_table t) w" "at_name t = ''documents''"
    "\<not> at_closed t" "at_store t = LocalFS ''''" "at_search t = search_of (LocalFS '''') (at_table t)"
    "tb_schema (at_table t) = quickstart_schema"
    using assms(2) by (simp_all add: loaded_def)
  obtain m where m: "LatestManifest (at_table t) w = (Inr m, w)"
    "list_all2 (holds_document C w) [0..<n] (man_Fragments m)"
    using assms(2) by (auto simp: loaded_def)
  obtain f frags where f: "man_Fragments m = f # frags" "holds_document C w 0 f"
    using m(2) assms(3) by (cases "man_Fragments m") (auto simp: upt_rec)
  note hist = local_historyI [OF docs_path_ok(1) assms(1)]
  have "plan w = []"
    by (rule local_history.inv_no_faults [OF hist local_history.reach_inv [OF hist t(1)]])
  then have read: "ReadColumn C docs_reader f 1 w = (Inr (Float32s [f32_of_int 0, 0, 0, 0]), w)"
    using f(2) ReadColumn_world [OF _ docs_reader_store, of w C f 1]
    by (simp add: holds_document_def del: float_zero) (metis prod.collapse)
  have row: "nat (fragment_rows f) = Suc 0"
    using f(2) by (simp add: holds_document_def fragment_rows_def)
  let ?b = "NewBruteForceSearch docs_reader quickstart_schema"
  have b: "hs_bruteForce (at_search t) = ?b"
    by (simp add: t(4-6) search_of_def NewHybridSearch_def docs_reader_def Let_def)
  have field: "vectorField ?b ''embedding'' = Inr (Field 1 ''embedding'' TypeFixedSizeList False 4 [] None)"
    by (simp add: vectorField_def NewBruteForceSearch_def FieldByName_def quickstart_schema_simps)
  have rd: "bf_reader ?b = docs_reader"
    by (simp add: NewBruteForceSearch_def)
  have "BruteForce_Search C (\<lambda>_. False) srt ?b m (the (q_Vector nearest)) w = (Inl (DistErr ErrZeroNorm), w)"
    by (simp add: BruteForce_Search_def nearest_def field f(1) rd read row zero_document)
  then show ?thesis
    by (simp add: Api_Search_def t(2,3) m(1) b HybridSearch_Search_def SearchWithStrategy_def nearest_def
        wrapStorageErr_def api_error_def)
qed

lemma one_row_each:
  "list_all2 (holds_document C w) is fs \<Longrightarrow> 0 \<le> k \<Longrightarrow> k + int (length is) < 2 ^ 63 \<Longrightarrow>
     foldl (\<lambda>total f. wrap64 (total + fr_NumRows f)) k fs = k + int (length is)"
proof (induction "is" fs arbitrary: k rule: list_all2_induct)
  case (Cons i "is" f fs)
  have "wrap64 (k + 1) = k + 1"
    using Cons.prems by (simp add: fits64_def)
  then show ?case
    using Cons.IH [of "k + 1"] Cons.hyps(1) Cons.prems by (simp add: holds_document_def)
qed simp

text \<open>Opening the table again finds all of it.\<close>

lemma loaded_reopens:
  assumes "codec_ok C CompressionZstd (effective_block_size (NewMiniBlockEncoder CompressionZstd))"
    and "loaded same C 10 t w"
  shows "\<exists>t' m. openTable ''/home/golancedb_demo'' (LocalFS '''') ''documents'' w = (Inr t', w) \<and>
    LatestManifest (at_table t') w = (Inr m, w) \<and> man_Version m = 11 \<and> man_Schema m = quickstart_schema \<and>
    Api_NumRows t' w = (Inr 10, w)"
proof -
  note hist = local_historyI [OF docs_path_ok(1) assms(1)]
  have t: "table_reach same C [''home''] '''' docs_path CompressionZstd (at_table t) w"
    "tb_nextVersion (at_table t) = 12" "tb_schema (at_table t) = quickstart_schema"
    using assms(2) by (simp_all add: loaded_def)
  note inv = local_history.reach_inv [OF hist t(1)]
  obtain tb m where tb: "OpenTable ''documents'' docs_path (LocalFS '''') CompressionZstd w = (Inr tb, w)"
    "LatestManifest (at_table t) w = (Inr m, w)" "LatestManifest tb w = (Inr m, w)"
    using local_history.reopen [OF hist inv, of "''documents''"] by blast
  obtain m' where "LatestManifest (at_table t) w = (Inr m', w)" "list_all2 (holds_document C w) [0..<10] (man_Fragments m')"
    using assms(2) by (auto simp: loaded_def)
  then have "list_all2 (holds_document C w) [0..<10] (man_Fragments m)"
    using tb(2) by simp
  from one_row_each [OF this, of 0]
  have rows: "foldl (\<lambda>total f. wrap64 (total + fr_NumRows f)) 0 (man_Fragments m) = 10"
    by simp
  have "man_Version m = 11 \<and> man_Schema m = quickstart_schema"
    using local_history.latest_version [OF hist inv tb(2)] t(2,3) by simp
  then show ?thesis
    using tb(1,3) rows by (simp add: openTable_def docs_path_Join wrapTable_def Api_NumRows_def)
qed

section \<open>Properties\<close>

text \<open>
  C16: the quickstart program, run in an empty directory, connects, creates its table and stores its ten
  documents, but its vector search fails: document 0 is the zero vector, the query has the default
  cosine metric, and the error of \<open>Distance\<close> for this one row ends the search and the program. What
  it prints are the first two lines only; the table it leaves behind opens with version 11 and its
  ten rows.
\<close>

theorem quickstart_stops:
  assumes "codec_ok C CompressionZstd (effective_block_size (NewMiniBlockEncoder CompressionZstd))"
    and "\<forall>i. fits64 (clock i)" and "quickstart same C srt arms clock quickstart_world = (out, ending, w)"
  shows "out = [Text (''Inserted 10 documents.'' @ nl),
        Text (nl @ ''--- Vector Search (top-3 nearest to [3,0,0,0]) ---'' @ nl)] \<and>
    ending = Fatal ''Search: ''
      (ApiErr ErrStorage ''table.Search'' (MsgStorageFailed ''documents'') (Some (DistErr ErrZeroNorm))) \<and>
    (\<exists>t m. openTable ''/home/golancedb_demo'' (LocalFS '''') ''documents'' w = (Inr t, w) \<and>
       LatestManifest (at_table t) w = (Inr m, w) \<and> man_Version m = 11 \<and> man_Schema m = quickstart_schema \<and>
       Api_NumRows t w = (Inr 10, w))"
proof -
  have times: "fits64 (clock i)" for i
    using assms(2) by simp
  obtain db t0 w0 where create: "DB_CreateTable (clock (- 1)) (new_Database ''/home/golancedb_demo'' (LocalFS ''''))
      ''documents'' quickstart_schema connected_world = (Inr 0, db, w0)" "db_heap db = [t0]" "loaded same C 0 t0 w0"
    by (rule quickstart_create [OF assms(1) times])
  have ids: "[int 0..9] = row_numbers"
    by (simp only: row_numbers_def semiring_1_class.of_nat_0)
  from loaded_documents [OF assms(1) _ le0 create(3), of clock, OF times, unfolded ids]
  obtain t1 w1 where load: "insert_documents same C clock row_numbers t0 w0 = (Inr (), t1, w1)" "loaded same C 10 t1 w1"
    by blast
  obtain q h where q: "nearest_query \<lparr>bd_queries = [], bd_vectors = [], bd_filters = []\<rparr> = (q, h)"
    by fastforce
  have search: "Api_Search C (\<lambda>_. False) srt t1 (deref h q) w1 =
      (Inl (ApiErr ErrStorage ''table.Search'' (MsgStorageFailed ''documents'') (Some (DistErr ErrZeroNorm))), w1)"
    using loaded_search_fails [OF assms(1) load(2)] nearest_query_built [OF q] by simp
  have run: "w = w1" "out = [Text (''Inserted 10 documents.'' @ nl),
        Text (nl @ ''--- Vector Search (top-3 nearest to [3,0,0,0]) ---'' @ nl)]"
    "ending = Fatal ''Search: ''
      (ApiErr ErrStorage ''table.Search'' (MsgStorageFailed ''documents'') (Some (DistErr ErrZeroNorm)))"
    using assms(3) by (simp_all add: quickstart_def quickstart_connect create load quickstart_search_def q search Let_def)
  with loaded_reopens [OF assms(1) load(2)] show ?thesis
    by auto
qed

theorem quickstart_stops_witness:
  "fst (quickstart (\<lambda>_ _. True) tag_codecs insertion_sorter (\<lambda>_. []) (\<lambda>_. 7) quickstart_world) =
     [Text (''Inserted 10 documents.'' @ nl), Text (nl @ ''--- Vector Search (top-3 nearest to [3,0,0,0]) ---'' @ nl)]"
proof -
  have codec: "codec_ok tag_codecs CompressionZstd (effective_block_size (NewMiniBlockEncoder CompressionZstd))"
    by (rule codec_ok_tag_zstd) (simp add: effective_block_size_def NewMiniBlockEncoder_def defaultMiniBlockSize_def)
  obtain out ending w where run: "quickstart (\<lambda>_ _. True) tag_codecs insertion_sorter (\<lambda>_. []) (\<lambda>_. 7) quickstart_world =
      (out, ending, w)"
    by (metis prod_cases3)
  from quickstart_stops [OF codec _ this] show ?thesis
    by (simp add: run fits64_def)
qed

end
