(* ===== verification/Spec2Isabelle.thy ===== *)
theory Spec2Isabelle
  imports MiniBlock ConstantEncoder Distance FileFooter BufferPool LocalTable VersionManager FragmentIO
    AsyncClose TornCommits Search Comparisons IndexStore Configuration ApiLogger Quickstart
begin

text \<open>
  A verification library for \<^verbatim>\<open>golanceDB\<close>, a columnar vector database in Go (\<^verbatim>\<open>src/\<close>).

  \<^bold>\<open>The program.\<close> A database is a directory of tables (\<^verbatim>\<open>api/connection.go\<close>); a table is a directory
  with a \<^verbatim>\<open>_versions\<close> directory of JSON manifests, one per version, and a \<^verbatim>\<open>data\<close> directory of fragments,
  one file per column (\<^verbatim>\<open>table/\<close>). A column file is a page of compressed mini-blocks (\<^verbatim>\<open>encode/\<close>). All
  of it goes through the \<^verbatim>\<open>Store\<close> interface, whose one implementation is the local file system, with a
  buffer pool beside it (\<^verbatim>\<open>storage/\<close>). Rows are written synchronously, or by a goroutine that
  accumulates batches and flushes them (\<^verbatim>\<open>table/async_writer.go\<close>). Queries scan the fragments of the
  latest manifest, by brute force, by scalar filters or by both (\<^verbatim>\<open>query/\<close>); the vector indexes
  (\<^verbatim>\<open>index/\<close>) are built and searched in memory and saved to the store. The api wraps all this with
  structured errors and query builders (\<^verbatim>\<open>api/\<close>), configured by a JSON file (\<^verbatim>\<open>config/\<close>).

  \<^bold>\<open>Theories and sources.\<close>
  \<^item> \<open>Prelude\<close>, \<open>GoMap\<close>, \<open>GoSort\<close>, \<open>GoBytes\<close>, \<open>GoFloat\<close>, \<open>GoStrconv\<close>, \<open>Paths\<close>, \<open>Runs\<close>: what the code uses
    of Go: wrapping of \<^verbatim>\<open>int32\<close> and \<^verbatim>\<open>int64\<close>, maps as association lists, \<^verbatim>\<open>sort.Slice\<close> as a parameter with
    its documented contract (locale \<open>go_sorter\<close>), little-endian bytes, IEEE floats on their bits,
    \<^verbatim>\<open>strconv\<close>, \<^verbatim>\<open>path/filepath\<close>, iterated steps.
  \<^item> \<open>GoJson\<close>, \<open>GoJsonIndent\<close>, \<open>GoJsonRoundtrip\<close>, \<open>GoJsonPrefix\<close>: the JSON text \<^verbatim>\<open>encoding/json\<close> prints and
    accepts, and that it accepts no proper prefix of a printed object.
  \<^item> \<open>EncodeTypes\<close>, \<open>Compression\<close>, \<open>Columns\<close>, \<open>MiniBlock\<close>, \<open>ConstantEncoder\<close>: \<^verbatim>\<open>encode/\<close>; the types of all
    errors of the program are in \<open>EncodeTypes\<close>.
  \<^item> \<open>Distance\<close>: \<^verbatim>\<open>distance/\<close>.
  \<^item> \<open>Store\<close>, \<open>FileSystem\<close>, \<open>LocalFS\<close>, \<open>FileFooter\<close>, \<open>BufferPool\<close>: \<^verbatim>\<open>storage/\<close>. A \<open>Store\<close> is a record of the
    seven operations over a world; \<open>FileSystem\<close> is a tree of files with a plan of faults (a cancelled
    context, a failing or torn operation), on which \<open>LocalFS\<close> runs.
  \<^item> \<open>TableData\<close>, \<open>ManifestJson\<close>, \<open>ManifestRoundtrip\<close>, \<open>ManifestStore\<close>, \<open>ManifestCommit\<close>, \<open>VersionManager\<close>,
    \<open>FragmentIO\<close>, \<open>MergeBatches\<close>, \<open>Table\<close>, \<open>AsyncWriter\<close>, \<open>AsyncCalls\<close>, \<open>AsyncClose\<close>: \<^verbatim>\<open>table/\<close>, the last
    with the blocking calls of the writer and what they leave behind.
  \<^item> \<open>TableHistory\<close>, \<open>LocalTable\<close>, \<open>LocalHistory\<close>, \<open>AsyncHistory\<close>: the life of a table, first over any store
    that keeps the laws of \<open>store_spec\<close>, then on the local file system.
  \<^item> \<open>TableFaults\<close>: tables under faults. \<open>crash_store\<close> is what a store keeps when its operations fail, and the
    invariant of a table allows for gaps in the versions and for files no manifest names. \<open>TornCommits\<close>: what
    one insert or schema change leaves behind, by the state of the manifest it was to write.
  \<^item> \<open>ScanFilter\<close>, \<open>Comparisons\<close>, \<open>Search\<close>: \<^verbatim>\<open>query/\<close>, \<open>Comparisons\<close> with the meaning of the operators on integers,
    NaNs and strings. \<open>FlatIndex\<close>, \<open>IVFFlat\<close>, \<open>IndexStore\<close>: \<^verbatim>\<open>index/\<close>.
  \<^item> \<open>Configuration\<close>: \<^verbatim>\<open>config/config.go\<close>. \<open>ApiErrors\<close>, \<open>ApiQuery\<close>, \<open>ApiTable\<close>, \<open>ApiDatabase\<close>: \<^verbatim>\<open>api/errors.go\<close>,
    \<^verbatim>\<open>query.go\<close>, \<^verbatim>\<open>table.go\<close> and \<^verbatim>\<open>connection.go\<close>. \<open>ApiHistory\<close>, \<open>ApiExample\<close>, \<open>ApiProperties\<close>, \<open>ApiSearch\<close>: the
    runs of the api and what it promises. \<open>ApiLogger\<close>: \<^verbatim>\<open>logger.go\<close> and the operations that run through it,
    with their log.
  \<^item> \<open>Quickstart\<close>: the program \<^verbatim>\<open>examples/quickstart/main.go\<close>, from \<open>Connect\<close> to its last line.

  \<^bold>\<open>How the code is modelled.\<close> A struct is a record, an enumeration a datatype with a constructor for
  the values without a name, an error a value of \<open>goerr\<close> and a fallible function one into \<open>goerr + 'a\<close>; a
  panic is the error \<open>GoPanic\<close>. Counters are integers with the wrap-around of their width written out.
  A method that touches the store or the disk takes the world and returns the next one. A mutex makes
  a method one step, so concurrent callers are sequences of steps; a goroutine is the set of the arms
  of its \<^verbatim>\<open>select\<close>, a channel a bounded list, and the draw among the communications that can proceed an
  argument, as are the time of day, the draws of \<^verbatim>\<open>math/rand\<close> and the order of a Go map (that of its
  association list). An error wrapped with \<^verbatim>\<open>%w\<close> is the wrapped error. Compression (\<^verbatim>\<open>zstd\<close>, \<^verbatim>\<open>lz4\<close>) is a
  parameter \<open>codecs\<close> with the contract \<open>codec_ok\<close>; the JSON text of index snapshots, which hold floats,
  is a parameter with the contract \<open>json_faithful\<close>.

  \<^bold>\<open>Interfaces.\<close> \<open>store_spec\<close> and its extensions state what a table relies on of a store, interpreted on
  \<open>LocalFS\<close>; \<open>crash_store\<close> what it relies on when operations fail; \<open>block_codec\<close> and \<open>go_sorter\<close> what is relied on of a codec and of \<^verbatim>\<open>sort.Slice\<close>; \<open>vector_index\<close> is
  the index interface, interpreted on both indexes; \<open>closable\<close> is the contract of closing that tables
  and databases share.

  \<^bold>\<open>What is shown.\<close>
  \<^item> Versions: \<open>Commit\<close> refines a register with compare-and-set, a crash loses no committed version,
    manifests survive printing and parsing, versions are immutable, and a table reopened is the same
    table (\<open>LocalTable\<close>, \<open>LocalHistory\<close>, \<open>VersionManager\<close>).
  \<^item> Faults: under any cancellations, failures and torn writes a table loses nothing it has committed, an
    insert that reports success is durable, and inserts succeed again once the faults are over
    (\<open>TableFaults\<close>); but an insert or a schema change whose manifest is cut short, at any byte, keeps the
    table from being opened (\<open>TornCommits\<close>), as a configuration that is cut short keeps it from being loaded
    (\<open>Configuration\<close>).
  \<^item> Data: what is inserted is read back, through encoders, codecs and files, and found by the next
    search, from the api down; what the asynchronous writer accepts is durable, in order and once, and
    \<open>Close\<close> leaves nothing behind (\<open>LocalHistory\<close>, \<open>ApiSearch\<close>, \<open>AsyncHistory\<close>, \<open>AsyncClose\<close>).
  \<^item> Queries: the scan computes the distances of exactly the live vectors, filters the rows that satisfy
    all conditions, the two hybrid strategies return the same scores, and conditions on integers are exact
    below \<open>2 ^ 53\<close> (\<open>Search\<close>, \<open>ScanFilter\<close>, \<open>Comparisons\<close>).
  \<^item> Indexes: the k-means loop ends (at most 25 rounds), its partitions cover every vector once, probing
    all of them is the flat search, and saving and loading gives the same index (\<open>IVFFlat\<close>, \<open>IndexStore\<close>).
  \<^item> The api: databases refine sets of names, states stay well formed, what is closed stays closed,
    every call returns, errors are structured (\<open>ApiProperties\<close>); logging changes no result, and every failed
    operation logs its error and the message for the user (\<open>ApiLogger\<close>).
  \<^item> The whole: the quickstart program stores its documents and then stops at its first search, as its
    first document is a zero vector (\<open>Quickstart\<close>).
  \<^item> Parts: page and footer round trips, the buffer pool as an LRU cache of bounded size, top-k
    selection, merging of batches, configuration files.

  \<^bold>\<open>Bounds.\<close> The JSON parser runs on fuel, the length of its text and one, which is enough as every call
  takes a character. Sizes of serialized columns stay below \<open>2 ^ 31\<close>, as the page format stores them in
  32 bits; versions below \<open>2 ^ 63 - 1\<close> and fragment identifiers below \<open>2 ^ 31 - 1\<close>, so that the next one
  exists. Vectors of an index have fewer than \<open>2 ^ 31\<close> components.

  \<^bold>\<open>Not modelled.\<close> The log lines outside \<open>Insert\<close>, \<open>BatchInsert\<close> and \<open>Search\<close> (connecting, closing, starting the
  writer), since no result depends on them; the writes through a handle of \<open>OpenWrite\<close>, which nothing in
  the program opens; the formatting of the numbers the quickstart program prints. Slices are values: a caller that changes a batch after it has handed it over, and the growth of a
  caller's slice by \<^verbatim>\<open>append\<close>, are not seen; a nil slice and an empty one are the same. The error path of the
  writer \<^verbatim>\<open>WriteFooter\<close> is given, a nil condition, and the JSON keys of index snapshots (only that reading
  undoes writing is used) are left out; the byte count of the buffer pool and Go's \<^verbatim>\<open>int\<close> in a condition are
  unbounded integers. A turn of the writer's goroutine is one step, so \<open>drainPending\<close> sees the queue as it is
  then, and a \<open>Close\<close> that waits is answered by the arms the goroutine takes. Symbolic links, permissions and other processes' locks are not part of the file system; a
  path is resolved without looking at the tree. Time-outs of contexts are decided by an argument.
\<close>

end
